(* ===== verification/Prelude.thy ===== *)
theory Prelude
  imports Main "HOL-Library.Word"
begin

unbundle bit_operations_syntax

text \<open>
  Shared vocabulary of the development: the C integer types of the firmware as words of
  their width, memory blocks as byte lists, little-endian readers, the \<open>memcpy\<close> into a
  buffer (\<open>blit\<close>), C string views of character buffers, and the collections of
  simplification rules the component theories use.
\<close>

subsection \<open>Machine integers and memory blocks\<close>

type_synonym u8 = "8 word"
type_synonym u16 = "16 word"
type_synonym u32 = "32 word"
type_synonym i16 = "16 word"  \<comment> \<open>read with \<^const>\<open>sint\<close>\<close>

named_theorems wire_defs \<open>definitions of wire decoders\<close>
named_theorems session_defs \<open>definitions of the OTA session operations\<close>
named_theorems timing_defs \<open>definitions of pulse timing predicates\<close>

text \<open>The errno values the drivers return, negated as in the code.\<close>

abbreviation (input) ENOENT :: int where "ENOENT \<equiv> 2"
abbreviation (input) EIO :: int where "EIO \<equiv> 5"
abbreviation (input) EAGAIN :: int where "EAGAIN \<equiv> 11"
abbreviation (input) ENOMEM :: int where "ENOMEM \<equiv> 12"
abbreviation (input) EBUSY :: int where "EBUSY \<equiv> 16"
abbreviation (input) ENODEV :: int where "ENODEV \<equiv> 19"
abbreviation (input) EINVAL :: int where "EINVAL \<equiv> 22"
abbreviation (input) ETIMEDOUT :: int where "ETIMEDOUT \<equiv> 116"

subsection \<open>Copying a block into a buffer\<close>

text \<open>\<open>blit off d c\<close> is the buffer \<open>c\<close> after \<open>memcpy(c + off, d, len d)\<close>.\<close>

definition blit :: "nat \<Rightarrow> 'a list \<Rightarrow> 'a list \<Rightarrow> 'a list" where
  "blit off d c = take off c @ d @ drop (off + length d) c"

lemma length_blit [simp]:
  "off + length d \<le> length c \<Longrightarrow> length (blit off d c) = length c"
  by (simp add: blit_def)

lemma take_blit_append:
  "off + length d \<le> length c \<Longrightarrow> take (off + length d) (blit off d c) = take off c @ d"
  by (simp add: blit_def)

lemma take_blit_before: "n \<le> off \<Longrightarrow> off \<le> length c \<Longrightarrow> take n (blit off d c) = take n c"
  by (simp add: blit_def)

lemma blit_Nil [simp]: "blit off [] c = c"
  by (simp add: blit_def)

subsection \<open>Little-endian readers\<close>

definition le16 :: "u8 \<Rightarrow> u8 \<Rightarrow> u16" where
  "le16 a b = ucast a OR push_bit 8 (ucast b)"

definition le32 :: "u8 \<Rightarrow> u8 \<Rightarrow> u8 \<Rightarrow> u8 \<Rightarrow> u32" where
  "le32 a b c d = ((ucast a OR push_bit 8 (ucast b)) OR push_bit 16 (ucast c))
                    OR push_bit 24 (ucast d)"

text \<open>The writers a client uses on the other side of the wire.\<close>

definition enc16 :: "u16 \<Rightarrow> u8 list" where
  "enc16 w = [ucast w, ucast (drop_bit 8 w)]"

definition enc32 :: "u32 \<Rightarrow> u8 list" where
  "enc32 w = [ucast w, ucast (drop_bit 8 w), ucast (drop_bit 16 w), ucast (drop_bit 24 w)]"

lemma length_enc [simp]: "length (enc16 w) = 2" "length (enc32 v) = 4"
  by (simp_all add: enc16_def enc32_def)

lemma le16_enc16 [simp]: "le16 (ucast w) (ucast (drop_bit 8 w)) = w"
  by (rule bit_word_eqI)
     (auto simp: le16_def bit_simps)

lemma le32_enc32 [simp]:
  "le32 (ucast w) (ucast (drop_bit 8 w)) (ucast (drop_bit 16 w)) (ucast (drop_bit 24 w)) = w"
proof (rule bit_word_eqI)
  fix n
  assume n: "n < LENGTH(32)"
  consider "n < 8" | "8 \<le> n" "n < 16" "n - 8 < 8" "8 + (n - 8) = n"
    | "16 \<le> n" "n < 24" "n - 16 < 8" "\<not> n - 8 < 8" "16 + (n - 16) = n"
    | "24 \<le> n" "n - 24 < 8" "\<not> n - 8 < 8" "\<not> n - 16 < 8" "24 + (n - 24) = n"
    using n by (simp; linarith)
  then show "bit (le32 (ucast w) (ucast (drop_bit 8 w)) (ucast (drop_bit 16 w))
              (ucast (drop_bit 24 w))) n = bit w n"
    using n by cases (auto simp: le32_def bit_simps)
qed

subsection \<open>Unsigned arithmetic\<close>

lemma unat_add_of_nat:
  fixes a b :: "'a::len word"
  assumes "unat a + n \<le> unat b"
  shows "unat (a + of_nat n) = unat a + n"
proof -
  have "unat a + n < 2 ^ LENGTH('a)"
    using assms unsigned_less [of b] by (meson le_less_trans)
  then show ?thesis
    by (simp add: unat_word_ariths unat_of_nat)
qed

lemma unat_pos_iff: "0 < unat (w :: 'a::len word) \<longleftrightarrow> w \<noteq> 0"
  by (simp add: unat_gt_0)

lemma ucast_add_8_16: "ucast (a + b :: u16) = (ucast a + ucast b :: u8)"
  by (simp add: word_unat_eq_iff unat_word_ariths unsigned_ucast_eq take_bit_eq_mod)
     (simp add: mod_mod_cancel mod_simps)

lemma ucast_8_16_8 [simp]: "ucast (ucast (a :: u8) :: u16) = a"
  by (rule bit_word_eqI) (auto simp: bit_simps)

lemma ucast_16_32_16 [simp]: "ucast (ucast (a :: u16) :: u32) = a"
  by (rule bit_word_eqI) (auto simp: bit_simps)

lemma ucast_8_32_8 [simp]: "ucast (ucast (a :: u8) :: u32) = a"
  by (rule bit_word_eqI) (auto simp: bit_simps)

end
