(* ===== verification/Ota.thy ===== *)
theory Ota
  imports Prelude
begin

text \<open>
  The OTA front-end \<open>app/ota/app_ota.c\<close>: one upload session into the secondary image slot
  (\<open>begin\<close>, \<open>chunk\<close>, \<open>commit\<close>, \<open>abort\<close>, \<open>init\<close>), the status snapshots it
  publishes and the latched reboot request.  The flash map and the boot loader are the
  functions of the record \<open>flash_api\<close>, with their own state \<open>'e\<close>; what the code relies on
  is \<open>flash_laws\<close>.  Every operation runs under \<open>s_lock\<close>, so an operation is one step.
  The abstract contract is the type \<open>session\<close>: the bytes accepted so far, in order.
\<close>

subsection \<open>Data\<close>

datatype ota_state = OTA_IDLE | OTA_READY | OTA_WRITING | OTA_COMMITTED | OTA_FAILED

datatype ota_err = OTA_OK | ERR_PARAM | ERR_INVALID_STATE | ERR_INVALID_OFFSET
  | ERR_WRITE_FAILED | ERR_COMMIT_FAILED | ERR_ABORTED | ERR_INIT_FAILED

record ota_status =
  state :: ota_state
  last_err :: ota_err
  bytes_received :: u32
  total_size :: u32

record flash_area =
  fa_id :: u8
  fa_size :: u32

text \<open>Zephyr's flash map and the MCUboot request, code outside the repository.  An
  operation takes and returns the state of the flash.\<close>

record 'e flash_api =
  flash_area_open :: "u8 \<Rightarrow> 'e \<Rightarrow> int \<times> flash_area option \<times> 'e"
  flash_area_erase :: "flash_area \<Rightarrow> u32 \<Rightarrow> u32 \<Rightarrow> 'e \<Rightarrow> int \<times> 'e"
  flash_area_write :: "flash_area option \<Rightarrow> u32 \<Rightarrow> u8 list \<Rightarrow> 'e \<Rightarrow> int \<times> 'e"
  flash_area_close :: "flash_area \<Rightarrow> 'e \<Rightarrow> 'e"
  boot_request_upgrade :: "'e \<Rightarrow> int \<times> 'e"
  slot1_partition :: u8

text \<open>The statics of \<open>app_ota.c\<close>; \<open>notified\<close> logs the snapshots given to the status
  callback, \<open>reboots\<close> the delays of the reboot threads created.\<close>

record 'e ota =
  inited :: bool
  st :: ota_status
  cb_set :: bool
  img_ready :: bool
  upload_slot :: u8
  upload_fa :: "flash_area option"
  last_marker :: u32
  reboot_scheduled :: bool
  reboots :: "u32 list"
  notified :: "ota_status list"
  env :: 'e

definition zero_status :: ota_status where
  "zero_status = \<lparr>state = OTA_IDLE, last_err = OTA_OK, bytes_received = 0, total_size = 0\<rparr>"

definition ota_boot :: "'e \<Rightarrow> 'e ota" where
  "ota_boot e = \<lparr>inited = False, st = zero_status, cb_set = False, img_ready = False,
     upload_slot = 0, upload_fa = None, last_marker = 0, reboot_scheduled = False,
     reboots = [], notified = [], env = e\<rparr>"

subsection \<open>Operations\<close>

definition emit_status :: "'e ota \<Rightarrow> 'e ota" where
  "emit_status s = (if cb_set s then s\<lparr>notified := notified s @ [st s]\<rparr> else s)"

definition close_upload :: "'e flash_api \<Rightarrow> 'e ota \<Rightarrow> 'e ota" where
  "close_upload E s = (case upload_fa s of
      None \<Rightarrow> s
    | Some fa \<Rightarrow> s\<lparr>env := flash_area_close E fa (env s), upload_fa := None\<rparr>)"

definition ota_prepare_storage :: "'e flash_api \<Rightarrow> u32 \<Rightarrow> 'e ota \<Rightarrow> ota_err \<times> 'e ota" where
  "ota_prepare_storage E sz s =
     (case flash_area_open E (upload_slot s) (env s) of (rc, fa, e) \<Rightarrow>
       let s = s\<lparr>upload_fa := fa, env := e\<rparr> in
       (if rc \<noteq> 0 then (ERR_WRITE_FAILED, s)
        else (case fa of
          None \<Rightarrow> (ERR_WRITE_FAILED, s)
        | Some a \<Rightarrow>
            if fa_size a < sz then (ERR_PARAM, close_upload E s)
            else (case flash_area_erase E a 0 (fa_size a) e of (rc, e) \<Rightarrow>
              let s = s\<lparr>env := e\<rparr> in
              if rc \<noteq> 0 then (ERR_WRITE_FAILED, close_upload E s)
              else (OTA_OK, s\<lparr>img_ready := True\<rparr>)))))"

definition app_ota_init :: "'e flash_api \<Rightarrow> bool \<Rightarrow> 'e ota \<Rightarrow> ota_err \<times> 'e ota" where
  "app_ota_init E cb s =
     (let s = (if inited s then s else s\<lparr>upload_slot := slot1_partition E, inited := True\<rparr>) in
      (OTA_OK, s\<lparr>cb_set := cb, st := zero_status, img_ready := False, upload_fa := None\<rparr>))"

definition app_ota_begin :: "'e flash_api \<Rightarrow> u32 \<Rightarrow> 'e ota \<Rightarrow> ota_err \<times> 'e ota" where
  "app_ota_begin E sz s =
     (if \<not> inited s then (ERR_INVALID_STATE, s)
      else if sz = 0 then (ERR_PARAM, s)
      else
        let s = close_upload E s;
            s = s\<lparr>img_ready := False, st := (st s)\<lparr>bytes_received := 0, total_size := 0\<rparr>\<rparr>
        in (case ota_prepare_storage E sz s of (rc, s) \<Rightarrow>
          let s = (if rc \<noteq> OTA_OK
                   then s\<lparr>st := (st s)\<lparr>state := OTA_FAILED, last_err := rc\<rparr>\<rparr>
                   else s\<lparr>st := \<lparr>state = OTA_READY, last_err = OTA_OK, bytes_received = 0,
                                  total_size = sz\<rparr>\<rparr>)
          in (rc, emit_status s)))"

text \<open>Setting the error, publishing the snapshot, returning the code.\<close>

definition ota_reject :: "ota_err \<Rightarrow> 'e ota \<Rightarrow> ota_err \<times> 'e ota" where
  "ota_reject rc s = (rc, emit_status (s\<lparr>st := (st s)\<lparr>last_err := rc\<rparr>\<rparr>))"

definition ota_fail :: "ota_err \<Rightarrow> 'e ota \<Rightarrow> ota_err \<times> 'e ota" where
  "ota_fail rc s = (rc, emit_status (s\<lparr>st := (st s)\<lparr>state := OTA_FAILED, last_err := rc\<rparr>\<rparr>))"

definition app_ota_chunk ::
  "'e flash_api \<Rightarrow> u32 \<Rightarrow> u8 list option \<Rightarrow> 'e ota \<Rightarrow> ota_err \<times> 'e ota" where
  "app_ota_chunk E off data s =
     (if \<not> inited s then (ERR_INVALID_STATE, s)
      else case data of None \<Rightarrow> (ERR_PARAM, s) | Some d \<Rightarrow>
      if d = [] then (ERR_PARAM, s)
      else if 65535 < length d then (ERR_PARAM, s)
      else if \<not> img_ready s then (ERR_INVALID_STATE, s)
      else if state (st s) \<noteq> OTA_READY \<and> state (st s) \<noteq> OTA_WRITING
        then ota_reject ERR_INVALID_STATE s
      else if off \<noteq> bytes_received (st s) then ota_reject ERR_INVALID_OFFSET s
      else if total_size (st s) \<noteq> 0 \<and> unat (total_size (st s)) < unat off + length d
        then ota_fail ERR_PARAM s
      else
        let emit = (off = 0 \<or> off div 16384 \<noteq> last_marker s div 16384) in
        (case flash_area_write E (upload_fa s) off d (env s) of (rc, e) \<Rightarrow>
          let s = s\<lparr>env := e, last_marker := (if emit then off else last_marker s)\<rparr> in
          if rc < 0 then ota_fail ERR_WRITE_FAILED s
          else (OTA_OK, emit_status (s\<lparr>st := (st s)\<lparr>
                  bytes_received := bytes_received (st s) + of_nat (length d),
                  state := OTA_WRITING, last_err := OTA_OK\<rparr>\<rparr>))))"

definition app_ota_reboot_after_ms :: "u32 \<Rightarrow> 'e ota \<Rightarrow> 'e ota" where
  "app_ota_reboot_after_ms delay s =
     (if reboot_scheduled s then s
      else s\<lparr>reboot_scheduled := True, reboots := reboots s @ [delay]\<rparr>)"

definition app_ota_commit :: "'e flash_api \<Rightarrow> 'e ota \<Rightarrow> ota_err \<times> 'e ota" where
  "app_ota_commit E s =
     (if \<not> inited s then (ERR_INVALID_STATE, s)
      else if \<not> img_ready s then (ERR_INVALID_STATE, s)
      else if state (st s) \<noteq> OTA_WRITING then ota_reject ERR_INVALID_STATE s
      else if total_size (st s) \<noteq> 0 \<and> bytes_received (st s) \<noteq> total_size (st s)
        then ota_reject ERR_INVALID_OFFSET s
      else case boot_request_upgrade E (env s) of (up, e) \<Rightarrow>
        let s = s\<lparr>env := e\<rparr> in
        if up \<noteq> 0 then ota_fail ERR_COMMIT_FAILED s
        else (OTA_OK, app_ota_reboot_after_ms 800 (emit_status
               (s\<lparr>st := (st s)\<lparr>state := OTA_COMMITTED, last_err := OTA_OK\<rparr>\<rparr>))))"

definition app_ota_abort :: "'e flash_api \<Rightarrow> 'e ota \<Rightarrow> 'e ota" where
  "app_ota_abort E s =
     (if \<not> inited s then s
      else let s = s\<lparr>st := \<lparr>state = OTA_IDLE, last_err = ERR_ABORTED,
                              bytes_received = 0, total_size = 0\<rparr>\<rparr>;
               s = close_upload E s
           in emit_status (s\<lparr>img_ready := False\<rparr>))"

definition app_ota_get_status :: "'e ota \<Rightarrow> ota_status" where
  "app_ota_get_status s = st s"

lemmas ota_op_defs = app_ota_begin_def app_ota_chunk_def app_ota_commit_def
  app_ota_abort_def app_ota_init_def ota_prepare_storage_def close_upload_def
  ota_reject_def ota_fail_def app_ota_reboot_after_ms_def emit_status_def

subsection \<open>Steps and reachable states\<close>

datatype ota_op = OpInit bool | OpBegin u32 | OpChunk u32 "u8 list option" | OpCommit | OpAbort
  | OpReboot u32

fun ota_exec :: "'e flash_api \<Rightarrow> ota_op \<Rightarrow> 'e ota \<Rightarrow> ota_err \<times> 'e ota" where
  "ota_exec E (OpInit cb) s = app_ota_init E cb s"
| "ota_exec E (OpBegin n) s = app_ota_begin E n s"
| "ota_exec E (OpChunk off d) s = app_ota_chunk E off d s"
| "ota_exec E OpCommit s = app_ota_commit E s"
| "ota_exec E OpAbort s = (OTA_OK, app_ota_abort E s)"
| "ota_exec E (OpReboot ms) s = (OTA_OK, app_ota_reboot_after_ms ms s)"

inductive ota_reach :: "'e flash_api \<Rightarrow> 'e ota \<Rightarrow> bool" for E where
  boot: "ota_reach E (ota_boot e)"
| step: "ota_reach E s \<Longrightarrow> ota_exec E op s = (rc, s') \<Longrightarrow> ota_reach E s'"

inductive_cases ota_reachE: "ota_reach E s"

subsection \<open>The invariant\<close>

definition ota_inv :: "'e ota \<Rightarrow> bool" where
  "ota_inv s \<longleftrightarrow>
     (if img_ready s
      then inited s \<and> state (st s) \<noteq> OTA_IDLE \<and> total_size (st s) \<noteq> 0 \<and>
           unat (bytes_received (st s)) \<le> unat (total_size (st s)) \<and>
           upload_fa s \<noteq> None \<and>
           unat (total_size (st s)) \<le> unat (fa_size (the (upload_fa s)))
      else (state (st s) = OTA_IDLE \<or> state (st s) = OTA_FAILED) \<and>
           bytes_received (st s) = 0 \<and> total_size (st s) = 0) \<and>
     (state (st s) = OTA_READY \<longrightarrow> bytes_received (st s) = 0) \<and>
     (state (st s) = OTA_WRITING \<longrightarrow> bytes_received (st s) \<noteq> 0) \<and>
     (state (st s) = OTA_COMMITTED \<longrightarrow>
        bytes_received (st s) = total_size (st s) \<and> reboot_scheduled s) \<and>
     (reboot_scheduled s \<longleftrightarrow> reboots s \<noteq> []) \<and> length (reboots s) \<le> 1"

lemma ota_inv_boot [simp]: "ota_inv (ota_boot e)"
  by (simp add: ota_inv_def ota_boot_def zero_status_def)

lemma ota_inv_update [simp]:
  "ota_inv (s\<lparr>notified := n\<rparr>) = ota_inv s" "ota_inv (s\<lparr>env := e\<rparr>) = ota_inv s"
  "ota_inv (s\<lparr>last_marker := m\<rparr>) = ota_inv s" "ota_inv (s\<lparr>cb_set := b\<rparr>) = ota_inv s"
  "ota_inv (s\<lparr>st := (st s)\<lparr>last_err := rc\<rparr>\<rparr>) = ota_inv s"
  by (simp_all add: ota_inv_def)

lemma ota_inv_emit [simp]: "ota_inv (emit_status s) = ota_inv s"
  by (simp add: emit_status_def)

lemma emit_status_sel [simp]:
  "inited (emit_status s) = inited s" "st (emit_status s) = st s"
  "cb_set (emit_status s) = cb_set s" "img_ready (emit_status s) = img_ready s"
  "upload_fa (emit_status s) = upload_fa s" "env (emit_status s) = env s"
  "reboots (emit_status s) = reboots s" "upload_slot (emit_status s) = upload_slot s"
  "reboot_scheduled (emit_status s) = reboot_scheduled s"
  by (simp_all add: emit_status_def)

lemma close_upload_sel [simp]:
  "inited (close_upload E s) = inited s" "st (close_upload E s) = st s"
  "cb_set (close_upload E s) = cb_set s" "img_ready (close_upload E s) = img_ready s"
  "upload_fa (close_upload E s) = None" "notified (close_upload E s) = notified s"
  "reboots (close_upload E s) = reboots s" "upload_slot (close_upload E s) = upload_slot s"
  "reboot_scheduled (close_upload E s) = reboot_scheduled s"
  by (simp_all add: close_upload_def split: option.splits)

lemma ota_reject_sel [simp]:
  "fst (ota_reject rc s) = rc" "env (snd (ota_reject rc s)) = env s"
  "state (st (snd (ota_reject rc s))) = state (st s)"
  "bytes_received (st (snd (ota_reject rc s))) = bytes_received (st s)"
  "total_size (st (snd (ota_reject rc s))) = total_size (st s)"
  "img_ready (snd (ota_reject rc s)) = img_ready s" "inited (snd (ota_reject rc s)) = inited s"
  "upload_fa (snd (ota_reject rc s)) = upload_fa s"
  "reboot_scheduled (snd (ota_reject rc s)) = reboot_scheduled s"
  "reboots (snd (ota_reject rc s)) = reboots s"
  by (simp_all add: ota_reject_def)

lemma ota_fail_sel [simp]:
  "fst (ota_fail rc s) = rc" "env (snd (ota_fail rc s)) = env s"
  "state (st (snd (ota_fail rc s))) = OTA_FAILED"
  "bytes_received (st (snd (ota_fail rc s))) = bytes_received (st s)"
  "total_size (st (snd (ota_fail rc s))) = total_size (st s)"
  "img_ready (snd (ota_fail rc s)) = img_ready s" "inited (snd (ota_fail rc s)) = inited s"
  "upload_fa (snd (ota_fail rc s)) = upload_fa s"
  "reboot_scheduled (snd (ota_fail rc s)) = reboot_scheduled s"
  "reboots (snd (ota_fail rc s)) = reboots s"
  by (simp_all add: ota_fail_def)

lemma ota_inv_reject [simp]: "ota_inv (snd (ota_reject rc s)) = ota_inv s"
  by (simp add: ota_reject_def)

lemma ota_inv_fail: "ota_inv s \<Longrightarrow> ota_inv (snd (ota_fail rc s))"
  by (auto simp: ota_inv_def)

lemma ota_inv_init: "ota_inv s \<Longrightarrow> ota_inv (snd (app_ota_init E cb s))"
  by (auto simp: ota_inv_def app_ota_init_def zero_status_def Let_def)

text \<open>What \<open>ota_prepare_storage\<close> leaves: on success an open, erased area that is large
  enough, otherwise no image.\<close>

lemma prepare_sel [simp]:
  "inited (snd (ota_prepare_storage E n s)) = inited s"
  "st (snd (ota_prepare_storage E n s)) = st s"
  "reboots (snd (ota_prepare_storage E n s)) = reboots s"
  "reboot_scheduled (snd (ota_prepare_storage E n s)) = reboot_scheduled s"
  by (simp_all add: ota_prepare_storage_def Let_def split: prod.split option.split)

lemma prepare_ok:
  "ota_prepare_storage E n s = (OTA_OK, s') \<Longrightarrow>
     img_ready s' \<and> (\<exists>a e. upload_fa s' = Some a \<and> unat n \<le> unat (fa_size a) \<and>
        flash_area_erase E a 0 (fa_size a) e = (0, env s'))"
  by (auto simp: ota_prepare_storage_def Let_def not_less word_le_nat_alt
           split: prod.splits option.splits if_splits)

lemma prepare_fail:
  "ota_prepare_storage E n s = (rc, s') \<Longrightarrow> rc \<noteq> OTA_OK \<Longrightarrow> img_ready s' = img_ready s"
  by (auto simp: ota_prepare_storage_def Let_def split: prod.splits option.splits if_splits)

lemma ota_inv_begin: "ota_inv s \<Longrightarrow> ota_inv (snd (app_ota_begin E n s))"
proof -
  assume I: "ota_inv s"
  define t where "t = (close_upload E s)\<lparr>img_ready := False,
      st := (st s)\<lparr>bytes_received := 0, total_size := 0\<rparr>\<rparr>"
  obtain rc u where P: "ota_prepare_storage E n t = (rc, u)" by force
  have sel: "inited u = inited s" "st u = st t" "reboots u = reboots s"
    "reboot_scheduled u = reboot_scheduled s"
    using prepare_sel [of E n t, unfolded P] by (simp_all add: t_def)
  show ?thesis
  proof (cases "inited s \<and> n \<noteq> 0")
    case True
    then show ?thesis
      using I P sel prepare_ok [of E n t u] prepare_fail [of E n t rc u]
      by (cases "rc = OTA_OK")
         (auto simp: app_ota_begin_def Let_def ota_inv_def t_def split: if_splits)
  qed (auto simp: app_ota_begin_def I)
qed

text \<open>The ways a chunk ends.\<close>

lemma chunk_cases [consumes 1, case_names early state_err offset overflow write_err written]:
  assumes "app_ota_chunk E off data s = (rc, s')"
  obtains
    "s' = s" "\<not> inited s \<and> rc = ERR_INVALID_STATE \<or>
       inited s \<and> (data = None \<or> data = Some [] \<or> (\<exists>d. data = Some d \<and> 65535 < length d)) \<and>
         rc = ERR_PARAM \<or>
       inited s \<and> (\<exists>d. data = Some d \<and> d \<noteq> [] \<and> length d \<le> 65535) \<and> \<not> img_ready s \<and>
         rc = ERR_INVALID_STATE"
  | d where "inited s" "data = Some d" "d \<noteq> []" "length d \<le> 65535" "img_ready s"
      "state (st s) \<noteq> OTA_READY" "state (st s) \<noteq> OTA_WRITING"
      "(rc, s') = ota_reject ERR_INVALID_STATE s"
  | d where "inited s" "data = Some d" "d \<noteq> []" "length d \<le> 65535" "img_ready s"
      "state (st s) = OTA_READY \<or> state (st s) = OTA_WRITING" "off \<noteq> bytes_received (st s)"
      "(rc, s') = ota_reject ERR_INVALID_OFFSET s"
  | d where "inited s" "data = Some d" "d \<noteq> []" "length d \<le> 65535" "img_ready s"
      "state (st s) = OTA_READY \<or> state (st s) = OTA_WRITING" "off = bytes_received (st s)"
      "total_size (st s) \<noteq> 0" "unat (total_size (st s)) < unat off + length d"
      "(rc, s') = ota_fail ERR_PARAM s"
  | d w e m where "inited s" "data = Some d" "d \<noteq> []" "length d \<le> 65535" "img_ready s"
      "state (st s) = OTA_READY \<or> state (st s) = OTA_WRITING" "off = bytes_received (st s)"
      "total_size (st s) = 0 \<or> unat off + length d \<le> unat (total_size (st s))"
      "flash_area_write E (upload_fa s) off d (env s) = (w, e)" "w < 0"
      "(rc, s') = ota_fail ERR_WRITE_FAILED (s\<lparr>env := e, last_marker := m\<rparr>)"
  | d w e m where "inited s" "data = Some d" "d \<noteq> []" "length d \<le> 65535" "img_ready s"
      "state (st s) = OTA_READY \<or> state (st s) = OTA_WRITING" "off = bytes_received (st s)"
      "total_size (st s) = 0 \<or> unat off + length d \<le> unat (total_size (st s))"
      "flash_area_write E (upload_fa s) off d (env s) = (w, e)" "0 \<le> w" "rc = OTA_OK"
      "s' = emit_status (s\<lparr>env := e, last_marker := m, st := (st s)\<lparr>
              bytes_received := bytes_received (st s) + of_nat (length d),
              state := OTA_WRITING, last_err := OTA_OK\<rparr>\<rparr>)"
proof (cases "inited s \<and> img_ready s \<and> (\<exists>d. data = Some d \<and> d \<noteq> [] \<and> length d \<le> 65535)")
  case False
  then show ?thesis using assms by (intro that(1))
      (auto simp: app_ota_chunk_def split: option.splits if_splits)
next
  case True
  then obtain d where d: "inited s" "img_ready s" "data = Some d" "d \<noteq> []" "length d \<le> 65535" by auto
  obtain w e where W: "flash_area_write E (upload_fa s) off d (env s) = (w, e)" by force
  note C = assms [unfolded app_ota_chunk_def d(3), simplified, simplified d W Let_def, simplified]
  consider "state (st s) \<noteq> OTA_READY" "state (st s) \<noteq> OTA_WRITING"
    | "state (st s) = OTA_READY \<or> state (st s) = OTA_WRITING" "off \<noteq> bytes_received (st s)"
    | "state (st s) = OTA_READY \<or> state (st s) = OTA_WRITING" "off = bytes_received (st s)"
      "total_size (st s) \<noteq> 0" "unat (total_size (st s)) < unat off + length d"
    | "state (st s) = OTA_READY \<or> state (st s) = OTA_WRITING" "off = bytes_received (st s)"
      "total_size (st s) = 0 \<or> unat off + length d \<le> unat (total_size (st s))"
    by fastforce
  then show ?thesis
  proof cases
    case 1 then show ?thesis using d C by (intro that(2)) auto
  next
    case 2 then show ?thesis using d C by (intro that(3)) auto
  next
    case 3 then show ?thesis using d C by (intro that(4)) auto
  next
    case 4
    define m where "m = (if off = 0 \<or> off div 16384 \<noteq> last_marker s div 16384
                         then off else last_marker s)"
    show ?thesis
    proof (cases "w < 0")
      case True
      then show ?thesis
        using d W C 4 by (intro that(5) [OF d(1,3,4,5,2) 4 W, where m = m]) (auto simp: m_def)
    next
      case False
      then show ?thesis
        using d W C 4 by (intro that(6) [OF d(1,3,4,5,2) 4 W, where m = m]) (auto simp: m_def)
    qed
  qed
qed

lemma ota_inv_chunk: "ota_inv s \<Longrightarrow> ota_inv (snd (app_ota_chunk E off data s))"
proof -
  assume I: "ota_inv s"
  obtain rc s' where C: "app_ota_chunk E off data s = (rc, s')" by force
  from C have "ota_inv s'"
  proof (cases rule: chunk_cases)
    case (written d w e m)
    have tot: "unat (bytes_received (st s)) + length d \<le> unat (total_size (st s))"
      using I written by (auto simp: ota_inv_def)
    have u: "unat (bytes_received (st s) + of_nat (length d)) = unat (bytes_received (st s)) + length d"
      by (rule unat_add_of_nat) (fact tot)
    then have "bytes_received (st s) + of_nat (length d) \<noteq> 0"
      using written(3) by (metis add_is_0 length_0_conv unat_0)
    then show ?thesis using I tot u written by (auto simp: ota_inv_def)
  qed (use I in \<open>auto simp: prod_eq_iff ota_inv_fail\<close>)
  then show ?thesis by (simp add: C)
qed

lemma ota_inv_reboot: "ota_inv s \<Longrightarrow> ota_inv (app_ota_reboot_after_ms ms s)"
  by (auto simp: ota_inv_def app_ota_reboot_after_ms_def)

lemma ota_inv_commit: "ota_inv s \<Longrightarrow> ota_inv (snd (app_ota_commit E s))"
  by (auto simp: app_ota_commit_def Let_def ota_inv_fail split: prod.split)
     (auto simp: ota_inv_def app_ota_reboot_after_ms_def split: if_splits)

lemma ota_inv_abort: "ota_inv s \<Longrightarrow> ota_inv (app_ota_abort E s)"
  by (auto simp: app_ota_abort_def Let_def) (auto simp: ota_inv_def)

lemma ota_inv_exec: "ota_inv s \<Longrightarrow> ota_inv (snd (ota_exec E op s))"
  by (cases op) (simp_all add: ota_inv_init ota_inv_begin ota_inv_chunk ota_inv_commit
                    ota_inv_abort ota_inv_reboot)

lemma ota_inv_reach: "ota_reach E s \<Longrightarrow> ota_inv s"
  by (induction rule: ota_reach.induct) (simp, metis ota_inv_exec snd_conv)

subsection \<open>The abstract session\<close>

text \<open>What the front-end promises to a transport: the bytes accepted since the last
  \<open>begin\<close>, in order, against the announced size.  The flag \<open>ok\<close> says whether the
  storage underneath succeeded.\<close>

datatype session = NoSession | Receiving u32 "u8 list" | Committed | Broken

fun chunk_spec :: "u32 \<Rightarrow> u8 list \<Rightarrow> bool \<Rightarrow> session \<Rightarrow> ota_err \<times> session" where
  "chunk_spec off d ok (Receiving t img) =
     (if d = [] \<or> 65535 < length d then (ERR_PARAM, Receiving t img)
      else if unat off \<noteq> length img then (ERR_INVALID_OFFSET, Receiving t img)
      else if unat t < length img + length d then (ERR_PARAM, Broken)
      else if ok then (OTA_OK, Receiving t (img @ d)) else (ERR_WRITE_FAILED, Broken))"
| "chunk_spec off d ok A =
     (if d = [] \<or> 65535 < length d then (ERR_PARAM, A) else (ERR_INVALID_STATE, A))"

fun commit_spec :: "bool \<Rightarrow> session \<Rightarrow> ota_err \<times> session" where
  "commit_spec ok (Receiving t img) =
     (if img = [] then (ERR_INVALID_STATE, Receiving t img)
      else if length img \<noteq> unat t then (ERR_INVALID_OFFSET, Receiving t img)
      else if ok then (OTA_OK, Committed) else (ERR_COMMIT_FAILED, Broken))"
| "commit_spec ok A = (ERR_INVALID_STATE, A)"

definition begin_spec :: "u32 \<Rightarrow> ota_err \<Rightarrow> session \<Rightarrow> session" where
  "begin_spec n rc A = (if n = 0 then A else if rc = OTA_OK then Receiving n [] else Broken)"

text \<open>The storage behaviour the contract needs: a successful erase gives a block of the
  size of the area, a successful write inside the area is a \<open>memcpy\<close>.  \<open>content\<close> reads the
  secondary slot.\<close>

definition flash_laws :: "'e flash_api \<Rightarrow> ('e \<Rightarrow> u8 list) \<Rightarrow> bool" where
  "flash_laws E content \<longleftrightarrow>
     (\<forall>a e e'. flash_area_erase E a 0 (fa_size a) e = (0, e') \<longrightarrow>
        length (content e') = unat (fa_size a)) \<and>
     (\<forall>a off d e rc e'. flash_area_write E (Some a) off d e = (rc, e') \<longrightarrow> 0 \<le> rc \<longrightarrow>
        unat off + length d \<le> length (content e) \<longrightarrow>
        content e' = blit (unat off) d (content e))"

definition session_of :: "('e \<Rightarrow> u8 list) \<Rightarrow> 'e ota \<Rightarrow> session" where
  "session_of content s = (case state (st s) of
      OTA_IDLE \<Rightarrow> NoSession
    | OTA_FAILED \<Rightarrow> Broken
    | OTA_COMMITTED \<Rightarrow> Committed
    | _ \<Rightarrow> Receiving (total_size (st s)) (take (unat (bytes_received (st s))) (content (env s))))"

definition session_inv :: "('e \<Rightarrow> u8 list) \<Rightarrow> 'e ota \<Rightarrow> bool" where
  "session_inv content s \<longleftrightarrow> inited s \<and> ota_inv s \<and>
     (state (st s) = OTA_READY \<or> state (st s) = OTA_WRITING \<longrightarrow>
        (\<exists>a. upload_fa s = Some a \<and> length (content (env s)) = unat (fa_size a)))"

lemma session_of_cong:
  "st s = st t \<Longrightarrow> env s = env t \<Longrightarrow> session_of c s = session_of c t"
  by (simp add: session_of_def split: ota_state.split)

lemma session_of_simps [simp]:
  "session_of c (emit_status s) = session_of c s"
  "session_of c (snd (ota_reject rc s)) = session_of c s"
  "session_of c (snd (ota_fail rc s)) = Broken"
  by (simp_all add: session_of_def split: ota_state.split)

lemma session_inv_receiving:
  assumes "session_inv c s" "session_of c s = Receiving t img"
  obtains a where "upload_fa s = Some a" "img_ready s" "t = total_size (st s)" "t \<noteq> 0"
    "length (c (env s)) = unat (fa_size a)" "unat t \<le> unat (fa_size a)"
    "img = take (unat (bytes_received (st s))) (c (env s))"
    "length img = unat (bytes_received (st s))" "length img \<le> unat t"
  using assms
  by (auto simp: session_inv_def session_of_def ota_inv_def split: ota_state.splits if_splits option.splits)

lemma begin_refines:
  assumes F: "flash_laws E c" and I: "session_inv c s" and B: "app_ota_begin E n s = (rc, s')"
  shows "session_inv c s' \<and> session_of c s' = begin_spec n rc (session_of c s)"
proof (cases "n = 0")
  case True
  then show ?thesis using B I by (auto simp: app_ota_begin_def begin_spec_def session_inv_def)
next
  case False
  define t where "t = (close_upload E s)\<lparr>img_ready := False,
      st := (st s)\<lparr>bytes_received := 0, total_size := 0\<rparr>\<rparr>"
  obtain rc' u where P: "ota_prepare_storage E n t = (rc', u)" by force
  have i: "inited s" "ota_inv s'" using I ota_inv_begin [of s E n] B by (auto simp: session_inv_def)
  have iu: "inited u = inited s" using prepare_sel(1) [of E n t, unfolded P] by (simp add: t_def)
  show ?thesis
    using B P False i iu prepare_ok [of E n t u] F
    by (cases "rc' = OTA_OK")
       (auto simp: app_ota_begin_def Let_def t_def begin_spec_def session_inv_def session_of_def
         flash_laws_def)
qed

lemma chunk_accept:
  assumes F: "flash_laws E c" and I: "session_inv c s"
    and R: "session_of c s = Receiving t img" and len: "length img + length d \<le> unat t"
    and off: "unat off = length img" and w: "flash_area_write E (upload_fa s) off d (env s) = (rc, e)"
    and rc: "0 \<le> rc" and d: "d \<noteq> []"
    and s': "s' = s\<lparr>env := e, last_marker := m, st := (st s)\<lparr>
              bytes_received := bytes_received (st s) + of_nat (length d),
              state := OTA_WRITING, last_err := OTA_OK\<rparr>\<rparr>"
  shows "session_of c s' = Receiving t (img @ d) \<and>
     length (c e) = length (c (env s))"
proof -
  obtain a where a: "upload_fa s = Some a" "t = total_size (st s)"
    "length (c (env s)) = unat (fa_size a)" "unat t \<le> unat (fa_size a)"
    "img = take (unat (bytes_received (st s))) (c (env s))"
    "length img = unat (bytes_received (st s))"
    using session_inv_receiving [OF I R] by metis
  have fit: "unat off + length d \<le> length (c (env s))" using a len off by simp
  then have ce: "c e = blit (unat off) d (c (env s))"
    using F w rc a(1) by (auto simp: flash_laws_def)
  have "unat (bytes_received (st s) + of_nat (length d)) = unat (bytes_received (st s)) + length d"
    by (rule unat_add_of_nat [where b = t]) (use a len in simp)
  then show ?thesis
    using a off fit ce take_blit_append [OF fit]
    by (simp add: s' session_of_def)
qed

lemma chunk_refines:
  assumes F: "flash_laws E c" and I: "session_inv c s"
    and C: "app_ota_chunk E off (Some d) s = (rc, s')"
  shows "session_inv c s' \<and> chunk_spec off d (rc = OTA_OK) (session_of c s) = (rc, session_of c s')"
proof -
  have inv': "ota_inv s'" and i: "inited s" "ota_inv s"
    using ota_inv_chunk [of s E off "Some d"] C I by (auto simp: session_inv_def)
  from C show ?thesis
  proof (cases rule: chunk_cases)
    case early
    then show ?thesis using I i
      by (cases "session_of c s") (auto simp: session_of_def ota_inv_def split: ota_state.splits)
  next
    case state_err
    then show ?thesis using I inv'
      by (cases "state (st s)") (auto simp: prod_eq_iff session_inv_def session_of_def)
  next
    case (written d' w e m)
    define t img where "t = total_size (st s)" and
      "img = take (unat (bytes_received (st s))) (c (env s))"
    have R: "session_of c s = Receiving t img" using written(6) by (auto simp: session_of_def t_def img_def)
    obtain a where a: "upload_fa s = Some a" "length (c (env s)) = unat (fa_size a)"
      "length img = unat (bytes_received (st s))" "t \<noteq> 0"
      using session_inv_receiving [OF I R] by metis
    have d: "d' = d" using written(2) by simp
    have len: "length img + length d \<le> unat t" using written(7,8) a d by (auto simp: t_def)
    have off: "unat off = length img" using written(7) a by simp
    from chunk_accept [OF F I R len off _ written(10) _ refl] written a(1,2) inv' i off len R
    show ?thesis by (auto simp: session_inv_def d)
  next
    case (offset d')
    then obtain t img where R: "session_of c s = Receiving t img" by (auto simp: session_of_def)
    have "unat off \<noteq> length img"
      using session_inv_receiving [OF I R] offset(7) by (metis word_unat_eq_iff)
    then show ?thesis using offset I inv' R by (auto simp: prod_eq_iff session_inv_def)
  next
    case (overflow d')
    then obtain t img where R: "session_of c s = Receiving t img" by (auto simp: session_of_def)
    obtain a where "t = total_size (st s)" "length img = unat (bytes_received (st s))"
      using session_inv_receiving [OF I R] by metis
    then show ?thesis using overflow I inv' R by (auto simp: prod_eq_iff session_inv_def)
  next
    case (write_err d' w e m)
    then obtain t img where R: "session_of c s = Receiving t img" by (auto simp: session_of_def)
    obtain a where "t \<noteq> 0" "t = total_size (st s)" "length img = unat (bytes_received (st s))"
      using session_inv_receiving [OF I R] by metis
    then show ?thesis using write_err I inv' R by (auto simp: prod_eq_iff session_inv_def)
  qed
qed

lemma commit_refines:
  assumes I: "session_inv c s" and C: "app_ota_commit E s = (rc, s')"
  shows "session_inv c s' \<and> commit_spec (rc = OTA_OK) (session_of c s) = (rc, session_of c s')"
proof -
  have inv': "ota_inv s'" using ota_inv_commit [of s E] C I by (auto simp: session_inv_def)
  obtain up e where U: "boot_request_upgrade E (env s) = (up, e)" by force
  have i: "inited s" "ota_inv s" using I by (auto simp: session_inv_def)
  show ?thesis
  proof (cases "\<exists>t img. session_of c s = Receiving t img")
    case False
    then have st: "state (st s) \<noteq> OTA_READY" "state (st s) \<noteq> OTA_WRITING"
      by (auto simp: session_of_def)
    then have "commit_spec ok (session_of c s) = (ERR_INVALID_STATE, session_of c s)" for ok
      by (cases "state (st s)") (auto simp: session_of_def)
    then show ?thesis using C st i inv' I
      by (auto simp: app_ota_commit_def prod_eq_iff session_inv_def split: if_splits)
  next
    case True
    then obtain t img where R: "session_of c s = Receiving t img" by blast
    obtain a where a: "img_ready s" "t = total_size (st s)" "t \<noteq> 0"
      "length img = unat (bytes_received (st s))" using session_inv_receiving [OF I R] by metis
    have eqs: "img = [] \<longleftrightarrow> bytes_received (st s) = 0"
      "length img = unat t \<longleftrightarrow> bytes_received (st s) = t"
      using a(4) by (auto simp: word_unat_eq_iff)
    have st: "state (st s) = (if img = [] then OTA_READY else OTA_WRITING)"
      using R eqs i(2) by (auto simp: session_of_def ota_inv_def split: ota_state.splits)
    show ?thesis
      using C R U st i(1) inv' I a(1,2,3) eqs(2)
      by (auto simp: app_ota_commit_def Let_def app_ota_reboot_after_ms_def ota_reject_def
          ota_fail_def session_inv_def session_of_def split: if_splits)
  qed
qed

lemma abort_refines:
  assumes I: "session_inv c s"
  shows "session_inv c (app_ota_abort E s) \<and> session_of c (app_ota_abort E s) = NoSession"
  using I ota_inv_abort [of s E]
  by (auto simp: app_ota_abort_def Let_def session_inv_def session_of_def)

lemma init_refines:
  "ota_inv s \<Longrightarrow> session_inv c (snd (app_ota_init E cb s)) \<and>
     session_of c (snd (app_ota_init E cb s)) = NoSession"
  using ota_inv_init [of s E cb]
  by (auto simp: app_ota_init_def Let_def session_inv_def session_of_def zero_status_def)

lemma reboot_refines:
  "session_inv c s \<Longrightarrow> session_inv c (app_ota_reboot_after_ms ms s) \<and>
     session_of c (app_ota_reboot_after_ms ms s) = session_of c s"
  using ota_inv_reboot [of s ms]
  by (auto simp: session_inv_def session_of_def app_ota_reboot_after_ms_def split: ota_state.split)

subsection \<open>The interface transports use\<close>

text \<open>Feeding consecutive blocks from an offset until one is refused, the pattern of every
  transport.\<close>

fun feed :: "(u32 \<Rightarrow> u8 list option \<Rightarrow> 's \<Rightarrow> ota_err \<times> 's) \<Rightarrow> u32 \<Rightarrow> u8 list list \<Rightarrow> 's
  \<Rightarrow> ota_err \<times> 's" where
  "feed chk off [] s = (OTA_OK, s)"
| "feed chk off (d # ds) s = (case chk off (Some d) s of (rc, s) \<Rightarrow>
     if rc \<noteq> OTA_OK then (rc, s) else feed chk (off + of_nat (length d)) ds s)"

locale upload_session =
  fixes beg :: "u32 \<Rightarrow> 's \<Rightarrow> ota_err \<times> 's"
    and chk :: "u32 \<Rightarrow> u8 list option \<Rightarrow> 's \<Rightarrow> ota_err \<times> 's"
    and com :: "'s \<Rightarrow> ota_err \<times> 's"
    and abt :: "'s \<Rightarrow> 's"
    and view :: "'s \<Rightarrow> session"
    and okay :: "'s \<Rightarrow> bool"
  assumes beg_law: "okay s \<Longrightarrow> beg n s = (rc, s') \<Longrightarrow>
        okay s' \<and> view s' = begin_spec n rc (view s)"
    and chk_law: "okay s \<Longrightarrow> chk off (Some d) s = (rc, s') \<Longrightarrow>
        okay s' \<and> chunk_spec off d (rc = OTA_OK) (view s) = (rc, view s')"
    and com_law: "okay s \<Longrightarrow> com s = (rc, s') \<Longrightarrow>
        okay s' \<and> commit_spec (rc = OTA_OK) (view s) = (rc, view s')"
    and abt_law: "okay s \<Longrightarrow> okay (abt s) \<and> view (abt s) = NoSession"
begin

lemma accepted_chunk:
  assumes "okay s" "chk off (Some d) s = (OTA_OK, s')"
  shows "\<exists>t img. view s = Receiving t img \<and> view s' = Receiving t (img @ d) \<and>
    length img = unat off \<and> unat off + length d \<le> unat t \<and> okay s'"
  using chk_law [OF assms] by (cases "view s") (auto split: if_splits)

lemma refused_chunk:
  assumes "okay s" "chk off (Some d) s = (rc, s')" "rc \<noteq> OTA_OK"
  shows "okay s' \<and> (view s' = view s \<or> view s' = Broken)"
  using chk_law [OF assms(1,2)] assms(3) by (cases "view s") (auto split: if_splits)

lemma feed_okay: "okay s \<Longrightarrow> okay (snd (feed chk off ds s))"
proof (induction ds arbitrary: off s)
  case (Cons d ds)
  then show ?case
    using chk_law [of s off d] by (auto split: prod.split)
qed simp

text \<open>A fed stream that is accepted lands in the session byte for byte.\<close>

lemma feed_ok:
  assumes "okay s" "view s = Receiving t img" "length img = unat off"
    and "feed chk off ds s = (OTA_OK, s')"
  shows "view s' = Receiving t (img @ concat ds) \<and> okay s' \<and>
    length (img @ concat ds) \<le> max (length img) (unat t)"
  using assms
proof (induction ds arbitrary: off s img)
  case (Cons d ds)
  obtain s1 where c: "chk off (Some d) s = (OTA_OK, s1)"
    and f: "feed chk (off + of_nat (length d)) ds s1 = (OTA_OK, s')"
    using Cons.prems(4) by (auto split: prod.splits if_splits)
  have v: "view s1 = Receiving t (img @ d)" "unat off + length d \<le> unat t" "okay s1"
    using accepted_chunk [OF Cons.prems(1) c] Cons.prems(2) by auto
  have "length (img @ d) = unat (off + of_nat (length d))"
    using unat_add_of_nat [OF v(2)] Cons.prems(3) by simp
  from Cons.IH [OF v(3,1) this f] v(2) Cons.prems(3) show ?case by (simp add: max_def split: if_splits)
qed auto

lemma commit_complete:
  assumes "okay s" "com s = (OTA_OK, s')"
  shows "\<exists>t img. view s = Receiving t img \<and> length img = unat t \<and> img \<noteq> [] \<and> view s' = Committed"
  using com_law [OF assms] by (cases "view s") (auto split: if_splits)

lemma upload_whole:
  assumes "okay s" "beg n s = (OTA_OK, s1)" "n \<noteq> 0" "feed chk 0 ds s1 = (OTA_OK, s2)"
    and "com s2 = (OTA_OK, s3)"
  shows "view s2 = Receiving n (concat ds) \<and> length (concat ds) = unat n \<and> view s3 = Committed"
proof -
  have 1: "view s1 = Receiving n []" "okay s1" using beg_law [OF assms(1,2)] assms(3)
    by (auto simp: begin_spec_def)
  from feed_ok [OF 1(2,1) _ assms(4)] have 2: "view s2 = Receiving n (concat ds)" "okay s2" by auto
  from commit_complete [OF 2(2) assms(5)] 2 show ?thesis by auto
qed

end

definition ota_ok :: "'e flash_api \<Rightarrow> ('e \<Rightarrow> u8 list) \<Rightarrow> 'e ota \<Rightarrow> bool" where
  "ota_ok E content s \<longleftrightarrow> flash_laws E content \<and> session_inv content s"

interpretation ota_if: upload_session "app_ota_begin E" "app_ota_chunk E" "app_ota_commit E"
  "app_ota_abort E" "session_of content" "ota_ok E content" for E content
  by unfold_locales
     (auto simp: ota_ok_def abort_refines dest: begin_refines chunk_refines commit_refines)

subsection \<open>What was accepted is what is committed\<close>

fun accepted :: "ota_op \<Rightarrow> ota_err \<Rightarrow> u8 list \<Rightarrow> u8 list" where
  "accepted (OpBegin n) rc img = (if rc = OTA_OK then [] else img)"
| "accepted (OpChunk off (Some d)) rc img = (if rc = OTA_OK then img @ d else img)"
| "accepted _ rc img = img"

fun ota_run :: "'e flash_api \<Rightarrow> ota_op list \<Rightarrow> 'e ota \<times> u8 list \<Rightarrow> 'e ota \<times> u8 list" where
  "ota_run E [] sg = sg"
| "ota_run E (op # ops) (s, img) =
     (case ota_exec E op s of (rc, s') \<Rightarrow> ota_run E ops (s', accepted op rc img))"

definition tracks :: "('e \<Rightarrow> u8 list) \<Rightarrow> 'e ota \<Rightarrow> u8 list \<Rightarrow> bool" where
  "tracks c s img \<longleftrightarrow> session_inv c s \<and> (\<forall>t i. session_of c s = Receiving t i \<longrightarrow> i = img)"

lemma tracks_exec:
  assumes F: "flash_laws E c" and T: "tracks c s img" and X: "ota_exec E op s = (rc, s')"
  shows "tracks c s' (accepted op rc img)"
proof -
  have I: "session_inv c s" using T by (simp add: tracks_def)
  show ?thesis
  proof (cases op)
    case (OpInit cb)
    then show ?thesis using X init_refines [of s c E cb] I
      by (auto simp: tracks_def session_inv_def)
  next
    case (OpBegin n)
    then have B: "app_ota_begin E n s = (rc, s')" using X by simp
    have "n = 0 \<Longrightarrow> rc = ERR_PARAM" using B I by (simp add: app_ota_begin_def session_inv_def)
    then show ?thesis
      using begin_refines [OF F I B] T OpBegin
      by (auto simp: tracks_def begin_spec_def split: if_splits)
  next
    case (OpChunk off data)
    show ?thesis
    proof (cases data)
      case None
      then show ?thesis using X OpChunk T I by (auto simp: app_ota_chunk_def session_inv_def)
    next
      case (Some d)
      then have C: "app_ota_chunk E off (Some d) s = (rc, s')" using X OpChunk by simp
      show ?thesis using chunk_refines [OF F I C] T OpChunk Some
        by (cases "session_of c s") (auto simp: tracks_def split: if_splits)
    qed
  next
    case OpCommit
    then have C: "app_ota_commit E s = (rc, s')" using X by simp
    show ?thesis using commit_refines [OF I C] T OpCommit
      by (cases "session_of c s") (auto simp: tracks_def split: if_splits)
  next
    case OpAbort
    then show ?thesis using X abort_refines [OF I] by (auto simp: tracks_def)
  next
    case (OpReboot ms)
    then show ?thesis using X reboot_refines [OF I] T by (auto simp: tracks_def)
  qed
qed

lemma tracks_run:
  "flash_laws E c \<Longrightarrow> tracks c s img \<Longrightarrow> ota_run E ops (s, img) = (s', img') \<Longrightarrow> tracks c s' img'"
proof (induction ops arbitrary: s img)
  case (Cons op ops)
  obtain rc u where X: "ota_exec E op s = (rc, u)" by force
  from Cons.IH [OF Cons.prems(1) tracks_exec [OF Cons.prems(1,2) X]] Cons.prems(3) X
  show ?case by simp
qed simp

lemma tracks_started: "tracks c (snd (app_ota_init E cb (ota_boot e))) []"
  using init_refines [of "ota_boot e" c E cb] by (simp add: tracks_def)

subsection \<open>Properties\<close>

text \<open>C4: if a commit is accepted after any sequence of operations on a freshly initialised
  front-end, the start of the secondary slot holds exactly the bytes of the chunks accepted
  since the last successful begin, they are as many as were announced, and the state is
  COMMITTED with a reboot scheduled.\<close>

theorem committed_image:
  assumes "flash_laws E content"
    and "ota_run E ops (snd (app_ota_init E cb (ota_boot e)), []) = (s, img)"
    and "app_ota_commit E s = (OTA_OK, s')"
  shows "img \<noteq> [] \<and> length img = unat (total_size (st s)) \<and>
    take (length img) (content (env s)) = img \<and>
    state (st s') = OTA_COMMITTED \<and> length (reboots s') = 1"
proof -
  have T: "tracks content s img" by (rule tracks_run [OF assms(1) tracks_started assms(2)])
  then have ok: "ota_ok E content s" using assms(1) by (simp add: tracks_def ota_ok_def)
  obtain t i where v: "session_of content s = Receiving t i" "length i = unat t" "i \<noteq> []"
    "session_of content s' = Committed"
    using ota_if.commit_complete [OF ok assms(3)] by metis
  have I: "session_inv content s" and I': "session_inv content s'"
    using ok commit_refines [OF _ assms(3)] by (auto simp: ota_ok_def)
  have "i = img" using T v(1) by (simp add: tracks_def)
  moreover have "t = total_size (st s)" "i = take (unat (bytes_received (st s))) (content (env s))"
    "length i = unat (bytes_received (st s))"
    using session_inv_receiving [OF I v(1)] by metis+
  moreover have c: "state (st s') = OTA_COMMITTED"
    using v(4) by (auto simp: session_of_def split: ota_state.splits)
  moreover have "reboots s' \<noteq> []" "length (reboots s') \<le> 1"
    using I' c by (auto simp: session_inv_def ota_inv_def)
  ultimately show ?thesis using v by (cases "reboots s'") auto
qed

text \<open>A flash of four bytes behind a slot, for concrete runs.\<close>

definition demo_flash :: "u8 list flash_api" where
  "demo_flash = \<lparr>flash_area_open = (\<lambda>i e. (0, Some \<lparr>fa_id = i, fa_size = 4\<rparr>, e)),
     flash_area_erase = (\<lambda>a off n e. (0, replicate (unat (fa_size a)) 255)),
     flash_area_write = (\<lambda>a off d e. (0, blit (unat off) d e)),
     flash_area_close = (\<lambda>a e. e),
     boot_request_upgrade = (\<lambda>e. (0, e)),
     slot1_partition = 1\<rparr>"

lemma demo_flash_laws: "flash_laws demo_flash (\<lambda>e. e)"
  by (simp add: flash_laws_def demo_flash_def)

definition demo_ops :: "ota_op list" where
  "demo_ops = [OpBegin 2, OpChunk 0 (Some [7]), OpChunk 0 (Some [9]), OpChunk 1 (Some [8])]"

definition demo_started :: "u8 list ota" where
  "demo_started = snd (app_ota_init demo_flash True (ota_boot [1, 2, 3, 4]))"

lemmas demo_defs = demo_ops_def demo_started_def demo_flash_def ota_op_defs ota_boot_def
  zero_status_def blit_def Let_def

lemma demo_run: "snd (ota_run demo_flash demo_ops (demo_started, [])) = [7, 8]"
  "fst (app_ota_commit demo_flash (fst (ota_run demo_flash demo_ops (demo_started, [])))) = OTA_OK"
  by (simp_all add: demo_defs)

lemma committed_image_witness:
  "take 2 (env (fst (ota_run demo_flash demo_ops (demo_started, [])))) = [7, 8]"
proof -
  obtain s img where R: "ota_run demo_flash demo_ops (demo_started, []) = (s, img)" by force
  obtain s' where C: "app_ota_commit demo_flash s = (OTA_OK, s')"
    using demo_run(2) R by (metis fst_conv prod.collapse)
  have "take (length img) (env s) = img"
    using committed_image [OF demo_flash_laws R [unfolded demo_started_def] C] by blast
  then show ?thesis using demo_run(1) R by (simp add: numeral_2_eq_2)
qed

text \<open>C12: in every reachable state a prepared image has an open area that holds the announced
  size, at most the announced bytes have been received, READY has received none and WRITING
  some, COMMITTED means complete with a reboot scheduled, a session without an image counts
  nothing, and there is never more than one reboot thread.\<close>

theorem ota_reachable_inv:
  assumes "ota_reach E s"
  shows "ota_inv s"
  by (rule ota_inv_reach [OF assms])

lemma ota_reachable_inv_witness:
  "ota_inv (snd (app_ota_begin demo_flash 2 demo_started))"
proof (rule ota_reachable_inv)
  have "ota_reach demo_flash demo_started"
    unfolding demo_started_def
    by (rule ota_reach.step [OF ota_reach.boot, of _ "OpInit True" _ "OTA_OK"])
       (simp add: app_ota_init_def Let_def)
  then show "ota_reach demo_flash (snd (app_ota_begin demo_flash 2 demo_started))"
    by (rule ota_reach.step [of _ _ "OpBegin 2" "fst (app_ota_begin demo_flash 2 demo_started)"])
       simp
qed

text \<open>C5: every operation of the front-end implements the abstract session: its code and the
  session after it are those of the specification, for accepted and refused calls alike.\<close>

theorem ota_refines_session:
  assumes "flash_laws E content" "session_inv content s"
  shows "ota_exec E op s = (rc, s') \<longrightarrow> session_inv content s' \<and> (case op of
      OpInit cb \<Rightarrow> session_of content s' = NoSession
    | OpBegin n \<Rightarrow> session_of content s' = begin_spec n rc (session_of content s)
    | OpChunk off (Some d) \<Rightarrow>
        chunk_spec off d (rc = OTA_OK) (session_of content s) = (rc, session_of content s')
    | OpChunk off None \<Rightarrow> session_of content s' = session_of content s \<and> rc = ERR_PARAM
    | OpCommit \<Rightarrow>
        commit_spec (rc = OTA_OK) (session_of content s) = (rc, session_of content s')
    | OpAbort \<Rightarrow> session_of content s' = NoSession
    | OpReboot ms \<Rightarrow> session_of content s' = session_of content s)"
proof (cases op)
  case (OpInit cb)
  then show ?thesis using init_refines [of s content E cb] assms(2) by (auto simp: session_inv_def)
next
  case (OpBegin n)
  then show ?thesis using begin_refines [OF assms] by simp
next
  case (OpChunk off d)
  show ?thesis
  proof (cases d)
    case None
    then show ?thesis using OpChunk assms(2) by (auto simp: app_ota_chunk_def session_inv_def)
  next
    case (Some d)
    then show ?thesis using OpChunk chunk_refines [OF assms] by simp
  qed
next
  case OpCommit
  then show ?thesis using commit_refines [OF assms(2)] by simp
next
  case OpAbort
  then show ?thesis using abort_refines [OF assms(2)] by auto
next
  case (OpReboot ms)
  then show ?thesis using reboot_refines [OF assms(2)] by auto
qed

lemma ota_refines_session_witness:
  "session_of (\<lambda>e. e) (snd (app_ota_begin demo_flash 2 demo_started)) = Receiving 2 []"
proof -
  have I: "session_inv (\<lambda>e. e) demo_started"
    using init_refines [OF ota_inv_boot, of "\<lambda>e. e" demo_flash True "[1, 2, 3, 4]"]
    by (simp add: demo_started_def)
  have B: "ota_exec demo_flash (OpBegin 2) demo_started
           = (OTA_OK, snd (app_ota_begin demo_flash 2 demo_started))"
    by (simp add: demo_defs)
  show ?thesis using ota_refines_session [OF demo_flash_laws I] B by (fastforce simp: begin_spec_def)
qed

end
