(* ===== verification/Gatt.thy ===== *)
theory Gatt
  imports Prelude
begin

text \<open>
  What the GATT services share: the result of a characteristic write.  A callback answers
  with the number of bytes it took or with one of the ATT errors of the Bluetooth host.
\<close>

datatype att_err = ATT_INVALID_OFFSET | ATT_INVALID_ATTRIBUTE_LEN | ATT_UNLIKELY
  | ATT_WRITE_NOT_PERMITTED | ATT_VALUE_NOT_ALLOWED

type_synonym write_result = "att_err + nat"

definition accepted_write :: "write_result \<Rightarrow> bool" where
  "accepted_write r = (case r of Inl _ \<Rightarrow> False | Inr _ \<Rightarrow> True)"

lemma accepted_write_simps [simp]: "accepted_write (Inr n)" "\<not> accepted_write (Inl e)"
  by (simp_all add: accepted_write_def)

end
