(* ===== verification/SamsungAc.thy ===== *)
theory SamsungAc
  imports Prelude
begin

text \<open>
  The mark/space symbols of \<open>app/ir/ir_tx.h\<close> and the Samsung air-conditioner codec
  \<open>app/ir/ir_codec_samsung_ac.c\<close>: the section checksum (computed, written into a section,
  verified) and the encoder from 7-byte sections to symbols.  A caller's array and its
  element count are one list; a pointer that may be NULL is an option.
\<close>

subsection \<open>Symbols\<close>

record ir_symbol =
  mark_us :: u16
  space_us :: u16

definition ir_symbol_make :: "u16 \<Rightarrow> u16 \<Rightarrow> ir_symbol" where
  "ir_symbol_make m s = \<lparr>mark_us = m, space_us = s\<rparr>"

lemma ir_symbol_make_sel [simp]:
  "mark_us (ir_symbol_make m s) = m" "space_us (ir_symbol_make m s) = s"
  by (simp_all add: ir_symbol_make_def)

text \<open>\<open>APP_IR_TX_MAX_SYMBOLS\<close> and the timings of the codec's header.\<close>

abbreviation (input) "IR_TX_MAX_SYMBOLS \<equiv> 384 :: nat"

abbreviation "SAC_HDR_MARK \<equiv> 690 :: u16"
abbreviation "SAC_HDR_SPACE \<equiv> 17844 :: u16"
abbreviation "SAC_SEC_MARK \<equiv> 3086 :: u16"
abbreviation "SAC_SEC_SPACE \<equiv> 8864 :: u16"
abbreviation "SAC_GAP \<equiv> 2886 :: u16"
abbreviation "SAC_BIT_MARK \<equiv> 586 :: u16"
abbreviation "SAC_ONE_SPACE \<equiv> 1432 :: u16"
abbreviation "SAC_ZERO_SPACE \<equiv> 436 :: u16"
abbreviation "SAC_FINAL_GAP \<equiv> 20000 :: u16"

subsection \<open>The section checksum\<close>

function popcount_loop :: "u8 \<Rightarrow> u8 \<Rightarrow> u8" where
  "popcount_loop n v = (if v = 0 then n else popcount_loop (n + (v AND 1)) (drop_bit 1 v))"
  by auto

termination popcount_loop
proof (relation "measure (\<lambda>(n, v). unat v)")
  fix n v :: u8
  assume "v \<noteq> 0"
  then have "0 < unat v" by (simp add: unat_pos_iff)
  then show "((n + (v AND 1), drop_bit 1 v), n, v) \<in> measure (\<lambda>(n, v). unat v)"
    by (simp add: drop_bit_eq_div unat_div)
qed simp

declare popcount_loop.simps [simp del]

definition popcount_u8 :: "u8 \<Rightarrow> u8" where
  "popcount_u8 v = popcount_loop 0 v"

fun popcount_buf_loop :: "u16 \<Rightarrow> u8 list \<Rightarrow> u16" where
  "popcount_buf_loop t [] = t"
| "popcount_buf_loop t (b # bs) = popcount_buf_loop (t + ucast (popcount_u8 b)) bs"

definition popcount_buf :: "u8 list \<Rightarrow> u8" where
  "popcount_buf bs = ucast (popcount_buf_loop 0 bs)"

text \<open>A section is the list of bytes from its pointer on; seven of them are read.\<close>

definition sec_checksum :: "u8 list \<Rightarrow> u8" where
  "sec_checksum s =
     (let sum = 0 + ucast (popcount_u8 (s ! 0)) :: u16;
          sum = sum + ucast (popcount_u8 (s ! 1 AND 0x0F));
          sum = sum + ucast (popcount_u8 (drop_bit 4 (s ! 2) AND 0x0F));
          sum = sum + ucast (popcount_buf (take 4 (drop 3 s)))
      in ucast sum XOR 0xFF)"

definition ir_codec_samsung_ac_fix_checksum :: "u8 list \<Rightarrow> u8 list" where
  "ir_codec_samsung_ac_fix_checksum s =
     (let cs = sec_checksum s;
          s = s[1 := (s ! 1 AND 0x0F) OR push_bit 4 (cs AND 0x0F)]
      in s[2 := (s ! 2 AND 0xF0) OR (drop_bit 4 cs AND 0x0F)])"

definition ir_codec_samsung_ac_fix_checksums_14 :: "u8 list \<Rightarrow> u8 list" where
  "ir_codec_samsung_ac_fix_checksums_14 st =
     (let st = ir_codec_samsung_ac_fix_checksum st
      in blit 7 (ir_codec_samsung_ac_fix_checksum (drop 7 st)) st)"

definition ir_codec_samsung_ac_verify :: "u8 list \<Rightarrow> bool" where
  "ir_codec_samsung_ac_verify s =
     (sec_checksum s = push_bit 4 (s ! 2 AND 0x0F) OR (drop_bit 4 (s ! 1) AND 0x0F))"

function verify_loop :: "u8 list \<Rightarrow> nat \<Rightarrow> bool" where
  "verify_loop d s = (if length d \<le> s then True
     else if \<not> ir_codec_samsung_ac_verify (drop s d) then False
     else verify_loop d (s + 7))"
  by auto

termination verify_loop
  by (relation "measure (\<lambda>(d, s). length d - s)") auto

declare verify_loop.simps [simp del]

definition ir_codec_samsung_ac_verify_all :: "u8 list option \<Rightarrow> bool" where
  "ir_codec_samsung_ac_verify_all data = (case data of None \<Rightarrow> False | Some d \<Rightarrow>
     if length d = 0 \<or> length d mod 7 \<noteq> 0 then False else verify_loop d 0)"

subsection \<open>The encoder\<close>

definition bit_lsbf :: "u8 list \<Rightarrow> nat \<Rightarrow> u8" where
  "bit_lsbf sec k = drop_bit (k mod 8) (sec ! (k div 8)) AND 1"

definition sac_bit_sym :: "u8 \<Rightarrow> ir_symbol" where
  "sac_bit_sym b = ir_symbol_make SAC_BIT_MARK (if b \<noteq> 0 then SAC_ONE_SPACE else SAC_ZERO_SPACE)"

definition sac_section :: "u8 list \<Rightarrow> bool \<Rightarrow> ir_symbol list" where
  "sac_section sec nxt =
     ir_symbol_make SAC_SEC_MARK SAC_SEC_SPACE
       # map (\<lambda>k. sac_bit_sym (bit_lsbf sec k)) [0..<56]
       @ [ir_symbol_make SAC_BIT_MARK (if nxt then SAC_GAP else SAC_FINAL_GAP)]"

text \<open>The first argument is \<open>data\<close> (with \<open>len\<close>), the second the capacity of a non-NULL
  \<open>out\<close>; the result is a negative code or the symbols written.\<close>

definition ir_codec_samsung_ac_encode :: "u8 list option \<Rightarrow> nat option \<Rightarrow> int + ir_symbol list" where
  "ir_codec_samsung_ac_encode data out = (case (data, out) of
      (Some d, Some out_cap) \<Rightarrow>
        if length d = 0 \<or> length d mod 7 \<noteq> 0 then Inl (- 2)
        else if 21 < length d then Inl (- 3)
        else
          let nsec = length d div 7; need = 1 + (1 + 56 + 1) * nsec + 0 in
          if out_cap < need then Inl (- 4)
          else Inr (ir_symbol_make SAC_HDR_MARK SAC_HDR_SPACE
                 # concat (map (\<lambda>s. sac_section (drop (s * 7) d) (s + 1 < nsec)) [0..<nsec]))
    | _ \<Rightarrow> Inl (- 1))"

subsection \<open>Checksum lemmas\<close>

lemma fix_length [simp]: "length (ir_codec_samsung_ac_fix_checksum s) = length s"
  by (simp add: ir_codec_samsung_ac_fix_checksum_def Let_def)

text \<open>The bits the checksum reads are not the ones the fix writes.\<close>

lemma checksum_cover:
  assumes "s ! 0 = t ! 0" "s ! 1 AND 0x0F = t ! 1 AND 0x0F"
    "drop_bit 4 (s ! 2) AND 0x0F = drop_bit 4 (t ! 2) AND 0x0F"
    "take 4 (drop 3 s) = take 4 (drop 3 t)"
  shows "sec_checksum s = sec_checksum t"
  using assms by (simp add: sec_checksum_def)

lemma bit_nibble:
  "bit (0x0F :: u8) k = (k < 4)" "bit (0xF0 :: u8) k = (4 \<le> k \<and> k < 8)"
  "bit (0x0F :: int) k = (k < 4)"
proof -
  have m: "(0x0F :: u8) = mask 4" "(0xF0 :: u8) = push_bit 4 (mask 4)" "(0x0F :: int) = mask 4"
    by (simp_all add: mask_eq_exp_minus_1)
  show "bit (0x0F :: u8) k = (k < 4)" "bit (0xF0 :: u8) k = (4 \<le> k \<and> k < 8)"
    "bit (0x0F :: int) k = (k < 4)"
    unfolding m by (auto simp: bit_simps)
qed

lemma fix_bits:
  "((x AND 0x0F) OR push_bit 4 (y AND 0x0F)) AND 0x0F = (x AND 0x0F :: u8)"
  "drop_bit 4 ((x AND 0xF0) OR (z AND 0x0F)) AND 0x0F = drop_bit 4 x AND (0x0F :: u8)"
  "push_bit 4 (((x AND 0xF0) OR (drop_bit 4 c AND 0x0F)) AND 0x0F)
     OR (drop_bit 4 ((w AND 0x0F) OR push_bit 4 (c AND 0x0F)) AND 0x0F) = (c :: u8)"
  by (rule bit_word_eqI;
      simp only: bit_and_iff bit_or_iff bit_push_bit_iff bit_drop_bit_eq o_def bit_nibble; auto)+

lemma nth_fix:
  "3 \<le> length s \<Longrightarrow> ir_codec_samsung_ac_fix_checksum s ! 1
     = (s ! 1 AND 0x0F) OR push_bit 4 (sec_checksum s AND 0x0F)"
  "3 \<le> length s \<Longrightarrow> ir_codec_samsung_ac_fix_checksum s ! 2
     = (s ! 2 AND 0xF0) OR (drop_bit 4 (sec_checksum s) AND 0x0F)"
  "ir_codec_samsung_ac_fix_checksum s ! 0 = s ! 0"
  "drop 3 (ir_codec_samsung_ac_fix_checksum s) = drop 3 s"
  by (simp_all add: ir_codec_samsung_ac_fix_checksum_def Let_def)

lemma fix_checksum_same: "3 \<le> length s \<Longrightarrow>
    sec_checksum (ir_codec_samsung_ac_fix_checksum s) = sec_checksum s"
  by (rule checksum_cover) (simp_all only: nth_fix fix_bits)

lemma fix_verifies: "3 \<le> length s \<Longrightarrow>
    ir_codec_samsung_ac_verify (ir_codec_samsung_ac_fix_checksum s)"
  unfolding ir_codec_samsung_ac_verify_def fix_checksum_same
  by (simp only: nth_fix fix_bits)

lemma verify_take: "7 \<le> length s \<Longrightarrow>
    ir_codec_samsung_ac_verify (take 7 s) = ir_codec_samsung_ac_verify s"
  by (simp add: ir_codec_samsung_ac_verify_def sec_checksum_def drop_take min_def Let_def)

text \<open>What \<open>verify_all\<close> decides.\<close>

lemma verify_loop_iff:
  "verify_loop d s \<longleftrightarrow> (\<forall>k. s + 7 * k < length d \<longrightarrow> ir_codec_samsung_ac_verify (drop (s + 7 * k) d))"
proof (induction d s rule: verify_loop.induct)
  case (1 d s)
  have split: "(\<forall>k. s + 7 * k < length d \<longrightarrow> P (s + 7 * k)) \<longleftrightarrow>
     (s < length d \<longrightarrow> P s) \<and> (\<forall>k. (s + 7) + 7 * k < length d \<longrightarrow> P ((s + 7) + 7 * k))"
    (is "?L = ?R") for P
  proof
    assume L: ?L
    show ?R using L [rule_format, of 0] L [rule_format, of "Suc k" for k] by (auto simp: add.assoc)
  next
    assume R: ?R
    show ?L
    proof (intro allI impI)
      fix k assume "s + 7 * k < length d"
      then show "P (s + 7 * k)" using R by (cases k) (auto simp: add.assoc)
    qed
  qed
  show ?case
    using 1 by (subst verify_loop.simps, subst split) (auto simp: not_le)
qed

text \<open>The checksum sees every single-bit error.\<close>

definition ones :: "u8 \<Rightarrow> u8" where
  "ones v = (\<Sum>i<8. of_bool (bit v i))"

lemma ones_shift: "ones v = (v AND 1) + ones (drop_bit 1 v)"
proof -
  have "bit v 8 = False" by (auto dest: bit_imp_le_length)
  moreover have "v AND 1 = of_bool (bit v 0)" by (simp add: and_one_eq mod2_eq_if bit_0)
  ultimately show ?thesis
    by (simp add: ones_def eval_nat_numeral bit_drop_bit_eq)
qed

lemma popcount_loop_ones: "popcount_loop n v = n + ones v"
proof (induction n v rule: popcount_loop.induct)
  case (1 n v)
  show ?case
  proof (cases "v = 0")
    case True
    then show ?thesis by (simp add: popcount_loop.simps ones_def)
  next
    case False
    then show ?thesis using 1 ones_shift [of v] by (simp add: popcount_loop.simps [of n v])
  qed
qed

lemma popcount_ones [simp]: "popcount_u8 v = ones v"
  by (simp add: popcount_u8_def popcount_loop_ones)

lemma ones_flip: "j < 8 \<Longrightarrow> ones (flip_bit j v) = (if bit v j then ones v - 1 else ones v + 1)"
proof -
  assume j: "j < 8"
  have f: "bit (flip_bit j v) i = (if i = j then \<not> bit v i else bit v i)" if "i < 8" for i
    using that by (auto simp: bit_flip_bit_iff)
  have "ones (flip_bit j v) = of_bool (\<not> bit v j) + (\<Sum>i\<in>{..<8} - {j}. of_bool (bit v i))"
    unfolding ones_def using j by (subst sum.remove [of _ j]) (auto simp: f intro!: sum.cong)
  moreover have "ones v = of_bool (bit v j) + (\<Sum>i\<in>{..<8} - {j}. of_bool (bit v i))"
    unfolding ones_def using j by (subst sum.remove [of _ j]) auto
  ultimately show ?thesis by (simp add: algebra_simps)
qed

lemma ones_flip_neq: "j < 8 \<Longrightarrow> ones (flip_bit j v) \<noteq> ones v"
  by (simp add: ones_flip)

definition cover :: "u8 list \<Rightarrow> u8" where
  "cover s = ones (s ! 0) + ones (s ! 1 AND 0x0F) + ones (drop_bit 4 (s ! 2) AND 0x0F)
     + (ones (s ! 3) + ones (s ! 4) + ones (s ! 5) + ones (s ! 6))"

lemma popcount_buf_loop_down: "ucast (popcount_buf_loop t bs) = (ucast t + sum_list (map ones bs) :: u8)"
  by (induction bs arbitrary: t) (simp_all add: ucast_add_8_16 add.assoc)

lemma sec_checksum_cover: "7 \<le> length s \<Longrightarrow> sec_checksum s = NOT (cover s)"
proof -
  assume l: "7 \<le> length s"
  have "take 4 (drop 3 s) = [s ! 3, s ! 4, s ! 5, s ! 6]"
    using l by (intro nth_equalityI) (auto simp: less_Suc_eq numeral_eq_Suc)
  then have "popcount_buf (take 4 (drop 3 s)) =
      ones (s ! 3) + ones (s ! 4) + ones (s ! 5) + ones (s ! 6)"
    unfolding popcount_buf_def popcount_buf_loop_down by (simp add: add.assoc)
  moreover have "x XOR 0xFF = NOT x" for x :: u8
  proof -
    have m: "(0xFF :: u8) = - 1" by simp
    show ?thesis unfolding m by (rule bit_word_eqI) (simp add: bit_xor_iff bit_not_iff)
  qed
  ultimately show ?thesis
    by (simp add: sec_checksum_def Let_def cover_def ucast_add_8_16 add.assoc)
qed

lemma flip_nibble:
  "flip_bit j x AND 0x0F = (if j < 4 then flip_bit j (x AND 0x0F) else x AND (0x0F :: u8))"
  "drop_bit 4 (flip_bit j x) AND 0x0F =
     (if 4 \<le> j \<and> j < 8 then flip_bit (j - 4) (drop_bit 4 x AND 0x0F)
      else drop_bit 4 x AND (0x0F :: u8))"
  by (rule bit_word_eqI;
      simp only: bit_and_iff bit_drop_bit_eq o_def bit_nibble bit_flip_bit_iff if_split; 
      auto simp: bit_flip_bit_iff bit_and_iff bit_drop_bit_eq bit_nibble)+

definition stored_checksum :: "u8 list \<Rightarrow> u8" where
  "stored_checksum s = push_bit 4 (s ! 2 AND 0x0F) OR (drop_bit 4 (s ! 1) AND 0x0F)"

lemma stored_nibbles:
  "stored_checksum s AND 0x0F = drop_bit 4 (s ! 1) AND 0x0F"
  "drop_bit 4 (stored_checksum s) AND 0x0F = s ! 2 AND 0x0F"
  unfolding stored_checksum_def
  by (rule bit_word_eqI;
      simp only: bit_and_iff bit_or_iff bit_push_bit_iff bit_drop_bit_eq o_def bit_nibble; auto)+

lemma flip_neq: "j < 8 \<Longrightarrow> flip_bit j x \<noteq> (x :: u8)"
proof
  assume "j < 8" "flip_bit j x = x"
  then show False using bit_flip_bit_iff [of j x j] by auto
qed

text \<open>A flipped bit of a section changes either what is summed or what is stored, never both.\<close>

lemma flip_cover_or_stored:
  assumes l: "7 \<le> length s" and i: "i < 7" and j: "j < 8"
  shows "(cover (s[i := flip_bit j (s ! i)]) = cover s) \<noteq>
         (stored_checksum (s[i := flip_bit j (s ! i)]) = stored_checksum s)"
proof -
  let ?t = "s[i := flip_bit j (s ! i)]"
  have n4: "j < 4 \<Longrightarrow> ones (flip_bit j x) \<noteq> ones x" "4 \<le> j \<Longrightarrow> ones (flip_bit (j - 4) x) \<noteq> ones x" for x
    using ones_flip_neq [of j x] ones_flip_neq [of "j - 4" x] j by auto
  consider "i = 1" | "i = 2" | "i \<noteq> 1" "i \<noteq> 2" by auto
  then show ?thesis
  proof cases
    case 1
    then have t: "?t ! 1 = flip_bit j (s ! 1)" "\<And>k. k \<noteq> 1 \<Longrightarrow> ?t ! k = s ! k" using l by auto
    show ?thesis
    proof (cases "j < 4")
      case True
      then have "drop_bit 4 (?t ! 1) AND 0x0F = drop_bit 4 (s ! 1) AND 0x0F"
        by (simp only: t flip_nibble) simp
      then have "stored_checksum ?t = stored_checksum s"
        unfolding stored_checksum_def by (simp only: t(2))
      then show ?thesis using n4(1) True by (simp add: cover_def t flip_nibble del: One_nat_def)
    next
      case False
      then have "stored_checksum ?t AND 0x0F \<noteq> stored_checksum s AND 0x0F"
        using j by (simp add: stored_nibbles t flip_nibble flip_neq del: One_nat_def)
      then show ?thesis using False by (auto simp: cover_def t flip_nibble simp del: One_nat_def)
    qed
  next
    case 2
    then have t: "?t ! 2 = flip_bit j (s ! 2)" "\<And>k. k \<noteq> 2 \<Longrightarrow> ?t ! k = s ! k" using l by auto
    show ?thesis
    proof (cases "j < 4")
      case False
      then have "?t ! 2 AND 0x0F = s ! 2 AND 0x0F" by (simp only: t flip_nibble) simp
      then have "stored_checksum ?t = stored_checksum s"
        unfolding stored_checksum_def by (simp only: t(2))
      then show ?thesis using n4(2) j False by (simp add: cover_def t flip_nibble)
    next
      case True
      then have "drop_bit 4 (stored_checksum ?t) AND 0x0F \<noteq> drop_bit 4 (stored_checksum s) AND 0x0F"
        using j by (simp add: stored_nibbles t flip_nibble flip_neq)
      then show ?thesis using True by (auto simp: cover_def t flip_nibble)
    qed
  next
    case 3
    have "stored_checksum ?t = stored_checksum s" using 3 l by (simp add: stored_checksum_def)
    moreover have "cover ?t \<noteq> cover s"
    proof -
      have t: "?t ! i = flip_bit j (s ! i)" "\<And>k. k \<noteq> i \<Longrightarrow> ?t ! k = s ! k" using l i by auto
      consider "i = 0" | "i = 3" | "i = 4" | "i = 5" | "i = 6" using i 3 by linarith
      then show ?thesis by cases (use t ones_flip_neq [OF j] in \<open>auto simp: cover_def\<close>)
    qed
    ultimately show ?thesis by simp
  qed
qed

lemma single_bit_error:
  assumes "7 \<le> length s" "i < 7" "j < 8" "ir_codec_samsung_ac_verify s"
  shows "\<not> ir_codec_samsung_ac_verify (s[i := flip_bit j (s ! i)])"
  using flip_cover_or_stored [OF assms(1-3)] assms
  unfolding ir_codec_samsung_ac_verify_def stored_checksum_def [symmetric]
  by (simp add: sec_checksum_cover)
     (metis bit.double_compl)

subsection \<open>Encoder lemmas\<close>

lemma length_sac_section [simp]: "length (sac_section sec nxt) = 58"
  by (simp add: sac_section_def)

lemma length_concat_const: "(\<And>x. x \<in> set xs \<Longrightarrow> length (f x) = k) \<Longrightarrow>
    length (concat (map f xs)) = length xs * k"
  by (induction xs) auto

lemma encode_length:
  "ir_codec_samsung_ac_encode (Some d) (Some c) = Inr out \<Longrightarrow>
     length out = 1 + 58 * (length d div 7) \<and> length out \<le> c \<and> length out \<le> 175"
proof -
  assume e: "ir_codec_samsung_ac_encode (Some d) (Some c) = Inr out"
  then have b: "length d div 7 \<le> 3" and c: "1 + 58 * (length d div 7) \<le> c"
    by (auto simp: ir_codec_samsung_ac_encode_def Let_def split: if_splits)
  have "length out = 1 + length [0..<length d div 7] * 58"
    using e by (auto simp: ir_codec_samsung_ac_encode_def Let_def length_concat_const split: if_splits)
  then show ?thesis using b c by simp
qed

text \<open>A byte on the wire, lowest bit first.\<close>

definition byte_syms :: "u8 \<Rightarrow> ir_symbol list" where
  "byte_syms b = map (\<lambda>j. ir_symbol_make SAC_BIT_MARK
      (if bit b j then SAC_ONE_SPACE else SAC_ZERO_SPACE)) [0..<8]"

lemma bit_lsbf_sym: "sac_bit_sym (bit_lsbf sec k) = ir_symbol_make SAC_BIT_MARK
    (if bit (sec ! (k div 8)) (k mod 8) then SAC_ONE_SPACE else SAC_ZERO_SPACE)"
  by (simp add: sac_bit_sym_def bit_lsbf_def and_one_eq mod2_eq_if bit_iff_odd_drop_bit)

lemma upt_blocks: "[0..<m * n] = concat (map (\<lambda>i. map (\<lambda>j. m * i + j) [0..<m]) [0..<n])"
proof (induction n)
  case (Suc n)
  have "[0..<m * Suc n] = [0..<m * n] @ [m * n..<m * n + m]"
    using upt_add_eq_append [of 0 "m * n" m] by (simp add: add.commute)
  also have "[m * n..<m * n + m] = map (\<lambda>j. m * n + j) [0..<m]"
    using map_add_upt [of "m * n" m] by (simp add: add.commute)
  finally show ?case using Suc by simp
qed simp

lemma sac_section_bytes:
  assumes "7 \<le> length sec"
  shows "sac_section sec nxt = ir_symbol_make SAC_SEC_MARK SAC_SEC_SPACE
     # concat (map byte_syms (take 7 sec))
     @ [ir_symbol_make SAC_BIT_MARK (if nxt then SAC_GAP else SAC_FINAL_GAP)]"
proof -
  have "map (\<lambda>k. sac_bit_sym (bit_lsbf sec k)) [0..<56]
      = concat (map (\<lambda>i. map (\<lambda>j. sac_bit_sym (bit_lsbf sec (8 * i + j))) [0..<8]) [0..<7])"
    using upt_blocks [of 8 7] by (simp add: map_concat o_def)
  also have "\<dots> = concat (map (\<lambda>i. byte_syms (sec ! i)) [0..<7])"
    by (intro arg_cong [where f = concat] map_cong refl)
       (auto simp: bit_lsbf_sym byte_syms_def)
  also have "map (\<lambda>i. byte_syms (sec ! i)) [0..<7] = map byte_syms (take 7 sec)"
    using assms by (intro nth_equalityI) auto
  finally show ?thesis by (simp add: sac_section_def)
qed

lemma sections_of_blocks:
  assumes "length d = 7 * n"
  shows "d = concat (map (\<lambda>i. take 7 (drop (7 * i) d)) [0..<n])"
  using assms
proof (induction n arbitrary: d)
  case (Suc n)
  have "d = take 7 d @ drop 7 d" by simp
  also have "drop 7 d = concat (map (\<lambda>i. take 7 (drop (7 * i) (drop 7 d))) [0..<n])"
    by (rule Suc.IH) (use Suc.prems in simp)
  also have "take 7 d @ \<dots> = concat (map (\<lambda>i. take 7 (drop (7 * i) d)) [0..<Suc n])"
    by (simp only: upt_conv_Cons zero_less_Suc map_Suc_upt [symmetric])
       (simp add: o_def add.commute)
  finally show ?case .
qed simp

subsection \<open>Properties\<close>

text \<open>Writing the checksum into a section makes the section verify and leaves every payload
  bit (byte 0, the low nibble of byte 1, the high nibble of byte 2, bytes 3 on) as it was.\<close>

theorem fix_then_verify:
  assumes "3 \<le> length s"
  shows "ir_codec_samsung_ac_verify (ir_codec_samsung_ac_fix_checksum s) \<and>
    ir_codec_samsung_ac_fix_checksum s ! 0 = s ! 0 \<and>
    ir_codec_samsung_ac_fix_checksum s ! 1 AND 0x0F = s ! 1 AND 0x0F \<and>
    drop_bit 4 (ir_codec_samsung_ac_fix_checksum s ! 2) AND 0x0F = drop_bit 4 (s ! 2) AND 0x0F \<and>
    drop 3 (ir_codec_samsung_ac_fix_checksum s) = drop 3 s"
  using fix_verifies [OF assms] by (simp only: nth_fix(1,2) [OF assms] nth_fix(3,4) fix_bits simp_thms)

definition demo_section :: "u8 list" where
  "demo_section = [0x02, 0x92, 0x0F, 0x00, 0x00, 0x00, 0xF0]"

lemma demo_section_length: "length demo_section = 7"
  by (simp add: demo_section_def)

lemma fix_then_verify_witness:
  "ir_codec_samsung_ac_verify (ir_codec_samsung_ac_fix_checksum demo_section)"
  using fix_then_verify [of demo_section] demo_section_length by simp

lemma demo_section_verifies: "ir_codec_samsung_ac_verify demo_section"
  by (simp add: demo_section_def ir_codec_samsung_ac_verify_def sec_checksum_def popcount_buf_def
      popcount_u8_def popcount_loop.simps del: popcount_ones)

text \<open>C19: a verifying section with any one of its 56 bits flipped no longer verifies.\<close>

theorem single_bit_error_detected:
  assumes "7 \<le> length s" "ir_codec_samsung_ac_verify s" "i < 7" "j < 8"
  shows "\<not> ir_codec_samsung_ac_verify (s[i := flip_bit j (s ! i)])"
  by (rule single_bit_error [OF assms(1,3,4,2)])

lemma single_bit_error_detected_witness:
  "\<not> ir_codec_samsung_ac_verify (demo_section[4 := flip_bit 5 (demo_section ! 4)])"
  by (rule single_bit_error_detected) (simp_all add: demo_section_length demo_section_verifies)

text \<open>\<open>verify_all\<close> accepts exactly the non-empty buffers of whole sections that all
  verify.\<close>

theorem verify_all_iff:
  "ir_codec_samsung_ac_verify_all data \<longleftrightarrow>
     (case data of None \<Rightarrow> False
      | Some d \<Rightarrow> d \<noteq> [] \<and> 7 dvd length d \<and>
          list_all (\<lambda>k. ir_codec_samsung_ac_verify (take 7 (drop (7 * k) d))) [0..<length d div 7])"
proof (cases data)
  case (Some d)
  show ?thesis
  proof (cases "7 dvd length d")
    case True
    then obtain n where n: "length d = 7 * n" by (auto elim: dvdE)
    have "verify_loop d 0 \<longleftrightarrow> (\<forall>k < n. ir_codec_samsung_ac_verify (drop (7 * k) d))"
      using n by (subst verify_loop_iff) auto
    also have "\<dots> \<longleftrightarrow> (\<forall>k < n. ir_codec_samsung_ac_verify (take 7 (drop (7 * k) d)))"
      using n by (auto simp: verify_take)
    finally show ?thesis
      using Some n by (auto simp: ir_codec_samsung_ac_verify_all_def list_all_iff)
  qed (auto simp: Some ir_codec_samsung_ac_verify_all_def dvd_eq_mod_eq_0)
qed (simp add: ir_codec_samsung_ac_verify_all_def)

text \<open>The encoder refuses a NULL pointer, a length that is no positive multiple of a
  section, more than 21 bytes and a short output array, each with its own code, and otherwise
  writes \<open>1 + 58 * sections\<close> symbols, which fit the array and the transmitter.\<close>

theorem encode_outcome:
  "(case ir_codec_samsung_ac_encode data out of
      Inl e \<Rightarrow>
        e = (if data = None \<or> out = None then - 1
             else if length (the data) mod 7 \<noteq> 0 \<or> the data = [] then - 2
             else if 21 < length (the data) then - 3 else - 4) \<and>
        (e = - 4 \<longrightarrow> the out < 1 + 58 * (length (the data) div 7))
    | Inr syms \<Rightarrow>
        length syms = 1 + 58 * (length (the data) div 7) \<and> length syms \<le> the out \<and>
        length syms \<le> IR_TX_MAX_SYMBOLS)"
proof (cases data; cases out)
  fix d c
  assume dc: "data = Some d" "out = Some c"
  show ?thesis
  proof (cases "ir_codec_samsung_ac_encode (Some d) (Some c)")
    case (Inl e)
    then show ?thesis unfolding dc
      by (auto simp: ir_codec_samsung_ac_encode_def Let_def split: if_splits)
  next
    case (Inr syms)
    then show ?thesis unfolding dc using encode_length [of d c syms] by auto
  qed
qed (simp_all add: ir_codec_samsung_ac_encode_def)

lemma encode_outcome_witness:
  "\<exists>syms. ir_codec_samsung_ac_encode (Some demo_section) (Some 59) = Inr syms \<and> length syms = 59"
proof -
  obtain syms where s: "ir_codec_samsung_ac_encode (Some demo_section) (Some 59) = Inr syms"
    by (simp add: ir_codec_samsung_ac_encode_def demo_section_def Let_def)
  then show ?thesis
    using encode_outcome [of "Some demo_section" "Some 59"] demo_section_length by simp
qed

end
