(* ===== verification/IrTx.thy ===== *)
theory IrTx
  imports SamsungAc
begin

text \<open>
  The infrared transmitter of the build, \<open>app/ir/ir_tx_zephyr.c\<close>: the carrier, the
  transmit thread and the blocking send.  The PWM driver and the scheduler are outside the
  repository: \<open>pwm_ready\<close> is the driver's answer, \<open>thread_done\<close> says whether the thread
  signals a frame within the 3 s timeout.  PWM settings and busy waits are logged in \<open>wire\<close>.
\<close>

datatype tx_event = Pwm u32 u32 | Wait u16

record tx_hw =
  pwm_ready :: bool
  thread_done :: "ir_symbol list \<Rightarrow> bool"

record ir_tx =
  tx_inited :: bool
  carrier_hz :: u32
  trigger :: bool
  done_sem :: bool
  tx_buf :: "ir_symbol list"
  tx_count :: nat
  wire :: "tx_event list"

definition ir_tx_boot :: ir_tx where
  "ir_tx_boot = \<lparr>tx_inited = False, carrier_hz = 38000, trigger = False, done_sem = False,
     tx_buf = replicate IR_TX_MAX_SYMBOLS (ir_symbol_make 0 0), tx_count = 0, wire = []\<rparr>"

subsection \<open>Operations\<close>

definition carrier_on :: "ir_tx \<Rightarrow> ir_tx" where
  "carrier_on t = (let period_ns = 1000000000 div carrier_hz t; pulse_ns = period_ns div 3
     in t\<lparr>wire := wire t @ [Pwm period_ns pulse_ns]\<rparr>)"

definition carrier_off :: "ir_tx \<Rightarrow> ir_tx" where
  "carrier_off t = (let period_ns = 1000000000 div carrier_hz t
     in t\<lparr>wire := wire t @ [Pwm period_ns 0]\<rparr>)"

definition busy_wait :: "u16 \<Rightarrow> ir_tx \<Rightarrow> ir_tx" where
  "busy_wait us t = t\<lparr>wire := wire t @ [Wait us]\<rparr>"

fun emit_symbols :: "ir_symbol list \<Rightarrow> ir_tx \<Rightarrow> ir_tx" where
  "emit_symbols [] t = t"
| "emit_symbols (s # ss) t =
     emit_symbols ss (busy_wait (space_us s) (carrier_off (busy_wait (mark_us s) (carrier_on t))))"

text \<open>One turn of the thread's loop.\<close>

definition ir_tx_thread_turn :: "ir_tx \<Rightarrow> ir_tx" where
  "ir_tx_thread_turn t =
     (if \<not> trigger t then t
      else
        let t = t\<lparr>trigger := False\<rparr>;
            t = emit_symbols (take (tx_count t) (tx_buf t)) t;
            t = carrier_off t
        in t\<lparr>done_sem := True\<rparr>)"

definition ir_tx_init :: "tx_hw \<Rightarrow> ir_tx \<Rightarrow> int \<times> ir_tx" where
  "ir_tx_init H t =
     (if tx_inited t then (0, t)
      else if \<not> pwm_ready H then (- ENODEV, t)
      else (0, (carrier_off (t\<lparr>trigger := False, done_sem := False\<rparr>))\<lparr>tx_inited := True\<rparr>))"

definition ir_tx_deinit :: "ir_tx \<Rightarrow> ir_tx" where
  "ir_tx_deinit t = t\<lparr>tx_inited := False\<rparr>"

definition ir_tx_is_ready :: "ir_tx \<Rightarrow> bool" where
  "ir_tx_is_ready t = tx_inited t"

definition ir_tx_set_carrier_hz :: "u32 \<Rightarrow> ir_tx \<Rightarrow> int \<times> ir_tx" where
  "ir_tx_set_carrier_hz hz t =
     (if hz < 25000 \<or> 60000 < hz then (- EINVAL, t) else (0, t\<lparr>carrier_hz := hz\<rparr>))"

definition ir_tx_get_carrier_hz :: "ir_tx \<Rightarrow> u32" where
  "ir_tx_get_carrier_hz t = carrier_hz t"

definition ir_tx_send_symbols :: "tx_hw \<Rightarrow> ir_symbol list option \<Rightarrow> ir_tx \<Rightarrow> int \<times> ir_tx" where
  "ir_tx_send_symbols H syms t =
     (if \<not> tx_inited t then (- EAGAIN, t)
      else case syms of None \<Rightarrow> (- EINVAL, t) | Some ss \<Rightarrow>
      if ss = [] then (- EINVAL, t)
      else if IR_TX_MAX_SYMBOLS < length ss then (- ENOMEM, t)
      else
        let t = t\<lparr>tx_buf := blit 0 ss (tx_buf t), tx_count := length ss, done_sem := False,
                  trigger := True\<rparr>
        in if thread_done H ss
           then (0, (ir_tx_thread_turn t)\<lparr>done_sem := False\<rparr>)
           else (- ETIMEDOUT, t))"

subsection \<open>Lemmas\<close>

text \<open>The events of one frame at a carrier.\<close>

definition symbol_events :: "u32 \<Rightarrow> ir_symbol \<Rightarrow> tx_event list" where
  "symbol_events hz s = (let p = 1000000000 div hz in
     [Pwm p (p div 3), Wait (mark_us s), Pwm p 0, Wait (space_us s)])"

definition frame_events :: "u32 \<Rightarrow> ir_symbol list \<Rightarrow> tx_event list" where
  "frame_events hz ss = concat (map (symbol_events hz) ss) @ [Pwm (1000000000 div hz) 0]"

definition tx_inv :: "ir_tx \<Rightarrow> bool" where
  "tx_inv t \<longleftrightarrow> length (tx_buf t) = IR_TX_MAX_SYMBOLS \<and> tx_count t \<le> IR_TX_MAX_SYMBOLS \<and>
     25000 \<le> carrier_hz t \<and> carrier_hz t \<le> 60000"

lemma tx_inv_boot: "tx_inv ir_tx_boot"
  by (simp add: tx_inv_def ir_tx_boot_def)

lemma emit_symbols_eq:
  "emit_symbols ss t = t\<lparr>wire := wire t @ concat (map (symbol_events (carrier_hz t)) ss)\<rparr>"
  by (induction ss arbitrary: t)
     (simp_all add: symbol_events_def carrier_on_def carrier_off_def busy_wait_def Let_def)

lemma thread_turn_eq:
  "trigger t \<Longrightarrow> ir_tx_thread_turn t = t\<lparr>trigger := False, done_sem := True,
     wire := wire t @ frame_events (carrier_hz t) (take (tx_count t) (tx_buf t))\<rparr>"
  by (simp add: ir_tx_thread_turn_def emit_symbols_eq carrier_off_def frame_events_def Let_def)

lemma tx_inv_ops:
  "tx_inv t \<Longrightarrow> tx_inv (snd (ir_tx_init H t))" "tx_inv t \<Longrightarrow> tx_inv (ir_tx_deinit t)"
  "tx_inv t \<Longrightarrow> tx_inv (snd (ir_tx_set_carrier_hz hz t))"
  "tx_inv t \<Longrightarrow> tx_inv (ir_tx_thread_turn t)"
  "tx_inv t \<Longrightarrow> tx_inv (snd (ir_tx_send_symbols H syms t))"
  by (auto simp: tx_inv_def ir_tx_init_def ir_tx_deinit_def ir_tx_set_carrier_hz_def carrier_off_def
      ir_tx_thread_turn_def emit_symbols_eq ir_tx_send_symbols_def Let_def not_less
      split: option.split)

lemma send_ok:
  assumes "tx_inv t" "tx_inited t" "ss \<noteq> []" "length ss \<le> IR_TX_MAX_SYMBOLS" "thread_done H ss"
  shows "fst (ir_tx_send_symbols H (Some ss) t) = 0 \<and>
    wire (snd (ir_tx_send_symbols H (Some ss) t)) = wire t @ frame_events (carrier_hz t) ss \<and>
    tx_inited (snd (ir_tx_send_symbols H (Some ss) t)) \<and>
    carrier_hz (snd (ir_tx_send_symbols H (Some ss) t)) = carrier_hz t"
  using assms by (simp add: ir_tx_send_symbols_def Let_def thread_turn_eq tx_inv_def blit_def)

lemma send_fail:
  assumes "ir_tx_send_symbols H syms t = (rc, t')" "rc \<noteq> 0"
  shows "wire t' = wire t \<and> tx_inited t' = tx_inited t \<and> carrier_hz t' = carrier_hz t"
  using assms by (auto simp: ir_tx_send_symbols_def Let_def split: if_splits option.splits)

subsection \<open>Properties\<close>

text \<open>A send is refused before init, for NULL or no symbols and for more than 384, leaving the
  wire alone; otherwise, if the thread keeps up, exactly the symbols go out at the carrier, one
  third duty in every mark, none in any space, and the carrier is off at the end.\<close>

theorem send_symbols_outcome:
  assumes "tx_inv t"
  shows "ir_tx_send_symbols H syms t =
    (if \<not> tx_inited t then (- EAGAIN, t)
     else if syms = None \<or> syms = Some [] then (- EINVAL, t)
     else if IR_TX_MAX_SYMBOLS < length (the syms) then (- ENOMEM, t)
     else (let t' = t\<lparr>tx_buf := blit 0 (the syms) (tx_buf t), tx_count := length (the syms),
                      done_sem := False\<rparr>
           in if thread_done H (the syms)
              then (0, t'\<lparr>trigger := False, wire := wire t @ frame_events (carrier_hz t) (the syms)\<rparr>)
              else (- ETIMEDOUT, t'\<lparr>trigger := True\<rparr>)))"
  using assms
  by (auto simp: ir_tx_send_symbols_def Let_def thread_turn_eq tx_inv_def blit_def split: option.split)

definition demo_tx_hw :: tx_hw where
  "demo_tx_hw = \<lparr>pwm_ready = True, thread_done = (\<lambda>_. True)\<rparr>"

lemma send_symbols_outcome_witness:
  "fst (ir_tx_send_symbols demo_tx_hw (Some [ir_symbol_make 1 2]) ir_tx_boot) = - EAGAIN"
  using send_symbols_outcome [OF tx_inv_boot, of demo_tx_hw "Some [ir_symbol_make 1 2]"]
  by (simp add: ir_tx_boot_def)

text \<open>The carrier stays between 25 and 60 kHz through every operation, so the period handed to
  the PWM is never a division by zero and the pulse of a mark is positive.\<close>

theorem carrier_bounds:
  assumes "tx_inv t"
  shows "tx_inv (snd (ir_tx_set_carrier_hz hz t)) \<and> tx_inv (snd (ir_tx_send_symbols H syms t)) \<and>
    tx_inv (snd (ir_tx_init H t)) \<and> tx_inv (ir_tx_thread_turn t) \<and> carrier_hz t \<noteq> 0 \<and>
    16666 \<le> 1000000000 div carrier_hz t \<and> 0 < (1000000000 div carrier_hz t) div 3"
proof -
  have c: "25000 \<le> unat (carrier_hz t)" "unat (carrier_hz t) \<le> 60000"
    using assms by (simp_all add: tx_inv_def word_le_nat_alt)
  have d: "unat (1000000000 div carrier_hz t) = 1000000000 div unat (carrier_hz t)"
    by (simp add: unat_div)
  have "1000000000 div 60000 \<le> 1000000000 div unat (carrier_hz t)"
    using c by (intro div_le_mono2) simp_all
  then have p: "16666 \<le> unat (1000000000 div carrier_hz t)" unfolding d by simp
  then have "0 < unat ((1000000000 div carrier_hz t) div 3)" by (simp add: unat_div div_greater_zero_iff)
  then show ?thesis
    using tx_inv_ops [OF assms] p c
    by (simp add: word_le_nat_alt word_less_nat_alt) auto
qed

lemma carrier_bounds_witness: "16666 \<le> 1000000000 div carrier_hz ir_tx_boot"
  using carrier_bounds [OF tx_inv_boot] by blast

end
