(* ===== verification/IrDecode.thy ===== *)
theory IrDecode
  imports SamsungAc
begin

text \<open>
  The infrared decoder \<open>app/ir/ir_decode.c\<close>: the timing window, the space-encoded bit
  reader, the two Samsung air-conditioner readers (whole frame, one section) and the
  protocol decision \<open>ir_decode\<close>.  \<open>syms\<close> and \<open>count\<close> are one list; \<open>raw_bytes\<close> keeps the
  bytes written, the rest of the 24-byte array is the \<open>memset\<close> zero.
\<close>

datatype ir_proto = IR_PROTO_UNKNOWN | IR_PROTO_NEC | IR_PROTO_NEC_EXT | IR_PROTO_NEC_REPEAT
  | IR_PROTO_LG_AC | IR_PROTO_SAMSUNG_AC

record ir_decoded =
  proto :: ir_proto
  address :: u16
  command :: u8
  raw_bytes :: "u8 list"
  byte_count :: nat
  raw_bits :: u32
  bit_count :: nat
  repeat :: bool

definition ir_decoded_zero :: ir_decoded where
  "ir_decoded_zero = \<lparr>proto = IR_PROTO_UNKNOWN, address = 0, command = 0,
     raw_bytes = replicate 24 0, byte_count = 0, raw_bits = 0, bit_count = 0, repeat = False\<rparr>"

subsection \<open>Readers\<close>

definition in_range :: "u32 \<Rightarrow> u32 \<Rightarrow> bool" where
  "in_range v ref \<longleftrightarrow> ref * 3 div 4 \<le> v \<and> v \<le> ref * 5 div 4"

abbreviation mark32 :: "ir_symbol \<Rightarrow> u32" where "mark32 s \<equiv> ucast (mark_us s)"
abbreviation space32 :: "ir_symbol \<Rightarrow> u32" where "space32 s \<equiv> ucast (space_us s)"

text \<open>The loop from \<open>syms[1]\<close> on: the number of bits read and the bits.\<close>

fun space_bits :: "u32 \<Rightarrow> u32 \<Rightarrow> u32 \<Rightarrow> nat \<Rightarrow> nat \<Rightarrow> u32 \<Rightarrow> ir_symbol list \<Rightarrow> nat \<times> u32" where
  "space_bits bm zero one mx n bits [] = (n, bits)"
| "space_bits bm zero one mx n bits (s # ss) =
     (if mx \<le> n then (n, bits)
      else if \<not> in_range (mark32 s) bm then (n, bits)
      else if space_us s = 0 then (n + 1, bits)
      else if in_range (space32 s) zero then space_bits bm zero one mx (n + 1) bits ss
      else if in_range (space32 s) one
        then space_bits bm zero one mx (n + 1) (bits OR push_bit n 1) ss
      else (n, bits))"

definition decode_space_bits :: "ir_symbol list \<Rightarrow> u32 \<Rightarrow> u32 \<Rightarrow> u32 \<Rightarrow> nat \<Rightarrow> nat \<times> u32" where
  "decode_space_bits syms bm zero one mx = space_bits bm zero one mx 0 0 (drop 1 syms)"

text \<open>One data symbol of a Samsung section: its bit, or none if the timing is off.\<close>

definition sac_bit :: "ir_symbol \<Rightarrow> u8 option" where
  "sac_bit s = (if \<not> in_range (mark32 s) 586 then None
     else if in_range (space32 s) 1432 then Some 1
     else if in_range (space32 s) 436 \<or> space_us s = 0 then Some 0
     else None)"

text \<open>The inner loop of \<open>decode_samsung_ac_bytes\<close>: bits left, current byte and bit position,
  the bytes written so far; it returns the bytes and the symbols not consumed.\<close>

fun sac_bits :: "nat \<Rightarrow> nat \<Rightarrow> u8 \<Rightarrow> nat \<Rightarrow> u8 list \<Rightarrow> ir_symbol list \<Rightarrow> u8 list \<times> ir_symbol list" where
  "sac_bits cap left cur pos out [] = (out, [])"
| "sac_bits cap left cur pos out (s # ss) =
     (if left = 0 then (out, s # ss)
      else case sac_bit s of None \<Rightarrow> (out, s # ss)
      | Some b \<Rightarrow>
          let cur = cur OR push_bit pos b in
          if pos + 1 = 8
          then sac_bits cap (left - 1) 0 0 (if length out < cap then out @ [cur] else out) ss
          else sac_bits cap (left - 1) cur (pos + 1) out ss)"

lemma sac_bits_shorter: "sac_bits cap left cur pos out ss = (out', rest) \<Longrightarrow> length rest \<le> length ss"
  by (induction cap left cur pos out ss rule: sac_bits.induct)
     (auto simp: Let_def intro: le_SucI split: if_splits option.splits)

definition sac_skip_foot :: "ir_symbol list \<Rightarrow> ir_symbol list" where
  "sac_skip_foot ss = (case ss of [] \<Rightarrow> [] | s # r \<Rightarrow> if in_range (mark32 s) 586 then r else s # r)"

definition sac_header :: "ir_symbol \<Rightarrow> bool" where
  "sac_header s \<longleftrightarrow> in_range (mark32 s) 3086 \<and> in_range (space32 s) 8864"

function sac_sections :: "nat \<Rightarrow> u8 list \<Rightarrow> ir_symbol list \<Rightarrow> u8 list" where
  "sac_sections cap out [] = out"
| "sac_sections cap out (s # ss) =
     (if cap \<le> length out then out
      else if \<not> sac_header s then out
      else case sac_bits cap 56 0 0 out ss of (out, rest) \<Rightarrow>
        sac_sections cap out (sac_skip_foot rest))"
  by pat_completeness auto

lemma sac_skip_foot_le: "length (sac_skip_foot ss) \<le> length ss"
  by (simp add: sac_skip_foot_def split: list.split)

termination sac_sections
  by (relation "measure (\<lambda>(cap, out, ss). length ss)")
     (auto simp: less_Suc_eq_le dest!: sac_bits_shorter [OF sym]
       intro: le_trans [OF sac_skip_foot_le])

definition decode_samsung_ac_bytes :: "ir_symbol list \<Rightarrow> nat \<Rightarrow> u8 list" where
  "decode_samsung_ac_bytes syms cap = sac_sections cap [] syms"

text \<open>One section at symbol offset \<open>58 * idx\<close>, read on its own.\<close>

fun section_bits :: "nat \<Rightarrow> u8 \<Rightarrow> nat \<Rightarrow> u8 list \<Rightarrow> ir_symbol list \<Rightarrow> u8 list option" where
  "section_bits 0 cur bp out ss = Some out"
| "section_bits (Suc k) cur bp out [] = None"
| "section_bits (Suc k) cur bp out (s # ss) =
     (case sac_bit s of None \<Rightarrow> None
      | Some b \<Rightarrow>
          let cur = cur OR push_bit bp b in
          if bp + 1 = 8 then section_bits k 0 0 (out @ [cur]) ss
          else section_bits k cur (bp + 1) out ss)"

definition ir_decode_samsung_ac_section :: "ir_symbol list option \<Rightarrow> nat \<Rightarrow> int \<times> u8 list" where
  "ir_decode_samsung_ac_section syms sec_index = (case syms of None \<Rightarrow> (- 1, [])
    | Some ss \<Rightarrow>
        let hdr = sec_index * 58 in
        if length ss \<le> hdr + 57 then (- 1, [])
        else if \<not> sac_header (ss ! hdr) then (- 1, [])
        else case section_bits 56 0 0 [] (drop (hdr + 1) ss) of
          None \<Rightarrow> (0, []) | Some out \<Rightarrow> (1, out))"

subsection \<open>The decision\<close>

definition ir_decode :: "ir_symbol list option \<Rightarrow> int \<times> ir_decoded" where
  "ir_decode syms = (case syms of None \<Rightarrow> (- 1, ir_decoded_zero) | Some [] \<Rightarrow> (- 1, ir_decoded_zero)
   | Some (s0 # ss) \<Rightarrow>
     let out = ir_decoded_zero; hdr_mark = mark32 s0; hdr_space = space32 s0; cnt = length (s0 # ss);
         global_hdr = (in_range hdr_mark 690 \<and> in_range hdr_space 17844);
         section_hdr = sac_header s0
     in if global_hdr \<or> section_hdr then
          let bytes = decode_samsung_ac_bytes (if global_hdr then ss else s0 # ss) 24 in
          (if bytes \<noteq> [] then 0 else - 2,
           out\<lparr>proto := IR_PROTO_SAMSUNG_AC, byte_count := length bytes,
               raw_bytes := bytes @ replicate (24 - length bytes) 0\<rparr>)
        else
          let lg = (if in_range hdr_mark 8500 \<and> in_range hdr_space 4250 \<and> 29 \<le> cnt
                    then decode_space_bits (s0 # ss) 560 560 1600 28 else (0, 0));
              lbits = snd lg; laddr = ucast lbits :: u8; lcmd = ucast (drop_bit 8 lbits) :: u8;
              linv = ucast (drop_bit 16 lbits) :: u8
          in if fst lg = 28 \<and> lcmd XOR linv = 0xFF
             then (0, out\<lparr>proto := IR_PROTO_LG_AC, address := ucast laddr, command := lcmd,
                      raw_bits := lbits, bit_count := 28\<rparr>)
             else if in_range hdr_mark 9000 \<and> in_range hdr_space 2250
             then (0, out\<lparr>proto := IR_PROTO_NEC_REPEAT, repeat := True\<rparr>)
             else if in_range hdr_mark 9000 \<and> in_range hdr_space 4500 \<and> 33 \<le> cnt then
               (case decode_space_bits (s0 # ss) 562 562 1687 32 of (n, bits) \<Rightarrow>
                  let lo = ucast bits :: u8; hi = ucast (drop_bit 8 bits) :: u8;
                      cmd = ucast (drop_bit 16 bits) :: u8; inv = ucast (drop_bit 24 bits) :: u8
                  in if n \<noteq> 32 then (- 2, out)
                     else if cmd XOR inv \<noteq> 0xFF then (- 2, out)
                     else
                       let out = out\<lparr>raw_bits := bits, bit_count := 32, command := cmd\<rparr> in
                       if lo XOR hi = 0xFF
                       then (0, out\<lparr>proto := IR_PROTO_NEC, address := ucast lo\<rparr>)
                       else (0, out\<lparr>proto := IR_PROTO_NEC_EXT,
                              address := push_bit 8 (ucast hi) OR ucast lo\<rparr>))
             else (- 2, out))"

fun ir_proto_name :: "ir_proto \<Rightarrow> string" where
  "ir_proto_name IR_PROTO_NEC = ''NEC''"
| "ir_proto_name IR_PROTO_NEC_EXT = ''NEC_EXT''"
| "ir_proto_name IR_PROTO_NEC_REPEAT = ''NEC_REPEAT''"
| "ir_proto_name IR_PROTO_LG_AC = ''LG_AC''"
| "ir_proto_name IR_PROTO_SAMSUNG_AC = ''SAMSUNG_AC''"
| "ir_proto_name _ = ''UNKNOWN''"

subsection \<open>Reading a jittered Samsung frame\<close>

text \<open>A received symbol whose mark and space are inside the window of the ideal one.  The gap
  after a section is free: the last one of a capture is silence and arrives as 0.\<close>

definition within :: "ir_symbol \<Rightarrow> ir_symbol \<Rightarrow> bool" where
  "within ideal got \<longleftrightarrow> in_range (mark32 got) (mark32 ideal) \<and>
     (space_us ideal = SAC_GAP \<or> space_us ideal = SAC_FINAL_GAP \<or>
      in_range (space32 got) (space32 ideal))"

definition jitter :: "ir_symbol list \<Rightarrow> ir_symbol list \<Rightarrow> bool" where
  "jitter ideal got = list_all2 within ideal got"

lemma jitter_Cons [simp]: "jitter (x # xs) ys \<longleftrightarrow> (\<exists>y zs. ys = y # zs \<and> within x y \<and> jitter xs zs)"
  by (simp add: jitter_def list_all2_Cons1)

lemma jitter_Nil [simp]: "jitter [] ys \<longleftrightarrow> ys = []"
  by (simp add: jitter_def)

lemma jitter_append: "jitter (xs @ ys) zs \<longleftrightarrow> (\<exists>us vs. zs = us @ vs \<and> jitter xs us \<and> jitter ys vs)"
  by (auto simp: jitter_def list_all2_append1 dest: list_all2_lengthD intro: list_all2_appendI)
     (metis list_all2_lengthD)

lemma jitter_length: "jitter xs ys \<Longrightarrow> length ys = length xs"
  by (simp add: jitter_def list_all2_lengthD)

lemma jitter_drop: "jitter xs ys \<Longrightarrow> jitter (drop n xs) (drop n ys)"
  by (simp add: jitter_def list_all2_dropI)

lemma sac_bit_within:
  "within (ir_symbol_make SAC_BIT_MARK (if x then SAC_ONE_SPACE else SAC_ZERO_SPACE)) t
    \<Longrightarrow> sac_bit t = Some (of_bool x)"
  by (auto simp: within_def sac_bit_def in_range_def word_le_nat_alt split: if_splits)

lemma sac_header_within: "within (ir_symbol_make SAC_SEC_MARK SAC_SEC_SPACE) t \<Longrightarrow> sac_header t"
  by (simp add: within_def sac_header_def)

lemma take_bit_next: "take_bit n b OR push_bit n (of_bool (bit b n)) = take_bit (Suc n) (b :: 'a::len word)"
  by (rule bit_word_eqI) (auto simp: bit_simps less_Suc_eq)

lemma take_bit_byte: "take_bit 8 (b :: u8) = b"
  by (rule bit_word_eqI) (auto simp: bit_simps)

text \<open>The bits of one byte from position \<open>pos\<close> on, as they arrive.\<close>

definition bits_of :: "u8 \<Rightarrow> nat \<Rightarrow> ir_symbol list \<Rightarrow> bool" where
  "bits_of b pos ss = list_all2 (\<lambda>j t. sac_bit t = Some (of_bool (bit b j))) [pos..<8] ss"

lemma bits_of_Cons: "pos < 8 \<Longrightarrow> bits_of b pos ss \<Longrightarrow>
    \<exists>t ts. ss = t # ts \<and> sac_bit t = Some (of_bool (bit b pos)) \<and> bits_of b (Suc pos) ts"
  by (simp add: bits_of_def upt_conv_Cons list_all2_Cons1)

lemma bits_of_jitter: "jitter (byte_syms b) ss \<Longrightarrow> bits_of b 0 ss"
  unfolding byte_syms_def jitter_def bits_of_def list_all2_map1
  by (erule list_all2_mono) (rule sac_bit_within)

lemma sac_bits_byte:
  assumes "bits_of b pos ss" "pos < 8" "length out < cap"
  shows "sac_bits cap (8 - pos + left) (take_bit pos b) pos out (ss @ rest)
    = sac_bits cap left 0 0 (out @ [b]) rest"
  using assms
proof (induction "8 - pos" arbitrary: pos ss)
  case (Suc k)
  from bits_of_Cons [OF Suc.prems(2,1)] obtain t ts where t: "ss = t # ts"
    "sac_bit t = Some (of_bool (bit b pos))" "bits_of b (Suc pos) ts" by auto
  have l: "8 - pos + left - 1 = 8 - Suc pos + left" using Suc.prems(2) by simp
  show ?case
  proof (cases "pos + 1 = 8")
    case True
    then have "ts = []" "pos = 7" using t(3) by (auto simp: bits_of_def)
    then show ?thesis
      using t True Suc.prems(3) take_bit_next [of 7 b] take_bit_byte [of b] by (simp add: Let_def)
  next
    case False
    then have "sac_bits cap (8 - pos + left) (take_bit pos b) pos out (ss @ rest)
      = sac_bits cap (8 - Suc pos + left) (take_bit (Suc pos) b) (Suc pos) out (ts @ rest)"
      using t l Suc.prems(2) take_bit_next [of pos b] by (simp add: Let_def)
    then show ?thesis using Suc.hyps(1) [of "Suc pos" ts] Suc.hyps(2) t(3) False Suc.prems by simp
  qed
qed simp

lemma section_bits_byte:
  assumes "bits_of b pos ss" "pos < 8"
  shows "section_bits (8 - pos + k) (take_bit pos b) pos out (ss @ rest)
    = section_bits k 0 0 (out @ [b]) rest"
  using assms
proof (induction "8 - pos" arbitrary: pos ss)
  case (Suc m)
  from bits_of_Cons [OF Suc.prems(2,1)] obtain t ts where t: "ss = t # ts"
    "sac_bit t = Some (of_bool (bit b pos))" "bits_of b (Suc pos) ts" by auto
  have l: "8 - pos + k = Suc (8 - Suc pos + k)" using Suc.prems(2) by simp
  show ?case
  proof (cases "pos + 1 = 8")
    case True
    then have "ts = []" "pos = 7" using t(3) by (auto simp: bits_of_def)
    then show ?thesis
      using t True take_bit_next [of 7 b] take_bit_byte [of b] by (simp add: Let_def)
  next
    case False
    then have "section_bits (8 - pos + k) (take_bit pos b) pos out (ss @ rest)
      = section_bits (8 - Suc pos + k) (take_bit (Suc pos) b) (Suc pos) out (ts @ rest)"
      unfolding l using t take_bit_next [of pos b] by (simp add: Let_def)
    then show ?thesis using Suc.hyps(1) [of "Suc pos" ts] Suc.hyps(2) t(3) False Suc.prems by simp
  qed
qed simp

lemma sac_bits_bytes:
  assumes "jitter (concat (map byte_syms bs)) ss" "length out + length bs \<le> cap"
  shows "sac_bits cap (8 * length bs + left) 0 0 out (ss @ rest) = sac_bits cap left 0 0 (out @ bs) rest"
  using assms
proof (induction bs arbitrary: out ss)
  case (Cons b bs)
  then obtain us vs where ss: "ss = us @ vs" "jitter (byte_syms b) us"
    "jitter (concat (map byte_syms bs)) vs" by (auto simp: jitter_append)
  have "8 * length (b # bs) + left = 8 + (8 * length bs + left)" by simp
  then show ?case
    using sac_bits_byte [OF bits_of_jitter [OF ss(2)], of out cap "8 * length bs + left" "vs @ rest"]
      Cons.IH [OF ss(3), of "out @ [b]"] Cons.prems(2)
    by (simp add: ss(1) add.assoc)
qed simp

lemma section_bits_bytes:
  assumes "jitter (concat (map byte_syms bs)) ss"
  shows "section_bits (8 * length bs + k) 0 0 out (ss @ rest) = section_bits k 0 0 (out @ bs) rest"
  using assms
proof (induction bs arbitrary: out ss)
  case (Cons b bs)
  then obtain us vs where ss: "ss = us @ vs" "jitter (byte_syms b) us"
    "jitter (concat (map byte_syms bs)) vs" by (auto simp: jitter_append)
  have "8 * length (b # bs) + k = 8 + (8 * length bs + k)" by simp
  then show ?case
    using section_bits_byte [OF bits_of_jitter [OF ss(2)], of "8 * length bs + k" out "vs @ rest"]
      Cons.IH [OF ss(3), of "out @ [b]"]
    by (simp add: ss(1) add.assoc)
qed simp

lemma foot_within: "within (ir_symbol_make SAC_BIT_MARK g) t \<Longrightarrow> sac_skip_foot (t # ss) = ss"
  by (simp add: within_def sac_skip_foot_def)

lemma jitter_sectionE:
  assumes "jitter (sac_section sec nxt) ss" "7 \<le> length sec"
  obtains h bits f where "ss = h # bits @ [f]" "sac_header h" "length bits = 56"
    "jitter (concat (map byte_syms (take 7 sec))) bits" "\<And>r. sac_skip_foot (f # r) = r"
proof -
  obtain h bits f where *: "ss = h # bits @ [f]" "within (ir_symbol_make SAC_SEC_MARK SAC_SEC_SPACE) h"
    "jitter (concat (map byte_syms (take 7 sec))) bits"
    "within (ir_symbol_make SAC_BIT_MARK (if nxt then SAC_GAP else SAC_FINAL_GAP)) f"
    using assms(1) unfolding sac_section_bytes [OF assms(2)] by (auto simp: jitter_append)
  have "length ss = 58" using jitter_length [OF assms(1)] by simp
  then show ?thesis using * that sac_header_within foot_within by simp
qed

lemma sac_sections_step:
  assumes "jitter (sac_section sec nxt) ss" "7 \<le> length sec" "length out + 7 \<le> cap"
  shows "sac_sections cap out (ss @ rest) = sac_sections cap (out @ take 7 sec) rest"
proof -
  obtain h bits f where ss: "ss = h # bits @ [f]" "sac_header h"
    and b: "jitter (concat (map byte_syms (take 7 sec))) bits" and f: "\<And>r. sac_skip_foot (f # r) = r"
    using jitter_sectionE [OF assms(1,2)] by metis
  have "sac_bits cap 56 0 0 out (bits @ f # rest) = (out @ take 7 sec, f # rest)"
    using sac_bits_bytes [OF b, of out cap 0 "f # rest"] assms(2,3) by simp
  then show ?thesis using ss f assms(3) by simp
qed

lemma sac_sections_all:
  assumes "jitter (concat (map (\<lambda>(sec, nxt). sac_section sec nxt) secs)) ss"
    "\<forall>(sec, nxt) \<in> set secs. 7 \<le> length sec" "length out + 7 * length secs \<le> cap"
  shows "sac_sections cap out ss = out @ concat (map (\<lambda>(sec, nxt). take 7 sec) secs)"
  using assms
proof (induction secs arbitrary: out ss)
  case (Cons p secs)
  obtain sec nxt where p: "p = (sec, nxt)" by force
  obtain us vs where ss: "ss = us @ vs" "jitter (sac_section sec nxt) us"
    "jitter (concat (map (\<lambda>(sec, nxt). sac_section sec nxt) secs)) vs"
    using Cons.prems(1) by (auto simp: p jitter_append)
  show ?case
    using sac_sections_step [OF ss(2), of out cap vs] Cons.IH [OF ss(3), of "out @ take 7 sec"]
      Cons.prems by (auto simp: p ss(1))
qed simp

text \<open>The frame the encoder emits after its global header.\<close>

definition sac_body :: "u8 list \<Rightarrow> ir_symbol list" where
  "sac_body d = concat (map (\<lambda>s. sac_section (drop (s * 7) d) (s + 1 < length d div 7)) [0..<length d div 7])"

lemma encode_body:
  "ir_codec_samsung_ac_encode (Some d) (Some c) = Inr syms \<Longrightarrow>
    syms = ir_symbol_make SAC_HDR_MARK SAC_HDR_SPACE # sac_body d \<and>
    d \<noteq> [] \<and> length d = 7 * (length d div 7) \<and> length d \<le> 21"
  by (auto simp: ir_codec_samsung_ac_encode_def Let_def sac_body_def split: if_splits)

lemma decode_body:
  assumes "jitter (sac_body d) ss" "length d = 7 * (length d div 7)" "length d \<le> cap"
  shows "decode_samsung_ac_bytes ss cap = d"
proof -
  define n where "n = length d div 7"
  define secs where "secs = map (\<lambda>s. (drop (s * 7) d, s + 1 < n)) [0..<n]"
  have d: "length d = 7 * n" using assms(2) by (simp add: n_def)
  have "jitter (concat (map (\<lambda>(sec, nxt). sac_section sec nxt) secs)) ss"
    using assms(1) by (simp add: sac_body_def secs_def n_def o_def)
  moreover have "\<forall>(sec, nxt) \<in> set secs. 7 \<le> length sec" using d by (auto simp: secs_def)
  moreover have "length [] + 7 * length secs \<le> cap" using assms(3) d by (simp add: secs_def)
  ultimately have "sac_sections cap [] ss = concat (map (\<lambda>(sec, nxt). take 7 sec) secs)"
    using sac_sections_all [of secs ss "[]" cap] by simp
  also have "\<dots> = concat (map (\<lambda>i. take 7 (drop (7 * i) d)) [0..<n])"
    by (simp add: secs_def o_def mult.commute)
  also have "\<dots> = d" using sections_of_blocks [OF d] by simp
  finally show ?thesis by (simp add: decode_samsung_ac_bytes_def)
qed

lemma drop_sac_body:
  assumes "length d = 7 * n" "k < n"
  obtains rest where "drop (58 * k) (sac_body d) = sac_section (drop (k * 7) d) (k + 1 < n) @ rest"
proof -
  have n: "length d div 7 = n" using assms(1) by simp
  have s: "[0..<n] = [0..<k] @ k # [Suc k..<n]"
    using upt_add_eq_append [of 0 k "n - k"] upt_conv_Cons [of k n] assms(2) by simp
  have l: "length (concat (map (\<lambda>s. sac_section (drop (s * 7) d) (s + 1 < n)) [0..<k])) = 58 * k"
    by (subst length_concat_const [where k = 58]) simp_all
  have "sac_body d = concat (map (\<lambda>s. sac_section (drop (s * 7) d) (s + 1 < n)) [0..<k])
      @ sac_section (drop (k * 7) d) (k + 1 < n)
      @ concat (map (\<lambda>s. sac_section (drop (s * 7) d) (s + 1 < n)) [Suc k..<n])"
    unfolding sac_body_def n s by simp
  then show ?thesis using that l by simp
qed

lemma within_same:
  "mark_us s \<in> {690, 3086, 586} \<Longrightarrow> space_us s \<in> {17844, 8864, 436, 1432, 2886, 20000} \<Longrightarrow> within s s"
  by (auto simp: within_def in_range_def)

lemma sac_body_set:
  "s \<in> set (sac_body d) \<Longrightarrow> mark_us s \<in> {690, 3086, 586} \<and>
     space_us s \<in> {17844, 8864, 436, 1432, 2886, 20000}"
  by (auto simp: sac_body_def sac_section_def sac_bit_sym_def split: if_splits)

lemma sac_body_last:
  assumes "d \<noteq> []" "length d = 7 * (length d div 7)"
  shows "space_us (last (sac_body d)) = SAC_FINAL_GAP"
proof -
  obtain n where n: "length d div 7 = Suc n" using assms by (cases "length d div 7") auto
  show ?thesis by (simp add: sac_body_def n sac_section_def)
qed

text \<open>An exact copy is inside every window.\<close>

lemma jitter_same: "ir_codec_samsung_ac_encode (Some d) (Some c) = Inr syms \<Longrightarrow> jitter syms syms"
  using encode_body [of d c syms] sac_body_set [of _ d]
  by (auto simp: jitter_def list_all2_same intro!: within_same)

text \<open>Each section of a body can be read on its own.\<close>

lemma decode_section:
  assumes "jitter (sac_body d) ss" "length d = 7 * n" "k < n"
  shows "ir_decode_samsung_ac_section (Some ss) k = (1, take 7 (drop (7 * k) d))"
proof -
  obtain rest where "drop (58 * k) (sac_body d) = sac_section (drop (k * 7) d) (k + 1 < n) @ rest"
    using drop_sac_body [OF assms(2,3)] by metis
  then obtain us vs where v: "drop (58 * k) ss = us @ vs"
    "jitter (sac_section (drop (k * 7) d) (k + 1 < n)) us"
    using jitter_drop [OF assms(1), of "58 * k"] by (auto simp: jitter_append)
  have "7 \<le> length (drop (k * 7) d)" using assms(2,3) by simp
  from jitter_sectionE [OF v(2) this] obtain h bits f where us: "us = h # bits @ [f]" "sac_header h"
    "length bits = 56" "jitter (concat (map byte_syms (take 7 (drop (k * 7) d)))) bits" by metis
  have lk: "58 * k + 58 \<le> length ss"
  proof -
    have "length (drop (58 * k) ss) = 58 + length vs" using v(1) us by simp
    then show ?thesis by simp
  qed
  have h: "ss ! (k * 58) = h"
    using v(1) us(1) lk by (metis append_Cons hd_drop_conv_nth list.sel(1) mult.commute
        add_leD1 less_le_trans less_add_same_cancel1 zero_less_numeral)
  have "drop (k * 58 + 1) ss = bits @ [f] @ vs"
    using v(1) us(1) by (metis append.assoc append_Cons drop_Suc_Cons drop_drop drop0 mult.commute
        One_nat_def add.commute)
  moreover have "7 \<le> length d - k * 7" using assms(2,3) by simp
  then have "section_bits 56 0 0 [] (bits @ [f] @ vs) = Some (take 7 (drop (k * 7) d))"
    using section_bits_bytes [OF us(4), of 0 "[]" "[f] @ vs"] by simp
  ultimately show ?thesis
    using lk us(2) h by (simp add: ir_decode_samsung_ac_section_def Let_def mult.commute)
qed

lemma samsung_split:
  assumes "ir_codec_samsung_ac_encode (Some d) (Some c) = Inr syms" "jitter (tl syms) got"
    and "k < length d div 7"
  shows "ir_decode_samsung_ac_section (Some got) k = (1, take 7 (drop (7 * k) d)) \<and>
    fst (ir_decode (Some got)) = 0 \<and>
    take (length d) (raw_bytes (snd (ir_decode (Some got)))) = d"
proof -
  note e = encode_body [OF assms(1)]
  then have g: "jitter (sac_body d) got" using assms(2) by simp
  obtain rest where "sac_body d = sac_section d (1 < length d div 7) @ rest"
    using drop_sac_body [of d "length d div 7" 0] e assms(3) by auto
  then obtain h ss where h: "got = h # ss" "within (ir_symbol_make SAC_SEC_MARK SAC_SEC_SPACE) h"
    using g by (auto simp: sac_section_def)
  have "\<not> in_range (mark32 h) 690"
    using h(2) by (auto simp: within_def in_range_def word_le_nat_alt)
  then have "fst (ir_decode (Some got)) = 0 \<and> take (length d) (raw_bytes (snd (ir_decode (Some got)))) = d"
    using sac_header_within [OF h(2)] decode_body [OF g, of 24] e
    unfolding h(1) by (simp add: ir_decode_def Let_def)
  moreover have "ir_decode_samsung_ac_section (Some got) k = (1, take 7 (drop (7 * k) d))"
    using decode_section [OF g _ assms(3)] e by simp
  ultimately show ?thesis by simp
qed

subsection \<open>Space-encoded frames\<close>

text \<open>An ideal frame: header, \<open>nb\<close> bits of \<open>w\<close> lowest first, the stop mark.\<close>

definition space_sym :: "u16 \<Rightarrow> u16 \<Rightarrow> u16 \<Rightarrow> u32 \<Rightarrow> nat \<Rightarrow> ir_symbol" where
  "space_sym bm zero one w i = ir_symbol_make bm (if bit w i then one else zero)"

definition space_frame :: "u16 \<Rightarrow> u16 \<Rightarrow> u16 \<Rightarrow> u16 \<Rightarrow> u16 \<Rightarrow> nat \<Rightarrow> u32 \<Rightarrow> ir_symbol list" where
  "space_frame hm hs bm zero one nb w =
     ir_symbol_make hm hs # map (space_sym bm zero one w) [0..<nb] @ [ir_symbol_make bm 0]"

definition nec_frame :: "u32 \<Rightarrow> ir_symbol list" where
  "nec_frame w = space_frame 9000 4500 562 562 1687 32 w"

definition lg_frame :: "u32 \<Rightarrow> ir_symbol list" where
  "lg_frame w = space_frame 8500 4250 560 560 1600 28 w"

lemma space_bits_full: "n = mx \<Longrightarrow> space_bits bm zero one mx n bits ss = (n, bits)"
  by (cases ss) simp_all

lemma space_bits_frame:
  assumes "in_range (ucast bm) bm'" "in_range (ucast zero) zero'" "in_range (ucast one) one'"
    "\<not> in_range (ucast one) zero'" "zero \<noteq> 0" "one \<noteq> 0" "n \<le> mx" "mx \<le> nb"
  shows "space_bits bm' zero' one' mx n (take_bit n w) (map (space_sym bm zero one w) [n..<nb] @ rest)
    = (mx, take_bit mx w)"
  using assms(7)
proof (induction "mx - n" arbitrary: n)
  case 0
  then show ?case by (simp add: space_bits_full)
next
  case (Suc k)
  then have "n < nb" "n < mx" using assms(8) by auto
  then have u: "[n..<nb] = n # [Suc n..<nb]" by (simp add: upt_conv_Cons)
  have t: "take_bit (Suc n) w = (if bit w n then take_bit n w OR push_bit n 1 else take_bit n w)"
    using take_bit_next [of n w] by auto
  show ?case
    using Suc.hyps(1) [of "Suc n"] Suc.hyps(2) \<open>n < mx\<close> assms(1-6)
    unfolding u by (auto simp: space_sym_def t)
qed

lemma decode_space_frame:
  assumes "in_range (ucast bm) bm'" "in_range (ucast zero) zero'" "in_range (ucast one) one'"
    "\<not> in_range (ucast one) zero'" "zero \<noteq> 0" "one \<noteq> 0" "mx \<le> nb"
  shows "decode_space_bits (space_frame hm hs bm zero one nb w) bm' zero' one' mx = (mx, take_bit mx w)"
  using space_bits_frame [OF assms(1-6) _ assms(7), of 0 w "[ir_symbol_make bm 0]"]
  by (simp add: decode_space_bits_def space_frame_def)

lemma nec_readings:
  "decode_space_bits (nec_frame w) 560 560 1600 28 = (28, take_bit 28 w)"
  "decode_space_bits (nec_frame w) 562 562 1687 32 = (32, w)"
proof -
  have "take_bit 32 w = w" by (rule bit_word_eqI) (auto simp: bit_simps)
  then show "decode_space_bits (nec_frame w) 560 560 1600 28 = (28, take_bit 28 w)"
    "decode_space_bits (nec_frame w) 562 562 1687 32 = (32, w)"
    unfolding nec_frame_def by (simp_all add: decode_space_frame in_range_def)
qed

lemma lg_reading: "decode_space_bits (lg_frame w) 560 560 1600 28 = (28, take_bit 28 w)"
  unfolding lg_frame_def by (simp add: decode_space_frame in_range_def)

lemma byte_of_take28:
  "ucast (take_bit 28 w) = (ucast w :: u8)"
  "ucast (drop_bit 8 (take_bit 28 w)) = (ucast (drop_bit 8 w) :: u8)"
  "ucast (drop_bit 16 (take_bit 28 w)) = (ucast (drop_bit 16 w) :: u8)" for w :: u32
  by (rule bit_word_eqI; auto simp: bit_simps)+

text \<open>The bytes of a 32-bit shift register, lowest first.\<close>

definition reg_byte :: "u32 \<Rightarrow> nat \<Rightarrow> u8" where
  "reg_byte w k = ucast (drop_bit (8 * k) w)"

definition lg_verdict :: "u32 \<Rightarrow> ir_decoded" where
  "lg_verdict w = ir_decoded_zero\<lparr>proto := IR_PROTO_LG_AC, address := ucast (reg_byte w 0),
     command := reg_byte w 1, raw_bits := take_bit 28 w, bit_count := 28\<rparr>"

definition nec_verdict :: "u32 \<Rightarrow> int \<times> ir_decoded" where
  "nec_verdict w =
     (if reg_byte w 1 XOR reg_byte w 2 = 0xFF then (0, lg_verdict w)
      else if reg_byte w 2 XOR reg_byte w 3 \<noteq> 0xFF then (- 2, ir_decoded_zero)
      else (0, ir_decoded_zero\<lparr>
         proto := (if reg_byte w 0 XOR reg_byte w 1 = 0xFF then IR_PROTO_NEC else IR_PROTO_NEC_EXT),
         address := (if reg_byte w 0 XOR reg_byte w 1 = 0xFF then ucast (reg_byte w 0)
                     else push_bit 8 (ucast (reg_byte w 1)) OR ucast (reg_byte w 0)),
         command := reg_byte w 2, raw_bits := w, bit_count := 32\<rparr>))"

lemma frame_shape:
  "nec_frame w = ir_symbol_make 9000 4500 # tl (nec_frame w)" "length (nec_frame w) = 34"
  "lg_frame w = ir_symbol_make 8500 4250 # tl (lg_frame w)" "length (lg_frame w) = 30"
  by (simp_all add: nec_frame_def lg_frame_def space_frame_def)

lemma nec_frame_decode: "ir_decode (Some (nec_frame w)) = nec_verdict w"
proof -
  define ss where "ss = tl (nec_frame w)"
  have ss: "nec_frame w = ir_symbol_make 9000 4500 # ss" "length ss = 33"
    using frame_shape [of w] by (simp_all add: ss_def)
  have h: "\<not> sac_header (ir_symbol_make 9000 4500)" "\<not> in_range 9000 690" "in_range 9000 8500"
    "in_range 4500 4250" "in_range 9000 9000" "\<not> in_range 4500 2250" "in_range 4500 4500"
    by (simp_all add: sac_header_def in_range_def)
  show ?thesis
    unfolding ss(1) ir_decode_def
    using nec_readings [of w, unfolded ss(1)] ss(2) h
    by (simp add: Let_def byte_of_take28 nec_verdict_def lg_verdict_def reg_byte_def)
qed

lemma lg_frame_decode:
  assumes "reg_byte w 1 XOR reg_byte w 2 = 0xFF"
  shows "ir_decode (Some (lg_frame w)) = (0, lg_verdict w)"
proof -
  define ss where "ss = tl (lg_frame w)"
  have ss: "lg_frame w = ir_symbol_make 8500 4250 # ss" "length ss = 29"
    using frame_shape [of w] by (simp_all add: ss_def)
  have h: "\<not> sac_header (ir_symbol_make 8500 4250)" "\<not> in_range 8500 690" "in_range 8500 8500"
    "in_range 4250 4250"
    by (simp_all add: sac_header_def in_range_def)
  show ?thesis
    unfolding ss(1) ir_decode_def
    using lg_reading [of w, unfolded ss(1)] ss(2) h assms
    by (simp add: Let_def byte_of_take28 lg_verdict_def reg_byte_def)
qed

subsection \<open>Bounds\<close>

lemma sac_bits_bound:
  "length out \<le> cap \<Longrightarrow> sac_bits cap left cur pos out ss = (out', rest) \<Longrightarrow> length out' \<le> cap"
  by (induction cap left cur pos out ss rule: sac_bits.induct)
     (auto simp: Let_def split: if_splits option.splits)

lemma sac_sections_bound: "length out \<le> cap \<Longrightarrow> length (sac_sections cap out ss) \<le> cap"
  by (induction cap out ss rule: sac_sections.induct) (auto dest: sac_bits_bound split: prod.splits)

subsection \<open>Properties\<close>

text \<open>C13: a frame encoded for the transmitter, received with every mark and space anywhere in
  the decoder's 25 percent window, decodes to SAMSUNG_AC with exactly the encoded bytes.\<close>

theorem samsung_roundtrip:
  assumes "ir_codec_samsung_ac_encode (Some d) (Some c) = Inr syms" "jitter syms got"
  shows "fst (ir_decode (Some got)) = 0 \<and>
    proto (snd (ir_decode (Some got))) = IR_PROTO_SAMSUNG_AC \<and>
    byte_count (snd (ir_decode (Some got))) = length d \<and>
    take (length d) (raw_bytes (snd (ir_decode (Some got)))) = d"
proof -
  note e = encode_body [OF assms(1)]
  then obtain h ss where got: "got = h # ss" "within (ir_symbol_make SAC_HDR_MARK SAC_HDR_SPACE) h"
    "jitter (sac_body d) ss" using assms(2) by auto
  have "in_range (mark32 h) 690 \<and> in_range (space32 h) 17844"
    using got(2) by (simp add: within_def)
  moreover have "decode_samsung_ac_bytes ss 24 = d" using decode_body [OF got(3)] e by simp
  ultimately show ?thesis using e by (simp add: got(1) ir_decode_def Let_def)
qed

lemma samsung_roundtrip_witness:
  "\<exists>syms. take 7 (raw_bytes (snd (ir_decode (Some syms)))) = demo_section"
proof -
  obtain syms where s: "ir_codec_samsung_ac_encode (Some demo_section) (Some 59) = Inr syms"
    by (simp add: ir_codec_samsung_ac_encode_def demo_section_def Let_def)
  show ?thesis using samsung_roundtrip [OF s jitter_same [OF s]] demo_section_length by metis
qed

text \<open>When the capture starts after the global header, every section of the frame can be
  read on its own, and the whole frame still decodes.\<close>

theorem samsung_split_roundtrip:
  assumes "ir_codec_samsung_ac_encode (Some d) (Some c) = Inr syms" "jitter (tl syms) got"
    and "k < length d div 7"
  shows "ir_decode_samsung_ac_section (Some got) k = (1, take 7 (drop (7 * k) d)) \<and>
    fst (ir_decode (Some got)) = 0 \<and>
    take (length d) (raw_bytes (snd (ir_decode (Some got)))) = d"
  by (rule samsung_split [OF assms])

lemma samsung_split_roundtrip_witness:
  "\<exists>syms. ir_decode_samsung_ac_section (Some syms) 0 = (1, demo_section)"
proof -
  obtain syms where s: "ir_codec_samsung_ac_encode (Some demo_section) (Some 59) = Inr syms"
    by (simp add: ir_codec_samsung_ac_encode_def demo_section_def Let_def)
  have "jitter (tl syms) (tl syms)"
    using jitter_same [OF s] encode_body [OF s] by (auto simp: jitter_def)
  from samsung_split_roundtrip [OF s this, of 0] demo_section_length
  show ?thesis by auto
qed

text \<open>Every ideal 32-bit NEC frame gets the verdict of its four bytes: LG_AC if bytes 1 and 2
  are complements, nothing if bytes 2 and 3 are not, otherwise NEC or, with an address that is
  not its own complement, NEC_EXT.  The LG check comes first, so a standard NEC frame whose
  command equals its address is taken for LG.\<close>

theorem nec_frame_verdict:
  "ir_decode (Some (nec_frame w)) = nec_verdict w"
  by (rule nec_frame_decode)

text \<open>A standard NEC register: address, its complement, command, its complement.\<close>

definition nec_standard :: "u8 \<Rightarrow> u8 \<Rightarrow> u32" where
  "nec_standard a c = le32 a (NOT a) c (NOT c)"

lemma bit_u8_ge: "8 \<le> n \<Longrightarrow> \<not> bit (x :: u8) n"
  by (auto dest: bit_imp_le_length)

lemma reg_byte_le32 [simp]:
  "reg_byte (le32 a b c d) 0 = a" "reg_byte (le32 a b c d) (Suc 0) = b"
  "reg_byte (le32 a b c d) 2 = c" "reg_byte (le32 a b c d) 3 = d"
  by (rule bit_word_eqI; auto simp: reg_byte_def le32_def bit_simps bit_u8_ge)+

lemma xor_not_self: "(x XOR NOT y = 0xFF) \<longleftrightarrow> x = (y :: u8)" "(NOT y XOR x = 0xFF) \<longleftrightarrow> x = (y :: u8)"
  "(NOT (x XOR y) = 0xFF) \<longleftrightarrow> x = (y :: u8)"
proof -
  have m: "(0xFF :: u8) = - 1" by simp
  have "(x XOR NOT y = - 1) \<longleftrightarrow> x = y"
    by (auto simp: bit_eq_iff bit_xor_iff bit_not_iff)
  then show "(x XOR NOT y = 0xFF) \<longleftrightarrow> x = y" "(NOT y XOR x = 0xFF) \<longleftrightarrow> x = y"
    "(NOT (x XOR y) = 0xFF) \<longleftrightarrow> x = y"
    unfolding m by (simp_all add: xor.commute)
qed

text \<open>C20: a standard NEC frame is decoded as NEC with its address and command exactly when the
  command differs from the address; with equal bytes it is reported as an LG air conditioner
  with the complement as its command.\<close>

theorem nec_standard_decode:
  "ir_decode (Some (nec_frame (nec_standard a c))) =
     (if a \<noteq> c
      then (0, ir_decoded_zero\<lparr>proto := IR_PROTO_NEC, address := ucast a, command := c,
               raw_bits := nec_standard a c, bit_count := 32\<rparr>)
      else (0, ir_decoded_zero\<lparr>proto := IR_PROTO_LG_AC, address := ucast a, command := NOT a,
               raw_bits := take_bit 28 (nec_standard a c), bit_count := 28\<rparr>))"
  using nec_frame_decode [of "nec_standard a c"]
  by (auto simp: nec_verdict_def lg_verdict_def nec_standard_def xor_not_self)



end
