(* ===== verification/Aircon.thy ===== *)
theory Aircon
  imports IrTx IrDecode
begin

text \<open>
  The air-conditioner front-end \<open>app/ir/ir_aircon.c\<close>: the cached 14-byte Samsung state, the
  learned frames, the temperature field and the raw escape hatch, all ending in the encoder
  and the transmitter.  Brands and actions are the integers the callers pass.
\<close>

subsection \<open>State and constants\<close>

datatype aircon_rc = AC_OK | AC_NOT_READY | AC_INVALID_ARG | AC_INVALID_STATE | AC_NOT_IMPL
  | AC_TX | AC_ENCODE

record aircon =
  sam14 :: "u8 list"
  sam_power :: bool
  ac_inited :: bool
  ac_tx :: ir_tx

definition k_samsung_ac_on_14 :: "u8 list" where
  "k_samsung_ac_on_14 = [0x02, 0x92, 0x0F, 0x00, 0x00, 0x00, 0xF0,
                         0x01, 0xE2, 0xFE, 0x71, 0x80, 0x11, 0xF0]"

definition learned_off_14 :: "u8 list" where
  "learned_off_14 = [0x01, 0xC2, 0x0F, 0x00, 0x00, 0x20, 0x00,
                     0x01, 0x02, 0xFF, 0x01, 0x80, 0x1F, 0xC0]"

definition learned_on_7 :: "u8 list" where
  "learned_on_7 = [0x01, 0xE2, 0xFE, 0x01, 0x60, 0x1B, 0xF0]"

definition learned_temp_up_7 :: "u8 list" where
  "learned_temp_up_7 = [0x01, 0xD2, 0xFE, 0x01, 0x70, 0x1B, 0xF0]"

definition learned_temp_down_7 :: "u8 list" where
  "learned_temp_down_7 = [0x01, 0xE2, 0xFE, 0x01, 0x50, 0x1B, 0xF0]"

lemmas learned_defs = learned_off_14_def learned_on_7_def learned_temp_up_7_def
  learned_temp_down_7_def

definition aircon_boot :: aircon where
  "aircon_boot = \<lparr>sam14 = replicate 14 0, sam_power = False, ac_inited = False, ac_tx = ir_tx_boot\<rparr>"

subsection \<open>Operations\<close>

text \<open>\<open>send_symbol_frame\<close> passes \<open>IR_SAC_MAX_SYMBOLS = 175\<close> as the capacity.\<close>

definition send_symbol_frame :: "tx_hw \<Rightarrow> u8 list \<Rightarrow> aircon \<Rightarrow> aircon_rc \<times> aircon" where
  "send_symbol_frame H bytes a =
     (case ir_codec_samsung_ac_encode (Some bytes) (Some 175) of
        Inl _ \<Rightarrow> (AC_ENCODE, a)
      | Inr syms \<Rightarrow> (case ir_tx_send_symbols H (Some syms) (ac_tx a) of (rc, t) \<Rightarrow>
          (if rc = 0 then AC_OK else AC_TX, a\<lparr>ac_tx := t\<rparr>)))"

definition samsung_get_temp_c_locked :: "aircon \<Rightarrow> u8" where
  "samsung_get_temp_c_locked a = (drop_bit 4 (sam14 a ! 11) AND 0x0F) + 16"

definition samsung_set_temp_c_locked :: "u8 \<Rightarrow> aircon \<Rightarrow> aircon" where
  "samsung_set_temp_c_locked temp a =
     (let temp = (if temp < 16 then 16 else temp);
          temp = (if 30 < temp then 30 else temp);
          nib = temp - 16
      in a\<lparr>sam14 := (sam14 a)[11 := (sam14 a ! 11 AND 0x0F) OR push_bit 4 (nib AND 0x0F)]\<rparr>)"

definition samsung_send_state_with_temp_locked :: "tx_hw \<Rightarrow> u8 \<Rightarrow> aircon \<Rightarrow> aircon_rc \<times> aircon" where
  "samsung_send_state_with_temp_locked H temp a =
     (if \<not> sam_power a then (AC_INVALID_STATE, a)
      else
        let a = samsung_set_temp_c_locked temp a;
            a = a\<lparr>sam14 := ir_codec_samsung_ac_fix_checksums_14 (sam14 a)\<rparr>
        in send_symbol_frame H (sam14 a) a)"

definition send_learned_raw :: "tx_hw \<Rightarrow> u8 list option \<Rightarrow> aircon \<Rightarrow> aircon_rc \<times> aircon" where
  "send_learned_raw H frame a = (case frame of None \<Rightarrow> (AC_INVALID_ARG, a) | Some f \<Rightarrow>
     if length f = 0 \<or> length f mod 7 \<noteq> 0 \<or> 21 < length f then (AC_INVALID_ARG, a)
     else send_symbol_frame H f a)"

definition exec_samsung_learned :: "tx_hw \<Rightarrow> nat \<Rightarrow> aircon \<Rightarrow> aircon_rc \<times> aircon" where
  "exec_samsung_learned H action a =
     (if action = 0 then
        (case send_learned_raw H (Some learned_on_7) a of (rc, a) \<Rightarrow>
           (rc, if rc = AC_OK then a\<lparr>sam14 := k_samsung_ac_on_14, sam_power := True\<rparr> else a))
      else if action = 1 then
        (case send_learned_raw H (Some learned_off_14) a of (rc, a) \<Rightarrow>
           (rc, if rc = AC_OK then a\<lparr>sam_power := False\<rparr> else a))
      else if action = 2 then send_learned_raw H (Some learned_temp_up_7) a
      else if action = 3 then send_learned_raw H (Some learned_temp_down_7) a
      else (AC_INVALID_ARG, a))"

definition ir_aircon_init :: "tx_hw \<Rightarrow> aircon \<Rightarrow> aircon_rc \<times> aircon" where
  "ir_aircon_init H a =
     (let a = a\<lparr>ac_inited := True, sam14 := replicate 14 0, sam_power := False\<rparr>
      in if ir_tx_is_ready (ac_tx a) then (AC_OK, a)
         else case ir_tx_init H (ac_tx a) of (rc, t) \<Rightarrow>
           (if rc \<noteq> 0 then AC_NOT_READY else AC_OK, a\<lparr>ac_tx := t\<rparr>))"

definition ir_aircon_send :: "tx_hw \<Rightarrow> nat \<Rightarrow> nat \<Rightarrow> aircon \<Rightarrow> aircon_rc \<times> aircon" where
  "ir_aircon_send H brand action a =
     (if \<not> ac_inited a \<or> \<not> ir_tx_is_ready (ac_tx a) then (AC_NOT_READY, a)
      else if 3 < action then (AC_INVALID_ARG, a)
      else if brand = 0 then exec_samsung_learned H action a
      else if brand \<le> 5 then (AC_NOT_IMPL, a)
      else (AC_INVALID_ARG, a))"

definition ir_aircon_set_temp_c :: "tx_hw \<Rightarrow> nat \<Rightarrow> u8 \<Rightarrow> aircon \<Rightarrow> aircon_rc \<times> aircon" where
  "ir_aircon_set_temp_c H brand temp a =
     (if \<not> ac_inited a \<or> \<not> ir_tx_is_ready (ac_tx a) then (AC_NOT_READY, a)
      else if brand \<noteq> 0 then (AC_NOT_IMPL, a)
      else samsung_send_state_with_temp_locked H temp a)"

definition ir_aircon_get_temp_c :: "nat \<Rightarrow> aircon \<Rightarrow> u8" where
  "ir_aircon_get_temp_c brand a =
     (if brand \<noteq> 0 then 0 else if \<not> ac_inited a then 0
      else if sam_power a then samsung_get_temp_c_locked a else 0)"

definition ir_aircon_is_powered :: "nat \<Rightarrow> aircon \<Rightarrow> bool" where
  "ir_aircon_is_powered brand a = (if brand \<noteq> 0 then False else sam_power a)"

text \<open>The loop over the sections of the scratch copy.\<close>

function fix_sections :: "nat \<Rightarrow> u8 list \<Rightarrow> u8 list" where
  "fix_sections s d = (if length d \<le> s then d
     else fix_sections (s + 7) (take s d @ ir_codec_samsung_ac_fix_checksum (drop s d)))"
  by auto

termination fix_sections
  by (relation "measure (\<lambda>(s, d). length d - s)") auto

declare fix_sections.simps [simp del]

definition ir_aircon_samsung_send_raw ::
  "tx_hw \<Rightarrow> u8 list option \<Rightarrow> bool \<Rightarrow> aircon \<Rightarrow> aircon_rc \<times> aircon" where
  "ir_aircon_samsung_send_raw H frame fix_cs a =
     (if \<not> ir_tx_is_ready (ac_tx a) then (AC_NOT_READY, a)
      else case frame of None \<Rightarrow> (AC_INVALID_ARG, a) | Some f \<Rightarrow>
      if length f = 0 \<or> length f mod 7 \<noteq> 0 \<or> 21 < length f then (AC_INVALID_ARG, a)
      else send_symbol_frame H (if fix_cs then fix_sections 0 f else f) a)"

subsection \<open>The invariant\<close>

text \<open>The cached state is 14 bytes; once powered, both of its sections verify.\<close>

definition ac_inv :: "aircon \<Rightarrow> bool" where
  "ac_inv a \<longleftrightarrow> length (sam14 a) = 14 \<and> tx_inv (ac_tx a) \<and>
     (sam_power a \<longrightarrow> ir_codec_samsung_ac_verify_all (Some (sam14 a)))"

text \<open>Evaluation of the checksum of a concrete section.\<close>

lemmas checksum_eval = ir_codec_samsung_ac_verify_def sec_checksum_def popcount_buf_def
  popcount_u8_def popcount_loop.simps

lemma learned_verify:
  "ir_codec_samsung_ac_verify learned_on_7" "ir_codec_samsung_ac_verify learned_temp_up_7"
  "ir_codec_samsung_ac_verify learned_temp_down_7" "ir_codec_samsung_ac_verify learned_off_14"
  "ir_codec_samsung_ac_verify (drop 7 learned_off_14)"
  "ir_codec_samsung_ac_verify k_samsung_ac_on_14"
  "ir_codec_samsung_ac_verify (drop 7 k_samsung_ac_on_14)"
  by (simp_all add: learned_defs k_samsung_ac_on_14_def checksum_eval del: popcount_ones)

lemma verify_all_14:
  "length d = 14 \<Longrightarrow> ir_codec_samsung_ac_verify_all (Some d) \<longleftrightarrow>
     ir_codec_samsung_ac_verify d \<and> ir_codec_samsung_ac_verify (drop 7 d)"
  by (simp add: ir_codec_samsung_ac_verify_all_def verify_loop.simps)

lemma length_fix_14 [simp]: "length d = 14 \<Longrightarrow> length (ir_codec_samsung_ac_fix_checksums_14 d) = 14"
  by (simp add: ir_codec_samsung_ac_fix_checksums_14_def Let_def)

lemma verify_blit7:
  "length d = 14 \<Longrightarrow> length x = 7 \<Longrightarrow> ir_codec_samsung_ac_verify (blit 7 x d) = ir_codec_samsung_ac_verify d"
  using verify_take [of "blit 7 x d"] verify_take [of d] by (simp add: blit_def)

lemma fix_14_verifies:
  assumes "length d = 14"
  shows "ir_codec_samsung_ac_verify_all (Some (ir_codec_samsung_ac_fix_checksums_14 d))"
proof -
  let ?d = "ir_codec_samsung_ac_fix_checksum d"
  let ?x = "ir_codec_samsung_ac_fix_checksum (drop 7 ?d)"
  have l: "length ?d = 14" "length ?x = 7" using assms by simp_all
  have "ir_codec_samsung_ac_verify (blit 7 ?x ?d)"
    using verify_blit7 [OF l] fix_verifies [of d] assms by simp
  moreover have "drop 7 (blit 7 ?x ?d) = ?x" using l by (simp add: blit_def)
  then have "ir_codec_samsung_ac_verify (drop 7 (blit 7 ?x ?d))"
    using fix_verifies [of "drop 7 ?d"] l by simp
  ultimately show ?thesis
    using l by (simp add: ir_codec_samsung_ac_fix_checksums_14_def Let_def verify_all_14)
qed

subsection \<open>What each operation does\<close>

lemma encode_ok:
  assumes "7 dvd length d" "d \<noteq> []" "length d \<le> 21"
  obtains syms where "ir_codec_samsung_ac_encode (Some d) (Some 175) = Inr syms"
    "syms \<noteq> []" "length syms \<le> 175"
proof -
  have "length d div 7 \<le> 3" using div_le_mono [OF assms(3), of 7] by simp
  then obtain syms where s: "ir_codec_samsung_ac_encode (Some d) (Some 175) = Inr syms"
    using assms by (auto simp: ir_codec_samsung_ac_encode_def Let_def dvd_eq_mod_eq_0)
  have "syms \<noteq> []" using encode_length [OF s] by auto
  then show ?thesis using that [OF s] encode_length [OF s] by simp
qed

lemma send_frame_outcome:
  assumes "tx_inv (ac_tx a)" "tx_inited (ac_tx a)" "7 dvd length d" "d \<noteq> []" "length d \<le> 21"
    and "\<forall>ss. thread_done H ss"
  shows "\<exists>syms t. ir_codec_samsung_ac_encode (Some d) (Some 175) = Inr syms \<and>
    send_symbol_frame H d a = (AC_OK, a\<lparr>ac_tx := t\<rparr>) \<and> tx_inv t \<and> tx_inited t \<and>
    wire t = wire (ac_tx a) @ frame_events (carrier_hz (ac_tx a)) syms"
proof -
  obtain syms where s: "ir_codec_samsung_ac_encode (Some d) (Some 175) = Inr syms"
    "syms \<noteq> []" "length syms \<le> 175" using encode_ok [OF assms(3-5)] .
  obtain rc t where R: "ir_tx_send_symbols H (Some syms) (ac_tx a) = (rc, t)" by force
  have "rc = 0 \<and> wire t = wire (ac_tx a) @ frame_events (carrier_hz (ac_tx a)) syms \<and> tx_inited t"
    using send_ok [OF assms(1,2) s(2) _ spec [OF assms(6)]] s(3) R by simp
  moreover have "tx_inv t" using tx_inv_ops(5) [OF assms(1), of H "Some syms"] R by simp
  ultimately show ?thesis using s(1) R by (simp add: send_symbol_frame_def) blast
qed

lemma send_frame_keeps:
  "sam14 (snd (send_symbol_frame H d a)) = sam14 a" "sam_power (snd (send_symbol_frame H d a)) = sam_power a"
  "ac_inited (snd (send_symbol_frame H d a)) = ac_inited a"
  "tx_inv (ac_tx a) \<Longrightarrow> tx_inv (ac_tx (snd (send_symbol_frame H d a)))"
proof -
  show "tx_inv (ac_tx a) \<Longrightarrow> tx_inv (ac_tx (snd (send_symbol_frame H d a)))"
    by (auto simp: send_symbol_frame_def split: sum.split prod.split dest: tx_inv_ops(5))
       (metis snd_conv tx_inv_ops(5))
qed (simp_all add: send_symbol_frame_def split: sum.split prod.split)

lemma send_learned_keeps:
  "sam14 (snd (send_learned_raw H f a)) = sam14 a" "sam_power (snd (send_learned_raw H f a)) = sam_power a"
  "ac_inited (snd (send_learned_raw H f a)) = ac_inited a"
  "tx_inv (ac_tx a) \<Longrightarrow> tx_inv (ac_tx (snd (send_learned_raw H f a)))"
  by (simp_all add: send_learned_raw_def send_frame_keeps split: option.split)

lemma on_14_verifies: "ir_codec_samsung_ac_verify_all (Some k_samsung_ac_on_14)" "length k_samsung_ac_on_14 = 14"
proof -
  show l: "length k_samsung_ac_on_14 = 14" by (simp add: k_samsung_ac_on_14_def)
  show "ir_codec_samsung_ac_verify_all (Some k_samsung_ac_on_14)"
    by (simp add: verify_all_14 [OF l] learned_verify)
qed

lemma ac_inv_learned: "ac_inv a \<Longrightarrow> ac_inv (snd (exec_samsung_learned H action a))"
  using send_learned_keeps [where H = H and a = a] on_14_verifies
  by (auto simp: exec_samsung_learned_def ac_inv_def split: prod.split)
     (metis snd_conv)+

lemma nibble_high:
  "drop_bit 4 ((b AND 0x0F) OR push_bit 4 (n AND 0x0F)) AND 0x0F = (n AND 0x0F :: u8)"
  by (rule bit_word_eqI;
      simp only: bit_and_iff bit_or_iff bit_push_bit_iff bit_drop_bit_eq o_def bit_nibble; auto)

lemma nth_fix_14: "length d = 14 \<Longrightarrow> ir_codec_samsung_ac_fix_checksums_14 d ! 11 = d ! 11"
proof -
  assume l: "length d = 14"
  have k: "ir_codec_samsung_ac_fix_checksum x ! i = x ! i" if "3 \<le> i" for x i
    using that by (simp add: ir_codec_samsung_ac_fix_checksum_def Let_def)
  show ?thesis
    using l k [of 4 "drop 7 (ir_codec_samsung_ac_fix_checksum d)"] k [of 11 d]
    by (simp add: ir_codec_samsung_ac_fix_checksums_14_def Let_def blit_def nth_append)
qed

definition clamp_temp :: "u8 \<Rightarrow> u8" where
  "clamp_temp t = max 16 (min 30 t)"

lemma clamp_code: "(let t = (if t < 16 then 16 else t); t = (if 30 < t then 30 else t) in f t) = f (clamp_temp t)"
  by (auto simp: clamp_temp_def Let_def max_def min_def not_le dest: le_less_trans)

lemma nibble_of_temp: "(clamp_temp t - 16) AND 0x0F = clamp_temp t - 16"
proof -
  have m: "(0x0F :: u8) = mask 4" by (simp add: mask_eq_exp_minus_1)
  have "16 \<le> clamp_temp t" "clamp_temp t \<le> 30"
    by (auto simp: clamp_temp_def max_def min_def not_le)
  then have "unat (clamp_temp t - 16) < 16" by (simp add: unat_sub word_le_nat_alt)
  then show ?thesis unfolding m
    by (simp add: take_bit_eq_mask [symmetric] take_bit_eq_mod word_unat_eq_iff unat_mod)
qed

lemma set_then_get:
  assumes "length (sam14 a) = 14"
  shows "samsung_get_temp_c_locked (samsung_set_temp_c_locked t a) = clamp_temp t"
    and "length (sam14 (samsung_set_temp_c_locked t a)) = 14"
proof -
  have s: "samsung_set_temp_c_locked t a = a\<lparr>sam14 := (sam14 a)[11 :=
      (sam14 a ! 11 AND 0x0F) OR push_bit 4 ((clamp_temp t - 16) AND 0x0F)]\<rparr>"
    unfolding samsung_set_temp_c_locked_def
    by (subst clamp_code [where f = "\<lambda>t. let nib = t - 16 in a\<lparr>sam14 := (sam14 a)[11 :=
      (sam14 a ! 11 AND 0x0F) OR push_bit 4 (nib AND 0x0F)]\<rparr>"]) (simp add: Let_def)
  show "length (sam14 (samsung_set_temp_c_locked t a)) = 14" using assms by (simp add: s)
  have "samsung_get_temp_c_locked (samsung_set_temp_c_locked t a) =
      (drop_bit 4 ((sam14 a ! 11 AND 0x0F) OR push_bit 4 ((clamp_temp t - 16) AND 0x0F)) AND 0x0F) + 16"
    using assms by (simp only: samsung_get_temp_c_locked_def s) simp
  also have "\<dots> = clamp_temp t" unfolding nibble_high unfolding nibble_of_temp by simp
  finally show "samsung_get_temp_c_locked (samsung_set_temp_c_locked t a) = clamp_temp t" .
qed

lemma get_temp_fix:
  "length (sam14 a) = 14 \<Longrightarrow>
     samsung_get_temp_c_locked (a\<lparr>sam14 := ir_codec_samsung_ac_fix_checksums_14 (sam14 a)\<rparr>)
     = samsung_get_temp_c_locked a"
  by (simp add: samsung_get_temp_c_locked_def nth_fix_14)

lemma set_temp_run:
  assumes I: "ac_inv a" and p: "sam_power a" and tx: "tx_inited (ac_tx a)" "\<forall>ss. thread_done H ss"
    and r: "samsung_send_state_with_temp_locked H temp a = (rc, a')"
  shows "rc = AC_OK \<and> ac_inv a' \<and> sam_power a' \<and> ac_inited a' = ac_inited a \<and>
    samsung_get_temp_c_locked a' = clamp_temp temp \<and>
    ir_codec_samsung_ac_verify_all (Some (sam14 a')) \<and>
    (\<exists>syms. ir_codec_samsung_ac_encode (Some (sam14 a')) (Some 175) = Inr syms \<and>
       wire (ac_tx a') = wire (ac_tx a) @ frame_events (carrier_hz (ac_tx a)) syms)"
proof -
  define b where "b = samsung_set_temp_c_locked temp a"
  define c where "c = b\<lparr>sam14 := ir_codec_samsung_ac_fix_checksums_14 (sam14 b)\<rparr>"
  have keep: "ac_tx b = ac_tx a" "sam_power b" "ac_inited b = ac_inited a"
    using p by (simp_all add: b_def samsung_set_temp_c_locked_def Let_def)
  have l: "length (sam14 b) = 14" "length (sam14 c) = 14"
    using I set_then_get(2) by (auto simp: ac_inv_def b_def c_def)
  have v: "ir_codec_samsung_ac_verify_all (Some (sam14 c))"
    using fix_14_verifies [OF l(1)] by (simp add: c_def)
  have g: "samsung_get_temp_c_locked c = clamp_temp temp"
    using get_temp_fix [OF l(1)] set_then_get(1) [of a temp] I by (simp add: c_def b_def ac_inv_def)
  have ct: "ac_tx c = ac_tx a" "sam_power c" "ac_inited c = ac_inited a"
    by (simp_all add: c_def keep)
  have send: "samsung_send_state_with_temp_locked H temp a = send_symbol_frame H (sam14 c) c"
    using p by (simp add: samsung_send_state_with_temp_locked_def b_def c_def Let_def)
  have i: "tx_inv (ac_tx c)" "tx_inited (ac_tx c)" using I tx ct by (simp_all add: ac_inv_def)
  have shape: "7 dvd length (sam14 c)" "sam14 c \<noteq> []" "length (sam14 c) \<le> 21" using l(2) by auto
  obtain syms t where "ir_codec_samsung_ac_encode (Some (sam14 c)) (Some 175) = Inr syms"
    "send_symbol_frame H (sam14 c) c = (AC_OK, c\<lparr>ac_tx := t\<rparr>)" "tx_inv t"
    "wire t = wire (ac_tx a) @ frame_events (carrier_hz (ac_tx a)) syms"
    using send_frame_outcome [OF i shape tx(2)] ct(1) by auto
  then show ?thesis
    using r send v g ct l(2) by (auto simp: ac_inv_def samsung_get_temp_c_locked_def)
qed

lemma ac_inv_set_temp:
  assumes "ac_inv a"
  shows "ac_inv (snd (samsung_send_state_with_temp_locked H temp a))"
proof (cases "sam_power a")
  case True
  define c where "c = (samsung_set_temp_c_locked temp a)
    \<lparr>sam14 := ir_codec_samsung_ac_fix_checksums_14 (sam14 (samsung_set_temp_c_locked temp a))\<rparr>"
  have l: "length (sam14 (samsung_set_temp_c_locked temp a)) = 14"
    using assms set_then_get(2) by (auto simp: ac_inv_def)
  have "ac_tx (samsung_set_temp_c_locked temp a) = ac_tx a"
    by (simp add: samsung_set_temp_c_locked_def Let_def)
  then have "ac_inv c" using assms l fix_14_verifies [OF l] by (simp add: c_def ac_inv_def)
  moreover have "samsung_send_state_with_temp_locked H temp a = send_symbol_frame H (sam14 c) c"
    using True by (simp add: samsung_send_state_with_temp_locked_def c_def Let_def)
  ultimately show ?thesis
    using send_frame_keeps [where H = H and d = "sam14 c" and a = c] by (simp add: ac_inv_def)
qed (simp add: samsung_send_state_with_temp_locked_def assms)

lemma ac_inv_ops:
  assumes "ac_inv a"
  shows "ac_inv (snd (ir_aircon_init H a))" "ac_inv (snd (ir_aircon_send H brand action a))"
    "ac_inv (snd (ir_aircon_set_temp_c H brand temp a))"
    "ac_inv (snd (ir_aircon_samsung_send_raw H frame fix_cs a))"
proof -
  show "ac_inv (snd (ir_aircon_init H a))"
    using assms tx_inv_ops(1) [of "ac_tx a" H]
    by (auto simp: ir_aircon_init_def ac_inv_def Let_def split: prod.split)
  show "ac_inv (snd (ir_aircon_send H brand action a))"
    using assms ac_inv_learned by (simp add: ir_aircon_send_def)
  show "ac_inv (snd (ir_aircon_set_temp_c H brand temp a))"
    using assms ac_inv_set_temp by (simp add: ir_aircon_set_temp_c_def)
  show "ac_inv (snd (ir_aircon_samsung_send_raw H frame fix_cs a))"
    using assms by (auto simp: ir_aircon_samsung_send_raw_def ac_inv_def send_frame_keeps split: option.split)
qed

subsection \<open>Properties\<close>

text \<open>With the air conditioner powered and the transmitter ready, setting a temperature sends
  one frame whose sections verify, clamps the value to 16..30 and makes it the one read back.\<close>

theorem set_temp_outcome:
  assumes "ac_inv a" "ac_inited a" "tx_inited (ac_tx a)" "sam_power a" "\<forall>ss. thread_done H ss"
    and "ir_aircon_set_temp_c H 0 temp a = (rc, a')"
  shows "rc = AC_OK \<and> ac_inv a' \<and> ir_aircon_get_temp_c 0 a' = max 16 (min 30 temp) \<and>
    ir_codec_samsung_ac_verify_all (Some (sam14 a')) \<and>
    (\<exists>syms. ir_codec_samsung_ac_encode (Some (sam14 a')) (Some 175) = Inr syms \<and>
       wire (ac_tx a') = wire (ac_tx a) @ frame_events (carrier_hz (ac_tx a)) syms)"
proof -
  have r: "samsung_send_state_with_temp_locked H temp a = (rc, a')"
    using assms by (simp add: ir_aircon_set_temp_c_def ir_tx_is_ready_def)
  show ?thesis
    using set_temp_run [OF assms(1,4,3,5) r] assms(2)
    by (simp add: ir_aircon_get_temp_c_def clamp_temp_def [symmetric])
qed

definition demo_aircon :: aircon where
  "demo_aircon = \<lparr>sam14 = k_samsung_ac_on_14, sam_power = True, ac_inited = True,
     ac_tx = snd (ir_tx_init demo_tx_hw ir_tx_boot)\<rparr>"

lemma demo_aircon_ready:
  "ac_inv demo_aircon" "ac_inited demo_aircon" "tx_inited (ac_tx demo_aircon)" "sam_power demo_aircon"
  "\<forall>ss. thread_done demo_tx_hw ss"
  using tx_inv_ops(1) [OF tx_inv_boot, of demo_tx_hw]
  by (simp_all add: demo_aircon_def ac_inv_def on_14_verifies demo_tx_hw_def)
     (simp add: ir_tx_init_def ir_tx_boot_def)

lemma set_temp_outcome_witness:
  "ir_aircon_get_temp_c 0 (snd (ir_aircon_set_temp_c demo_tx_hw 0 99 demo_aircon)) = 30"
  using set_temp_outcome [OF demo_aircon_ready, of 99] by (simp add: prod_eq_iff)

text \<open>Every learned frame and the cached power-on state is made of whole sections that verify,
  so the encoder accepts it, and sending an action needs nothing but a ready transmitter; only a
  sent power action changes the cached state.\<close>

theorem learned_action_outcome:
  assumes "ac_inv a" "ac_inited a" "tx_inited (ac_tx a)" "\<forall>ss. thread_done H ss" "action \<le> 3"
    and "ir_aircon_send H 0 action a = (rc, a')"
  shows "rc = AC_OK \<and> ac_inv a' \<and>
    sam_power a' = (if action = 0 then True else if action = 1 then False else sam_power a) \<and>
    sam14 a' = (if action = 0 then k_samsung_ac_on_14 else sam14 a) \<and>
    list_all (\<lambda>f. ir_codec_samsung_ac_verify_all (Some f))
      [learned_on_7, learned_off_14, learned_temp_up_7, learned_temp_down_7, k_samsung_ac_on_14] \<and>
    length (wire (ac_tx a')) > length (wire (ac_tx a))"
proof -
  let ?f = "[learned_on_7, learned_off_14, learned_temp_up_7, learned_temp_down_7] ! action"
  have lens: "length learned_on_7 = 7" "length learned_off_14 = 14" "length learned_temp_up_7 = 7"
    "length learned_temp_down_7 = 7" by (simp_all add: learned_defs)
  have one: "ir_codec_samsung_ac_verify_all (Some d) = ir_codec_samsung_ac_verify d" if "length d = 7" for d
    using that by (simp add: ir_codec_samsung_ac_verify_all_def verify_loop.simps)
  have v: "list_all (\<lambda>f. ir_codec_samsung_ac_verify_all (Some f))
      [learned_on_7, learned_off_14, learned_temp_up_7, learned_temp_down_7, k_samsung_ac_on_14]"
    by (simp add: one lens verify_all_14 learned_verify on_14_verifies)
  have act: "action = 0 \<or> action = 1 \<or> action = 2 \<or> action = 3" using assms(5) by linarith
  then have fl: "7 dvd length ?f" "?f \<noteq> []" "length ?f \<le> 21" using lens by auto
  have tx: "tx_inv (ac_tx a)" using assms(1) by (simp add: ac_inv_def)
  obtain t syms where t: "send_symbol_frame H ?f a = (AC_OK, a\<lparr>ac_tx := t\<rparr>)"
    "wire t = wire (ac_tx a) @ frame_events (carrier_hz (ac_tx a)) syms"
    using send_frame_outcome [OF tx assms(3) fl assms(4)] by blast
  have "send_learned_raw H (Some ?f) a = (AC_OK, a\<lparr>ac_tx := t\<rparr>)"
    using t(1) fl by (simp add: send_learned_raw_def dvd_eq_mod_eq_0)
  then have e: "(rc, a') = (AC_OK, (if action = 0 then a\<lparr>ac_tx := t, sam14 := k_samsung_ac_on_14, sam_power := True\<rparr>
      else if action = 1 then a\<lparr>ac_tx := t, sam_power := False\<rparr> else a\<lparr>ac_tx := t\<rparr>))"
    using assms(2,3,6) act
    by (auto simp: ir_aircon_send_def ir_tx_is_ready_def exec_samsung_learned_def)
  have "ac_inv a'" using ac_inv_ops(2) [OF assms(1), of H 0 action] assms(6) by simp
  then show ?thesis using e v t(2) by (simp add: frame_events_def)
qed

lemma learned_action_outcome_witness:
  "sam_power (snd (ir_aircon_send demo_tx_hw 0 1 demo_aircon)) = False"
  using learned_action_outcome [OF demo_aircon_ready(1-3,5) _ prod.collapse [symmetric], of 1]
  by simp

end
