(* ===== verification/SvcIr.thy ===== *)
theory SvcIr
  imports Gatt Aircon
begin

text \<open>
  The infrared GATT service \<open>app/ble/gatt_servers/svc_ir.c\<close>: the command dispatcher with
  its five handlers, the write callback and the published status.  A payload and its length
  are one list.  Notifications are logged.
\<close>

record ir_status =
  aircon_powered :: u8
  aircon_temp_c :: u8
  status_carrier :: u16

record ir_svc =
  irs_ac :: aircon
  irs_status :: ir_status
  irs_notified :: "ir_status list"

fun aircon_rc_int :: "aircon_rc \<Rightarrow> int" where
  "aircon_rc_int AC_OK = 0"
| "aircon_rc_int AC_NOT_READY = - 1"
| "aircon_rc_int AC_INVALID_ARG = - 2"
| "aircon_rc_int AC_INVALID_STATE = - 3"
| "aircon_rc_int AC_NOT_IMPL = - 4"
| "aircon_rc_int AC_TX = - 5"
| "aircon_rc_int AC_ENCODE = - 6"

lemma aircon_rc_int_0 [simp]: "aircon_rc_int rc = 0 \<longleftrightarrow> rc = AC_OK"
  by (cases rc) simp_all

definition refresh_cached_status :: "ir_svc \<Rightarrow> ir_svc" where
  "refresh_cached_status s = s\<lparr>irs_status := \<lparr>
     aircon_powered = (if ir_aircon_is_powered 0 (irs_ac s) then 1 else 0),
     aircon_temp_c = ir_aircon_get_temp_c 0 (irs_ac s),
     status_carrier = ucast (ir_tx_get_carrier_hz (ac_tx (irs_ac s)))\<rparr>\<rparr>"

subsection \<open>Command handlers\<close>

definition on_aircon :: "(aircon \<Rightarrow> aircon_rc \<times> aircon) \<Rightarrow> ir_svc \<Rightarrow> int \<times> ir_svc" where
  "on_aircon f s = (case f (irs_ac s) of (rc, a) \<Rightarrow> (aircon_rc_int rc, s\<lparr>irs_ac := a\<rparr>))"

definition on_tx :: "(ir_tx \<Rightarrow> int \<times> ir_tx) \<Rightarrow> ir_svc \<Rightarrow> int \<times> ir_svc" where
  "on_tx f s = (case f (ac_tx (irs_ac s)) of (rc, t) \<Rightarrow> (rc, s\<lparr>irs_ac := (irs_ac s)\<lparr>ac_tx := t\<rparr>\<rparr>))"

definition handle_aircon_action :: "tx_hw \<Rightarrow> u8 list \<Rightarrow> ir_svc \<Rightarrow> int \<times> ir_svc" where
  "handle_aircon_action H p s =
     (if length p < 2 then (- 1, s) else on_aircon (ir_aircon_send H (unat (p ! 0)) (unat (p ! 1))) s)"

definition handle_aircon_set_temp :: "tx_hw \<Rightarrow> u8 list \<Rightarrow> ir_svc \<Rightarrow> int \<times> ir_svc" where
  "handle_aircon_set_temp H p s =
     (if length p < 2 then (- 1, s) else on_aircon (ir_aircon_set_temp_c H (unat (p ! 0)) (p ! 1)) s)"

definition handle_set_carrier :: "u8 list \<Rightarrow> ir_svc \<Rightarrow> int \<times> ir_svc" where
  "handle_set_carrier p s =
     (if length p < 2 then (- 1, s)
      else on_tx (ir_tx_set_carrier_hz (ucast (p ! 0) OR push_bit 8 (ucast (p ! 1)))) s)"

definition handle_samsung_raw :: "tx_hw \<Rightarrow> u8 list \<Rightarrow> ir_svc \<Rightarrow> int \<times> ir_svc" where
  "handle_samsung_raw H p s =
     (if length p < 1 + 7 then (- 1, s)
      else
        let fix_cs = p ! 0; frame = drop 1 p in
        if length frame mod 7 \<noteq> 0 \<or> 21 < length frame then (- 2, s)
        else on_aircon (ir_aircon_samsung_send_raw H (Some frame) (fix_cs \<noteq> 0)) s)"

text \<open>The loop that reads \<open>count\<close> symbols of four bytes each.\<close>

fun read_symbols :: "u8 list \<Rightarrow> ir_symbol list" where
  "read_symbols (a # b # c # d # rest) =
     \<lparr>mark_us = le16 a b, space_us = le16 c d\<rparr> # read_symbols rest"
| "read_symbols _ = []"

definition handle_raw_symbols :: "tx_hw \<Rightarrow> u8 list \<Rightarrow> ir_svc \<Rightarrow> int \<times> ir_svc" where
  "handle_raw_symbols H p s =
     (if length p < 1 + 4 then (- 1, s)
      else
        let hz = ucast (p ! 0) * 1000 :: u32; sym_bytes = drop 1 p in
        if length sym_bytes mod 4 \<noteq> 0 then (- 2, s)
        else
          let cnt = length sym_bytes div 4 in
          if cnt = 0 \<or> 60 < cnt then (- 3, s)
          else
            let syms = read_symbols sym_bytes;
                s = (if hz \<noteq> 0 then snd (on_tx (ir_tx_set_carrier_hz hz) s) else s)
            in on_tx (ir_tx_send_symbols H (Some syms)) s)"

definition dispatch_cmd :: "tx_hw \<Rightarrow> u8 list \<Rightarrow> ir_svc \<Rightarrow> int \<times> ir_svc" where
  "dispatch_cmd H buf s = (case buf of [] \<Rightarrow> (- 1, s) | op # p \<Rightarrow>
     if op = 0x01 then handle_aircon_action H p s
     else if op = 0x02 then handle_aircon_set_temp H p s
     else if op = 0x03 then handle_set_carrier p s
     else if op = 0x10 then handle_samsung_raw H p s
     else if op = 0x20 then handle_raw_symbols H p s
     else (- 2, s))"

subsection \<open>Callbacks\<close>

definition app_ir_svc_publish_status :: "ir_svc \<Rightarrow> ir_svc" where
  "app_ir_svc_publish_status s =
     (let s = refresh_cached_status s in s\<lparr>irs_notified := irs_notified s @ [irs_status s]\<rparr>)"

definition ir_write_cmd :: "tx_hw \<Rightarrow> u8 list \<Rightarrow> nat \<Rightarrow> ir_svc \<Rightarrow> write_result \<times> ir_svc" where
  "ir_write_cmd H buf offset s =
     (if offset \<noteq> 0 then (Inl ATT_INVALID_OFFSET, s)
      else if length buf < 1 then (Inl ATT_INVALID_ATTRIBUTE_LEN, s)
      else case dispatch_cmd H buf s of (rc, s) \<Rightarrow>
        if rc \<noteq> 0 then (Inl ATT_UNLIKELY, s)
        else (Inr (length buf), app_ir_svc_publish_status s))"

definition ir_read_status :: "ir_svc \<Rightarrow> ir_status \<times> ir_svc" where
  "ir_read_status s = (let s = refresh_cached_status s in (irs_status s, s))"

definition app_ir_svc_init :: "tx_hw \<Rightarrow> ir_svc \<Rightarrow> int \<times> ir_svc" where
  "app_ir_svc_init H s = (0, refresh_cached_status (snd (on_aircon (ir_aircon_init H) s)))"

subsection \<open>Lemmas\<close>

definition enc_symbol :: "ir_symbol \<Rightarrow> u8 list" where
  "enc_symbol s = enc16 (mark_us s) @ enc16 (space_us s)"

lemma read_symbols_enc [simp]: "read_symbols (concat (map enc_symbol ss)) = ss"
  by (induction ss) (simp_all add: enc_symbol_def enc16_def)

lemma length_enc_symbols [simp]: "length (concat (map enc_symbol ss)) = 4 * length ss"
  by (induction ss) (simp_all add: enc_symbol_def)

lemma on_tx_keeps:
  "sam14 (irs_ac (snd (on_tx f s))) = sam14 (irs_ac s)" "sam_power (irs_ac (snd (on_tx f s))) = sam_power (irs_ac s)"
  "irs_notified (snd (on_tx f s)) = irs_notified s"
  by (simp_all add: on_tx_def split: prod.split)

lemma ac_inv_on_tx:
  "ac_inv (irs_ac s) \<Longrightarrow> (\<And>t. tx_inv t \<Longrightarrow> tx_inv (snd (f t))) \<Longrightarrow> ac_inv (irs_ac (snd (on_tx f s)))"
  by (auto simp: on_tx_def ac_inv_def split: prod.split) (metis snd_conv)+

lemma ac_inv_on_aircon:
  "(\<And>a. ac_inv a \<Longrightarrow> ac_inv (snd (f a))) \<Longrightarrow> ac_inv (irs_ac s) \<Longrightarrow> ac_inv (irs_ac (snd (on_aircon f s)))"
  by (auto simp: on_aircon_def split: prod.split) (metis snd_conv)

lemma notified_handlers:
  "irs_notified (snd (on_aircon f s)) = irs_notified s"
  by (simp add: on_aircon_def split: prod.split)

lemma dispatch_keeps:
  "irs_notified (snd (dispatch_cmd H buf s)) = irs_notified s"
  "ac_inv (irs_ac s) \<Longrightarrow> ac_inv (irs_ac (snd (dispatch_cmd H buf s)))"
proof -
  show "irs_notified (snd (dispatch_cmd H buf s)) = irs_notified s"
    by (simp add: dispatch_cmd_def handle_aircon_action_def handle_aircon_set_temp_def
        handle_set_carrier_def handle_samsung_raw_def handle_raw_symbols_def Let_def
        notified_handlers on_tx_keeps split: list.split)
  show "ac_inv (irs_ac s) \<Longrightarrow> ac_inv (irs_ac (snd (dispatch_cmd H buf s)))"
    by (simp add: dispatch_cmd_def handle_aircon_action_def handle_aircon_set_temp_def
        handle_set_carrier_def handle_samsung_raw_def handle_raw_symbols_def Let_def
        ac_inv_on_aircon ac_inv_on_tx ac_inv_ops tx_inv_ops split: list.split)
qed

subsection \<open>Properties\<close>

text \<open>A write to the command characteristic keeps the air-conditioner invariant, and it is
  answered with its length exactly when it notifies, once, with the state it produced; a refused
  write notifies nothing.\<close>

theorem ir_write_outcome:
  assumes "ac_inv (irs_ac s)" "ir_write_cmd H buf offset s = (r, s')"
  shows "ac_inv (irs_ac s') \<and>
    (if accepted_write r
     then r = Inr (length buf) \<and> offset = 0 \<and> fst (dispatch_cmd H buf s) = 0 \<and>
       irs_notified s' = irs_notified s @ [irs_status s'] \<and>
       aircon_temp_c (irs_status s') = ir_aircon_get_temp_c 0 (irs_ac s') \<and>
       status_carrier (irs_status s') = ucast (carrier_hz (ac_tx (irs_ac s')))
     else irs_notified s' = irs_notified s)"
proof -
  obtain rc u where d: "dispatch_cmd H buf s = (rc, u)" by force
  have k: "irs_notified u = irs_notified s" "ac_inv (irs_ac u)"
    using dispatch_keeps [where H = H and buf = buf and s = s] assms(1) d by simp_all
  show ?thesis
    using assms(2) k assms(1)
    by (auto simp: ir_write_cmd_def d app_ir_svc_publish_status_def refresh_cached_status_def Let_def
        ir_tx_get_carrier_hz_def split: if_splits)
qed

definition demo_ir_svc :: ir_svc where
  "demo_ir_svc = \<lparr>irs_ac = demo_aircon,
     irs_status = \<lparr>aircon_powered = 0, aircon_temp_c = 0, status_carrier = 0\<rparr>, irs_notified = []\<rparr>"

lemma ir_write_outcome_witness:
  "irs_notified (snd (ir_write_cmd demo_tx_hw [0x7F] 0 demo_ir_svc)) = []"
  using ir_write_outcome [of demo_ir_svc demo_tx_hw "[0x7F]" 0] demo_aircon_ready(1)
  by (simp add: demo_ir_svc_def ir_write_cmd_def dispatch_cmd_def)

text \<open>A RAW_SYMBOLS payload with 1 to 60 encoded symbols is accepted and puts exactly those
  symbols on the wire, at the requested carrier when it is one of 25 to 60 kHz and at the current
  one otherwise.\<close>

theorem raw_symbols_replayed:
  assumes "ac_inv (irs_ac s)" "tx_inited (ac_tx (irs_ac s))" "ss \<noteq> []" "length ss \<le> 60"
    and "\<forall>x. thread_done H x"
    and "ir_write_cmd H (0x20 # khz # concat (map enc_symbol ss)) 0 s = (r, s')"
  shows "accepted_write r \<and>
    carrier_hz (ac_tx (irs_ac s')) =
      (if 25 \<le> khz \<and> khz \<le> 60 then ucast khz * 1000 else carrier_hz (ac_tx (irs_ac s))) \<and>
    wire (ac_tx (irs_ac s')) = wire (ac_tx (irs_ac s)) @ frame_events (carrier_hz (ac_tx (irs_ac s'))) ss"
proof -
  let ?hz = "ucast khz * 1000 :: u32"
  define t where "t = (if ?hz \<noteq> 0 then snd (ir_tx_set_carrier_hz ?hz (ac_tx (irs_ac s)))
    else ac_tx (irs_ac s))"
  have tx: "tx_inv (ac_tx (irs_ac s))" using assms(1) by (simp add: ac_inv_def)
  have "unat khz < 2 ^ LENGTH(8)" by (rule unsigned_less)
  then have k: "unat ?hz = unat khz * 1000"
    by (simp add: unat_word_ariths unsigned_ucast_eq take_bit_eq_mod)
  have rng: "(25000 \<le> ?hz \<and> ?hz \<le> 60000) \<longleftrightarrow> (25 \<le> khz \<and> khz \<le> 60)"
    by (simp add: word_le_nat_alt k)
  have c: "carrier_hz t = (if 25 \<le> khz \<and> khz \<le> 60 then ?hz else carrier_hz (ac_tx (irs_ac s)))"
    using rng by (auto simp: t_def ir_tx_set_carrier_hz_def not_less)
  have t: "tx_inv t" "tx_inited t" "wire t = wire (ac_tx (irs_ac s))"
    using tx tx_inv_ops(3) [OF tx] assms(2) by (auto simp: t_def ir_tx_set_carrier_hz_def)
  obtain rc u where u: "ir_tx_send_symbols H (Some ss) t = (rc, u)" by force
  have su: "rc = 0 \<and> wire u = wire t @ frame_events (carrier_hz t) ss \<and> carrier_hz u = carrier_hz t"
    using send_ok [OF t(1,2) assms(3) _ spec [OF assms(5)]] assms(4) u by simp
  have "handle_raw_symbols H (khz # concat (map enc_symbol ss)) s
      = (rc, s\<lparr>irs_ac := (irs_ac s)\<lparr>ac_tx := u\<rparr>\<rparr>)"
    using assms(3,4) u by (auto simp: handle_raw_symbols_def Let_def on_tx_def t_def Suc_le_eq split: prod.splits)
  then show ?thesis
    using assms(6) su c t(3)
    by (auto simp: ir_write_cmd_def dispatch_cmd_def app_ir_svc_publish_status_def
        refresh_cached_status_def Let_def)
qed

lemma raw_symbols_replayed_witness:
  "accepted_write (fst (ir_write_cmd demo_tx_hw (0x20 # 40 # enc_symbol (ir_symbol_make 500 600)) 0 demo_ir_svc))"
  using raw_symbols_replayed [of demo_ir_svc "[ir_symbol_make 500 600]" demo_tx_hw 40]
    demo_aircon_ready
  by (simp add: demo_ir_svc_def prod_eq_iff)

end
