(* ===== verification/IrRx.thy ===== *)
theory IrRx
  imports IrDecode
begin

text \<open>
  The infrared receiver \<open>app/ir/ir_rx_nxp_gpio_ctimer.c\<close>: the edge interrupt, the gap work
  that ends a frame and flips the double buffer, and the start/stop/inject API.  The pin, the
  cycle counter and the driver calls are outside the repository: their results are the
  record \<open>rx_hw\<close> and the arguments of the interrupt.  Interrupt and work handler exclude
  each other (\<open>irq_lock\<close>), so each is one step.  Frames given to the callback are logged in
  \<open>delivered\<close>.
\<close>

datatype rx_phase = RX_IDLE | RX_MARK | RX_SPACE

record rx_hw =
  cycles_per_sec :: u32
  gpio_ready :: bool
  configure_rc :: int
  add_callback_rc :: int
  interrupt_rc :: int

record ir_rx =
  cyc_per_us :: u32
  buf0 :: "ir_symbol list"
  buf1 :: "ir_symbol list"
  wr_idx :: bool
  wr_len :: nat
  phase :: rx_phase
  last_cyc :: u32
  rx_cb :: bool
  rx_active :: bool
  rx_inited :: bool
  gap_armed :: bool
  delivered :: "ir_symbol list list"

abbreviation (input) "RX_MAX \<equiv> 384 :: nat"

definition ir_rx_zero :: ir_rx where
  "ir_rx_zero = \<lparr>cyc_per_us = 0, buf0 = replicate RX_MAX (ir_symbol_make 0 0),
     buf1 = replicate RX_MAX (ir_symbol_make 0 0), wr_idx = False, wr_len = 0, phase = RX_IDLE,
     last_cyc = 0, rx_cb = False, rx_active = False, rx_inited = False, gap_armed = False,
     delivered = []\<rparr>"

subsection \<open>Operations\<close>

definition cyc_to_us :: "ir_rx \<Rightarrow> u32 \<Rightarrow> u32" where
  "cyc_to_us r cycles = (if 0 < cyc_per_us r then cycles div cyc_per_us r else 0)"

definition wr_buf :: "ir_rx \<Rightarrow> ir_symbol list" where
  "wr_buf r = (if wr_idx r then buf1 r else buf0 r)"

definition set_wr_buf :: "ir_symbol list \<Rightarrow> ir_rx \<Rightarrow> ir_rx" where
  "set_wr_buf b r = (if wr_idx r then r\<lparr>buf1 := b\<rparr> else r\<lparr>buf0 := b\<rparr>)"

definition deliver :: "ir_symbol list \<Rightarrow> ir_rx \<Rightarrow> ir_rx" where
  "deliver f r = (if 3 \<le> length f \<and> rx_cb r then r\<lparr>delivered := delivered r @ [f]\<rparr> else r)"

definition gap_work_handler :: "ir_rx \<Rightarrow> ir_rx" where
  "gap_work_handler r =
     (let done_frame = take (wr_len r) (wr_buf r);
          r = r\<lparr>wr_idx := \<not> wr_idx r, wr_len := 0, phase := RX_IDLE, gap_armed := False\<rparr>
      in deliver done_frame r)"

definition gpio_edge_cb :: "u32 \<Rightarrow> bool \<Rightarrow> ir_rx \<Rightarrow> ir_rx" where
  "gpio_edge_cb now raw_high r =
     (if \<not> rx_active r then r
      else
        let dt = now - last_cyc r;
            r = r\<lparr>last_cyc := now, gap_armed := True\<rparr>;
            dur = ucast (min (cyc_to_us r dt) 0xFFFF) :: u16
        in if \<not> raw_high then
             (case phase r of
                RX_IDLE \<Rightarrow> r\<lparr>phase := RX_MARK\<rparr>
              | RX_SPACE \<Rightarrow>
                  let idx = wr_len r;
                      r = (if 0 < idx
                           then set_wr_buf ((wr_buf r)[idx - 1 := (wr_buf r ! (idx - 1))\<lparr>space_us := dur\<rparr>]) r
                           else r)
                  in r\<lparr>phase := RX_MARK\<rparr>
              | RX_MARK \<Rightarrow> r)
           else
             (case phase r of
                RX_MARK \<Rightarrow>
                  let idx = wr_len r;
                      r = (if idx < RX_MAX
                           then (set_wr_buf ((wr_buf r)[idx := ir_symbol_make dur 0]) r)\<lparr>wr_len := idx + 1\<rparr>
                           else r)
                  in r\<lparr>phase := RX_SPACE\<rparr>
              | _ \<Rightarrow> r))"

definition ir_rx_init :: "rx_hw \<Rightarrow> u32 \<Rightarrow> ir_rx \<Rightarrow> int \<times> ir_rx" where
  "ir_rx_init hw now r =
     (if rx_inited r then (0, r)
      else
        let c = cycles_per_sec hw div 1000000;
            r = r\<lparr>cyc_per_us := (if c = 0 then 1 else c)\<rparr>
        in if \<not> gpio_ready hw then (- ENODEV, r)
           else if configure_rc hw \<noteq> 0 then (configure_rc hw, r)
           else if add_callback_rc hw \<noteq> 0 then (add_callback_rc hw, r)
           else (0, r\<lparr>wr_idx := False, wr_len := 0, phase := RX_IDLE, last_cyc := now,
                      rx_active := False, rx_inited := True\<rparr>))"

definition ir_rx_deinit :: "ir_rx \<Rightarrow> ir_rx" where
  "ir_rx_deinit r =
     (if \<not> rx_inited r then r
      else r\<lparr>gap_armed := False, rx_active := False, rx_inited := False\<rparr>)"

definition ir_rx_set_callback :: "bool \<Rightarrow> ir_rx \<Rightarrow> ir_rx" where
  "ir_rx_set_callback cb r = r\<lparr>rx_cb := cb\<rparr>"

definition ir_rx_start :: "rx_hw \<Rightarrow> u32 \<Rightarrow> ir_rx \<Rightarrow> int \<times> ir_rx" where
  "ir_rx_start hw now r =
     (case (if rx_inited r then (0, r) else ir_rx_init hw now r) of (rc, r) \<Rightarrow>
        if rc \<noteq> 0 then (rc, r)
        else
          let r = r\<lparr>wr_len := 0, phase := RX_IDLE, last_cyc := now, rx_active := True\<rparr>
          in if interrupt_rc hw \<noteq> 0 then (interrupt_rc hw, r\<lparr>rx_active := False\<rparr>)
             else (0, r))"

definition ir_rx_stop :: "ir_rx \<Rightarrow> ir_rx" where
  "ir_rx_stop r = r\<lparr>rx_active := False, gap_armed := False\<rparr>"

definition ir_rx_is_active :: "ir_rx \<Rightarrow> bool" where
  "ir_rx_is_active r = rx_active r"

definition ir_rx_inject_frame :: "ir_symbol list option \<Rightarrow> ir_rx \<Rightarrow> ir_rx" where
  "ir_rx_inject_frame syms r = (case syms of None \<Rightarrow> r | Some ss \<Rightarrow>
     if ss = [] then r
     else
       let ss = take RX_MAX ss
       in deliver ss (set_wr_buf (blit 0 ss (wr_buf r)) r))"

subsection \<open>Steps\<close>

datatype rx_event = Edge u32 bool | Gap | RxInit rx_hw u32 | RxDeinit | RxCallback bool
  | RxStart rx_hw u32 | RxStop | Inject "ir_symbol list option"

fun rx_step :: "rx_event \<Rightarrow> ir_rx \<Rightarrow> ir_rx" where
  "rx_step (Edge now h) r = gpio_edge_cb now h r"
| "rx_step Gap r = (if gap_armed r then gap_work_handler r else r)"
| "rx_step (RxInit hw now) r = snd (ir_rx_init hw now r)"
| "rx_step RxDeinit r = ir_rx_deinit r"
| "rx_step (RxCallback b) r = ir_rx_set_callback b r"
| "rx_step (RxStart hw now) r = snd (ir_rx_start hw now r)"
| "rx_step RxStop r = ir_rx_stop r"
| "rx_step (Inject ss) r = ir_rx_inject_frame ss r"

text \<open>Both halves of the buffer keep their size, the write index stays in the half, and what
  was delivered has a legal length.\<close>

definition rx_inv :: "ir_rx \<Rightarrow> bool" where
  "rx_inv r \<longleftrightarrow> length (buf0 r) = RX_MAX \<and> length (buf1 r) = RX_MAX \<and> wr_len r \<le> RX_MAX \<and>
     (\<forall>f \<in> set (delivered r). 3 \<le> length f \<and> length f \<le> RX_MAX) \<and>
     (rx_active r \<longrightarrow> rx_inited r) \<and> (rx_inited r \<longrightarrow> cyc_per_us r \<noteq> 0) \<and>
     (phase r = RX_SPACE \<longrightarrow> 0 < wr_len r)"

lemma set_wr_buf_sel [simp]:
  "wr_len (set_wr_buf b r) = wr_len r" "phase (set_wr_buf b r) = phase r"
  "wr_idx (set_wr_buf b r) = wr_idx r" "wr_buf (set_wr_buf b r) = b"
  "delivered (set_wr_buf b r) = delivered r" "rx_cb (set_wr_buf b r) = rx_cb r"
  "rx_active (set_wr_buf b r) = rx_active r" "rx_inited (set_wr_buf b r) = rx_inited r"
  "cyc_per_us (set_wr_buf b r) = cyc_per_us r" "last_cyc (set_wr_buf b r) = last_cyc r"
  "gap_armed (set_wr_buf b r) = gap_armed r"
  by (simp_all add: set_wr_buf_def wr_buf_def)

lemma rx_inv_set_wr_buf: "rx_inv r \<Longrightarrow> length b = RX_MAX \<Longrightarrow> rx_inv (set_wr_buf b r)"
  by (auto simp: rx_inv_def set_wr_buf_def)

lemma wr_buf_length: "rx_inv r \<Longrightarrow> length (wr_buf r) = RX_MAX"
  by (simp add: rx_inv_def wr_buf_def)

lemma rx_inv_deliver: "rx_inv r \<Longrightarrow> length f \<le> RX_MAX \<Longrightarrow> rx_inv (deliver f r)"
  by (auto simp: rx_inv_def deliver_def)

lemma rx_inv_step: "rx_inv r \<Longrightarrow> rx_inv (rx_step ev r)"
proof -
  assume I: "rx_inv r"
  note l = wr_buf_length [OF I]
  show ?thesis
  proof (cases ev)
    case (Edge now h)
    then show ?thesis using I l
      by (auto simp: gpio_edge_cb_def Let_def rx_inv_def set_wr_buf_def wr_buf_def
          split: rx_phase.split)
  next
    case Gap
    have "rx_inv (r\<lparr>wr_idx := \<not> wr_idx r, wr_len := 0, phase := RX_IDLE, gap_armed := False\<rparr>)"
      using I by (simp add: rx_inv_def)
    then show ?thesis using I l Gap by (auto simp: gap_work_handler_def Let_def intro: rx_inv_deliver)
  next
    case (RxStart hw now)
    then show ?thesis using I
      by (auto simp: ir_rx_start_def ir_rx_init_def Let_def rx_inv_def split: prod.split)
  next
    case (Inject ss)
    then show ?thesis using I l
      by (auto simp: ir_rx_inject_frame_def Let_def split: option.split
          intro!: rx_inv_deliver rx_inv_set_wr_buf)
  qed (use I in \<open>auto simp: ir_rx_init_def ir_rx_deinit_def ir_rx_set_callback_def ir_rx_stop_def
        Let_def rx_inv_def\<close>)
qed

inductive rx_reach :: "ir_rx \<Rightarrow> bool" where
  zero: "rx_reach ir_rx_zero"
| step: "rx_reach r \<Longrightarrow> rx_reach (rx_step ev r)"

lemma rx_reach_inv: "rx_reach r \<Longrightarrow> rx_inv r"
  by (induction rule: rx_reach.induct) (simp add: rx_inv_def ir_rx_zero_def, rule rx_inv_step)

subsection \<open>Capturing a pulse train\<close>

text \<open>A train of marks and spaces in cycles, as the edges the pin shows from time \<open>t\<close> on; the
  last space is the silence that ends the frame.\<close>

fun edges :: "u32 \<Rightarrow> (u32 \<times> u32) list \<Rightarrow> rx_event list" where
  "edges t [] = []"
| "edges t ((m, s) # ps) = Edge t False # Edge (t + m) True # edges (t + m + s) ps"

definition us16 :: "u32 \<Rightarrow> u32 \<Rightarrow> u16" where
  "us16 cpu c = ucast (min (c div cpu) 0xFFFF)"

fun captured :: "u32 \<Rightarrow> (u32 \<times> u32) list \<Rightarrow> ir_symbol list" where
  "captured cpu [] = []"
| "captured cpu ((m, s) # ps) =
     ir_symbol_make (us16 cpu m) (if ps = [] then 0 else us16 cpu s) # captured cpu ps"

lemma length_captured [simp]: "length (captured cpu ps) = length ps"
  by (induction cpu ps rule: captured.induct) auto

text \<open>After the rising edge at \<open>t\<close>: the symbols so far are in the buffer, the last one without
  its space.\<close>

definition in_space :: "u32 \<Rightarrow> u32 \<Rightarrow> ir_symbol list \<Rightarrow> u16 \<Rightarrow> ir_rx \<Rightarrow> bool" where
  "in_space cpu t pre m r \<longleftrightarrow> rx_active r \<and> cyc_per_us r = cpu \<and> 0 < cpu \<and> phase r = RX_SPACE \<and>
     last_cyc r = t \<and> wr_len r = Suc (length pre) \<and> length (wr_buf r) = RX_MAX \<and>
     (\<exists>rest. wr_buf r = pre @ ir_symbol_make m 0 # rest)"

lemma in_space_next:
  assumes "in_space cpu t pre m r" "length pre + 1 < RX_MAX"
  shows "in_space cpu (t + sp + m') (pre @ [ir_symbol_make m (us16 cpu sp)]) (us16 cpu m')
    (gpio_edge_cb (t + sp + m') True (gpio_edge_cb (t + sp) False r)) \<and>
    rx_cb (gpio_edge_cb (t + sp + m') True (gpio_edge_cb (t + sp) False r)) = rx_cb r \<and>
    delivered (gpio_edge_cb (t + sp + m') True (gpio_edge_cb (t + sp) False r)) = delivered r \<and>
    gap_armed (gpio_edge_cb (t + sp + m') True (gpio_edge_cb (t + sp) False r))"
proof -
  obtain rest where b: "wr_buf r = pre @ ir_symbol_make m 0 # rest"
    and r: "rx_active r" "cyc_per_us r = cpu" "0 < cpu" "phase r = RX_SPACE" "last_cyc r = t"
      "wr_len r = Suc (length pre)" "length (wr_buf r) = RX_MAX"
    using assms(1) by (auto simp: in_space_def)
  then obtain y rest' where rest: "rest = y # rest'" using assms(2) by (cases rest) auto
  have idx: "(wr_buf r)[length pre := (wr_buf r ! length pre)\<lparr>space_us := x\<rparr>]
      = pre @ ir_symbol_make m x # y # rest'" for x
    by (simp add: b rest ir_symbol_make_def)
  show ?thesis
    using r assms(2) idx
    by (simp add: gpio_edge_cb_def Let_def in_space_def us16_def cyc_to_us_def wr_buf_def set_wr_buf_def)
       (auto simp: list_update_append)
qed

lemma capture_more:
  assumes "in_space cpu t pre m r" "length pre + 1 + length ps \<le> RX_MAX" "gap_armed r"
  shows "\<exists>t' m' pre'. in_space cpu t' pre' m' (fold rx_step (edges (t + sp) ps) r) \<and>
    pre' @ [ir_symbol_make m' 0] =
      pre @ ir_symbol_make m (if ps = [] then 0 else us16 cpu sp) # captured cpu ps \<and>
    rx_cb (fold rx_step (edges (t + sp) ps) r) = rx_cb r \<and>
    delivered (fold rx_step (edges (t + sp) ps) r) = delivered r \<and>
    gap_armed (fold rx_step (edges (t + sp) ps) r)"
  using assms
proof (induction ps arbitrary: t sp pre m r)
  case Nil
  then show ?case by auto
next
  case (Cons p ps)
  obtain m' s' where p: "p = (m', s')" by force
  let ?r = "gpio_edge_cb (t + sp + m') True (gpio_edge_cb (t + sp) False r)"
  let ?pre = "pre @ [ir_symbol_make m (us16 cpu sp)]"
  have n: "in_space cpu (t + sp + m') ?pre (us16 cpu m') ?r" "rx_cb ?r = rx_cb r"
    "delivered ?r = delivered r" "gap_armed ?r"
    using in_space_next [OF Cons.prems(1), of sp m'] Cons.prems(2) by simp_all
  from Cons.IH [OF n(1) _ n(4), of s'] Cons.prems(2) n
  show ?case by (simp add: p)
qed

lemma first_mark:
  assumes "rx_active r" "rx_inv r" "rx_inited r" "phase r = RX_IDLE" "wr_len r = 0"
  shows "in_space (cyc_per_us r) (t + m) [] (us16 (cyc_per_us r) m)
      (gpio_edge_cb (t + m) True (gpio_edge_cb t False r)) \<and>
    rx_cb (gpio_edge_cb (t + m) True (gpio_edge_cb t False r)) = rx_cb r \<and>
    delivered (gpio_edge_cb (t + m) True (gpio_edge_cb t False r)) = delivered r \<and>
    gap_armed (gpio_edge_cb (t + m) True (gpio_edge_cb t False r))"
proof -
  have l: "length (wr_buf r) = RX_MAX" using assms(2) by (rule wr_buf_length)
  then obtain y rest where b: "wr_buf r = y # rest" by (cases "wr_buf r") auto
  have c: "0 < cyc_per_us r" using assms(2,3) by (simp add: rx_inv_def word_neq_0_conv)
  show ?thesis
    using assms l b c
    by (auto simp: gpio_edge_cb_def Let_def in_space_def us16_def cyc_to_us_def wr_buf_def set_wr_buf_def)
qed

lemma capture_run:
  assumes "rx_active r" "rx_inv r" "rx_inited r" "phase r = RX_IDLE" "wr_len r = 0"
    and "ps \<noteq> []" "length ps \<le> RX_MAX"
  shows "delivered (rx_step Gap (fold rx_step (edges t ps) r)) =
    delivered r @ (if 3 \<le> length ps \<and> rx_cb r then [captured (cyc_per_us r) ps] else [])"
proof -
  obtain m s ps' where ps: "ps = (m, s) # ps'" using assms(6) by (cases ps) auto
  let ?r = "gpio_edge_cb (t + m) True (gpio_edge_cb t False r)"
  note f = first_mark [OF assms(1-5), of t m]
  obtain t' m' pre' where Q: "in_space (cyc_per_us r) t' pre' m' (fold rx_step (edges (t + m + s) ps') ?r)"
    "pre' @ [ir_symbol_make m' 0] = captured (cyc_per_us r) ps"
    "rx_cb (fold rx_step (edges (t + m + s) ps') ?r) = rx_cb r"
    "delivered (fold rx_step (edges (t + m + s) ps') ?r) = delivered r"
    "gap_armed (fold rx_step (edges (t + m + s) ps') ?r)"
    using capture_more [of "cyc_per_us r" "t + m" "[]" "us16 (cyc_per_us r) m" ?r ps' s]
      f assms(7) by (auto simp: ps)
  let ?q = "fold rx_step (edges (t + m + s) ps') ?r"
  have take: "take (wr_len ?q) (wr_buf ?q) = captured (cyc_per_us r) ps"
  proof -
    obtain rest where "wr_buf ?q = (pre' @ [ir_symbol_make m' 0]) @ rest" "wr_len ?q = length (pre' @ [ir_symbol_make m' 0])"
      using Q(1) by (auto simp: in_space_def)
    then show ?thesis by (simp add: Q(2) [symmetric])
  qed
  have "fold rx_step (edges t ps) r = ?q" by (simp add: ps)
  then show ?thesis
    using Q(3-5) take by (simp add: gap_work_handler_def Let_def deliver_def)
qed

subsection \<open>From the transmitter to the decoder\<close>

text \<open>A symbol on the air: its mark and space in cycles of a receiver with \<open>cpu\<close> cycles per
  microsecond.\<close>

definition on_air :: "u32 \<Rightarrow> ir_symbol list \<Rightarrow> (u32 \<times> u32) list" where
  "on_air cpu syms = map (\<lambda>s. (mark32 s * cpu, space32 s * cpu)) syms"

lemma us16_exact:
  assumes "0 < cpu" "unat cpu < 65536"
  shows "us16 cpu (ucast w * cpu) = (w :: u16)"
proof -
  have "unat w < 2 ^ LENGTH(16)" by (rule unsigned_less)
  then have w: "unat (ucast w :: u32) = unat w" "unat w < 65536"
    by (simp_all add: unsigned_ucast_eq take_bit_eq_mod)
  have "unat w * unat cpu \<le> 65535 * 65535"
    using w(2) assms(2) by (intro mult_le_mono) simp_all
  then have "unat w * unat cpu < 2 ^ 32" by simp
  then have "unat (ucast w * cpu :: u32) = unat w * unat cpu"
    by (simp add: unat_word_ariths w(1))
  then have "unat (ucast w * cpu div cpu :: u32) = unat w"
    using assms(1) by (simp add: unat_div word_less_nat_alt)
  then have "ucast w * cpu div cpu = (ucast w :: u32)"
    by (simp add: word_unat_eq_iff w(1))
  moreover have "(ucast w :: u32) \<le> 0xFFFF" using w by (simp add: word_le_nat_alt)
  ultimately show ?thesis
    by (simp add: us16_def min_def)
qed

lemma captured_on_air:
  assumes "0 < cpu" "unat cpu < 65536"
  shows "captured cpu (on_air cpu ss) =
    (if ss = [] then [] else butlast ss @ [(last ss)\<lparr>space_us := 0\<rparr>])"
proof (induction ss)
  case (Cons s ss)
  then show ?case using us16_exact [OF assms]
    by (cases ss) (auto simp: on_air_def ir_symbol_make_def)
qed (simp add: on_air_def)

lemma gap_idle:
  "rx_inv r \<Longrightarrow> phase (rx_step Gap r) = RX_IDLE \<or> \<not> gap_armed r"
  "gap_armed r \<Longrightarrow> wr_len (rx_step Gap r) = 0 \<and> phase (rx_step Gap r) = RX_IDLE"
  by (simp_all add: gap_work_handler_def Let_def deliver_def)

lemma step_flags:
  "rx_active (gpio_edge_cb now h r) = rx_active r" "rx_inited (gpio_edge_cb now h r) = rx_inited r"
  "cyc_per_us (gpio_edge_cb now h r) = cyc_per_us r" "rx_cb (gpio_edge_cb now h r) = rx_cb r"
  "rx_active (gap_work_handler r) = rx_active r" "rx_inited (gap_work_handler r) = rx_inited r"
  "cyc_per_us (gap_work_handler r) = cyc_per_us r" "rx_cb (gap_work_handler r) = rx_cb r"
  by (auto simp: gpio_edge_cb_def gap_work_handler_def Let_def deliver_def set_wr_buf_def
      split: rx_phase.split)

lemma edges_flags:
  "rx_active (fold rx_step (edges t ps) r) = rx_active r \<and>
   rx_inited (fold rx_step (edges t ps) r) = rx_inited r \<and>
   cyc_per_us (fold rx_step (edges t ps) r) = cyc_per_us r \<and>
   rx_cb (fold rx_step (edges t ps) r) = rx_cb r"
  by (induction t ps arbitrary: r rule: edges.induct) (simp_all add: step_flags)

lemma rx_inv_fold: "rx_inv r \<Longrightarrow> rx_inv (fold rx_step evs r)"
  by (induction evs arbitrary: r) (simp_all add: rx_inv_step)

text \<open>After a captured train and its gap the receiver is ready for the next one.\<close>

lemma capture_ready:
  assumes "rx_active r" "rx_inv r" "rx_inited r" "ps \<noteq> []"
    and r'_def: "r' = rx_step Gap (fold rx_step (edges t ps) r)"
  shows "rx_active r' \<and> rx_inv r' \<and> rx_inited r' \<and> phase r' = RX_IDLE \<and> wr_len r' = 0 \<and>
    rx_cb r' = rx_cb r \<and> cyc_per_us r' = cyc_per_us r"
proof -
  have armed: "rx_active q \<Longrightarrow> gap_armed q \<or> qs \<noteq> [] \<Longrightarrow> gap_armed (fold rx_step (edges t qs) q)" for q qs t
  proof (induction t qs arbitrary: q rule: edges.induct)
    case (2 t m s ps)
    have "gap_armed (gpio_edge_cb now h x)" if "rx_active x" for now h x
      using that by (auto simp: gpio_edge_cb_def Let_def set_wr_buf_def split: rx_phase.split)
    then show ?case using 2 by (simp add: step_flags)
  qed simp
  let ?q = "fold rx_step (edges t ps) r"
  have g: "gap_armed ?q" using armed [OF assms(1)] assms(4) by simp
  then have "r' = gap_work_handler ?q" by (simp add: r'_def)
  moreover have "rx_inv r'" unfolding r'_def by (intro rx_inv_step rx_inv_fold assms(2))
  ultimately show ?thesis
    using edges_flags [of t ps r] gap_idle(2) [OF g] assms(1,3) r'_def
    by (simp add: step_flags)
qed

subsection \<open>Properties\<close>

text \<open>C22: whatever edges, gaps and calls arrive, both halves of the buffer keep their 384
  entries, the write index stays inside, and every frame given to the callback has between 3
  and 384 symbols.\<close>

theorem rx_reachable_inv:
  assumes "rx_reach r"
  shows "length (buf0 r) = RX_MAX \<and> length (buf1 r) = RX_MAX \<and> wr_len r \<le> RX_MAX \<and>
    list_all (\<lambda>f. 3 \<le> length f \<and> length f \<le> RX_MAX) (delivered r)"
  using rx_reach_inv [OF assms] by (simp add: rx_inv_def list_all_iff)

lemma rx_reachable_inv_witness:
  "wr_len (rx_step (Edge 5 True) ir_rx_zero) \<le> RX_MAX"
  using rx_reachable_inv [OF rx_reach.step [OF rx_reach.zero]] by blast

text \<open>A pulse train of 3 to 384 symbols that starts at any value of the wrapping cycle
  counter is delivered as its marks and spaces in whole microseconds (clipped at 65535), the
  last space 0.\<close>

theorem capture_train:
  assumes "rx_active r" "rx_inv r" "rx_inited r" "phase r = RX_IDLE" "wr_len r = 0" "rx_cb r"
    and "3 \<le> length ps" "length ps \<le> RX_MAX"
  shows "delivered (rx_step Gap (fold rx_step (edges t ps) r)) =
    delivered r @ [captured (cyc_per_us r) ps]"
proof -
  have "ps \<noteq> []" using assms(7) by auto
  from capture_run [OF assms(1-5) this assms(8), of t] assms(6,7) show ?thesis by simp
qed

definition demo_hw :: rx_hw where
  "demo_hw = \<lparr>cycles_per_sec = 200000000, gpio_ready = True, configure_rc = 0,
     add_callback_rc = 0, interrupt_rc = 0\<rparr>"

definition demo_rx :: ir_rx where
  "demo_rx = snd (ir_rx_start demo_hw 0 (ir_rx_set_callback True ir_rx_zero))"

lemma demo_rx_ready:
  "rx_active demo_rx" "rx_inv demo_rx" "rx_inited demo_rx" "phase demo_rx = RX_IDLE"
  "wr_len demo_rx = 0" "rx_cb demo_rx" "cyc_per_us demo_rx = 200" "delivered demo_rx = []"
  by (simp_all add: demo_rx_def ir_rx_start_def ir_rx_init_def ir_rx_set_callback_def Let_def
      demo_hw_def ir_rx_zero_def rx_inv_def)

lemma capture_train_witness:
  "delivered (rx_step Gap (fold rx_step (edges 4294967000 [(200, 400), (600, 800), (1000, 0)]) demo_rx))
   = [[ir_symbol_make 1 2, ir_symbol_make 3 4, ir_symbol_make 5 0]]"
proof -
  have d: "200 div (200 :: u32) = 1" "400 div (200 :: u32) = 2" "600 div (200 :: u32) = 3"
    "800 div (200 :: u32) = 4" "1000 div (200 :: u32) = 5"
    by simp_all
  show ?thesis
    using capture_train [OF demo_rx_ready(1-6), of "[(200, 400), (600, 800), (1000, 0)]" 4294967000]
    by (simp add: demo_rx_ready us16_def d min_def)
qed

text \<open>From transmitter to decoder: a Samsung frame on the air, its long header space cutting
  the capture in two, reaches the callback once, and that frame decodes to the encoded bytes as
  a whole and section by section.\<close>

theorem air_to_decoder:
  assumes "ir_codec_samsung_ac_encode (Some d) (Some c) = Inr syms"
    and "rx_active r" "rx_inv r" "rx_inited r" "phase r = RX_IDLE" "wr_len r = 0" "rx_cb r"
    and "unat (cyc_per_us r) < 65536" "k < length d div 7"
    and "r1 = rx_step Gap (fold rx_step (edges t (on_air (cyc_per_us r) [hd syms])) r)"
    and "r2 = rx_step Gap (fold rx_step (edges t' (on_air (cyc_per_us r) (tl syms))) r1)"
  shows "\<exists>f. delivered r2 = delivered r @ [f] \<and>
    take (length d) (raw_bytes (snd (ir_decode (Some f)))) = d \<and>
    ir_decode_samsung_ac_section (Some f) k = (1, take 7 (drop (7 * k) d))"
proof -
  let ?cpu = "cyc_per_us r"
  let ?f = "captured ?cpu (on_air ?cpu (tl syms))"
  have cpu: "0 < ?cpu" using assms(3,4) by (simp add: rx_inv_def word_neq_0_conv)
  have e: "tl syms = sac_body d" "d \<noteq> []" "length d = 7 * (length d div 7)"
    using encode_body [OF assms(1)] by simp_all
  have len: "length syms \<le> 175" "length (tl syms) = 58 * (length d div 7)"
    using encode_length [OF assms(1)] by simp_all
  have n1: "3 \<le> length (tl syms)" unfolding len(2) using assms(9) by simp
  then have n: "3 \<le> length (tl syms)" "tl syms \<noteq> []" by (simp, metis list.size(3) not_numeral_le_zero)
  have h: "delivered r1 = delivered r"
    using capture_run [OF assms(2-6), of "on_air ?cpu [hd syms]" t] assms(10) by (simp add: on_air_def)
  have r1: "rx_active r1" "rx_inv r1" "rx_inited r1" "phase r1 = RX_IDLE" "wr_len r1 = 0" "rx_cb r1"
    "cyc_per_us r1 = ?cpu"
    using capture_ready [OF assms(2-4) _ assms(10)] assms(7) by (simp_all add: on_air_def)
  have f: "delivered r2 = delivered r @ [?f]"
    using capture_train [OF r1(1-6), of "on_air ?cpu (tl syms)" t'] n(1) len(1) h r1(7) assms(11)
    by (simp add: on_air_def)
  have "?f = butlast (tl syms) @ [(last (tl syms))\<lparr>space_us := 0\<rparr>]"
    using captured_on_air [OF cpu assms(8), of "tl syms"] n(2) by simp
  moreover have "jitter (tl syms) \<dots>"
  proof -
    have "jitter (tl syms) (tl syms)"
      using jitter_same [OF assms(1)] encode_body [OF assms(1)] by (auto simp: jitter_def)
    then have "jitter (butlast (tl syms)) (butlast (tl syms))" "within (last (tl syms)) (last (tl syms))"
      using n(2) by (simp_all add: jitter_def list_all2_same in_set_butlastD)
    moreover have "space_us (last (tl syms)) = SAC_FINAL_GAP"
      unfolding e(1) by (rule sac_body_last) (use e in auto)
    ultimately have "jitter (butlast (tl syms) @ [last (tl syms)])
        (butlast (tl syms) @ [(last (tl syms))\<lparr>space_us := 0\<rparr>])"
      by (simp add: jitter_def list_all2_append within_def)
    then show ?thesis using n(2) by simp
  qed
  ultimately have "jitter (tl syms) ?f" by simp
  from samsung_split [OF assms(1) this assms(9)] f show ?thesis by blast
qed

lemma air_to_decoder_witness:
  "\<exists>syms (r2 :: ir_rx). ir_codec_samsung_ac_encode (Some demo_section) (Some 59) = Inr syms \<and>
     length (delivered r2) = 1 \<and>
     ir_decode_samsung_ac_section (Some (last (delivered r2))) 0 = (1, demo_section)"
proof -
  obtain syms where s: "ir_codec_samsung_ac_encode (Some demo_section) (Some 59) = Inr syms"
    by (simp add: ir_codec_samsung_ac_encode_def demo_section_def Let_def)
  define r1 where "r1 = rx_step Gap (fold rx_step (edges 0 (on_air 200 [hd syms])) demo_rx)"
  define r2 where "r2 = rx_step Gap (fold rx_step (edges 0 (on_air 200 (tl syms))) r1)"
  have "\<exists>f. delivered r2 = delivered demo_rx @ [f] \<and>
    take (length demo_section) (raw_bytes (snd (ir_decode (Some f)))) = demo_section \<and>
    ir_decode_samsung_ac_section (Some f) 0 = (1, take 7 (drop (7 * 0) demo_section))"
    by (rule air_to_decoder [OF s demo_rx_ready(1-6)])
       (simp_all add: demo_rx_ready demo_section_length r1_def r2_def)
  then obtain f where "delivered r2 = [f]" "ir_decode_samsung_ac_section (Some f) 0 = (1, demo_section)"
    by (auto simp: demo_rx_ready demo_section_length)
  then have "length (delivered r2) = 1 \<and>
     ir_decode_samsung_ac_section (Some (last (delivered r2))) 0 = (1, demo_section)" by simp
  then show ?thesis using s by blast
qed

end
