(* ===== verification/AppIr.thy ===== *)
theory AppIr
  imports IrRx
begin

text \<open>
  The frame callback \<open>ir_rx_frame_cb\<close> of \<open>app/app_main_zephyr.c\<close>: Samsung frames are
  collected section by section over the repetitions of a remote, keeping only sections whose
  checksum holds, and reported once all three are there; other protocols are reported at once.
  The statics \<open>s_sec\<close>, \<open>s_have\<close> are the state, the printed reports are logged.
\<close>

datatype ir_report = Proto_report ir_decoded | Samsung_report "u8 list"

record ir_app =
  sec :: "u8 list list"
  have_sec :: "bool list"
  reports :: "ir_report list"

definition ir_app_boot :: ir_app where
  "ir_app_boot = \<lparr>sec = replicate 3 (replicate 7 0), have_sec = replicate 3 False, reports = []\<rparr>"

definition collect_section :: "ir_symbol list \<Rightarrow> nat \<Rightarrow> ir_app \<Rightarrow> ir_app" where
  "collect_section syms s a =
     (case ir_decode_samsung_ac_section (Some syms) s of (rc, tmp) \<Rightarrow>
        if rc \<noteq> 1 then a
        else if \<not> ir_codec_samsung_ac_verify tmp then a
        else
          let a = (if s = 0 \<and> have_sec a ! 0 \<and> tmp \<noteq> sec a ! 0
                   then a\<lparr>have_sec := (have_sec a)[1 := False, 2 := False]\<rparr> else a)
          in a\<lparr>sec := (sec a)[s := tmp], have_sec := (have_sec a)[s := True]\<rparr>)"

definition ir_rx_frame_cb :: "ir_symbol list \<Rightarrow> ir_app \<Rightarrow> ir_app" where
  "ir_rx_frame_cb syms a =
     (if fst (ir_decode_samsung_ac_section (Some syms) 0) < 0 then
        (case ir_decode (Some syms) of (rc, dec) \<Rightarrow>
           if rc = 0 \<and> proto dec \<noteq> IR_PROTO_SAMSUNG_AC
           then a\<lparr>reports := reports a @ [Proto_report dec]\<rparr> else a)
      else
        let a = fold (collect_section syms) [0..<3] a in
        if have_sec a ! 0 \<and> have_sec a ! 1 \<and> have_sec a ! 2
        then a\<lparr>reports := reports a @ [Samsung_report (concat (sec a))],
               have_sec := (have_sec a)[0 := False, 1 := False, 2 := False]\<rparr>
        else a)"

subsection \<open>The collector's invariant\<close>

definition good_section :: "u8 list \<Rightarrow> bool" where
  "good_section x \<longleftrightarrow> length x = 7 \<and> ir_codec_samsung_ac_verify x"

definition app_ir_inv :: "ir_app \<Rightarrow> bool" where
  "app_ir_inv a \<longleftrightarrow> length (sec a) = 3 \<and> length (have_sec a) = 3 \<and>
     list_all (\<lambda>x. length x = 7) (sec a) \<and>
     list_all (\<lambda>i. have_sec a ! i \<longrightarrow> good_section (sec a ! i)) [0, 1, 2] \<and>
     list_all (\<lambda>r. case r of Proto_report d \<Rightarrow> proto d \<noteq> IR_PROTO_SAMSUNG_AC
       | Samsung_report d \<Rightarrow> length d = 21 \<and> ir_codec_samsung_ac_verify_all (Some d)) (reports a)"

text \<open>A section that was read has seven bytes.\<close>

lemma section_bits_length:
  "section_bits k cur bp out ss = Some out' \<Longrightarrow> bp < 8 \<Longrightarrow> (k + bp) mod 8 = 0 \<Longrightarrow>
     length out' = length out + (k + bp) div 8"
proof (induction k cur bp out ss arbitrary: out' rule: section_bits.induct)
  case (1 cur bp out ss)
  then show ?case by simp
next
  case (3 k cur bp out s ss)
  obtain b where b: "sac_bit s = Some b" using 3(3) by (auto split: option.splits)
  show ?case
  proof (cases "bp = 7")
    case True
    then have r: "section_bits k 0 0 (out @ [cur OR push_bit bp b]) ss = Some out'"
      using 3(3) b by (simp add: Let_def)
    have "k mod 8 = 0" using 3(5) True by presburger
    then show ?thesis using 3(1) [OF b refl _ r] True by simp
  next
    case False
    then have r: "section_bits k (cur OR push_bit bp b) (bp + 1) out ss = Some out'"
      using 3(3) b by (simp add: Let_def)
    then show ?thesis using 3(2) [OF b refl _ r] False 3(4,5) by simp
  qed
qed simp

lemma section_length:
  "ir_decode_samsung_ac_section (Some syms) s = (1, tmp) \<Longrightarrow> length tmp = 7"
  using section_bits_length [of 56 0 0 "[]" "drop (s * 58 + 1) syms" tmp]
  by (auto simp: ir_decode_samsung_ac_section_def Let_def split: if_splits option.splits)

lemma three: "length xs = 3 \<longleftrightarrow> (\<exists>a b c. xs = [a, b, c])"
  by (auto simp: numeral_eq_Suc length_Suc_conv)

lemma collect_inv: "s < 3 \<Longrightarrow> app_ir_inv a \<Longrightarrow> app_ir_inv (collect_section syms s a)"
proof -
  assume s: "s < 3" and I: "app_ir_inv a"
  obtain rc tmp where D: "ir_decode_samsung_ac_section (Some syms) s = (rc, tmp)" by force
  obtain x0 x1 x2 where x: "sec a = [x0, x1, x2]" using I by (auto simp: app_ir_inv_def three)
  obtain h0 h1 h2 where h: "have_sec a = [h0, h1, h2]" using I by (auto simp: app_ir_inv_def three)
  have g: "rc = 1 \<Longrightarrow> ir_codec_samsung_ac_verify tmp \<Longrightarrow> good_section tmp"
    using section_length D by (simp add: good_section_def)
  show ?thesis
  proof (cases "rc = 1 \<and> ir_codec_samsung_ac_verify tmp")
    case False
    then show ?thesis using I by (auto simp: collect_section_def D)
  next
    case True
    then have t: "good_section tmp" "length tmp = 7" using g by (auto simp: good_section_def)
    have I': "length x0 = 7" "length x1 = 7" "length x2 = 7" "h0 \<longrightarrow> good_section x0"
      "h1 \<longrightarrow> good_section x1" "h2 \<longrightarrow> good_section x2"
      using I by (auto simp: app_ir_inv_def x h)
    have r: "reports (collect_section syms s a) = reports a"
      using True by (simp add: collect_section_def D Let_def)
    have k: "\<exists>y0 y1 y2 k0 k1 k2. sec (collect_section syms s a) = [y0, y1, y2] \<and>
        have_sec (collect_section syms s a) = [k0, k1, k2] \<and> length y0 = 7 \<and> length y1 = 7 \<and> length y2 = 7 \<and>
        (k0 \<longrightarrow> good_section y0) \<and> (k1 \<longrightarrow> good_section y1) \<and> (k2 \<longrightarrow> good_section y2)"
    proof -
      consider "s = 0" | "s = 1" | "s = 2" using s by linarith
      then show ?thesis by cases (use I' t True D in \<open>simp_all add: collect_section_def x h Let_def, auto?\<close>)
    qed
    then show ?thesis using I r by (auto simp: app_ir_inv_def)
  qed
qed

lemma collect_all_inv: "app_ir_inv a \<Longrightarrow> app_ir_inv (fold (collect_section syms) [0..<3] a)"
  by (simp add: upt_rec collect_inv)

lemma three_sections_verify:
  "length a = 7 \<Longrightarrow> length b = 7 \<Longrightarrow> length c = 7 \<Longrightarrow>
    ir_codec_samsung_ac_verify_all (Some (a @ b @ c)) \<longleftrightarrow>
    ir_codec_samsung_ac_verify a \<and> ir_codec_samsung_ac_verify b \<and> ir_codec_samsung_ac_verify c"
  using verify_take [of "a @ b @ c"] verify_take [of "b @ c"]
  by (simp add: ir_codec_samsung_ac_verify_all_def verify_loop.simps)

lemma frame_cb_inv: "app_ir_inv a \<Longrightarrow> app_ir_inv (ir_rx_frame_cb syms a)"
proof -
  assume I: "app_ir_inv a"
  define b where "b = fold (collect_section syms) [0..<3] a"
  have B: "app_ir_inv b" unfolding b_def by (rule collect_all_inv [OF I])
  obtain x0 x1 x2 where x: "sec b = [x0, x1, x2]" using B by (auto simp: app_ir_inv_def three)
  obtain h0 h1 h2 where h: "have_sec b = [h0, h1, h2]" using B by (auto simp: app_ir_inv_def three)
  show ?thesis
  proof (cases "fst (ir_decode_samsung_ac_section (Some syms) 0) < 0")
    case True
    then show ?thesis using I by (auto simp: ir_rx_frame_cb_def app_ir_inv_def split: prod.split)
  next
    case False
    then show ?thesis using B
      by (auto simp: ir_rx_frame_cb_def Let_def b_def [symmetric] app_ir_inv_def x h
          three_sections_verify good_section_def)
  qed
qed

subsection \<open>Properties\<close>

text \<open>What a frame contributes at index \<open>i\<close>: a section that was read and whose checksum holds, unless the
  frame does not start as a Samsung frame; and the latest such section of the frames so far.\<close>

definition heard :: "nat \<Rightarrow> ir_symbol list \<Rightarrow> u8 list option" where
  "heard i syms =
     (if fst (ir_decode_samsung_ac_section (Some syms) 0) < 0 then None
      else case ir_decode_samsung_ac_section (Some syms) i of (rc, x) \<Rightarrow>
        if rc = 1 \<and> ir_codec_samsung_ac_verify x then Some x else None)"

definition latest :: "nat \<Rightarrow> ir_symbol list list \<Rightarrow> u8 list option" where
  "latest i frames = fold (\<lambda>f x. case heard i f of None \<Rightarrow> x | Some y \<Rightarrow> Some y) frames None"

lemma latest_snoc: "latest i (xs @ [f]) = (case heard i f of None \<Rightarrow> latest i xs | Some y \<Rightarrow> Some y)"
  by (cases "heard i f") (simp_all add: latest_def)

text \<open>The collector holds, where its flag is set, the latest section.\<close>

definition holds_latest :: "ir_symbol list list \<Rightarrow> ir_app \<Rightarrow> bool" where
  "holds_latest xs a \<longleftrightarrow> list_all (\<lambda>i. have_sec a ! i \<longrightarrow> latest i xs = Some (sec a ! i)) [0, 1, 2]"

lemma collect_heard:
  assumes "\<not> fst (ir_decode_samsung_ac_section (Some f) 0) < 0" "length (sec a) = 3" "length (have_sec a) = 3" "s < 3"
  shows "(case heard s f of None \<Rightarrow> collect_section f s a = a
    | Some y \<Rightarrow> sec (collect_section f s a) = (sec a)[s := y] \<and> have_sec (collect_section f s a) ! s \<and>
        (\<forall>i < 3. i \<noteq> s \<longrightarrow> have_sec (collect_section f s a) ! i \<longrightarrow> have_sec a ! i)) \<and>
    length (sec (collect_section f s a)) = 3 \<and> length (have_sec (collect_section f s a)) = 3"
proof -
  obtain x0 x1 x2 h0 h1 h2 where x: "sec a = [x0, x1, x2]" "have_sec a = [h0, h1, h2]"
    using assms(2,3) by (auto simp: three)
  have "s = 0 \<or> s = 1 \<or> s = 2" using assms(4) by linarith
  then show ?thesis using assms(1) x
    by (auto simp: collect_section_def heard_def Let_def less_Suc_eq numeral_eq_Suc split: prod.split)
qed

lemma collect_latest:
  assumes "\<not> fst (ir_decode_samsung_ac_section (Some f) 0) < 0" "length (sec a) = 3" "length (have_sec a) = 3" "s < 3"
    and "\<forall>i < 3. have_sec a ! i \<longrightarrow> (if i < s then latest i (xs @ [f]) else latest i xs) = Some (sec a ! i)"
    and "b = collect_section f s a"
  shows "length (sec b) = 3 \<and> length (have_sec b) = 3 \<and>
    (\<forall>i < 3. have_sec b ! i \<longrightarrow> (if i < Suc s then latest i (xs @ [f]) else latest i xs) = Some (sec b ! i))"
proof (cases "heard s f")
  case None
  then have "latest s (xs @ [f]) = latest s xs" "b = a" using assms(6) collect_heard [OF assms(1-4)] by (simp_all add: latest_snoc)
  then show ?thesis using assms(2,3,5) by (auto simp: less_Suc_eq)
next
  case (Some y)
  then have c: "sec b = (sec a)[s := y]" "\<forall>i < 3. i \<noteq> s \<longrightarrow> have_sec b ! i \<longrightarrow> have_sec a ! i" "length (have_sec b) = 3"
    using collect_heard [OF assms(1-4)] assms(6) by simp_all
  have "latest s (xs @ [f]) = Some y" using Some by (simp add: latest_snoc)
  then have "(if i < Suc s then latest i (xs @ [f]) else latest i xs) = Some (sec b ! i)" if "i < 3" "have_sec b ! i" for i
    using that assms(2-5) c(1,2) by (cases "i = s") (auto simp: less_Suc_eq)
  then show ?thesis using assms(2) c by simp
qed

lemma collected_latest:
  assumes "\<not> fst (ir_decode_samsung_ac_section (Some f) 0) < 0" "app_ir_inv a" "holds_latest xs a"
  shows "holds_latest (xs @ [f]) (fold (collect_section f) [0..<3] a)"
proof -
  have three: "(\<forall>i < 3. P i) \<longleftrightarrow> P 0 \<and> P 1 \<and> P (2 :: nat)" for P by (auto simp: less_Suc_eq numeral_eq_Suc)
  have l: "length (sec a) = 3" "length (have_sec a) = 3"
    "\<forall>i < 3. have_sec a ! i \<longrightarrow> (if i < 0 then latest i (xs @ [f]) else latest i xs) = Some (sec a ! i)"
    using assms(2,3) by (simp_all add: app_ir_inv_def holds_latest_def three)
  note c1 = collect_latest [OF assms(1) l(1,2) _ l(3) refl]
  note c2 = collect_latest [OF assms(1) conjunct1 [OF c1] conjunct1 [OF conjunct2 [OF c1]] _ conjunct2 [OF conjunct2 [OF c1]] refl]
  note c3 = collect_latest [OF assms(1) conjunct1 [OF c2] conjunct1 [OF conjunct2 [OF c2]] _ conjunct2 [OF conjunct2 [OF c2]] refl]
  have "[0..<3] = [0, Suc 0, Suc (Suc 0)]" by (simp add: upt_rec)
  then have u: "fold (collect_section f) [0..<3] a =
      collect_section f (Suc (Suc 0)) (collect_section f (Suc 0) (collect_section f 0 a))" by (simp only: fold_simps)
  have "\<forall>i < 3. have_sec (fold (collect_section f) [0..<3] a) ! i \<longrightarrow>
      latest i (xs @ [f]) = Some (sec (fold (collect_section f) [0..<3] a) ! i)"
    unfolding u using c3 by simp
  then show ?thesis by (simp add: holds_latest_def three)
qed

text \<open>A Samsung report after the frames \<open>xs\<close> and more.\<close>

definition latest_of :: "ir_symbol list list \<Rightarrow> u8 list \<Rightarrow> bool" where
  "latest_of xs d \<longleftrightarrow> list_all (\<lambda>i. latest i xs = Some (take 7 (drop (7 * i) d))) [0, 1, 2]"

definition reports_from :: "ir_symbol list list \<Rightarrow> ir_report list \<Rightarrow> bool" where
  "reports_from xs rs \<longleftrightarrow> list_all (\<lambda>r. case r of Proto_report d \<Rightarrow> True
     | Samsung_report d \<Rightarrow> list_ex (\<lambda>k. latest_of (take k xs) d) [0..<length xs + 1]) rs"

lemma reports_from_snoc: "reports_from xs rs \<Longrightarrow> reports_from (xs @ [f]) rs"
  by (auto simp: reports_from_def list_all_iff list_ex_iff split: ir_report.splits)

lemma reports_from_app:
  "reports_from xs (rs @ ts) \<longleftrightarrow> reports_from xs rs \<and> reports_from xs ts" "reports_from xs [Proto_report d]"
  by (simp_all add: reports_from_def)

lemma reports_fromD:
  "reports_from xs rs \<Longrightarrow> Samsung_report d \<in> set rs \<Longrightarrow> \<exists>k \<le> length xs. latest_of (take k xs) d"
proof (induction rs)
  case (Cons r rs)
  have "\<exists>k \<le> length xs. latest_of (take k xs) d" if "r = Samsung_report d"
  proof -
    have "\<exists>k \<in> set [0..<length xs + 1]. latest_of (take k xs) d"
      using Cons.prems(1) unfolding that reports_from_def list.pred_inject(2) ir_report.case list_ex_iff by (rule conjunct1)
    then show ?thesis by (simp only: set_upt atLeastLessThan_iff Bex_def less_Suc_eq_le Suc_eq_plus1 [symmetric]) blast
  qed
  then show ?case using Cons by (auto simp: reports_from_def)
qed simp

lemma collect_reports: "reports (fold (collect_section f) ks a) = reports a"
  by (induction ks arbitrary: a) (auto simp: collect_section_def Let_def split: prod.split)

lemma frame_cb_latest:
  assumes "app_ir_inv a" "holds_latest xs a" "reports_from xs (reports a)"
  shows "holds_latest (xs @ [f]) (ir_rx_frame_cb f a) \<and> reports_from (xs @ [f]) (reports (ir_rx_frame_cb f a))"
proof (cases "fst (ir_decode_samsung_ac_section (Some f) 0) < 0")
  case True
  then have "latest i (xs @ [f]) = latest i xs" for i by (simp add: latest_snoc heard_def)
  moreover have "ir_rx_frame_cb f a = a \<or> (\<exists>d. ir_rx_frame_cb f a = a\<lparr>reports := reports a @ [Proto_report d]\<rparr>)"
    using True by (auto simp: ir_rx_frame_cb_def split: prod.split)
  ultimately show ?thesis using assms(2) reports_from_snoc [OF assms(3), of f]
    by (elim disjE) (auto simp: holds_latest_def reports_from_app)
next
  case False
  define b where "b = fold (collect_section f) [0..<3] a"
  have h: "holds_latest (xs @ [f]) b" unfolding b_def by (rule collected_latest [OF False assms(1,2)])
  have B: "app_ir_inv b" unfolding b_def by (rule collect_all_inv [OF assms(1)])
  obtain x0 x1 x2 k0 k1 k2 where x: "sec b = [x0, x1, x2]" "have_sec b = [k0, k1, k2]"
    using B by (auto simp: app_ir_inv_def three)
  have r: "reports b = reports a" by (simp add: b_def collect_reports)
  have n: "length x0 = 7" "length x1 = 7" "length x2 = 7" using B x by (auto simp: app_ir_inv_def)
  have e: "ir_rx_frame_cb f a = (if k0 \<and> k1 \<and> k2
      then b\<lparr>reports := reports a @ [Samsung_report (x0 @ x1 @ x2)], have_sec := [False, False, False]\<rparr> else b)"
    using False by (simp add: ir_rx_frame_cb_def Let_def b_def [symmetric] x r)
  show ?thesis
  proof (cases "k0 \<and> k1 \<and> k2")
    case True
    then have "latest_of (take (length (xs @ [f])) (xs @ [f])) (x0 @ x1 @ x2)"
      using h n by (simp add: holds_latest_def latest_of_def x)
    then have "reports_from (xs @ [f]) [Samsung_report (x0 @ x1 @ x2)]"
      unfolding reports_from_def list_ex_iff by (auto simp del: take_append)
    then show ?thesis using reports_from_snoc [OF assms(3), of f] True
      by (simp add: e holds_latest_def reports_from_app)
  qed (use h reports_from_snoc [OF assms(3), of f] in \<open>auto simp: e r\<close>)
qed

text \<open>C23: What is reported as Samsung.  Over any sequence of received frames, every Samsung report is
  21 bytes whose three section checksums hold, and nothing else is reported as Samsung; and at some
  moment its three sections were, index by index, the latest ones that had been read with a right
  checksum in the frames received until then.  They need not be sections of one frame: the
  collector keeps a section until a newer one of its index arrives.\<close>

theorem samsung_reports_valid:
  assumes "a = fold ir_rx_frame_cb frames ir_app_boot"
  shows "list_all (\<lambda>r. case r of Proto_report d \<Rightarrow> proto d \<noteq> IR_PROTO_SAMSUNG_AC
       | Samsung_report d \<Rightarrow> length d = 21 \<and> ir_codec_samsung_ac_verify_all (Some d) \<and>
           (\<exists>k \<le> length frames. \<forall>i < 3. latest i (take k frames) = Some (take 7 (drop (7 * i) d)))) (reports a)"
proof -
  have "app_ir_inv (fold ir_rx_frame_cb xs ir_app_boot) \<and> holds_latest xs (fold ir_rx_frame_cb xs ir_app_boot) \<and>
      reports_from xs (reports (fold ir_rx_frame_cb xs ir_app_boot))" for xs
  proof (induction xs rule: rev_induct)
    case Nil
    show ?case by (simp add: app_ir_inv_def holds_latest_def reports_from_def ir_app_boot_def numeral_eq_Suc)
  next
    case (snoc f xs)
    then show ?case using frame_cb_latest [of _ xs f] frame_cb_inv by simp
  qed
  then have I: "app_ir_inv a" "reports_from frames (reports a)" using assms by simp_all
  have L: "\<exists>k \<le> length frames. \<forall>i < 3. latest i (take k frames) = Some (take 7 (drop (7 * i) d))"
    if m: "Samsung_report d \<in> set (reports a)" for d
  proof -
    obtain k where k: "k \<le> length frames" "latest_of (take k frames) d"
      using reports_fromD [OF I(2) m] by blast
    have "latest i (take k frames) = Some (take 7 (drop (7 * i) d))" if "i < 3" for i
    proof -
      have "i = 0 \<or> i = 1 \<or> i = 2" using that by linarith
      then show ?thesis using k(2) by (auto simp: latest_of_def)
    qed
    then show ?thesis using k(1) by (intro exI [of _ k]) auto
  qed
  show ?thesis
    unfolding list_all_iff
  proof
    fix r :: ir_report assume r: "r \<in> set (reports a)"
    then show "case r of Proto_report d \<Rightarrow> proto d \<noteq> IR_PROTO_SAMSUNG_AC
       | Samsung_report d \<Rightarrow> length d = 21 \<and> ir_codec_samsung_ac_verify_all (Some d) \<and>
           (\<exists>k \<le> length frames. \<forall>i < 3. latest i (take k frames) = Some (take 7 (drop (7 * i) d)))"
    proof (cases r rule: ir_report.exhaust)
      case (Proto_report d)
      then show ?thesis using I(1) r by (auto simp: app_ir_inv_def list_all_iff)
    next
      case (Samsung_report d)
      then have "length d = 21" "ir_codec_samsung_ac_verify_all (Some d)"
        using I(1) r by (auto simp: app_ir_inv_def list_all_iff)
      moreover have "\<exists>k \<le> length frames. \<forall>i < 3. latest i (take k frames) = Some (take 7 (drop (7 * i) d))"
        by (rule L) (use r Samsung_report in blast)
      ultimately show ?thesis unfolding Samsung_report ir_report.case by blast
    qed
  qed
qed

text \<open>One clean capture of a 21-byte frame whose checksums hold is reported at once with
  exactly its bytes, whatever sections were collected before, and the collector is empty again.\<close>

theorem clean_frame_reported:
  assumes "app_ir_inv a" "ir_codec_samsung_ac_encode (Some d) (Some c) = Inr syms"
    and "jitter (tl syms) got" "length d = 21" "ir_codec_samsung_ac_verify_all (Some d)"
  shows "reports (ir_rx_frame_cb got a) = reports a @ [Samsung_report d] \<and>
    have_sec (ir_rx_frame_cb got a) = [False, False, False]"
proof -
  have s: "ir_decode_samsung_ac_section (Some got) k = (1, take 7 (drop (7 * k) d))" if "k < 3" for k
    using samsung_split [OF assms(2,3), of k] that assms(4) by simp
  define e where "e k = take 7 (drop (7 * k) d)" for k
  have d: "d = e 0 @ e 1 @ e 2" and l: "\<And>k. k < 3 \<Longrightarrow> length (e k) = 7"
    using sections_of_blocks [of d 3] assms(4) by (simp_all add: e_def upt_rec)
  have v: "ir_codec_samsung_ac_verify (e k)" if "k < 3" for k
  proof -
    have "ir_codec_samsung_ac_verify (e 0) \<and> ir_codec_samsung_ac_verify (e 1) \<and>
        ir_codec_samsung_ac_verify (e 2)"
      using assms(5) three_sections_verify [of "e 0" "e 1" "e 2"] l d by simp
    moreover have "k = 0 \<or> k = 1 \<or> k = 2" using that by linarith
    ultimately show ?thesis by auto
  qed
  obtain x0 x1 x2 where x: "sec a = [x0, x1, x2]" using assms(1) by (auto simp: app_ir_inv_def three)
  obtain h0 h1 h2 where h: "have_sec a = [h0, h1, h2]" using assms(1) by (auto simp: app_ir_inv_def three)
  have step: "collect_section got k b = (let b = (if k = 0 \<and> have_sec b ! 0 \<and> e 0 \<noteq> sec b ! 0
                   then b\<lparr>have_sec := (have_sec b)[1 := False, 2 := False]\<rparr> else b)
          in b\<lparr>sec := (sec b)[k := e k], have_sec := (have_sec b)[k := True]\<rparr>)" if "k < 3" for k b
    using s [OF that, folded e_def] v [OF that] by (cases "k = 0") (simp_all add: collect_section_def)
  have upt: "[0..<3] = [0, 1, 2 :: nat]" by (simp add: upt_rec)
  have r: "sec (fold (collect_section got) [0..<3] a) = [e 0, e 1, e 2]"
    "have_sec (fold (collect_section got) [0..<3] a) = [True, True, True]"
    "reports (fold (collect_section got) [0..<3] a) = reports a"
    unfolding upt by (auto simp: step x h Let_def)
  have "\<not> fst (ir_decode_samsung_ac_section (Some got) 0) < 0" using s [of 0] by simp
  then show ?thesis using r d by (simp add: ir_rx_frame_cb_def Let_def)
qed

lemma captures_split:
  assumes "ir_codec_samsung_ac_encode (Some d) (Some c) = Inr syms" "jitter (tl syms) got" "length d = 21" "k < 3"
  shows "ir_decode_samsung_ac_section (Some got) k = (1, take 7 (drop (7 * k) d))"
  using samsung_split [OF assms(1,2), of k] assms(3,4) by simp

text \<open>C38: Sections of different frames are mixed.  When of one capture only section 0 has a right checksum,
  and of the next only sections 1 and 2, as when a second button is pressed and its first section is
  damaged, the second capture makes the device report a frame with the first section of the first
  frame and the other two of the second: a complete 21-byte code with right checksums that need
  not be either of the two that were sent.\<close>

theorem sections_mixed:
  assumes "ir_codec_samsung_ac_encode (Some d) (Some c) = Inr sd" "jitter (tl sd) got" "length d = 21"
    and "ir_codec_samsung_ac_encode (Some e) (Some c') = Inr se" "jitter (tl se) got'" "length e = 21"
    and "ir_codec_samsung_ac_verify (take 7 d)" "\<not> ir_codec_samsung_ac_verify (take 7 (drop 7 d))"
      "\<not> ir_codec_samsung_ac_verify (take 7 (drop 14 d))"
    and "\<not> ir_codec_samsung_ac_verify (take 7 e)" "ir_codec_samsung_ac_verify (take 7 (drop 7 e))"
      "ir_codec_samsung_ac_verify (take 7 (drop 14 e))"
  shows "reports (fold ir_rx_frame_cb [got, got'] ir_app_boot) = [Samsung_report (take 7 d @ drop 7 e)]"
proof -
  note a = captures_split [OF assms(1-3), of 0] captures_split [OF assms(1-3), of 1] captures_split [OF assms(1-3), of 2]
  note b = captures_split [OF assms(4-6), of 0] captures_split [OF assms(4-6), of 1] captures_split [OF assms(4-6), of 2]
  have "take 7 (drop 7 e) @ take 7 (drop 14 e) = drop 7 e"
    using assms(6) append_take_drop_id [of 7 "drop 7 e"] by simp
  moreover have "[0..<3] = [0, 1, 2 :: nat]" by (simp add: upt_rec)
  ultimately show ?thesis
    using a b assms(7-12) by (simp add: ir_rx_frame_cb_def collect_section_def ir_app_boot_def Let_def numeral_eq_Suc)
qed

text \<open>A section with a damaged bit, and two frames that have it in different places.\<close>

definition damaged_section :: "u8 list" where
  "damaged_section = [0x02, 0x92, 0x0F, 0x00, 0x00, 0x00, 0xF1]"

lemma damaged_section_length: "length damaged_section = 7"
  by (simp add: damaged_section_def)

lemma damaged_section_fails: "\<not> ir_codec_samsung_ac_verify damaged_section"
  by code_simp

lemma sections_mixed_witness:
  "\<exists>got got'. reports (fold ir_rx_frame_cb [got, got'] ir_app_boot) =
    [Samsung_report (demo_section @ demo_section @ demo_section)]"
proof -
  let ?u = damaged_section
  let ?d = "demo_section @ ?u @ ?u" and ?e = "?u @ demo_section @ demo_section"
  obtain sd where d: "ir_codec_samsung_ac_encode (Some ?d) (Some 175) = Inr sd"
    by (simp add: ir_codec_samsung_ac_encode_def demo_section_length damaged_section_length Let_def)
  obtain se where e: "ir_codec_samsung_ac_encode (Some ?e) (Some 175) = Inr se"
    by (simp add: ir_codec_samsung_ac_encode_def demo_section_length damaged_section_length Let_def)
  have j: "jitter (tl sd) (tl sd)" "jitter (tl se) (tl se)"
    using jitter_same [OF d] encode_body [OF d] jitter_same [OF e] encode_body [OF e] by (auto simp: jitter_def)
  have l: "length ?d = 21" "length ?e = 21" by (simp_all add: demo_section_length damaged_section_length)
  from sections_mixed [OF d j(1) l(1) e j(2) l(2)] damaged_section_fails demo_section_verifies demo_section_length
    damaged_section_length show ?thesis by auto
qed

text \<open>A clean frame.\<close>

definition demo_frame :: "u8 list" where
  "demo_frame = demo_section @ demo_section @ demo_section"

lemma demo_frame_sent:
  "\<exists>syms. ir_codec_samsung_ac_encode (Some demo_frame) (Some 175) = Inr syms \<and> jitter (tl syms) (tl syms)"
proof -
  obtain syms where s: "ir_codec_samsung_ac_encode (Some demo_frame) (Some 175) = Inr syms"
    by (simp add: ir_codec_samsung_ac_encode_def demo_section_length demo_frame_def Let_def)
  then have "jitter (tl syms) (tl syms)" using jitter_same [OF s] encode_body [OF s] by (auto simp: jitter_def)
  then show ?thesis using s by blast
qed

lemma demo_frame_ok: "length demo_frame = 21" "ir_codec_samsung_ac_verify_all (Some demo_frame)"
  using demo_section_length demo_section_verifies three_sections_verify by (simp_all add: demo_frame_def)

lemma demo_frame_reported:
  "\<exists>got. fold ir_rx_frame_cb [got] ir_app_boot = ir_rx_frame_cb got ir_app_boot \<and>
    reports (ir_rx_frame_cb got ir_app_boot) = [Samsung_report demo_frame]"
proof -
  obtain syms where s: "ir_codec_samsung_ac_encode (Some demo_frame) (Some 175) = Inr syms" "jitter (tl syms) (tl syms)"
    using demo_frame_sent by blast
  have i: "app_ir_inv ir_app_boot" by (simp add: app_ir_inv_def ir_app_boot_def numeral_eq_Suc)
  have "reports (ir_rx_frame_cb (tl syms) ir_app_boot) = reports ir_app_boot @ [Samsung_report demo_frame]"
    using clean_frame_reported [OF i s] demo_frame_ok by simp
  then show ?thesis by (intro exI [of _ "tl syms"]) (simp add: ir_app_boot_def)
qed

lemma samsung_reports_valid_witness:
  "\<exists>got. reports (fold ir_rx_frame_cb [got] ir_app_boot) = [Samsung_report demo_frame] \<and>
    (\<exists>k \<le> 1. latest 2 (take k [got]) = Some (drop 14 demo_frame))"
proof -
  obtain got where g: "reports (fold ir_rx_frame_cb [got] ir_app_boot) = [Samsung_report demo_frame]"
    using demo_frame_reported by auto
  have "\<exists>k \<le> length [got]. \<forall>i < 3. latest i (take k [got]) = Some (take 7 (drop (7 * i) demo_frame))"
    using samsung_reports_valid [OF refl, of "[got]"] unfolding g by (simp only: list_all_iff list.set ball_simps ir_report.case)
  then obtain k where k: "k \<le> 1" "\<forall>i < 3. latest i (take k [got]) = Some (take 7 (drop (7 * i) demo_frame))" by auto
  have "latest 2 (take k [got]) = Some (take 7 (drop (7 * 2) demo_frame))" using k(2) by (rule allE [of _ 2]) simp
  then show ?thesis using g k(1) demo_frame_ok(1) by auto
qed

end
