(* ===== verification/CText.thy ===== *)
theory CText
  imports Prelude "HOL-Library.Char_ord"
begin

text \<open>
  C text as the firmware handles it: bytes (\<open>u8 list\<close>, without the terminating NUL for a C
  string), the standard library's \<open>strtoul\<close> and \<open>strtol\<close> on a 32-bit \<open>long\<close>, \<open>strncmp\<close>
  against a prefix, and \<open>%u\<close> printing.
\<close>

type_synonym cstr = "u8 list"

definition c8 :: "char \<Rightarrow> u8" where
  "c8 c = of_nat (of_char c)"

definition str :: "string \<Rightarrow> cstr" where
  "str s = map c8 s"

text \<open>Literals evaluate by \<open>simp\<close>.\<close>

lemma str_simps [simp]: "str [] = []" "str (c # cs) = c8 c # str cs"
  by (simp_all add: str_def)

lemma str_append [simp]: "str (a @ b) = str a @ str b"
  by (simp add: str_def)

lemma length_str [simp]: "length (str s) = length s"
  by (simp add: str_def)

definition starts :: "cstr \<Rightarrow> cstr \<Rightarrow> bool" where
  "starts pre s \<longleftrightarrow> take (length pre) s = pre"

lemma starts_append [simp]: "starts p (p @ s)"
  by (simp add: starts_def)

subsection \<open>Numbers\<close>

definition is_space :: "u8 \<Rightarrow> bool" where
  "is_space c \<longleftrightarrow> c = 32 \<or> (9 \<le> c \<and> c \<le> 13)"

definition digit_val :: "nat \<Rightarrow> u8 \<Rightarrow> nat option" where
  "digit_val base c =
     (let v = (if 48 \<le> c \<and> c \<le> 57 then Some (unat c - 48)
               else if 97 \<le> c \<and> c \<le> 122 then Some (unat c - 87)
               else if 65 \<le> c \<and> c \<le> 90 then Some (unat c - 55) else None)
      in case v of Some d \<Rightarrow> if d < base then Some d else None | None \<Rightarrow> None)"

fun span_digits :: "nat \<Rightarrow> cstr \<Rightarrow> nat list \<times> cstr" where
  "span_digits base [] = ([], [])"
| "span_digits base (c # cs) = (case digit_val base c of
     None \<Rightarrow> ([], c # cs)
   | Some d \<Rightarrow> (case span_digits base cs of (ds, r) \<Rightarrow> (d # ds, r)))"

definition value_of :: "nat \<Rightarrow> nat list \<Rightarrow> nat" where
  "value_of base ds = foldl (\<lambda>a d. a * base + d) 0 ds"

text \<open>White space, sign, the hexadecimal prefix, digits.  The second component is the text after
  the number; with no digit nothing is consumed.\<close>

definition scan_number :: "nat \<Rightarrow> cstr \<Rightarrow> (bool \<times> nat \<times> cstr) option" where
  "scan_number base s =
     (let t = dropWhile is_space s;
          neg = (t \<noteq> [] \<and> hd t = c8 CHR ''-'');
          t = (if t \<noteq> [] \<and> (hd t = c8 CHR ''-'' \<or> hd t = c8 CHR ''+'') then tl t else t);
          t = (if base = 16 \<and> 3 \<le> length t \<and> t ! 0 = c8 CHR ''0'' \<and>
                  (t ! 1 = c8 CHR ''x'' \<or> t ! 1 = c8 CHR ''X'') \<and> digit_val 16 (t ! 2) \<noteq> None
               then drop 2 t else t)
      in case span_digits base t of (ds, r) \<Rightarrow>
           if ds = [] then None else Some (neg, value_of base ds, r))"

definition strtoul :: "nat \<Rightarrow> cstr \<Rightarrow> u32 \<times> cstr" where
  "strtoul base s = (case scan_number base s of
      None \<Rightarrow> (0, s)
    | Some (neg, v, r) \<Rightarrow>
        (if 2 ^ 32 \<le> v then - 1 else if neg then - of_nat v else of_nat v, r))"

definition strtol :: "nat \<Rightarrow> cstr \<Rightarrow> int" where
  "strtol base s = (case scan_number base s of
      None \<Rightarrow> 0
    | Some (neg, v, r) \<Rightarrow>
        if neg then max (- (2 ^ 31)) (- int v) else min (2 ^ 31 - 1) (int v))"

text \<open>\<open>%u\<close>.\<close>

definition dchar :: "nat \<Rightarrow> u8" where
  "dchar d = of_nat (48 + d)"

fun dec :: "nat \<Rightarrow> cstr" where
  "dec n = (if n < 10 then [dchar n] else dec (n div 10) @ [dchar (n mod 10)])"

declare dec.simps [simp del]

subsection \<open>Printing and reading back\<close>

lemma unat_dchar: "d < 10 \<Longrightarrow> unat (dchar d) = 48 + d"
  by (simp add: dchar_def unat_of_nat del: of_nat_add)

lemma digit_char: "d < 10 \<Longrightarrow> digit_val 10 (dchar d) = Some d"
  by (simp add: digit_val_def word_le_nat_alt unat_dchar Let_def)

definition no_digit :: "nat \<Rightarrow> cstr \<Rightarrow> bool" where
  "no_digit base s \<longleftrightarrow> (case s of [] \<Rightarrow> True | c # cs \<Rightarrow> digit_val base c = None)"

lemma span_no_digit: "no_digit base s \<Longrightarrow> span_digits base s = ([], s)"
  by (cases s) (simp_all add: no_digit_def)

lemma span_digits_map:
  "\<forall>d \<in> set ds. d < 10 \<Longrightarrow> no_digit 10 r \<Longrightarrow>
    span_digits 10 (map dchar ds @ r) = (ds, r)"
  by (induction ds) (simp_all add: span_no_digit digit_char)

fun digits :: "nat \<Rightarrow> nat list" where
  "digits n = (if n < 10 then [n] else digits (n div 10) @ [n mod 10])"

declare digits.simps [simp del]

lemma dec_digits: "dec n = map dchar (digits n)"
  by (induction n rule: digits.induct) (subst dec.simps, subst digits.simps, simp)

lemma digits_small: "\<forall>d \<in> set (digits n). d < 10"
  by (induction n rule: digits.induct) (subst digits.simps, simp)

lemma digits_ne [simp]: "digits n \<noteq> []"
  by (subst digits.simps) simp

lemma value_digits: "value_of 10 (digits n) = n"
proof (induction n rule: digits.induct)
  case (1 n)
  then show ?case by (subst digits.simps) (simp add: value_of_def)
qed

lemma dec_ne [simp]: "dec n \<noteq> []"
  by (simp add: dec_digits)

lemma dec_head: "\<exists>d < 10. hd (dec n) = dchar d"
  using digits_small [of n] by (simp add: dec_digits hd_map) (metis digits_ne hd_in_set)

lemma dec_head_plain: "\<not> is_space (hd (dec n))" "hd (dec n) \<noteq> c8 CHR ''-''" "hd (dec n) \<noteq> c8 CHR ''+''"
proof -
  obtain d where d: "d < 10" "hd (dec n) = dchar d" using dec_head by blast
  then have u: "unat (hd (dec n)) = 48 + d" using unat_dchar by simp
  show "\<not> is_space (hd (dec n))" using u by (auto simp: is_space_def word_le_nat_alt)
  show "hd (dec n) \<noteq> c8 CHR ''-''" "hd (dec n) \<noteq> c8 CHR ''+''"
    using u by (auto simp: c8_def)
qed

lemma scan_dec:
  assumes "no_digit 10 r"
  shows "scan_number 10 (dec n @ r) = Some (False, n, r)"
proof -
  have sp: "span_digits 10 (dec n @ r) = (digits n, r)"
    using span_digits_map [OF digits_small assms] by (simp add: dec_digits)
  obtain c cs where c: "dec n = c # cs" by (cases "dec n") auto
  show ?thesis
    using dec_head_plain [of n] sp value_digits [of n]
    by (simp add: scan_number_def c Let_def)
qed

lemma strtoul_dec: "no_digit 10 r \<Longrightarrow> strtoul 10 (dec (unat w) @ r) = (w, r)"
proof -
  have "unat w < 2 ^ LENGTH(32)" by (rule unsigned_less)
  then show "no_digit 10 r \<Longrightarrow> ?thesis" by (simp add: strtoul_def scan_dec)
qed

lemma strtol_dec: "no_digit 10 r \<Longrightarrow> int n < 2 ^ 31 \<Longrightarrow> strtol 10 (dec n @ r) = int n"
  by (simp add: strtol_def scan_dec)

end
