(* ===== verification/HttpUrl.thy ===== *)
theory HttpUrl
  imports CText
begin

text \<open>
  URL splitting, \<open>parse_url\<close> of \<open>app/ota/app_ota_http.c\<close>: host (at most 63 bytes), path (at
  most 159 bytes) and port of an \<open>http://\<close> URL.  A failure is the code's negative number.
\<close>

record url_parts =
  host :: cstr
  path :: cstr
  port :: u16

text \<open>\<open>strchr\<close> as an offset.\<close>

fun find_char :: "u8 \<Rightarrow> cstr \<Rightarrow> nat option" where
  "find_char c [] = None"
| "find_char c (x # xs) = (if x = c then Some 0 else map_option Suc (find_char c xs))"

text \<open>Everything after the scheme.\<close>

definition split_authority :: "cstr \<Rightarrow> int + url_parts" where
  "split_authority p =
     (let slash = find_char (c8 CHR ''/'') p;
          colon = find_char (c8 CHR '':'') p;
          finish = (\<lambda>h prt rest.
             if rest = [] then Inr \<lparr>host = h, path = str ''/'', port = prt\<rparr>
             else if 160 \<le> length rest then Inl (- 5)
             else Inr \<lparr>host = h, path = rest, port = prt\<rparr>)
      in if colon \<noteq> None \<and> (slash = None \<or> the colon < the slash) then
           let hlen = the colon in
           if hlen = 0 \<or> 64 \<le> hlen then Inl (- 3)
           else
             let prt = strtol 10 (drop (hlen + 1) p) in
             if prt \<le> 0 \<or> 65535 < prt then Inl (- 4)
             else finish (take hlen p) (of_int prt) (case slash of Some s \<Rightarrow> drop s p | None \<Rightarrow> [])
         else
           let hlen = (case slash of Some s \<Rightarrow> s | None \<Rightarrow> length p) in
           if hlen = 0 \<or> 64 \<le> hlen then Inl (- 3) else finish (take hlen p) 80 (drop hlen p))"

definition parse_url :: "cstr option \<Rightarrow> int + url_parts" where
  "parse_url url = (case url of None \<Rightarrow> Inl (- 1) | Some p \<Rightarrow>
     if starts (str ''http://'') p then split_authority (drop 7 p)
     else if starts (str ''https://'') p then Inl (- 2)
     else split_authority p)"

subsection \<open>Lemmas\<close>

lemma find_char_skip: "c \<notin> set a \<Longrightarrow> find_char c (a @ c # b) = Some (length a)"
  by (induction a) auto

lemma find_char_none: "c \<notin> set a \<Longrightarrow> find_char c a = None"
  by (induction a) auto

lemma find_char_some: "find_char c a = Some i \<Longrightarrow> i < length a \<and> a ! i = c"
  by (induction a arbitrary: i) (auto split: if_splits)

lemma dec_chars: "c \<in> set (dec n) \<Longrightarrow> 48 \<le> unat c \<and> unat c \<le> 57"
  using digits_small [of n] by (auto simp: dec_digits unat_dchar)

lemma dec_no_sep: "c8 CHR ''/'' \<notin> set (dec n)" "c8 CHR '':'' \<notin> set (dec n)"
  using dec_chars by (fastforce simp: c8_def)+

definition plain_host :: "cstr \<Rightarrow> bool" where
  "plain_host h \<longleftrightarrow> h \<noteq> [] \<and> length h < 64 \<and> c8 CHR ''/'' \<notin> set h \<and> c8 CHR '':'' \<notin> set h"

definition abs_path :: "cstr \<Rightarrow> bool" where
  "abs_path p \<longleftrightarrow> p \<noteq> [] \<and> hd p = c8 CHR ''/'' \<and> length p < 160"

lemma starts_http [simp]: "starts (str ''http://'') (str ''http://'' @ s)"
  by (rule starts_append)

lemma parse_url_rest: "parse_url (Some (str ''http://'' @ p)) = split_authority p"
proof -
  have "drop 7 (str ''http://'' @ p) = p" by simp
  then show ?thesis by (simp only: parse_url_def option.case starts_http if_True)
qed

subsection \<open>Properties\<close>

text \<open>Splitting a printed URL gives back its parts: an explicit port from 1 to 65535, or port 80
  when none is printed.\<close>

theorem parse_url_roundtrip:
  assumes "plain_host h" "abs_path p" "prt \<noteq> 0"
  shows "parse_url (Some (str ''http://'' @ h @ c8 CHR '':'' # dec (unat (prt :: u16)) @ p)) =
      Inr \<lparr>host = h, path = p, port = prt\<rparr> \<and>
    parse_url (Some (str ''http://'' @ h @ filter (\<lambda>c. c \<noteq> c8 CHR '':'') p)) =
      Inr \<lparr>host = h, path = filter (\<lambda>c. c \<noteq> c8 CHR '':'') p, port = 80\<rparr>"
proof -
  have hp: "h \<noteq> []" "length h < 64" "c8 CHR ''/'' \<notin> set h" "c8 CHR '':'' \<notin> set h"
    using assms(1) by (simp_all add: plain_host_def)
  obtain q where p: "p = c8 CHR ''/'' # q" using assms(2) by (cases p) (auto simp: abs_path_def)
  have pne: "p \<noteq> []" by (simp add: p)
  have len: "length p < 160" using assms(2) by (simp add: abs_path_def)
  have sep: "c8 CHR ''/'' \<noteq> c8 CHR '':''" by (simp add: c8_def)
  have "unat prt < 2 ^ LENGTH(16)" by (rule unsigned_less)
  then have bound: "0 < unat prt" "unat prt \<le> 65535" using assms(3) by (simp_all add: unat_pos_iff)
  have ub: "uint prt \<noteq> 0" "uint prt \<le> 65535" using bound unfolding uint_nat by linarith+
  have nd: "no_digit 10 p" by (simp add: p no_digit_def digit_val_def c8_def)
  let ?s = "h @ c8 CHR '':'' # dec (unat prt) @ p"
  have sl: "find_char (c8 CHR ''/'') ?s = Some (length h + 1 + length (dec (unat prt)))"
    using find_char_skip [of "c8 CHR ''/''" "h @ c8 CHR '':'' # dec (unat prt)" q] hp(3) sep dec_no_sep(1)
    by (simp add: p)
  have co: "find_char (c8 CHR '':'') ?s = Some (length h)" by (rule find_char_skip [OF hp(4)])
  have num: "strtol 10 (dec (unat prt) @ p) = int (unat prt)"
  proof (rule strtol_dec [OF nd])
    have "unat prt < 2 ^ 31" using bound(2) by simp
    then show "int (unat prt) < 2 ^ 31" by (metis of_nat_less_iff of_nat_numeral of_nat_power)
  qed
  have "parse_url (Some (str ''http://'' @ ?s)) = Inr \<lparr>host = h, path = p, port = prt\<rparr>"
    using hp(1,2) len ub pne
    by (simp add: parse_url_rest split_authority_def Let_def sl co num del: str_simps)
  moreover
  let ?q = "filter (\<lambda>c. c \<noteq> c8 CHR '':'') p"
  have q: "?q = c8 CHR ''/'' # filter (\<lambda>c. c \<noteq> c8 CHR '':'') q" using sep by (simp add: p)
  have ql: "length ?q < 160" using len length_filter_le [of "\<lambda>c. c \<noteq> c8 CHR '':''" p] by linarith
  have "find_char (c8 CHR '':'') (h @ ?q) = None" using hp(4) by (intro find_char_none) auto
  moreover have "find_char (c8 CHR ''/'') (h @ ?q) = Some (length h)"
    unfolding q by (rule find_char_skip [OF hp(3)])
  ultimately show ?thesis
    using hp(1,2) ql q by (simp add: parse_url_rest split_authority_def Let_def del: str_simps)
qed

lemma parse_url_roundtrip_witness:
  "parse_url (Some (str ''http://10.0.0.1:8080/fw.bin'')) =
     Inr \<lparr>host = str ''10.0.0.1'', path = str ''/fw.bin'', port = 8080\<rparr>"
proof -
  have "plain_host (str ''10.0.0.1'')" "abs_path (str ''/fw.bin'')"
    by (simp_all add: plain_host_def abs_path_def c8_def)
  moreover have "dec 8080 = str ''8080''" by (simp add: dec.simps dchar_def c8_def)
  ultimately show ?thesis
    using parse_url_roundtrip [of "str ''10.0.0.1''" "str ''/fw.bin''" 8080] by simp
qed

lemma parse_url_fits:
  assumes "parse_url url = Inr u"
  shows "0 < length (host u) \<and> length (host u) < 64 \<and> 0 < length (path u) \<and> length (path u) < 160 \<and>
    port u \<noteq> 0"
proof -
  have prt: "of_int i \<noteq> (0 :: u16)" if "0 < i" "i \<le> 65535" for i :: int
    using that by (auto simp: word_of_int_eq_0_iff dest: zdvd_imp_le)
  show ?thesis
    using assms prt
    by (auto simp: parse_url_def split_authority_def Let_def not_less not_le split: option.splits if_splits
        dest!: find_char_some)
qed

text \<open>An accepted URL has a host of 1 to 63 bytes, a path of 1 to 159 bytes and a port that is
  not 0, so every copy fits its array with its terminator.\<close>

theorem parse_url_bounds:
  assumes "parse_url url = Inr u"
  shows "0 < length (host u) \<and> length (host u) < 64 \<and> 0 < length (path u) \<and> length (path u) < 160 \<and>
    port u \<noteq> 0"
  by (rule parse_url_fits [OF assms])

lemma parse_url_bounds_witness:
  "\<exists>u. parse_url (Some (str ''a'')) = Inr u \<and> port u \<noteq> 0"
proof -
  have p: "parse_url (Some (str ''a'')) = Inr \<lparr>host = str ''a'', path = str ''/'', port = 80\<rparr>"
    by (simp add: parse_url_def split_authority_def starts_def Let_def c8_def)
  show ?thesis using parse_url_bounds [OF p] p by simp
qed

end
