(* ===== verification/HttpResp.thy ===== *)
theory HttpResp
  imports HttpUrl
begin

text \<open>
  Response header parsing of \<open>app/ota/app_ota_http.c\<close>.  The header buffer is the whole array
  (\<open>hdrbuf\<close>, request leftovers included) as one byte list; a \<open>char *\<close> into it is the suffix it
  points to, so pointer comparison is comparison of suffix lengths.  C string functions stop
  at a NUL; a scan that runs off the array is its own outcome, \<open>Off\<close>, because the code has no
  such bound.
\<close>

subsection \<open>C string scans inside an array\<close>

datatype scan = Hit cstr | Miss | Off

fun strchr_buf :: "u8 \<Rightarrow> cstr \<Rightarrow> scan" where
  "strchr_buf c [] = Off"
| "strchr_buf c (x # xs) = (if x = c then Hit (x # xs) else if x = 0 then Miss else strchr_buf c xs)"

text \<open>\<open>strstr(_, crlf)\<close>.\<close>

fun strstr_crlf :: "cstr \<Rightarrow> scan" where
  "strstr_crlf [] = Off"
| "strstr_crlf [x] = (if x = 0 then Miss else Off)"
| "strstr_crlf (x # y # xs) =
     (if x = 13 \<and> y = 10 then Hit (x # y # xs) else if x = 0 then Miss else strstr_crlf (y # xs))"

definition lower :: "u8 \<Rightarrow> u8" where
  "lower c = (if 65 \<le> c \<and> c \<le> 90 then c + 32 else c)"

fun hdr_match :: "cstr \<Rightarrow> cstr \<Rightarrow> bool" where
  "hdr_match line [] = (line \<noteq> [] \<and> hd line = c8 CHR '':'')"
| "hdr_match [] (n # ns) = False"
| "hdr_match (x # xs) (n # ns) = (if lower x \<noteq> lower n then False else hdr_match xs ns)"

definition hdr_value :: "cstr \<Rightarrow> cstr option" where
  "hdr_value line = (case strchr_buf (c8 CHR '':'') line of
      Hit v \<Rightarrow> Some (dropWhile (\<lambda>c. c = 32 \<or> c = 9) (tl v))
    | _ \<Rightarrow> None)"

fun strip_eol :: "cstr \<Rightarrow> cstr" where
  "strip_eol s = rev (dropWhile (\<lambda>c. c = 13 \<or> c = 10) (rev s))"

text \<open>The copied string; \<open>None\<close> leaves the destination as it is.\<close>

definition hdr_copy_line :: "cstr \<Rightarrow> cstr \<Rightarrow> nat \<Rightarrow> cstr option" where
  "hdr_copy_line line line_end cap = (case hdr_value line of None \<Rightarrow> None | Some v \<Rightarrow>
     if length v \<le> length line_end then None
     else
       let s = strip_eol (take (length v - length line_end) v)
       in Some (if cap \<le> length s then take (cap - 1) s else s))"

fun has_chunked :: "cstr \<Rightarrow> bool" where
  "has_chunked [] = False"
| "has_chunked (x # xs) =
     (if map lower (take 7 (x # xs)) = str ''chunked'' then True else has_chunked xs)"

subsection \<open>The response\<close>

record http_response =
  status :: int
  content_length :: u32
  has_content_length :: bool
  range_start :: u32
  range_end :: u32
  range_total :: u32
  has_content_range :: bool
  location :: cstr
  has_location :: bool
  is_chunked :: bool

definition zero_response :: http_response where
  "zero_response = \<lparr>status = 0, content_length = 0, has_content_length = False, range_start = 0,
     range_end = 0, range_total = 0, has_content_range = False, location = [],
     has_location = False, is_chunked = False\<rparr>"

definition parse_range :: "cstr \<Rightarrow> http_response \<Rightarrow> http_response" where
  "parse_range v out =
     (let v = (if starts (str ''bytes '') v then drop 6 v else v);
          v = (if starts (str ''bytes='') v then drop 6 v else v)
      in case strtoul 10 v of (start, cur) \<Rightarrow>
        if cur \<noteq> [] \<and> hd cur = c8 CHR ''-'' then
          (case strtoul 10 (tl cur) of (e2, cur) \<Rightarrow>
             let tot = (if cur \<noteq> [] \<and> hd cur = c8 CHR ''/'' then fst (strtoul 10 (tl cur)) else 0)
             in out\<lparr>range_start := start, range_end := e2, range_total := tot,
                    has_content_range := True\<rparr>)
        else out)"

text \<open>One header line; \<open>nl\<close> is the suffix from its CRLF on.\<close>

definition parse_header_line :: "cstr \<Rightarrow> cstr \<Rightarrow> http_response \<Rightarrow> http_response" where
  "parse_header_line line nl out =
     (if hdr_match line (str ''content-length'') then
        (case hdr_value line of None \<Rightarrow> out
         | Some v \<Rightarrow> out\<lparr>content_length := fst (strtoul 10 v), has_content_length := True\<rparr>)
      else if hdr_match line (str ''content-range'') then
        (case hdr_value line of None \<Rightarrow> out | Some v \<Rightarrow> parse_range v out)
      else if hdr_match line (str ''location'') then
        (let loc = (case hdr_copy_line line nl 241 of None \<Rightarrow> location out | Some l \<Rightarrow> l)
         in out\<lparr>location := loc, has_location := loc \<noteq> []\<rparr>)
      else if hdr_match line (str ''transfer-encoding'') then
        (case hdr_value line of None \<Rightarrow> out
         | Some v \<Rightarrow> if has_chunked (take (length v - length nl) v) then out\<lparr>is_chunked := True\<rparr> else out)
      else out)"

text \<open>The line loop; \<open>stop\<close> is the length of the suffix at \<open>end - 2\<close>.\<close>

lemma strstr_crlf_shorter: "strstr_crlf s = Hit nl \<Longrightarrow> length nl \<le> length s \<and> 2 \<le> length nl"
  by (induction s rule: strstr_crlf.induct) (auto split: if_splits)

function header_lines :: "nat \<Rightarrow> cstr \<Rightarrow> http_response \<Rightarrow> http_response" where
  "header_lines stop line out =
     (if length line \<le> stop then out
      else case strstr_crlf line of
        Hit nl \<Rightarrow> header_lines stop (drop 2 nl) (parse_header_line line nl out)
      | _ \<Rightarrow> out)"
  by auto

termination header_lines
  by (relation "measure (\<lambda>(stop, line, out). length line)")
     (auto dest: strstr_crlf_shorter)

declare header_lines.simps [simp del]

text \<open>The blank line: the number of bytes up to and including it.\<close>

fun find_end :: "nat \<Rightarrow> cstr \<Rightarrow> nat option" where
  "find_end i (a # b # c # d # r) =
     (if a = 13 \<and> b = 10 \<and> c = 13 \<and> d = 10 then Some (i + 4) else find_end (i + 1) (b # c # d # r))"
| "find_end i _ = None"

text \<open>\<open>None\<close> is a read past the array.  \<open>-1\<close> asks for more bytes.\<close>

definition parse_response_headers :: "cstr \<Rightarrow> nat \<Rightarrow> http_response \<Rightarrow> (int \<times> http_response) option" where
  "parse_response_headers buf buf_len out =
     (case find_end 0 (take buf_len buf) of
        None \<Rightarrow> Some (- 1, out)
      | Some fin \<Rightarrow>
          if \<not> starts (str ''HTTP/1.'') buf then Some (- 2, zero_response)
          else case strchr_buf 32 buf of
            Off \<Rightarrow> None
          | Miss \<Rightarrow> Some (- 3, zero_response)
          | Hit sp1 \<Rightarrow>
              let out = zero_response\<lparr>status := strtol 10 (tl sp1)\<rparr> in
              (case strstr_crlf buf of
                 Hit line \<Rightarrow>
                   Some (int fin, header_lines (length buf - fin + 2) (drop 2 line) out)
               | _ \<Rightarrow> Some (- 4, out)))"

definition is_redirect :: "int \<Rightarrow> bool" where
  "is_redirect s \<longleftrightarrow> s = 301 \<or> s = 302 \<or> s = 303 \<or> s = 307 \<or> s = 308"

subsection \<open>Lemmas\<close>

lemma find_end_bound: "find_end i s = Some n \<Longrightarrow> i + 4 \<le> n \<and> n \<le> i + length s"
  by (induction i s rule: find_end.induct) (auto split: if_splits)

lemma parse_bound:
  "parse_response_headers buf len out = Some (n, rsp) \<Longrightarrow> 0 < n \<Longrightarrow>
     4 \<le> n \<and> nat n \<le> len \<and> nat n \<le> length buf"
  by (auto simp: parse_response_headers_def Let_def split: option.splits if_splits scan.splits
      dest!: find_end_bound)

lemma strstr_crlf_skip: "13 \<notin> set a \<Longrightarrow> 0 \<notin> set a \<Longrightarrow>
    strstr_crlf (a @ 13 # 10 # r) = Hit (13 # 10 # r)"
proof (induction a)
  case (Cons x a)
  then show ?case by (cases "a @ 13 # 10 # r") auto
qed simp

lemma find_end_short: "length s < 4 \<Longrightarrow> find_end i s = None"
  by (induction i s rule: find_end.induct) auto

lemma find_end_ne: "x \<noteq> 13 \<Longrightarrow> find_end i (x # s) = find_end (Suc i) s"
proof (cases "3 \<le> length s")
  case True
  then obtain d e f g where "s = d # e # f # g" by (auto simp: numeral_eq_Suc Suc_le_length_iff)
  then show "x \<noteq> 13 \<Longrightarrow> ?thesis" by simp
next
  case False
  then show ?thesis using find_end_short [of "x # s" i] find_end_short [of s "Suc i"] by simp
qed

lemma find_end_app: "13 \<notin> set a \<Longrightarrow> find_end i (a @ s) = find_end (i + length a) s"
  by (induction a arbitrary: i) (auto simp: find_end_ne)

lemma find_end_crlf: "x \<noteq> 13 \<Longrightarrow> find_end i (13 # 10 # x # s) = find_end (i + 2) (x # s)"
  by (cases s) (simp_all add: find_end_ne)

text \<open>On a part of the head nothing is found yet.\<close>

lemma find_end_take:
  "find_end i s = Some n \<Longrightarrow> find_end i (take k s) = (if n \<le> i + k then Some n else None)"
proof (induction i s arbitrary: k rule: find_end.induct)
  case (1 i a b c d r)
  show ?case
  proof (cases "4 \<le> k")
    case True
    then obtain m where k: "k = Suc (Suc (Suc (Suc m)))"
      by (auto simp: numeral_eq_Suc Suc_le_eq dest!: less_imp_Suc_add)
    show ?thesis
    proof (cases "a = 13 \<and> b = 10 \<and> c = 13 \<and> d = 10")
      case True
      then show ?thesis using "1.prems" by (simp add: k)
    next
      case False
      then have "find_end (i + 1) (b # c # d # r) = Some n" using "1.prems" by (simp only: find_end.simps if_False)
      from "1.IH" [OF False this, of "Suc (Suc (Suc m))"] False show ?thesis
        by (simp only: k take_Suc_Cons find_end.simps if_False) simp
    qed
  next
    case False
    then have "find_end i (take k (a # b # c # d # r)) = None" by (intro find_end_short) simp
    moreover have "i + 4 \<le> n" using find_end_bound [OF "1.prems"] by simp
    ultimately show ?thesis using False by simp
  qed
qed simp_all

lemma head_incomplete:
  "find_end 0 (take len buf) = None \<Longrightarrow> parse_response_headers buf len out = Some (- 1, out)"
  by (simp add: parse_response_headers_def)

definition ok_head :: "nat \<Rightarrow> u32 \<Rightarrow> cstr" where
  "ok_head code n = str ''HTTP/1.1 '' @ dec code @ str '' OK'' @ [13, 10] @
     str ''Content-Length: '' @ dec (unat n) @ [13, 10, 13, 10]"

lemma dec_no_ctl: "13 \<notin> set (dec n)" "0 \<notin> set (dec n)" "32 \<notin> set (dec n)"
  using dec_chars [of _ n] by fastforce+

lemma ok_head_end: "find_end 0 (ok_head code n @ body) = Some (length (ok_head code n))"
proof -
  let ?h = "ok_head code n"
  let ?l2 = "str ''Content-Length: '' @ dec (unat n) @ [13, 10, 13, 10] @ body"
  let ?l1 = "str ''HTTP/1.1 '' @ dec code @ str '' OK''"
  have h: "?h @ body = ?l1 @ 13 # 10 # ?l2" by (simp add: ok_head_def)
  have n1: "13 \<notin> set ?l1" using dec_no_ctl by (auto simp: c8_def)
  have n2: "13 \<notin> set (str ''Content-Length: '' @ dec (unat n))" using dec_no_ctl by (auto simp: c8_def)
  have l2: "?l2 = c8 CHR ''C'' # str ''ontent-Length: '' @ dec (unat n) @ [13, 10, 13, 10] @ body" by simp
  have "find_end 0 (?l1 @ 13 # 10 # ?l2) = find_end (length ?l1 + 2) ?l2"
    using find_end_app [OF n1, of 0 "13 # 10 # ?l2"] unfolding l2
    by (simp add: find_end_crlf c8_def)
  also have "\<dots> = Some (length ?h)"
    using find_end_app [OF n2, of "length ?l1 + 2" "13 # 10 # 13 # 10 # body"]
    by (simp add: ok_head_def)
  finally show ?thesis by (simp only: h)
qed

lemma ok_head_parsed:
  assumes "int code < 2 ^ 31" "length (ok_head code n) \<le> len"
  shows "parse_response_headers (ok_head code n @ body) len out =
    Some (int (length (ok_head code n)),
          zero_response\<lparr>status := int code, content_length := n, has_content_length := True\<rparr>)"
proof -
  let ?h = "ok_head code n"
  let ?l2 = "str ''Content-Length: '' @ dec (unat n) @ [13, 10, 13, 10] @ body"
  let ?l1 = "str ''HTTP/1.1 '' @ dec code @ str '' OK''"
  have h: "?h @ body = ?l1 @ 13 # 10 # ?l2" by (simp add: ok_head_def)
  have n1: "13 \<notin> set ?l1" "0 \<notin> set ?l1" using dec_no_ctl by (auto simp: c8_def)
  have n2: "13 \<notin> set (str ''Content-Length: '' @ dec (unat n))" "0 \<notin> set (str ''Content-Length: '' @ dec (unat n))"
    using dec_no_ctl by (auto simp: c8_def)
  have fe: "find_end 0 (take len (?h @ body)) = Some (length ?h)"
    by (simp only: find_end_take [OF ok_head_end] assms(2) add_0 if_True)
  have st: "starts (str ''HTTP/1.'') (?h @ body)" by (simp add: starts_def ok_head_def)
  have sp: "strchr_buf 32 (?h @ body) = Hit (32 # dec code @ str '' OK'' @ 13 # 10 # ?l2)"
    by (simp add: ok_head_def c8_def)
  have nd: "no_digit 10 (str '' OK'' @ 13 # 10 # ?l2)" "no_digit 10 ([13, 10, 13, 10] @ body)"
    by (simp_all add: no_digit_def digit_val_def c8_def)
  have code: "strtol 10 (dec code @ str '' OK'' @ 13 # 10 # ?l2) = int code"
    by (rule strtol_dec [OF nd(1) assms(1)])
  have cr: "strstr_crlf (?h @ body) = Hit (13 # 10 # ?l2)"
    unfolding h by (rule strstr_crlf_skip [OF n1])
  have cr2: "strstr_crlf ?l2 = Hit (13 # 10 # 13 # 10 # body)"
    using strstr_crlf_skip [OF n2, of "13 # 10 # body"] by simp
  have m: "hdr_match ?l2 (str ''content-length'')" by (simp add: lower_def c8_def)
  have v: "hdr_value ?l2 = Some (dec (unat n) @ [13, 10, 13, 10] @ body)"
    using dec_head_plain(1) [of "unat n"]
    by (cases "dec (unat n)") (auto simp: hdr_value_def c8_def is_space_def)
  have len_l2: "length ?l2 = length body + 4 + length (dec (unat n)) + 16" by simp
  have d2: "drop 2 (13 # 10 # l) = l" for l :: cstr by simp
  have stop: "length (?h @ body) - length ?h + 2 = length body + 2" by simp
  have "header_lines (length body + 2) ?l2 o1 = o1\<lparr>content_length := n, has_content_length := True\<rparr>" for o1
    using v strtoul_dec [OF nd(2), of n]
    by (subst header_lines.simps, subst header_lines.simps)
       (simp only: cr2 len_l2 m parse_header_line_def scan.case option.case if_True; simp)
  then show ?thesis
    by (simp only: parse_response_headers_def fe option.case st sp scan.case code cr stop
        list.sel d2 if_False simp_thms Let_def)
qed

subsection \<open>Properties\<close>

text \<open>A response head with a status line and a Content-Length, followed by anything, is parsed to
  that status and length, and the header ends where the body starts.\<close>

theorem parse_ok_head:
  assumes "int code < 2 ^ 31" "length (ok_head code n) \<le> len"
  shows "parse_response_headers (ok_head code n @ body) len out =
    Some (int (length (ok_head code n)),
          zero_response\<lparr>status := int code, content_length := n, has_content_length := True\<rparr>)"
  by (rule ok_head_parsed [OF assms])

lemma parse_ok_head_witness:
  "parse_response_headers (ok_head 200 2 @ [97, 98]) 1024 zero_response =
     Some (int (length (ok_head 200 2)),
           zero_response\<lparr>status := 200, content_length := 2, has_content_length := True\<rparr>)"
proof -
  have "length (dec 200) = 3" "length (dec 2) = 1" by (simp_all add: dec.simps)
  then have "length (ok_head 200 2) \<le> 1024" by (simp add: ok_head_def)
  from parse_ok_head [OF _ this, of "[97, 98]" zero_response] show ?thesis by simp
qed

lemma strip_eol_length: "length (strip_eol s) \<le> length s"
  by (simp add: length_dropWhile_le [THEN order_trans])

lemma copy_line_length: "hdr_copy_line line e cap = Some l \<Longrightarrow> 0 < cap \<Longrightarrow> length l < cap"
  by (auto simp: hdr_copy_line_def Let_def split: option.splits if_splits)

lemma header_line_location:
  "length (location out) \<le> 240 \<Longrightarrow> length (location (parse_header_line line nl out)) \<le> 240"
  using copy_line_length [of line nl 241]
  by (fastforce simp: parse_header_line_def parse_range_def Let_def split: option.split prod.split)

lemma header_lines_location:
  "length (location out) \<le> 240 \<Longrightarrow> length (location (header_lines stop line out)) \<le> 240"
proof (induction stop line out rule: header_lines.induct)
  case (1 stop line out)
  then show ?case
    by (subst header_lines.simps) (auto split: scan.split intro: header_line_location)
qed

text \<open>A parsed header ends inside the bytes received so far, and a Location it carries fits the
  240-byte URL buffer.\<close>

theorem parsed_header_bounds:
  assumes "parse_response_headers buf len out = Some (n, rsp)" "0 < n"
  shows "4 \<le> n \<and> nat n \<le> len \<and> nat n \<le> length buf \<and> length (location rsp) \<le> 240"
proof -
  have "length (location rsp) \<le> 240"
    using assms
    by (auto simp: parse_response_headers_def Let_def zero_response_def
        split: option.splits if_splits scan.splits intro!: header_lines_location)
  then show ?thesis using parse_bound [OF assms] by simp
qed

lemma parsed_header_bounds_witness:
  "length (location (snd (the (parse_response_headers (ok_head 200 2 @ [97, 98]) 1024 zero_response)))) \<le> 240"
  using parsed_header_bounds [OF parse_ok_head_witness] parse_ok_head_witness by (simp add: ok_head_def)

end
