(* ===== verification/HttpStream.thy ===== *)
theory HttpStream
  imports HttpResp Ota
begin

text \<open>
  Body transfer of \<open>app/ota/app_ota_http.c\<close>: the byte stream over the header leftover and the
  socket, the sink (OTA chunks or a RAM buffer), the fixed-length and the chunked body reader.
  Sockets, the scheduler and the stop request of another thread are the functions of the
  record \<open>net_api\<close> on a state \<open>'n\<close>; a received block is cut to the size asked for, which is
  the socket call's contract, and an empty one stands for \<open>n <= 0\<close>.
\<close>

subsection \<open>State\<close>

record 'n net_api =
  inet_pton :: "cstr \<Rightarrow> bool"
  sock_open :: "'n \<Rightarrow> int \<times> 'n"
  sock_connect :: "url_parts \<Rightarrow> 'n \<Rightarrow> int \<times> 'n"
  sock_send :: "u8 list \<Rightarrow> 'n \<Rightarrow> int \<times> 'n"
  sock_recv :: "nat \<Rightarrow> 'n \<Rightarrow> u8 list \<times> 'n"
  sock_close :: "'n \<Rightarrow> 'n"
  stop_now :: "'n \<Rightarrow> bool \<times> 'n"

datatype http_state = HTTP_IDLE | RESOLVING | CONNECTING | REQUESTING | DOWNLOADING | HEADER_DL
  | COMMITTING | DONE | FAILED

datatype sink_mode = SINK_OTA_CHUNK | SINK_BUFFER

record sink_ctx =
  mode :: sink_mode
  ota_offset :: u32
  sbuf :: "u8 list"
  buf_cap :: nat

record image_pre_arg =
  resume_attempted :: bool
  resume_succeeded :: bool
  session_restarted :: bool

text \<open>The statics of the module, the state of the socket (\<open>net\<close>) and of the OTA front-end, and
  the transfer under way: \<open>sbuf\<close> is the filled part of the sink's buffer, \<open>pre\<close> the unread
  part of the header leftover.\<close>

record ('n, 'e) http =
  net :: 'n
  ota :: "'e ota"
  pre :: "u8 list"
  sink :: sink_ctx
  s_running :: bool
  s_state :: http_state
  dl_seen :: nat
  dl_total :: nat
  hdrbuf :: "u8 list"
  ipa :: image_pre_arg
  s_image_url :: cstr
  s_header_url :: cstr
  s_has_header_url :: bool
  s_auto_commit :: bool
  s_ota_core_inited :: bool

subsection \<open>Byte stream\<close>

definition poll_running :: "'n net_api \<Rightarrow> ('n, 'e) http \<Rightarrow> bool \<times> ('n, 'e) http" where
  "poll_running N h =
     (if \<not> s_running h then (False, h)
      else case stop_now N (net h) of (stop, n) \<Rightarrow>
        if stop then (False, h\<lparr>net := n, s_running := False\<rparr>) else (True, h\<lparr>net := n\<rparr>))"

definition bs_read_some :: "'n net_api \<Rightarrow> nat \<Rightarrow> ('n, 'e) http \<Rightarrow> u8 list option \<times> ('n, 'e) http" where
  "bs_read_some N want h =
     (if pre h \<noteq> [] then (Some (take want (pre h)), h\<lparr>pre := drop want (pre h)\<rparr>)
      else case sock_recv N want (net h) of (bs, n) \<Rightarrow>
        (if bs = [] then None else Some (take want bs), h\<lparr>net := n\<rparr>))"

lemma read_some_length:
  "bs_read_some N want h = (Some bs, h') \<Longrightarrow> 0 < want \<Longrightarrow> bs \<noteq> [] \<and> length bs \<le> want"
  by (auto simp: bs_read_some_def split: if_splits prod.splits)

lemma read_some_ne:
  "(Some bs, h') = bs_read_some N want h \<Longrightarrow> 0 < want \<Longrightarrow> 0 < length bs \<and> bs \<noteq> []"
  using read_some_length [of N want h bs h'] by simp

text \<open>\<open>bs_read_exact\<close>: \<open>-1\<close> stopped, \<open>-2\<close> stream ended.\<close>

function bs_read_exact :: "'n net_api \<Rightarrow> nat \<Rightarrow> u8 list \<Rightarrow> ('n, 'e) http \<Rightarrow> int \<times> u8 list \<times> ('n, 'e) http" where
  "bs_read_exact N want acc h =
     (if want = 0 then (0, acc, h)
      else case poll_running N h of (run, h) \<Rightarrow>
        if \<not> run then (- 1, acc, h)
        else case bs_read_some N want h of
          (None, h) \<Rightarrow> (- 2, acc, h)
        | (Some bs, h) \<Rightarrow> bs_read_exact N (want - length bs) (acc @ bs) h)"
  by pat_completeness auto

termination bs_read_exact
  by (relation "measure (\<lambda>(N, want, acc, h). want)") (auto dest!: read_some_ne)

declare bs_read_exact.simps [simp del]

text \<open>\<open>bs_read_line\<close>: the collecting loop and the draining loop after an overflow.  A peer can
  keep either going for ever, hence \<open>partial_function\<close>: no result is \<open>None\<close>.\<close>

partial_function (option) drain_line ::
  "'n net_api \<Rightarrow> bool \<Rightarrow> ('n, 'e) http \<Rightarrow> (int \<times> cstr \<times> ('n, 'e) http) option" where
  "drain_line N prev_cr h =
     (case poll_running N h of (run, h) \<Rightarrow>
        if \<not> run then Some (- 1, [], h)
        else case bs_read_some N 1 h of (r, h) \<Rightarrow>
          (case r of None \<Rightarrow> Some (- 3, [], h)
           | Some bs \<Rightarrow> if hd bs = 10 \<and> prev_cr then Some (- 2, [], h) else drain_line N (hd bs = 13) h))"

partial_function (option) read_line_loop ::
  "'n net_api \<Rightarrow> nat \<Rightarrow> cstr \<Rightarrow> bool \<Rightarrow> ('n, 'e) http \<Rightarrow> (int \<times> cstr \<times> ('n, 'e) http) option" where
  "read_line_loop N cap acc prev_cr h =
     (case poll_running N h of (run, h) \<Rightarrow>
        if \<not> run then Some (- 1, [], h)
        else case bs_read_some N 1 h of (r, h) \<Rightarrow>
          (case r of None \<Rightarrow> Some (- 3, [], h)
           | Some bs \<Rightarrow>
               (if hd bs = 10 \<and> prev_cr
                then Some (0, if acc \<noteq> [] \<and> last acc = 13 then butlast acc else acc, h)
                else if length acc < cap - 1
                then read_line_loop N cap (acc @ [hd bs]) (hd bs = 13) h
                else drain_line N (hd bs = 13) h)))"

definition bs_read_line :: "'n net_api \<Rightarrow> nat \<Rightarrow> ('n, 'e) http \<Rightarrow> (int \<times> cstr \<times> ('n, 'e) http) option" where
  "bs_read_line N cap h = read_line_loop N cap [] False h"

subsection \<open>Sink\<close>

fun ota_err_int :: "ota_err \<Rightarrow> int" where
  "ota_err_int OTA_OK = 0"
| "ota_err_int ERR_PARAM = 1"
| "ota_err_int ERR_INVALID_STATE = 2"
| "ota_err_int ERR_INVALID_OFFSET = 3"
| "ota_err_int ERR_WRITE_FAILED = 4"
| "ota_err_int ERR_COMMIT_FAILED = 5"
| "ota_err_int ERR_ABORTED = 6"
| "ota_err_int ERR_INIT_FAILED = 7"

lemma ota_err_int_0 [simp]: "ota_err_int e = 0 \<longleftrightarrow> e = OTA_OK"
  by (cases e) simp_all

definition sink_write :: "'e flash_api \<Rightarrow> u8 list \<Rightarrow> ('n, 'e) http \<Rightarrow> int \<times> ('n, 'e) http" where
  "sink_write E d h = (let s = sink h in case mode s of
      SINK_OTA_CHUNK \<Rightarrow>
        (case app_ota_chunk E (ota_offset s) (Some d) (ota h) of (rc, o') \<Rightarrow>
           if rc \<noteq> OTA_OK then (ota_err_int rc, h\<lparr>ota := o'\<rparr>)
           else (0, h\<lparr>ota := o', sink := s\<lparr>ota_offset := ota_offset s + of_nat (length d)\<rparr>\<rparr>))
    | SINK_BUFFER \<Rightarrow>
        if buf_cap s < length (sbuf s) + length d then (- 1, h)
        else (0, h\<lparr>sink := s\<lparr>sbuf := sbuf s @ d\<rparr>\<rparr>))"

subsection \<open>Body readers\<close>

text \<open>The loop of \<open>stream_fixed_body\<close> over a sink \<open>wr\<close>; \<open>seen\<close> never passes the total, so it is
  counted without wrap-around.\<close>

function fixed_body_loop ::
  "'n net_api \<Rightarrow> (u8 list \<Rightarrow> ('n, 'e) http \<Rightarrow> int \<times> ('n, 'e) http) \<Rightarrow> nat \<Rightarrow> nat \<Rightarrow> ('n, 'e) http
    \<Rightarrow> int \<times> ('n, 'e) http" where
  "fixed_body_loop N wr body_total seen h =
     (if body_total \<le> seen then (0, h)
      else case poll_running N h of (run, h) \<Rightarrow>
        if \<not> run then (- 1, h)
        else case bs_read_some N (min (body_total - seen) 1024) h of
          (None, h) \<Rightarrow> (- 2, h)
        | (Some bs, h) \<Rightarrow>
            (case wr bs h of (wrc, h) \<Rightarrow>
               if wrc \<noteq> 0 then (- 3, h)
               else fixed_body_loop N wr body_total (seen + length bs) (h\<lparr>dl_seen := seen + length bs\<rparr>)))"
  by pat_completeness auto

termination fixed_body_loop
  by (relation "measure (\<lambda>(N, wr, body_total, seen, h). body_total - seen)") (auto dest!: read_some_ne intro!: diff_less_mono2)

declare fixed_body_loop.simps [simp del]

definition stream_fixed_body ::
  "'n net_api \<Rightarrow> (u8 list \<Rightarrow> ('n, 'e) http \<Rightarrow> int \<times> ('n, 'e) http) \<Rightarrow> u32 \<Rightarrow> ('n, 'e) http
    \<Rightarrow> int \<times> ('n, 'e) http" where
  "stream_fixed_body N wr body_total h =
     fixed_body_loop N wr (unat body_total) 0 (h\<lparr>dl_seen := 0, dl_total := unat body_total\<rparr>)"

text \<open>The data of one chunk.\<close>

function chunk_data_loop ::
  "'n net_api \<Rightarrow> (u8 list \<Rightarrow> ('n, 'e) http \<Rightarrow> int \<times> ('n, 'e) http) \<Rightarrow> nat \<Rightarrow> ('n, 'e) http
    \<Rightarrow> int \<times> ('n, 'e) http" where
  "chunk_data_loop N wr sz h =
     (if sz = 0 then (0, h)
      else case poll_running N h of (run, h) \<Rightarrow>
        if \<not> run then (- 5, h)
        else case bs_read_some N (min sz 1024) h of
          (None, h) \<Rightarrow> (- 6, h)
        | (Some bs, h) \<Rightarrow>
            (case wr bs h of (wrc, h) \<Rightarrow>
               if wrc \<noteq> 0 then (- 7, h) else chunk_data_loop N wr (sz - length bs) h))"
  by pat_completeness auto

termination chunk_data_loop
  by (relation "measure (\<lambda>(N, wr, sz, h). sz)") (auto dest!: read_some_ne)

declare chunk_data_loop.simps [simp del]

partial_function (option) trailer_loop ::
  "'n net_api \<Rightarrow> ('n, 'e) http \<Rightarrow> (int \<times> ('n, 'e) http) option" where
  "trailer_loop N h = Option.bind (bs_read_line N 40 h) (\<lambda>(rc, line, h).
     if rc = - 2 then trailer_loop N h
     else if rc \<noteq> 0 then Some (- 4, h)
     else if line = [] \<or> hd line = 0 then Some (0, h)
     else trailer_loop N h)"

partial_function (option) stream_chunked_body ::
  "'n net_api \<Rightarrow> (u8 list \<Rightarrow> ('n, 'e) http \<Rightarrow> int \<times> ('n, 'e) http) \<Rightarrow> ('n, 'e) http
    \<Rightarrow> (int \<times> ('n, 'e) http) option" where
  "stream_chunked_body N wr h =
     (case poll_running N h of (run, h) \<Rightarrow>
        if \<not> run then Some (- 1, h)
        else Option.bind (bs_read_line N 40 h) (\<lambda>(rc, line, h).
          if rc \<noteq> 0 then Some (- 2, h)
          else case strtoul 16 line of (sz, rest) \<Rightarrow>
            if rest = line then Some (- 3, h)
            else if sz = 0 then trailer_loop N h
            else case chunk_data_loop N wr (unat sz) h of (rc, h) \<Rightarrow>
              if rc \<noteq> 0 then Some (rc, h)
              else case bs_read_exact N 2 [] h of (rc, crlf, h) \<Rightarrow>
                if rc \<noteq> 0 then Some (- 8, h)
                else if crlf \<noteq> [13, 10] then Some (- 9, h)
                else stream_chunked_body N wr h))"

end
