(* ===== verification/HttpTransfer.thy ===== *)
theory HttpTransfer
  imports HttpStream
begin

text \<open>
  What a body transfer guarantees, stated once over the interface of a sink
  (locale \<open>byte_sink\<close>, and \<open>willing_sink\<close> for a sink with room) and interpreted for the
  two modes of \<open>sink_write\<close>: the OTA session and the RAM buffer.  \<open>src\<close> names the bytes a
  socket is going to deliver.
\<close>

subsection \<open>The network side\<close>

text \<open>\<open>feeds\<close>: what \<open>recv\<close> returns is the next part of \<open>src\<close>, whatever it is; a stop check
  consumes nothing.  \<open>live\<close>: as long as bytes are due, \<open>recv\<close> returns some, and nobody stops
  the download.\<close>

definition feeds :: "'n net_api \<Rightarrow> ('n \<Rightarrow> u8 list) \<Rightarrow> bool" where
  "feeds N src \<longleftrightarrow>
     (\<forall>w n bs n'. sock_recv N w n = (bs, n') \<longrightarrow> src n = take w bs @ src n') \<and>
     (\<forall>n b n'. stop_now N n = (b, n') \<longrightarrow> src n' = src n)"

definition live :: "'n net_api \<Rightarrow> ('n \<Rightarrow> u8 list) \<Rightarrow> bool" where
  "live N src \<longleftrightarrow> feeds N src \<and>
     (\<forall>w n bs n'. sock_recv N w n = (bs, n') \<longrightarrow> src n \<noteq> [] \<longrightarrow> 0 < w \<longrightarrow> bs \<noteq> []) \<and>
     (\<forall>n. fst (stop_now N n) = False)"

definition pending :: "('n \<Rightarrow> u8 list) \<Rightarrow> ('n, 'e) http \<Rightarrow> u8 list" where
  "pending src h = pre h @ src (net h)"

lemma poll_keeps:
  "feeds N src \<Longrightarrow> poll_running N h = (b, h') \<Longrightarrow>
     pending src h' = pending src h \<and> ota h' = ota h \<and> sink h' = sink h"
  by (auto simp: poll_running_def feeds_def pending_def split: if_splits prod.splits)

lemma poll_live:
  "live N src \<Longrightarrow> s_running h \<Longrightarrow> poll_running N h = (b, h') \<Longrightarrow> b \<and> s_running h'"
  by (auto simp: poll_running_def live_def split: if_splits prod.splits) (metis fst_conv)

lemma read_keeps:
  "feeds N src \<Longrightarrow> bs_read_some N w h = (Some bs, h') \<Longrightarrow>
     pending src h = bs @ pending src h' \<and> ota h' = ota h \<and> sink h' = sink h \<and>
     s_running h' = s_running h"
  by (auto simp: bs_read_some_def feeds_def pending_def split: if_splits prod.splits)

lemma read_live:
  "live N src \<Longrightarrow> 0 < w \<Longrightarrow> pending src h \<noteq> [] \<Longrightarrow> \<exists>bs h'. bs_read_some N w h = (Some bs, h')"
  by (cases "sock_recv N w (net h)")
     (auto simp: bs_read_some_def live_def pending_def split: if_splits prod.splits)

lemma live_feeds: "live N src \<Longrightarrow> feeds N src"
  by (simp add: live_def)

text \<open>One byte at a time, as the line reader takes them.\<close>

lemma read_one:
  assumes "live N src" "s_running h" "pending src h = c # r"
  shows "\<exists>h1 h2. poll_running N h = (True, h1) \<and> bs_read_some N 1 h1 = (Some [c], h2) \<and>
    pending src h2 = r \<and> ota h2 = ota h \<and> sink h2 = sink h \<and> s_running h2"
proof -
  note F = live_feeds [OF assms(1)]
  obtain b h1 where p: "poll_running N h = (b, h1)" by force
  have k: "b" "s_running h1" "pending src h1 = c # r" "ota h1 = ota h" "sink h1 = sink h"
    using poll_live [OF assms(1,2) p] poll_keeps [OF F p] assms(3) by auto
  obtain bs h2 where q: "bs_read_some N 1 h1 = (Some bs, h2)"
    using read_live [OF assms(1), of 1 h1] k(3) by auto
  have "bs \<noteq> []" "length bs \<le> 1" using read_some_length [OF q] by auto
  then obtain d where "bs = [d]" by (cases bs) auto
  then show ?thesis using read_keeps [OF F q] k p q by auto
qed

subsection \<open>Lines\<close>

text \<open>A line without CR or LF that fits is read back, its CRLF consumed.\<close>

lemma read_line_more:
  assumes "live N src" "s_running h" "pending src h = l @ [13, 10] @ r"
    and "13 \<notin> set l" "10 \<notin> set l" "13 \<notin> set acc" "length acc + length l + 1 < cap" "\<not> cr"
  shows "\<exists>h'. read_line_loop N cap acc cr h = Some (0, acc @ l, h') \<and> pending src h' = r \<and>
    ota h' = ota h \<and> sink h' = sink h \<and> s_running h'"
  using assms
proof (induction l arbitrary: acc h cr)
  case Nil
  obtain h1 h2 where 1: "poll_running N h = (True, h1)" "bs_read_some N 1 h1 = (Some [13], h2)"
    "pending src h2 = 10 # r" "ota h2 = ota h" "sink h2 = sink h" "s_running h2"
    using read_one [OF Nil.prems(1,2), of 13 "10 # r"] Nil.prems(3) by auto
  obtain h3 h4 where 2: "poll_running N h2 = (True, h3)" "bs_read_some N 1 h3 = (Some [10], h4)"
    "pending src h4 = r" "ota h4 = ota h2" "sink h4 = sink h2" "s_running h4"
    using read_one [OF Nil.prems(1) 1(6,3)] by auto
  have room: "length acc < cap - 1" using Nil.prems(7) by simp
  have "read_line_loop N cap acc cr h = read_line_loop N cap (acc @ [13]) True h2"
    using 1 room by (subst read_line_loop.simps) simp
  also have "\<dots> = Some (0, acc, h4)"
    using 2 by (subst read_line_loop.simps) simp
  finally show ?case using 1 2 by auto
next
  case (Cons c l)
  obtain h1 h2 where 1: "poll_running N h = (True, h1)" "bs_read_some N 1 h1 = (Some [c], h2)"
    "pending src h2 = l @ [13, 10] @ r" "ota h2 = ota h" "sink h2 = sink h" "s_running h2"
    using read_one [OF Cons.prems(1,2), of c "l @ [13, 10] @ r"] Cons.prems(3) by auto
  have "read_line_loop N cap acc cr h = read_line_loop N cap (acc @ [c]) False h2"
    using 1 Cons.prems(4,5,7) by (subst read_line_loop.simps) auto
  moreover have "\<exists>h'. read_line_loop N cap (acc @ [c]) False h2 = Some (0, (acc @ [c]) @ l, h') \<and>
      pending src h' = r \<and> ota h' = ota h2 \<and> sink h' = sink h2 \<and> s_running h'"
    by (rule Cons.IH [OF Cons.prems(1) 1(6,3)]) (use Cons.prems in auto)
  ultimately show ?case using 1(4,5) by auto
qed

lemma read_line_ok:
  assumes "live N src" "s_running h" "pending src h = l @ [13, 10] @ r"
    and "13 \<notin> set l" "10 \<notin> set l" "length l + 1 < cap"
  shows "\<exists>h'. bs_read_line N cap h = Some (0, l, h') \<and> pending src h' = r \<and>
    ota h' = ota h \<and> sink h' = sink h \<and> s_running h'"
  using read_line_more [OF assms(1-5), of "[]" cap False] assms(6) by (simp add: bs_read_line_def)

lemma read_exact_0 [simp]: "bs_read_exact N 0 acc h = (0, acc, h)"
  by (subst bs_read_exact.simps) simp

lemma read_two:
  assumes "live N src" "s_running h" "pending src h = c # d # r"
  shows "\<exists>h'. bs_read_exact N 2 [] h = (0, [c, d], h') \<and> pending src h' = r \<and>
    ota h' = ota h \<and> sink h' = sink h \<and> s_running h'"
proof -
  note F = live_feeds [OF assms(1)]
  obtain b h1 where p: "poll_running N h = (b, h1)" by force
  have k: "b" "s_running h1" "pending src h1 = c # d # r" "ota h1 = ota h" "sink h1 = sink h"
    using poll_live [OF assms(1,2) p] poll_keeps [OF F p] assms(3) by auto
  obtain bs h2 where q: "bs_read_some N 2 h1 = (Some bs, h2)"
    using read_live [OF assms(1), of 2 h1] k(3) by auto
  have l: "bs \<noteq> []" "length bs \<le> 2" using read_some_length [OF q] by auto
  have h2: "c # d # r = bs @ pending src h2" "ota h2 = ota h" "sink h2 = sink h" "s_running h2"
    using read_keeps [OF F q] k by auto
  show ?thesis
  proof (cases "length bs = 2")
    case True
    then obtain x y where "bs = [x, y]" by (auto simp: numeral_2_eq_2 length_Suc_conv)
    then have e: "bs = [c, d]" "pending src h2 = r" using h2(1) by auto
    then have "bs_read_exact N 2 [] h = (0, [c, d], h2)"
      using p q k(1) by (subst bs_read_exact.simps) simp
    then show ?thesis using e h2 by blast
  next
    case False
    then have "length bs = 1" using l by (cases bs) (auto simp: le_Suc_eq numeral_2_eq_2)
    then obtain x where "bs = [x]" by (auto simp: length_Suc_conv)
    then have e: "bs = [c]" "pending src h2 = d # r" using h2(1) by auto
    obtain h3 h4 where 2: "poll_running N h2 = (True, h3)" "bs_read_some N 1 h3 = (Some [d], h4)"
      "pending src h4 = r" "ota h4 = ota h2" "sink h4 = sink h2" "s_running h4"
      using read_one [OF assms(1) h2(4) e(2)] by auto
    have "bs_read_exact N 2 [] h = bs_read_exact N 1 [c] h2"
      using p q k(1) e(1) by (subst bs_read_exact.simps) simp
    also have "\<dots> = (0, [c, d], h4)"
      using 2 by (subst bs_read_exact.simps) simp
    finally show ?thesis using 2 h2 by auto
  qed
qed

text \<open>The chunked decoder inverts chunked encoding.  A chunk is its size line (any text the code
  reads as the size, extensions included) and its data; the trailer lines are ignored.\<close>

definition line_ok :: "cstr \<Rightarrow> bool" where
  "line_ok l \<longleftrightarrow> 13 \<notin> set l \<and> 10 \<notin> set l \<and> length l < 39"

definition chunk_ok :: "cstr \<times> u8 list \<Rightarrow> bool" where
  "chunk_ok c = (case c of (l, d) \<Rightarrow> line_ok l \<and> d \<noteq> [] \<and> snd (strtoul 16 l) \<noteq> l \<and>
     unat (fst (strtoul 16 l)) = length d)"

definition enc_chunks :: "(cstr \<times> u8 list) list \<Rightarrow> u8 list" where
  "enc_chunks cs = concat (map (\<lambda>(l, d). l @ [13, 10] @ d @ [13, 10]) cs)"

definition enc_lines :: "cstr list \<Rightarrow> u8 list" where
  "enc_lines ts = concat (map (\<lambda>t. t @ [13, 10]) ts)"

subsection \<open>The interface of a sink\<close>

locale byte_sink =
  fixes wr :: "u8 list \<Rightarrow> ('n, 'e) http \<Rightarrow> int \<times> ('n, 'e) http"
    and got :: "('n, 'e) http \<Rightarrow> u8 list"
    and okay :: "('n, 'e) http \<Rightarrow> bool"
  assumes took: "okay h \<Longrightarrow> bs \<noteq> [] \<Longrightarrow> wr bs h = (0, h') \<Longrightarrow>
        okay h' \<and> got h' = got h @ bs"
    and net_only: "wr bs h = (rc, h') \<Longrightarrow>
        net h' = net h \<and> pre h' = pre h \<and> s_running h' = s_running h"
    and frame: "ota h' = ota h \<Longrightarrow> sink h' = sink h \<Longrightarrow> okay h' = okay h \<and> got h' = got h"
begin

lemma frame_run: "okay (h\<lparr>dl_seen := n\<rparr>) = okay h" "got (h\<lparr>dl_seen := n\<rparr>) = got h"
  "okay (h\<lparr>dl_total := n\<rparr>) = okay h" "got (h\<lparr>dl_total := n\<rparr>) = got h"
  using frame [of "h\<lparr>dl_seen := n\<rparr>" h] frame [of "h\<lparr>dl_total := n\<rparr>" h] by simp_all

text \<open>A fixed body that is reported complete is exactly the next bytes of the stream.\<close>

lemma fixed_loop_exact:
  assumes "feeds N src" "okay h" "seen \<le> body_total" "fixed_body_loop N wr body_total seen h = (0, h')"
  shows "\<exists>bs. pending src h = bs @ pending src h' \<and> length bs = body_total - seen \<and>
    got h' = got h @ bs \<and> okay h'"
  using assms(2-4)
proof (induction "body_total - seen" arbitrary: seen h rule: less_induct)
  case less
  show ?case
  proof (cases "body_total \<le> seen")
    case True
    then show ?thesis using less.prems by (auto simp: fixed_body_loop.simps)
  next
    case False
    obtain b h1 where p: "poll_running N h = (b, h1)" by force
    obtain r h2 where q: "bs_read_some N (min (body_total - seen) 1024) h1 = (r, h2)" by force
    obtain bs where b: b "r = Some bs" using less.prems(3) False p q
      by (subst (asm) fixed_body_loop.simps) (auto split: if_splits option.splits)
    obtain rc h3 where w: "wr bs h2 = (rc, h3)" by force
    have rc: "rc = 0" and rest: "fixed_body_loop N wr body_total (seen + length bs)
        (h3\<lparr>dl_seen := seen + length bs\<rparr>) = (0, h')"
      using less.prems(3) False p q b w by (subst (asm) fixed_body_loop.simps; auto split: if_splits)+
    have l: "bs \<noteq> []" "length bs \<le> body_total - seen"
      using read_some_length [of N "min (body_total - seen) 1024" h1 bs h2] q b(2) False by auto
    have k: "pending src h1 = pending src h" "okay h1" "got h1 = got h"
      using poll_keeps [OF assms(1) p] frame [of h1 h] less.prems(1) by auto
    have k2: "pending src h1 = bs @ pending src h2" "okay h2" "got h2 = got h"
      using read_keeps [OF assms(1) q [unfolded b(2)]] frame [of h2 h1] k by auto
    have k3: "okay h3" "got h3 = got h @ bs" "pending src h3 = pending src h2"
      using took [OF k2(2) l(1) w [unfolded rc]] net_only [OF w] k2 by (auto simp: pending_def)
    have "body_total - (seen + length bs) < body_total - seen"
      using l False by (cases bs) auto
    moreover have "seen + length bs \<le> body_total" using l(2) False by simp
    ultimately obtain cs where
      "pending src (h3\<lparr>dl_seen := seen + length bs\<rparr>) = cs @ pending src h'"
      "length cs = body_total - (seen + length bs)"
      "got h' = got (h3\<lparr>dl_seen := seen + length bs\<rparr>) @ cs" "okay h'"
      using less.hyps [OF _ _ _ rest] k3(1) by (auto simp: frame_run)
    then show ?thesis using k k2 k3 l
      by (intro exI [of _ "bs @ cs"]) (auto simp: frame_run pending_def)
  qed
qed

lemma fixed_exact:
  assumes "feeds N src" "okay h" "stream_fixed_body N wr total_len h = (0, h')"
  shows "\<exists>bs. pending src h = bs @ pending src h' \<and> length bs = unat total_len \<and>
    got h' = got h @ bs \<and> okay h'"
  using fixed_loop_exact [OF assms(1), of "h\<lparr>dl_seen := 0, dl_total := unat total_len\<rparr>" 0
      "unat total_len" h'] assms(2,3)
  by (simp add: stream_fixed_body_def frame_run) (simp add: pending_def)

end

locale willing_sink = byte_sink wr got okay
  for wr :: "u8 list \<Rightarrow> ('n, 'e) http \<Rightarrow> int \<times> ('n, 'e) http"
    and got :: "('n, 'e) http \<Rightarrow> u8 list"
    and okay :: "('n, 'e) http \<Rightarrow> bool" +
  fixes room :: "('n, 'e) http \<Rightarrow> nat"
  assumes takes: "okay h \<Longrightarrow> bs \<noteq> [] \<Longrightarrow> length bs \<le> 1024 \<Longrightarrow> length bs \<le> room h \<Longrightarrow>
        \<exists>h'. wr bs h = (0, h') \<and> room h' = room h - length bs"
    and room_frame: "ota h' = ota h \<Longrightarrow> sink h' = sink h \<Longrightarrow> room h' = room h"
begin

text \<open>Reading at most \<open>w\<close> bytes that are due and writing them.\<close>

lemma move_some:
  assumes "live N src" "okay h" "s_running h" "0 < w" "w \<le> 1024" "w \<le> length (pending src h)"
    and "w \<le> room h"
  shows "\<exists>h1 bs h2 h3. poll_running N h = (True, h1) \<and> bs_read_some N w h1 = (Some bs, h2) \<and>
    wr bs h2 = (0, h3) \<and> bs \<noteq> [] \<and> length bs \<le> w \<and> pending src h = bs @ pending src h3 \<and>
    okay h3 \<and> got h3 = got h @ bs \<and> s_running h3 \<and> room h3 = room h - length bs"
proof -
  note F = live_feeds [OF assms(1)]
  obtain b h1 where p: "poll_running N h = (b, h1)" by force
  have k1: b "s_running h1" "pending src h1 = pending src h" "okay h1" "got h1 = got h" "room h1 = room h"
    using poll_live [OF assms(1,3) p] poll_keeps [OF F p] frame [of h1 h] room_frame [of h1 h] assms(2)
    by auto
  have "pending src h1 \<noteq> []" using k1(3) assms(4,6) by auto
  then obtain bs h2 where q: "bs_read_some N w h1 = (Some bs, h2)"
    using read_live [OF assms(1,4)] by blast
  have l: "bs \<noteq> []" "length bs \<le> w" using read_some_length [OF q assms(4)] by auto
  have k2: "pending src h1 = bs @ pending src h2" "okay h2" "got h2 = got h" "s_running h2" "room h2 = room h"
    using read_keeps [OF F q] frame [of h2 h1] room_frame [of h2 h1] k1 by auto
  obtain h3 where w: "wr bs h2 = (0, h3)" "room h3 = room h2 - length bs"
    using takes [OF k2(2) l(1)] l(2) assms(5,7) k2(5) by auto
  have "okay h3" "got h3 = got h @ bs" "pending src h3 = pending src h2" "s_running h3"
    using took [OF k2(2) l(1) w(1)] net_only [OF w(1)] k2 by (auto simp: pending_def)
  then show ?thesis using p q w k1 k2 l by auto
qed

lemma chunk_data_ok:
  assumes "live N src" "okay h" "s_running h" "pending src h = d @ r" "length d \<le> room h"
  shows "\<exists>h'. chunk_data_loop N wr (length d) h = (0, h') \<and> okay h' \<and> s_running h' \<and>
    pending src h' = r \<and> got h' = got h @ d \<and> room h' = room h - length d"
  using assms(2-5)
proof (induction "length d" arbitrary: d h rule: less_induct)
  case less
  show ?case
  proof (cases "d = []")
    case True
    then show ?thesis using less.prems by (subst chunk_data_loop.simps) auto
  next
    case False
    let ?w = "min (length d) 1024"
    have w: "0 < ?w" "?w \<le> 1024" "?w \<le> length (pending src h)" "?w \<le> room h"
      using False less.prems(3,4) by auto
    obtain h1 bs h2 h3 where m: "poll_running N h = (True, h1)" "bs_read_some N ?w h1 = (Some bs, h2)"
      "wr bs h2 = (0, h3)" "bs \<noteq> []" "length bs \<le> ?w" "pending src h = bs @ pending src h3" "okay h3"
      "got h3 = got h @ bs" "s_running h3" "room h3 = room h - length bs"
      using move_some [OF assms(1) less.prems(1,2) w] by blast
    have e: "bs @ pending src h3 = d @ r" using m(6) less.prems(3) by simp
    then have bs: "bs = take (length bs) d" and rest: "pending src h3 = drop (length bs) d @ r"
      using m(5) by (auto simp: append_eq_append_conv_if split: if_splits)
    have lt: "length (drop (length bs) d) < length d" using m(4,5) False by (cases bs) auto
    have room: "length (drop (length bs) d) \<le> room h3" using m(10) less.prems(4) by (simp add: diff_le_mono)
    obtain h' where IH: "chunk_data_loop N wr (length (drop (length bs) d)) h3 = (0, h')" "okay h'"
      "s_running h'" "pending src h' = r" "got h' = got h3 @ drop (length bs) d"
      "room h' = room h3 - length (drop (length bs) d)"
      using less.hyps [OF lt m(7,9) rest room] by blast
    have "chunk_data_loop N wr (length d) h = chunk_data_loop N wr (length d - length bs) h3"
      using m(1-3) False by (subst chunk_data_loop.simps) simp
    moreover have "got h' = got h @ d" using IH(5) m(8) bs by (metis append.assoc append_take_drop_id)
    moreover have "room h' = room h - length d" using IH(6) m(5,10) by simp
    ultimately show ?thesis using IH by simp
  qed
qed

text \<open>A fixed body whose bytes all arrive is taken completely.\<close>

lemma fixed_loop_complete:
  assumes "live N src" "okay h" "s_running h" "body_total - seen \<le> length (pending src h)"
    and "body_total - seen \<le> room h"
  shows "fst (fixed_body_loop N wr body_total seen h) = 0"
  using assms(2-5)
proof (induction "body_total - seen" arbitrary: seen h rule: less_induct)
  case less
  show ?case
  proof (cases "body_total \<le> seen")
    case True
    then show ?thesis by (subst fixed_body_loop.simps) simp
  next
    case False
    let ?w = "min (body_total - seen) 1024"
    have w: "0 < ?w" "?w \<le> 1024" "?w \<le> length (pending src h)" "?w \<le> room h"
      using False less.prems(3,4) by auto
    obtain h1 bs h2 h3 where m: "poll_running N h = (True, h1)" "bs_read_some N ?w h1 = (Some bs, h2)"
      "wr bs h2 = (0, h3)" "bs \<noteq> []" "length bs \<le> ?w" "pending src h = bs @ pending src h3" "okay h3"
      "got h3 = got h @ bs" "s_running h3" "room h3 = room h - length bs"
      using move_some [OF assms(1) less.prems(1,2) w] by blast
    let ?h = "h3\<lparr>dl_seen := seen + length bs\<rparr>"
    have "fixed_body_loop N wr body_total seen h = fixed_body_loop N wr body_total (seen + length bs) ?h"
      using m(1-3) False by (subst fixed_body_loop.simps) simp
    moreover have "fst (fixed_body_loop N wr body_total (seen + length bs) ?h) = 0"
    proof (rule less.hyps)
      show "body_total - (seen + length bs) < body_total - seen" using m(4) False by (cases bs) auto
      show "okay ?h" "s_running ?h" using m by (simp_all add: frame_run)
      have "room ?h = room h3" using room_frame [of ?h h3] by simp
      then show "body_total - (seen + length bs) \<le> room ?h" using m(10) less.prems(4) by simp
      have "length (pending src ?h) = length (pending src h) - length bs"
        using m(6) by (simp add: pending_def)
      then show "body_total - (seen + length bs) \<le> length (pending src ?h)" using less.prems(3) by simp
    qed
    ultimately show ?thesis by simp
  qed
qed

lemma trailer_ok:
  assumes "live N src" "s_running h" "pending src h = enc_lines ts @ [13, 10] @ r"
    and "\<forall>t \<in> set ts. line_ok t \<and> t \<noteq> [] \<and> hd t \<noteq> 0"
  shows "\<exists>h'. trailer_loop N h = Some (0, h') \<and> pending src h' = r \<and> ota h' = ota h \<and>
    sink h' = sink h \<and> s_running h'"
  using assms(2-4)
proof (induction ts arbitrary: h)
  case Nil
  then obtain h' where "bs_read_line N 40 h = Some (0, [], h')" "pending src h' = r" "ota h' = ota h"
    "sink h' = sink h" "s_running h'"
    using read_line_ok [OF assms(1), of h "[]" r 40] by (auto simp: enc_lines_def)
  then show ?case by (subst trailer_loop.simps) auto
next
  case (Cons t ts)
  have t: "13 \<notin> set t" "10 \<notin> set t" "length t + 1 < 40" "t \<noteq> []" "hd t \<noteq> 0"
    using Cons.prems(3) by (auto simp: line_ok_def)
  obtain h1 where 1: "bs_read_line N 40 h = Some (0, t, h1)" "pending src h1 = enc_lines ts @ [13, 10] @ r"
    "ota h1 = ota h" "sink h1 = sink h" "s_running h1"
    using read_line_ok [OF assms(1) Cons.prems(1) _ t(1,2,3), of "enc_lines ts @ [13, 10] @ r"] Cons.prems(2)
    by (auto simp: enc_lines_def)
  have "trailer_loop N h = trailer_loop N h1" using 1(1) t(4,5) by (subst trailer_loop.simps) simp
  then show ?case using Cons.IH [OF 1(5,2)] Cons.prems(3) 1(3,4) by auto
qed

lemma chunked_ok:
  assumes "live N src" "okay h" "s_running h"
    and "pending src h = enc_chunks cs @ l0 @ [13, 10] @ enc_lines ts @ [13, 10] @ r"
    and "\<forall>c \<in> set cs. chunk_ok c" "line_ok l0" "fst (strtoul 16 l0) = 0" "snd (strtoul 16 l0) \<noteq> l0"
    and "\<forall>t \<in> set ts. line_ok t \<and> t \<noteq> [] \<and> hd t \<noteq> 0"
    and "length (concat (map snd cs)) \<le> room h"
  shows "\<exists>h'. stream_chunked_body N wr h = Some (0, h') \<and> okay h' \<and> pending src h' = r \<and>
    got h' = got h @ concat (map snd cs)"
  using assms(2-5,10)
proof (induction cs arbitrary: h)
  case Nil
  note F = live_feeds [OF assms(1)]
  obtain b h1 where p: "poll_running N h = (b, h1)" by force
  have k1: b "s_running h1" "pending src h1 = l0 @ [13, 10] @ enc_lines ts @ [13, 10] @ r"
    "ota h1 = ota h" "sink h1 = sink h"
    using poll_live [OF assms(1) Nil.prems(2) p] poll_keeps [OF F p] Nil.prems(3)
    by (auto simp: enc_chunks_def)
  have l0: "13 \<notin> set l0" "10 \<notin> set l0" "length l0 + 1 < 40" using assms(6) by (auto simp: line_ok_def)
  obtain h2 where 2: "bs_read_line N 40 h1 = Some (0, l0, h2)"
    "pending src h2 = enc_lines ts @ [13, 10] @ r" "ota h2 = ota h1" "sink h2 = sink h1" "s_running h2"
    using read_line_ok [OF assms(1) k1(2,3) l0] by blast
  obtain h3 where 3: "trailer_loop N h2 = Some (0, h3)" "pending src h3 = r" "ota h3 = ota h2" "sink h3 = sink h2"
    using trailer_ok [OF assms(1) 2(5,2) assms(9)] by blast
  have "stream_chunked_body N wr h = Some (0, h3)"
    using p k1(1) 2(1) 3(1) assms(7,8)
    by (subst stream_chunked_body.simps) (auto simp: prod.case_eq_if)
  moreover have "okay h3" "got h3 = got h"
    using frame [of h3 h] 3 2 k1 Nil.prems(1) by auto
  ultimately show ?case using 3(2) by auto
next
  case (Cons c cs)
  note F = live_feeds [OF assms(1)]
  obtain l d where c: "c = (l, d)" by force
  have ck: "13 \<notin> set l" "10 \<notin> set l" "length l + 1 < 40" "d \<noteq> []" "snd (strtoul 16 l) \<noteq> l"
    "unat (fst (strtoul 16 l)) = length d"
    using Cons.prems(4) by (auto simp: c chunk_ok_def line_ok_def)
  let ?r = "enc_chunks cs @ l0 @ [13, 10] @ enc_lines ts @ [13, 10] @ r"
  obtain b h1 where p: "poll_running N h = (b, h1)" by force
  have k1: b "s_running h1" "pending src h1 = l @ [13, 10] @ d @ [13, 10] @ ?r" "ota h1 = ota h" "sink h1 = sink h"
    using poll_live [OF assms(1) Cons.prems(2) p] poll_keeps [OF F p] Cons.prems(3)
    by (auto simp: enc_chunks_def c)
  obtain h2 where 2: "bs_read_line N 40 h1 = Some (0, l, h2)" "pending src h2 = d @ [13, 10] @ ?r"
    "ota h2 = ota h1" "sink h2 = sink h1" "s_running h2"
    using read_line_ok [OF assms(1) k1(2,3) ck(1,2,3)] by blast
  have o2: "okay h2" "got h2 = got h" "room h2 = room h"
    using frame [of h2 h] room_frame [of h2 h] 2 k1 Cons.prems(1) by auto
  have rm: "length d \<le> room h2" using Cons.prems(5) o2(3) by (simp add: c)
  obtain h3 where 3: "chunk_data_loop N wr (length d) h2 = (0, h3)" "okay h3" "s_running h3"
    "pending src h3 = [13, 10] @ ?r" "got h3 = got h2 @ d" "room h3 = room h2 - length d"
    using chunk_data_ok [OF assms(1) o2(1) 2(5,2) rm] by blast
  obtain h4 where 4: "bs_read_exact N 2 [] h3 = (0, [13, 10], h4)" "pending src h4 = ?r"
    "ota h4 = ota h3" "sink h4 = sink h3" "s_running h4"
    using read_two [OF assms(1) 3(3), of 13 10 ?r] 3(4) by auto
  have o4: "okay h4" "got h4 = got h @ d" "room h4 = room h - length d"
    using frame [of h4 h3] room_frame [of h4 h3] 4 3 o2 by auto
  have nz: "fst (strtoul 16 l) \<noteq> 0" using ck(4,6) by auto
  have "stream_chunked_body N wr h = stream_chunked_body N wr h4"
    using p k1(1) 2(1) 3(1) 4(1) ck(5,6) nz
    by (subst stream_chunked_body.simps) (auto simp: prod.case_eq_if)
  moreover have "length (concat (map snd cs)) \<le> room h4"
    using Cons.prems(5) o4(3) by (simp add: c)
  ultimately show ?case
    using Cons.IH [OF o4(1) 4(5,2)] Cons.prems(4) o4(2) by (auto simp: c)
qed

end

subsection \<open>The two sinks\<close>

text \<open>Writes inside the area succeed.\<close>

definition flash_writes_ok :: "'e flash_api \<Rightarrow> bool" where
  "flash_writes_ok E \<longleftrightarrow> (\<forall>a off d e. unat off + length d \<le> unat (fa_size a) \<longrightarrow>
     0 \<le> fst (flash_area_write E (Some a) off d e))"

definition session_img :: "('e \<Rightarrow> u8 list) \<Rightarrow> ('n, 'e) http \<Rightarrow> u8 list" where
  "session_img c h = (case session_of c (ota h) of Receiving t img \<Rightarrow> img | _ \<Rightarrow> [])"

text \<open>The OTA sink is aligned with the session: it is open and the offset is the number of bytes
  the session has.\<close>

definition sink_aligned :: "'e flash_api \<Rightarrow> ('e \<Rightarrow> u8 list) \<Rightarrow> u32 \<Rightarrow> ('n, 'e) http \<Rightarrow> bool" where
  "sink_aligned E c t h \<longleftrightarrow> ota_ok E c (ota h) \<and> mode (sink h) = SINK_OTA_CHUNK \<and>
     (\<exists>img. session_of c (ota h) = Receiving t img \<and> length img = unat (ota_offset (sink h)))"

definition session_room :: "'e flash_api \<Rightarrow> ('n, 'e) http \<Rightarrow> nat" where
  "session_room E h = (if flash_writes_ok E
     then unat (total_size (st (ota h))) - unat (ota_offset (sink h)) else 0)"

lemma sink_write_ota:
  assumes "sink_aligned E c t h" "sink_write E d h = (0, h')"
  shows "sink_aligned E c t h' \<and> session_img c h' = session_img c h @ d"
proof -
  obtain img where v: "session_of c (ota h) = Receiving t img" "length img = unat (ota_offset (sink h))"
    and ok: "ota_ok E c (ota h)" and m: "mode (sink h) = SINK_OTA_CHUNK"
    using assms(1) by (auto simp: sink_aligned_def)
  obtain o' where C: "app_ota_chunk E (ota_offset (sink h)) (Some d) (ota h) = (OTA_OK, o')"
    and h': "h' = h\<lparr>ota := o', sink := (sink h)\<lparr>ota_offset := ota_offset (sink h) + of_nat (length d)\<rparr>\<rparr>"
    using assms(2) m by (auto simp: sink_write_def Let_def split: prod.splits if_splits)
  obtain img' where a: "session_of c (ota h) = Receiving t img'" "session_of c o' = Receiving t (img' @ d)"
    "unat (ota_offset (sink h)) + length d \<le> unat t" "ota_ok E c o'"
    using ota_if.accepted_chunk [OF ok C] v(1) by auto
  have "unat (ota_offset (sink h) + of_nat (length d)) = unat (ota_offset (sink h)) + length d"
    by (rule unat_add_of_nat [OF a(3)])
  then show ?thesis using v a m by (simp add: sink_aligned_def session_img_def h')
qed

lemma sink_write_net:
  "sink_write E d h = (rc, h') \<Longrightarrow> net h' = net h \<and> pre h' = pre h \<and> s_running h' = s_running h"
  by (auto simp: sink_write_def Let_def split: sink_mode.splits prod.splits if_splits)

interpretation ota_sink: byte_sink "sink_write E" "session_img c" "sink_aligned E c t" for E c t
  by unfold_locales
    (rule sink_write_ota, assumption+, erule sink_write_net, simp add: sink_aligned_def session_img_def)

lemma sink_write_takes:
  assumes a: "sink_aligned E c t h" and "bs \<noteq> []" "length bs \<le> 1024" "length bs \<le> session_room E h"
  shows "\<exists>h'. sink_write E bs h = (0, h') \<and> session_room E h' = session_room E h - length bs"
proof -
  obtain img where v: "session_of c (ota h) = Receiving t img" "length img = unat (ota_offset (sink h))"
    and F: "flash_laws E c" and I: "session_inv c (ota h)" and m: "mode (sink h) = SINK_OTA_CHUNK"
    using a by (auto simp: sink_aligned_def ota_ok_def)
  obtain fa where s: "upload_fa (ota h) = Some fa" "img_ready (ota h)" "t = total_size (st (ota h))"
    "unat t \<le> unat (fa_size fa)" "length img = unat (bytes_received (st (ota h)))"
    using session_inv_receiving [OF I v(1)] by metis
  have W: "flash_writes_ok E" and fit: "unat (ota_offset (sink h)) + length bs \<le> unat t"
    using assms(4) s(3) length_greater_0_conv [THEN iffD2, OF assms(2)]
    by (auto simp: session_room_def split: if_splits simp del: length_greater_0_conv)
  have off: "ota_offset (sink h) = bytes_received (st (ota h))" using v(2) s(5) by (simp add: word_unat_eq_iff)
  have st: "state (st (ota h)) = OTA_READY \<or> state (st (ota h)) = OTA_WRITING"
    using v(1) by (auto simp: session_of_def split: ota_state.splits)
  obtain w e where w: "flash_area_write E (Some fa) (ota_offset (sink h)) bs (env (ota h)) = (w, e)" by force
  have "0 \<le> w" using W fit s(4) w unfolding flash_writes_ok_def by (metis fst_conv le_trans)
  then have "fst (app_ota_chunk E (ota_offset (sink h)) (Some bs) (ota h)) = OTA_OK \<and>
      total_size (st (snd (app_ota_chunk E (ota_offset (sink h)) (Some bs) (ota h)))) = t"
    using I s st off fit w assms(2,3) by (auto simp: app_ota_chunk_def session_inv_def Let_def)
  moreover obtain rc o' where C: "app_ota_chunk E (ota_offset (sink h)) (Some bs) (ota h) = (rc, o')" by force
  ultimately have "rc = OTA_OK" "total_size (st o') = t" by simp_all
  moreover have "unat (ota_offset (sink h) + of_nat (length bs)) = unat (ota_offset (sink h)) + length bs"
    by (rule unat_add_of_nat [OF fit])
  ultimately show ?thesis using C m W s(3)
    by (auto simp: sink_write_def Let_def session_room_def)
qed

interpretation ota_willing: willing_sink "sink_write E" "session_img c" "sink_aligned E c t"
  "session_room E" for E c t
  by unfold_locales (rule sink_write_takes, assumption+, simp add: session_room_def)

text \<open>The RAM buffer.\<close>

definition buffer_ok :: "('n, 'e) http \<Rightarrow> bool" where
  "buffer_ok h \<longleftrightarrow> mode (sink h) = SINK_BUFFER \<and> length (sbuf (sink h)) \<le> buf_cap (sink h)"

lemma sink_write_ram:
  assumes "buffer_ok h"
  shows "sink_write E d h = (if buf_cap (sink h) < length (sbuf (sink h)) + length d then (- 1, h)
     else (0, h\<lparr>sink := (sink h)\<lparr>sbuf := sbuf (sink h) @ d\<rparr>\<rparr>))"
  using assms by (simp add: sink_write_def Let_def buffer_ok_def)

lemma ram_took:
  assumes "buffer_ok h" "sink_write E d h = (0, h')"
  shows "buffer_ok h' \<and> sbuf (sink h') = sbuf (sink h) @ d"
  using assms by (auto simp: sink_write_ram [OF assms(1)] buffer_ok_def split: if_splits)

lemma ram_takes:
  assumes "buffer_ok h" "length d \<le> buf_cap (sink h) - length (sbuf (sink h))"
  shows "\<exists>h'. sink_write E d h = (0, h') \<and> buf_cap (sink h') - length (sbuf (sink h')) =
    buf_cap (sink h) - length (sbuf (sink h)) - length d"
  using assms by (auto simp: sink_write_ram [OF assms(1)] buffer_ok_def)

interpretation ram_sink: willing_sink "sink_write E" "\<lambda>h. sbuf (sink h)" buffer_ok
  "\<lambda>h. buf_cap (sink h) - length (sbuf (sink h))" for E
  by unfold_locales
    (rule ram_took, assumption+, erule sink_write_net, simp add: buffer_ok_def, erule ram_takes, assumption, simp)

subsection \<open>Properties\<close>

text \<open>A socket over a list of bytes, for concrete runs.\<close>

definition demo_net :: "u8 list net_api" where
  "demo_net = \<lparr>inet_pton = (\<lambda>_. True), sock_open = (\<lambda>n. (3, n)), sock_connect = (\<lambda>u n. (0, n)),
     sock_send = (\<lambda>bs n. (int (length bs), n)), sock_recv = (\<lambda>w n. (take w n, drop w n)),
     sock_close = (\<lambda>n. n), stop_now = (\<lambda>n. (False, n))\<rparr>"

lemma demo_net_live: "live demo_net (\<lambda>n. n)"
  by (auto simp: live_def feeds_def demo_net_def)

definition demo_http :: "u8 list \<Rightarrow> u8 list ota \<Rightarrow> sink_ctx \<Rightarrow> (u8 list, u8 list) http" where
  "demo_http n o1 k = \<lparr>net = n, ota = o1, pre = [], sink = k, s_running = True, s_state = RESOLVING,
     dl_seen = 0, dl_total = 0, hdrbuf = replicate 1024 0,
     ipa = \<lparr>resume_attempted = False, resume_succeeded = False, session_restarted = False\<rparr>,
     s_image_url = str ''http://10.0.0.1/a'', s_header_url = [], s_has_header_url = False,
     s_auto_commit = True, s_ota_core_inited = True\<rparr>"

text \<open>A fixed-length body reported complete has put into the OTA session exactly the next
  \<open>total\<close> bytes of the connection, in order, however the socket fragments them, and consumed
  nothing beyond them.\<close>

theorem fixed_body_delivers:
  assumes "feeds N src" "sink_aligned E c t h" "stream_fixed_body N (sink_write E) len h = (0, h')"
  shows "session_of c (ota h') = Receiving t (session_img c h @ take (unat len) (pending src h)) \<and>
    pending src h' = drop (unat len) (pending src h) \<and> unat len \<le> length (pending src h)"
proof -
  obtain bs where b: "pending src h = bs @ pending src h'" "length bs = unat len"
    "session_img c h' = session_img c h @ bs" "sink_aligned E c t h'"
    using ota_sink.fixed_exact [OF assms] by auto
  obtain img where "session_of c (ota h') = Receiving t img"
    using b(4) by (auto simp: sink_aligned_def)
  then show ?thesis using b(2,3) by (simp add: b(1) session_img_def)
qed

definition demo_begun :: "u8 list ota" where
  "demo_begun = snd (app_ota_begin demo_flash 2 demo_started)"

lemma demo_started_ok: "ota_ok demo_flash (\<lambda>e. e) demo_started"
  using init_refines [OF ota_inv_boot, of "\<lambda>e. e" demo_flash True "[1, 2, 3, 4]"] demo_flash_laws
  by (simp add: demo_started_def ota_ok_def)

lemma demo_begun_ok: "ota_ok demo_flash (\<lambda>e. e) demo_begun"
  "session_of (\<lambda>e. e) demo_begun = Receiving 2 []"
proof -
  have B: "app_ota_begin demo_flash 2 demo_started = (OTA_OK, demo_begun)"
    by (simp add: demo_begun_def demo_defs)
  show "ota_ok demo_flash (\<lambda>e. e) demo_begun" "session_of (\<lambda>e. e) demo_begun = Receiving 2 []"
    using ota_if.beg_law [OF demo_started_ok B] by (auto simp: begin_spec_def)
qed

definition demo_body :: "u8 list \<Rightarrow> (u8 list, u8 list) http" where
  "demo_body n = demo_http n demo_begun \<lparr>mode = SINK_OTA_CHUNK, ota_offset = 0, sbuf = [], buf_cap = 0\<rparr>"

lemma demo_body_aligned: "sink_aligned demo_flash (\<lambda>e. e) 2 (demo_body n)"
  using demo_begun_ok by (simp add: sink_aligned_def demo_body_def demo_http_def)

lemma fixed_body_delivers_witness:
  "session_of (\<lambda>e. e) (ota (snd (stream_fixed_body demo_net (sink_write demo_flash) 2 (demo_body [7, 8, 9]))))
     = Receiving 2 [7, 8]"
proof -
  have "fst (stream_fixed_body demo_net (sink_write demo_flash) 2 (demo_body [7, 8, 9])) = 0"
    by (simp add: stream_fixed_body_def fixed_body_loop.simps poll_running_def bs_read_some_def demo_net_def
        demo_body_def demo_http_def sink_write_def demo_begun_def demo_defs)
  then obtain h where R: "stream_fixed_body demo_net (sink_write demo_flash) 2 (demo_body [7, 8, 9]) = (0, h)"
    by (metis prod.collapse)
  have i: "session_img (\<lambda>e. e) (demo_body [7, 8, 9]) = []" "pending (\<lambda>n. n) (demo_body [7, 8, 9]) = [7, 8, 9]"
    using demo_begun_ok(2) by (simp_all add: session_img_def demo_body_def demo_http_def pending_def)
  have "take (unat (2 :: u32)) [7, 8, 9 :: u8] = [7, 8]" by simp
  then have "session_of (\<lambda>e. e) (ota h) = Receiving 2 [7, 8]"
    using fixed_body_delivers [OF live_feeds [OF demo_net_live] demo_body_aligned R] unfolding i by (simp only: append_Nil)
  then show ?thesis using R by simp
qed

text \<open>C24: a chunked body, whatever its chunk sizes, extensions and trailers and however the
  socket fragments it, is decoded into the RAM buffer to the concatenation of its chunks when
  that fits, and the connection is left right after the body.\<close>

theorem chunked_body_decoded:
  assumes "live N src" "buffer_ok h" "s_running h"
    and "pending src h = enc_chunks cs @ l0 @ [13, 10] @ enc_lines ts @ [13, 10] @ r"
    and "\<forall>c \<in> set cs. chunk_ok c" "line_ok l0" "fst (strtoul 16 l0) = 0" "snd (strtoul 16 l0) \<noteq> l0"
    and "\<forall>t \<in> set ts. line_ok t \<and> t \<noteq> [] \<and> hd t \<noteq> 0"
    and "length (sbuf (sink h)) + length (concat (map snd cs)) \<le> buf_cap (sink h)"
  shows "\<exists>h'. stream_chunked_body N (sink_write E) h = Some (0, h') \<and>
    sbuf (sink h') = sbuf (sink h) @ concat (map snd cs) \<and> pending src h' = r"
proof -
  have "length (concat (map snd cs)) \<le> buf_cap (sink h) - length (sbuf (sink h))"
    using assms(10) by simp
  from ram_sink.chunked_ok [OF assms(1-9) this, of E] show ?thesis by auto
qed

definition demo_ram :: "u8 list \<Rightarrow> (u8 list, u8 list) http" where
  "demo_ram n = demo_http n demo_begun \<lparr>mode = SINK_BUFFER, ota_offset = 0, sbuf = [], buf_cap = 512\<rparr>"

lemma chunked_body_decoded_witness:
  "\<exists>h'. stream_chunked_body demo_net (sink_write demo_flash)
        (demo_ram (str ''1;x'' @ [13, 10, 65, 13, 10] @ str ''0'' @ [13, 10, 13, 10, 66])) = Some (0, h') \<and>
      sbuf (sink h') = [65]"
proof -
  let ?h = "demo_ram (str ''1;x'' @ [13, 10, 65, 13, 10] @ str ''0'' @ [13, 10, 13, 10, 66])"
  have "buffer_ok ?h" "s_running ?h"
    by (simp_all add: buffer_ok_def demo_ram_def demo_http_def)
  moreover have "pending (\<lambda>n. n) ?h = enc_chunks [(str ''1;x'', [65])] @ str ''0'' @ [13, 10] @ enc_lines [] @ [13, 10] @ [66]"
    by (simp add: pending_def enc_chunks_def enc_lines_def demo_ram_def demo_http_def)
  moreover have "\<forall>c \<in> set [(str ''1;x'', [65 :: u8])]. chunk_ok c" "line_ok (str ''0'')"
    "fst (strtoul 16 (str ''0'')) = 0" "snd (strtoul 16 (str ''0'')) \<noteq> str ''0''"
    by (simp_all add: chunk_ok_def line_ok_def strtoul_def scan_number_def value_of_def digit_val_def
        is_space_def c8_def)
  ultimately show ?thesis
    using chunked_body_decoded [OF demo_net_live, of ?h "[(str ''1;x'', [65])]" "str ''0''" "[]" "[66]"]
    by (fastforce simp: demo_ram_def demo_http_def)
qed

end
