(* ===== verification/HttpOta.thy ===== *)
theory HttpOta
  imports HttpTransfer
begin

text \<open>
  The download task of \<open>app/ota/app_ota_http.c\<close>: one request (address, connection, request text,
  response head, body), the redirect loop, the hook that opens or resumes the OTA session, the
  task itself and its start, stop and shell commands.  A result \<open>None\<close> is a run that never
  returns or that reads past the header buffer; every other ending is a value.
\<close>

subsection \<open>One request\<close>

definition crlf :: cstr where
  "crlf = [13, 10]"

definition resolve_host :: "'n net_api \<Rightarrow> cstr \<Rightarrow> int" where
  "resolve_host N h = (if inet_pton N h then 0 else - 1)"

function send_all :: "'n net_api \<Rightarrow> u8 list \<Rightarrow> 'n \<Rightarrow> int \<times> 'n" where
  "send_all N buf n =
     (if buf = [] then (0, n)
      else case sock_send N buf n of (k, n) \<Rightarrow>
        if k \<le> 0 then (- 1, n) else send_all N (drop (nat k) buf) n)"
  by pat_completeness auto

termination send_all
  by (relation "measure (\<lambda>(N, buf, n). length buf)") auto

declare send_all.simps [simp del]

definition request_text :: "url_parts \<Rightarrow> u32 \<Rightarrow> cstr" where
  "request_text u range_from =
     str ''GET '' @ path u @ str '' HTTP/1.1'' @ crlf @
     str ''Host: '' @ host u @ crlf @
     str ''User-Agent: zcube/1'' @ crlf @
     str ''Connection: close'' @ crlf @
     str ''Accept: */*'' @ crlf @
     (if 0 < range_from then str ''Range: bytes='' @ dec (unat range_from) @ str ''-'' @ crlf else []) @
     crlf"

text \<open>\<open>snprintf\<close> into the 1024-byte header buffer.\<close>

definition print_hdrbuf :: "cstr \<Rightarrow> u8 list \<Rightarrow> u8 list" where
  "print_hdrbuf t buf = blit 0 (take 1023 t @ [0]) buf"

text \<open>The loop that reads the response head: a negative number is the failure code, a positive
  one the size of the head.\<close>

function recv_head ::
  "'n net_api \<Rightarrow> nat \<Rightarrow> http_response \<Rightarrow> ('n, 'e) http \<Rightarrow> (int \<times> nat \<times> http_response \<times> ('n, 'e) http) option" where
  "recv_head N filled rsp h =
     (if 1024 \<le> filled then Some (- 7, filled, rsp, h)
      else case sock_recv N (1024 - filled) (net h) of (bs, n) \<Rightarrow>
        let bs = take (1024 - filled) bs; h = h\<lparr>net := n\<rparr> in
        if bs = [] then Some (- 8, filled, rsp, h)
        else
          let h = h\<lparr>hdrbuf := blit filled bs (hdrbuf h)\<rparr> in
          (case parse_response_headers (hdrbuf h) (filled + length bs) rsp of
             None \<Rightarrow> None
           | Some (parsed, rsp) \<Rightarrow>
               if parsed < - 1 then Some (- 9, filled + length bs, rsp, h)
               else if parsed = - 1 then recv_head N (filled + length bs) rsp h
               else Some (parsed, filled + length bs, rsp, h)))"
  by pat_completeness auto

termination recv_head
  by (relation "measure (\<lambda>(N, filled, rsp, h). 1024 - filled)") (auto simp: diff_less_mono2)

declare recv_head.simps [simp del]

type_synonym ('n, 'e) pre_cb = "http_response \<Rightarrow> u32 \<Rightarrow> ('n, 'e) http \<Rightarrow> int \<times> ('n, 'e) http"

text \<open>What follows the head: redirect, hook, body.  \<open>filled\<close> bytes of the buffer are received,
  \<open>parsed\<close> of them are the head.\<close>

definition serve_body ::
  "'n net_api \<Rightarrow> 'e flash_api \<Rightarrow> http_response \<Rightarrow> ('n, 'e) http \<Rightarrow> (int \<times> ('n, 'e) http) option" where
  "serve_body N E rsp h =
     (if is_chunked rsp then
        Option.bind (stream_chunked_body N (sink_write E) h) (\<lambda>(rc, h).
          Some (if rc \<noteq> 0 then - 14 else 0, h))
      else
        let len = (if status rsp = 206 \<and> has_content_range rsp
                   then Some (range_end rsp + 1 - range_start rsp)
                   else if (status rsp = 200 \<or> status rsp = 201) \<and> has_content_length rsp
                   then Some (content_length rsp) else None)
        in (case len of
              None \<Rightarrow> Some (- 12, h)
            | Some body_total \<Rightarrow>
                if body_total = 0 then Some (- 13, h)
                else (case stream_fixed_body N (sink_write E) body_total h of (rc, h) \<Rightarrow>
                  Some (if rc \<noteq> 0 then - 15 else 0, h))))"

definition serve_response ::
  "'n net_api \<Rightarrow> 'e flash_api \<Rightarrow> ('n, 'e) pre_cb option \<Rightarrow> u32 \<Rightarrow> nat \<Rightarrow> nat \<Rightarrow> http_response \<Rightarrow> ('n, 'e) http
    \<Rightarrow> (int \<times> ('n, 'e) http) option" where
  "serve_response N E pre_cb range_from parsed filled rsp h =
     (if is_redirect (status rsp) then Some (if has_location rsp then 1 else - 10, h)
      else case (case pre_cb of None \<Rightarrow> (0, h) | Some cb \<Rightarrow> cb rsp range_from h) of (prc, h) \<Rightarrow>
        if prc \<noteq> 0 then Some (- 11, h)
        else serve_body N E rsp
          (h\<lparr>s_state := (if mode (sink h) = SINK_OTA_CHUNK then DOWNLOADING else HEADER_DL),
             pre := take (filled - parsed) (drop parsed (hdrbuf h))\<rparr>))"

definition close_sock :: "'n net_api \<Rightarrow> ('n, 'e) http \<Rightarrow> ('n, 'e) http" where
  "close_sock N h = h\<lparr>net := sock_close N (net h)\<rparr>"

definition http_request_once ::
  "'n net_api \<Rightarrow> 'e flash_api \<Rightarrow> ('n, 'e) pre_cb option \<Rightarrow> u32 \<Rightarrow> cstr \<Rightarrow> ('n, 'e) http
    \<Rightarrow> (int \<times> http_response \<times> ('n, 'e) http) option" where
  "http_request_once N E pre_cb range_from url h =
     (let h = h\<lparr>s_state := RESOLVING\<rparr> in
      case parse_url (Some url) of Inl _ \<Rightarrow> Some (- 1, zero_response, h)
      | Inr u \<Rightarrow>
        if resolve_host N (host u) \<noteq> 0 then Some (- 2, zero_response, h)
        else case sock_open N (net h) of (sock, n) \<Rightarrow>
          let h = h\<lparr>s_state := CONNECTING, net := n\<rparr> in
          if sock < 0 then Some (- 3, zero_response, h)
          else case sock_connect N u (net h) of (cn, n) \<Rightarrow>
            let h = h\<lparr>net := n\<rparr> in
            if cn \<noteq> 0 then Some (- 4, zero_response, close_sock N h)
            else
              let t = request_text u range_from;
                  h = h\<lparr>s_state := REQUESTING, hdrbuf := print_hdrbuf t (hdrbuf h)\<rparr>
              in if 1024 \<le> length t then Some (- 5, zero_response, close_sock N h)
              else case send_all N t (net h) of (sn, n) \<Rightarrow>
                let h = h\<lparr>net := n\<rparr> in
                if sn \<noteq> 0 then Some (- 6, zero_response, close_sock N h)
                else Option.bind (recv_head N 0 zero_response h) (\<lambda>(parsed, filled, rsp, h).
                  if parsed < 0 then Some (parsed, rsp, close_sock N h)
                  else Option.bind (serve_response N E pre_cb range_from (nat parsed) filled rsp h)
                    (\<lambda>(rc, h). Some (rc, rsp, close_sock N h))))"

subsection \<open>Redirects\<close>

function http_hops ::
  "'n net_api \<Rightarrow> 'e flash_api \<Rightarrow> ('n, 'e) pre_cb option \<Rightarrow> u32 \<Rightarrow> nat \<Rightarrow> cstr \<Rightarrow> ('n, 'e) http
    \<Rightarrow> (int \<times> ('n, 'e) http) option" where
  "http_hops N E pre_cb range_from hop url h =
     (if 2 < hop then Some (- 102, h)
      else case http_request_once N E pre_cb range_from url h of
        None \<Rightarrow> None
      | Some (rc, rsp, h) \<Rightarrow>
          if rc = 0 then Some (0, h)
          else if rc \<noteq> 1 then Some (rc, h)
          else if hop = 2 then Some (- 1, h)
          else if 240 < length (location rsp) then Some (- 101, h)
          else http_hops N E pre_cb range_from (hop + 1) (location rsp) h)"
  by pat_completeness auto

termination http_hops
  by (relation "measure (\<lambda>(N, E, pre_cb, range_from, hop, url, h). 3 - hop)") auto

declare http_hops.simps [simp del]

definition http_request ::
  "'n net_api \<Rightarrow> 'e flash_api \<Rightarrow> ('n, 'e) pre_cb option \<Rightarrow> u32 \<Rightarrow> cstr \<Rightarrow> ('n, 'e) http
    \<Rightarrow> (int \<times> ('n, 'e) http) option" where
  "http_request N E pre_cb range_from url h =
     (if 240 < length url then Some (- 1, h) else http_hops N E pre_cb range_from 0 url h)"

subsection \<open>The hook of the image download\<close>

definition set_offset :: "u32 \<Rightarrow> ('n, 'e) http \<Rightarrow> ('n, 'e) http" where
  "set_offset k h = h\<lparr>sink := (sink h)\<lparr>ota_offset := k\<rparr>\<rparr>"

definition image_pre_stream :: "'e flash_api \<Rightarrow> ('n, 'e) pre_cb" where
  "image_pre_stream E rsp requested h =
     (if is_chunked rsp then (- 10, h)
      else if requested = 0 then
        if status rsp \<noteq> 200 \<or> \<not> has_content_length rsp then (- 1, h)
        else (case app_ota_begin E (content_length rsp) (ota h) of (rc, o') \<Rightarrow>
          let h = h\<lparr>ota := o'\<rparr> in
          if rc \<noteq> OTA_OK then (- 2, h) else (0, set_offset 0 h))
      else
        let h = h\<lparr>ipa := (ipa h)\<lparr>resume_attempted := True\<rparr>\<rparr> in
        if status rsp = 206 \<and> has_content_range rsp \<and> range_start rsp = requested then
          (0, set_offset (range_start rsp) (h\<lparr>ipa := (ipa h)\<lparr>resume_succeeded := True\<rparr>\<rparr>))
        else if status rsp = 200 \<and> has_content_length rsp then
          (case app_ota_begin E (content_length rsp) (app_ota_abort E (ota h)) of (rc, o') \<Rightarrow>
            let h = h\<lparr>ota := o'\<rparr> in
            if rc \<noteq> OTA_OK then (- 3, h)
            else (0, set_offset 0 (h\<lparr>ipa := (ipa h)\<lparr>session_restarted := True\<rparr>\<rparr>)))
        else (- 4, h))"

subsection \<open>The task\<close>

definition task_fail :: "'e flash_api \<Rightarrow> ('n, 'e) http \<Rightarrow> ('n, 'e) http" where
  "task_fail E h = h\<lparr>ota := app_ota_abort E (ota h), s_state := FAILED, s_running := False\<rparr>"

definition task_commit :: "'e flash_api \<Rightarrow> ('n, 'e) http \<Rightarrow> ('n, 'e) http" where
  "task_commit E h =
     (if s_auto_commit h then
        (case app_ota_commit E (ota h) of (rc, o') \<Rightarrow>
          let h = h\<lparr>s_state := COMMITTING, ota := o'\<rparr> in
          if rc \<noteq> OTA_OK then task_fail E h
          else h\<lparr>s_state := DONE, s_running := False, ota := app_ota_reboot_after_ms 800 (ota h)\<rparr>)
      else h\<lparr>s_state := DONE, s_running := False\<rparr>)"

definition resume_point :: "'e ota \<Rightarrow> u32" where
  "resume_point s = (let t = app_ota_get_status s in
     if state t = OTA_WRITING \<and> 0 < bytes_received t then bytes_received t else 0)"

definition http_task :: "'n net_api \<Rightarrow> 'e flash_api \<Rightarrow> ('n, 'e) http \<Rightarrow> ('n, 'e) http option" where
  "http_task N E h =
     (let resume_from = resume_point (ota h);
          h = h\<lparr>sink := \<lparr>mode = SINK_OTA_CHUNK, ota_offset = resume_from, sbuf = [], buf_cap = 0\<rparr>,
                ipa := \<lparr>resume_attempted = False, resume_succeeded = False, session_restarted = False\<rparr>\<rparr>
      in Option.bind (http_request N E (Some (image_pre_stream E)) resume_from (s_image_url h) h)
        (\<lambda>(img_rc, h).
          if img_rc \<noteq> 0 then Some (task_fail E h)
          else if s_has_header_url h then
            Option.bind (http_request N E None 0 (s_header_url h)
                (h\<lparr>sink := \<lparr>mode = SINK_BUFFER, ota_offset = 0, sbuf = [], buf_cap = 512\<rparr>,
                   s_state := HEADER_DL\<rparr>))
              (\<lambda>(rc, h). Some (if rc \<noteq> 0 then task_fail E h else task_commit E h))
          else Some (task_commit E h)))"

subsection \<open>Start, stop and the shell\<close>

record http_opts =
  image_url :: "cstr option"
  header_url :: "cstr option"
  auto_commit :: bool

text \<open>\<open>created\<close>: the kernel gives a thread.  The diagnostics thread only logs.\<close>

definition start_core :: "'e flash_api \<Rightarrow> ('n, 'e) http \<Rightarrow> ota_err \<times> ('n, 'e) http" where
  "start_core E h =
     (if s_ota_core_inited h then (OTA_OK, h)
      else case app_ota_init E False (ota h) of (rc, o') \<Rightarrow>
        let h = h\<lparr>ota := o'\<rparr> in
        if rc \<noteq> OTA_OK then (rc, h) else (OTA_OK, h\<lparr>s_ota_core_inited := True\<rparr>))"

definition start_urls :: "cstr \<Rightarrow> cstr option \<Rightarrow> ('n, 'e) http \<Rightarrow> int \<times> ('n, 'e) http" where
  "start_urls img_url hdr_url h =
     (case parse_url (Some img_url) of Inl _ \<Rightarrow> (- 3, h) | Inr _ \<Rightarrow>
        if 240 < length img_url then (- 4, h)
        else let h = h\<lparr>s_image_url := img_url\<rparr> in
          (case hdr_url of
             None \<Rightarrow> (0, h\<lparr>s_has_header_url := False, s_header_url := []\<rparr>)
           | Some hu \<Rightarrow>
               if hu = [] then (0, h\<lparr>s_has_header_url := False, s_header_url := []\<rparr>)
               else (case parse_url (Some hu) of Inl _ \<Rightarrow> (- 5, h) | Inr _ \<Rightarrow>
                 if 240 < length hu then (- 6, h)
                 else (0, h\<lparr>s_header_url := hu, s_has_header_url := True\<rparr>))))"

definition app_ota_http_start ::
  "'e flash_api \<Rightarrow> bool \<Rightarrow> http_opts option \<Rightarrow> ('n, 'e) http \<Rightarrow> int \<times> ('n, 'e) http" where
  "app_ota_http_start E created opts h = (case opts of None \<Rightarrow> (- 1, h) | Some op \<Rightarrow>
     case image_url op of None \<Rightarrow> (- 1, h) | Some img_url \<Rightarrow>
       if s_running h then (- 2, h)
       else case start_core E h of (irc, h) \<Rightarrow>
         if irc \<noteq> OTA_OK then (- 10, h)
         else case start_urls img_url (header_url op) h of (rc, h) \<Rightarrow>
           if rc \<noteq> 0 then (rc, h)
           else let h = h\<lparr>s_auto_commit := auto_commit op, s_running := True, s_state := RESOLVING\<rparr> in
             if \<not> created then (- 7, h\<lparr>s_running := False, s_state := FAILED\<rparr>) else (0, h))"

definition app_ota_http_stop :: "('n, 'e) http \<Rightarrow> ('n, 'e) http" where
  "app_ota_http_stop h = h\<lparr>s_running := False\<rparr>"

definition app_ota_http_is_running :: "('n, 'e) http \<Rightarrow> bool" where
  "app_ota_http_is_running h = s_running h"

definition app_ota_http_get_state :: "('n, 'e) http \<Rightarrow> http_state" where
  "app_ota_http_get_state h = s_state h"

text \<open>\<open>ota start <image_url> [<header_url>] [--commit]\<close>.\<close>

fun start_args :: "cstr list \<Rightarrow> http_opts \<Rightarrow> http_opts" where
  "start_args [] op = op"
| "start_args (a # as) op = start_args as
     (if a = str ''--commit'' then op\<lparr>auto_commit := True\<rparr> else op\<lparr>header_url := Some a\<rparr>)"

definition cmd_ota_start :: "'e flash_api \<Rightarrow> bool \<Rightarrow> cstr list \<Rightarrow> ('n, 'e) http \<Rightarrow> int \<times> ('n, 'e) http" where
  "cmd_ota_start E created argv h =
     (if length argv < 2 then (- EINVAL, h)
      else if app_ota_http_is_running h then (- EBUSY, h)
      else app_ota_http_start E created
        (Some (start_args (drop 2 argv) \<lparr>image_url = Some (argv ! 1), header_url = None, auto_commit = False\<rparr>)) h)"

definition cmd_ota_stop :: "('n, 'e) http \<Rightarrow> int \<times> ('n, 'e) http" where
  "cmd_ota_stop h = (0, app_ota_http_stop h)"

end
