(* ===== verification/HttpTask.thy ===== *)
theory HttpTask
  imports HttpOta
begin

text \<open>
  What a run of the download task leaves behind.  Locale \<open>http_inv\<close>: a predicate that depends
  on the OTA state and the configuration only, and that the OTA operations the task calls keep,
  is kept by the whole request.  It is interpreted for the OTA invariant; the endings of the
  task and the complete download follow.
\<close>

subsection \<open>What every request keeps\<close>

definition cfg :: "('n, 'e) http \<Rightarrow> cstr \<times> cstr \<times> bool \<times> bool \<times> bool" where
  "cfg h = (s_image_url h, s_header_url h, s_has_header_url h, s_auto_commit h, s_ota_core_inited h)"

lemma cfg_update [simp]:
  "cfg (h\<lparr>net := a\<rparr>) = cfg h" "cfg (h\<lparr>ota := b\<rparr>) = cfg h" "cfg (h\<lparr>pre := c\<rparr>) = cfg h"
  "cfg (h\<lparr>sink := d\<rparr>) = cfg h" "cfg (h\<lparr>s_running := e\<rparr>) = cfg h" "cfg (h\<lparr>s_state := f\<rparr>) = cfg h"
  "cfg (h\<lparr>dl_seen := g\<rparr>) = cfg h" "cfg (h\<lparr>dl_total := i\<rparr>) = cfg h" "cfg (h\<lparr>hdrbuf := j\<rparr>) = cfg h"
  "cfg (h\<lparr>ipa := k\<rparr>) = cfg h"
  by (simp_all add: cfg_def)

text \<open>\<open>quiet h h'\<close>: neither the OTA front-end nor the configuration was touched.\<close>

definition quiet :: "('n, 'e) http \<Rightarrow> ('n, 'e) http \<Rightarrow> bool" where
  "quiet h h' \<longleftrightarrow> ota h' = ota h \<and> cfg h' = cfg h"

lemma quiet_refl [simp]: "quiet h h"
  by (simp add: quiet_def)

lemma quiet_trans [trans]: "quiet a b \<Longrightarrow> quiet b c \<Longrightarrow> quiet a c"
  by (simp add: quiet_def)

lemma quiet_poll: "poll_running N h = (b, h') \<Longrightarrow> quiet h h'"
  by (auto simp: poll_running_def quiet_def split: if_splits prod.splits)

lemma quiet_read: "bs_read_some N w h = (r, h') \<Longrightarrow> quiet h h'"
  by (auto simp: bs_read_some_def quiet_def split: if_splits prod.splits)

lemma quiet_exact: "bs_read_exact N w acc h = (rc, bs, h') \<Longrightarrow> quiet h h'"
proof (induction N w acc h rule: bs_read_exact.induct)
  case (1 N want acc h)
  obtain b h1 where p: "poll_running N h = (b, h1)" by force
  obtain r h2 where q: "bs_read_some N want h1 = (r, h2)" by force
  have "quiet h h2" using quiet_trans [OF quiet_poll [OF p] quiet_read [OF q]] .
  then show ?case
    using "1.prems" p q quiet_poll [OF p] "1.IH" [OF _ p [symmetric]]
    by (subst (asm) bs_read_exact.simps)
       (auto split: if_splits option.splits intro: quiet_trans)
qed

lemma quiet_step:
  "poll_running N h = (b, h1) \<Longrightarrow> bs_read_some N w h1 = (r, h2) \<Longrightarrow> quiet h h2"
  by (rule quiet_trans [OF quiet_poll quiet_read])

lemma quiet_drain:
  assumes "drain_line N cr h = Some y"
  shows "quiet h (snd (snd y))"
proof (rule drain_line.raw_induct [of "\<lambda>N cr h y. quiet h (snd (snd y))", OF _ assms], goal_cases)
  case (1 f N cr h y)
  obtain b h1 where p: "poll_running N h = (b, h1)" by force
  obtain r h2 where q: "bs_read_some N 1 h1 = (r, h2)" by force
  show ?case
    using 1(2) p q quiet_poll [OF p] quiet_step [OF p q] quiet_trans [OF quiet_step [OF p q] 1(1)]
    by (auto split: if_splits option.splits)
qed

lemma quiet_line_loop:
  assumes "read_line_loop N cap acc cr h = Some y"
  shows "quiet h (snd (snd y))"
proof (rule read_line_loop.raw_induct [of "\<lambda>N cap acc cr h y. quiet h (snd (snd y))", OF _ assms], goal_cases)
  case (1 f N cap acc cr h y)
  obtain b h1 where p: "poll_running N h = (b, h1)" by force
  obtain r h2 where q: "bs_read_some N 1 h1 = (r, h2)" by force
  show ?case
    using 1(2) p q quiet_poll [OF p] quiet_step [OF p q] quiet_trans [OF quiet_step [OF p q] 1(1)]
      quiet_trans [OF quiet_step [OF p q] quiet_drain]
    by (auto split: if_splits option.splits)
qed

lemma quiet_line: "bs_read_line N cap h = Some (rc, l, h') \<Longrightarrow> quiet h h'"
  using quiet_line_loop unfolding bs_read_line_def by fastforce

lemma quiet_trailer:
  assumes "trailer_loop N h = Some y"
  shows "quiet h (snd y)"
proof (rule trailer_loop.raw_induct [of "\<lambda>N h y. quiet h (snd y)", OF _ assms], goal_cases)
  case (1 f N h y)
  then obtain rc l h1 where l: "bs_read_line N 40 h = Some (rc, l, h1)"
    by (cases "bs_read_line N 40 h") auto
  show ?case
    using 1(2) l quiet_line [OF l] quiet_trans [OF quiet_line [OF l] 1(1)]
    by (auto split: if_splits)
qed

lemma quiet_recv_head:
  "recv_head N filled rsp h = Some (rc, k, rsp', h') \<Longrightarrow> quiet h h'"
proof (induction N filled rsp h rule: recv_head.induct)
  case (1 N filled rsp h)
  obtain bs n where r: "sock_recv N (1024 - filled) (net h) = (bs, n)" by force
  note IH = "1.IH" [OF _ r [symmetric] refl refl _ refl]
  show ?case
    using "1.prems" r IH
    by (subst (asm) recv_head.simps)
       (fastforce simp: Let_def quiet_def split: option.splits if_splits)
qed

locale http_inv =
  fixes E :: "'e flash_api"
    and P :: "('n, 'e) http \<Rightarrow> bool"
  assumes quietly: "P h \<Longrightarrow> quiet h h' \<Longrightarrow> P h'"
    and by_chunk: "P h \<Longrightarrow> app_ota_chunk E off (Some d) (ota h) = (rc, o') \<Longrightarrow> P (h\<lparr>ota := o'\<rparr>)"
    and by_begin: "P h \<Longrightarrow> app_ota_begin E n (ota h) = (rc, o') \<Longrightarrow> P (h\<lparr>ota := o'\<rparr>)"
    and by_abort: "P h \<Longrightarrow> P (h\<lparr>ota := app_ota_abort E (ota h)\<rparr>)"
begin

lemma by_sink: "P h \<Longrightarrow> sink_write E d h = (rc, h') \<Longrightarrow> P h'"
  using by_chunk [of h "ota_offset (sink h)" d]
  by (auto simp: sink_write_def Let_def quiet_def split: sink_mode.splits prod.splits if_splits
      elim!: quietly)

lemma by_fixed_loop:
  "P h \<Longrightarrow> fixed_body_loop N (sink_write E) n seen h = (rc, h') \<Longrightarrow> P h'"
proof (induction N "sink_write E :: u8 list \<Rightarrow> ('n, 'e) http \<Rightarrow> int \<times> ('n, 'e) http" n seen h rule: fixed_body_loop.induct)
  case (1 N n seen h)
  obtain b h1 where p: "poll_running N h = (b, h1)" by force
  obtain r h2 where q: "bs_read_some N (min (n - seen) 1024) h1 = (r, h2)" by force
  have k: "P h1" "P h2" using quietly "1.prems"(1) quiet_poll [OF p] quiet_step [OF p q] by auto
  have w: "P h3" "P (h3\<lparr>dl_seen := m\<rparr>)" if "sink_write E bs h2 = (rc, h3)" for bs rc h3 m
    using by_sink [OF k(2) that] by (auto elim: quietly simp: quiet_def)
  show ?case
    using "1.prems" p q k w "1.hyps" [OF _ p [symmetric]]
    by (subst (asm) fixed_body_loop.simps) (auto split: if_splits option.splits prod.splits)
qed

lemma by_fixed: "P h \<Longrightarrow> stream_fixed_body N (sink_write E) n h = (rc, h') \<Longrightarrow> P h'"
  unfolding stream_fixed_body_def
  by (erule by_fixed_loop [rotated]) (erule quietly, simp add: quiet_def)

lemma by_chunk_data: "P h \<Longrightarrow> chunk_data_loop N (sink_write E) n h = (rc, h') \<Longrightarrow> P h'"
proof (induction N "sink_write E :: u8 list \<Rightarrow> ('n, 'e) http \<Rightarrow> int \<times> ('n, 'e) http" n h rule: chunk_data_loop.induct)
  case (1 N n h)
  obtain b h1 where p: "poll_running N h = (b, h1)" by force
  obtain r h2 where q: "bs_read_some N (min n 1024) h1 = (r, h2)" by force
  have k: "P h1" "P h2" using quietly "1.prems"(1) quiet_poll [OF p] quiet_step [OF p q] by auto
  show ?case
    using "1.prems" p q k by_sink [OF k(2)] "1.hyps" [OF _ p [symmetric]]
    by (subst (asm) chunk_data_loop.simps) (auto split: if_splits option.splits prod.splits)
qed

lemma by_chunked:
  assumes "P h" "stream_chunked_body N (sink_write E) h = Some y"
  shows "P (snd y)"
proof -
  have "P h \<longrightarrow> P (snd y)"
  proof (rule stream_chunked_body.raw_induct
      [of "\<lambda>N wr h y. wr = sink_write E \<longrightarrow> P h \<longrightarrow> P (snd y)", OF _ assms(2), THEN mp [OF _ refl]], goal_cases)
    case (1 f N wr h y)
    show ?case
    proof (intro impI)
      assume wr: "wr = sink_write E" and h: "P h"
      obtain b h1 where p: "poll_running N h = (b, h1)" by force
      have h1: "P h1" by (rule quietly [OF h quiet_poll [OF p]])
      show "P (snd y)"
      proof (cases b)
        case False
        then show ?thesis using 1(2) p h1 by auto
      next
        case True
        then obtain rc l h2 where l: "bs_read_line N 40 h1 = Some (rc, l, h2)"
          using 1(2) p by (cases "bs_read_line N 40 h1") auto
        have h2: "P h2" by (rule quietly [OF h1 quiet_line [OF l]])
        obtain sz rest where z: "strtoul 16 l = (sz, rest)" by force
        obtain rc3 h3 where d: "chunk_data_loop N wr (unat sz) h2 = (rc3, h3)" by force
        have h3: "P h3" using by_chunk_data [OF h2] d wr by simp
        obtain rc4 e h4 where x: "bs_read_exact N 2 [] h3 = (rc4, e, h4)" by (metis prod_cases3)
        have h4: "P h4" by (rule quietly [OF h3 quiet_exact [OF x]])
        have t: "P (snd y)" if "trailer_loop N h2 = Some y"
          by (rule quietly [OF h2 quiet_trailer [OF that]])
        have r: "P (snd y)" if "f N wr h4 = Some y" using 1(1) [of N wr h4 y] that wr h4 by simp
        obtain yr yh where y: "y = (yr, yh)" by force
        show ?thesis
          using 1(2) p True l z d x h2 h3 h4 t r unfolding y by (auto split: if_splits)
      qed
    qed
  qed
  then show ?thesis using assms(1) by simp
qed

lemma by_body: "P h \<Longrightarrow> serve_body N E rsp h = Some (rc, h') \<Longrightarrow> P h'"
  using by_chunked [of h N] by_fixed [of h N]
  by (cases "stream_chunked_body N (sink_write E) h")
     (auto simp: serve_body_def Let_def split: if_splits option.splits prod.splits)

lemma by_image_pre: "P h \<Longrightarrow> image_pre_stream E rsp n h = (rc, h') \<Longrightarrow> P h'"
proof -
  assume h: "P h" and r: "image_pre_stream E rsp n h = (rc, h')"
  have q: "P h1 \<Longrightarrow> P (h1\<lparr>ipa := x\<rparr>)" "P h1 \<Longrightarrow> P (set_offset k h1)" for h1 x k
    by (auto elim!: quietly simp: quiet_def set_offset_def)
  obtain c1 o1 where b1: "app_ota_begin E (content_length rsp) (ota h) = (c1, o1)" by force
  obtain c2 o2 where b2: "app_ota_begin E (content_length rsp) (app_ota_abort E (ota h)) = (c2, o2)" by force
  have "P (h\<lparr>ota := app_ota_abort E (ota h), ota := o2\<rparr>)"
    by (rule by_begin [OF by_abort [OF h]]) (use b2 in simp)
  then have k: "P (h\<lparr>ota := o1\<rparr>)" "P (h\<lparr>ota := o2\<rparr>)" using by_begin [OF h b1] by simp_all
  have e: "h\<lparr>ipa := x, ota := o2\<rparr> = h\<lparr>ota := o2, ipa := x\<rparr>" for x by simp
  have k2: "P (h\<lparr>ipa := x, ota := o2\<rparr>)" for x unfolding e by (rule q(1) [OF k(2)])
  show "P h'"
    using r b1 b2 h k k2 q(1) [OF k(2)] q(1) [OF h] q(2)
    by (auto simp: image_pre_stream_def Let_def simp del: set_offset_def split: if_splits)
qed

lemma by_response:
  assumes "P h" "serve_response N E pre_cb n parsed filled rsp h = Some (rc, h')"
    and "pre_cb = None \<or> pre_cb = Some (image_pre_stream E)"
  shows "P h'"
proof -
  have q: "P h1 \<Longrightarrow> P (h1\<lparr>s_state := x, pre := y\<rparr>)" for h1 x y
    by (auto elim!: quietly simp: quiet_def)
  obtain prc h1 where c: "(case pre_cb of None \<Rightarrow> (0, h) | Some cb \<Rightarrow> cb rsp n h) = (prc, h1)" by force
  have h1: "P h1" using c assms(1,3) by_image_pre [OF assms(1)] by auto
  show ?thesis
    using assms(1,2) c h1 by_body [OF q [OF h1]]
    by (auto simp: serve_response_def split: if_splits)
qed

lemma by_once:
  assumes "P h" "http_request_once N E pre_cb n url h = Some (rc, rsp, h')"
    and "pre_cb = None \<or> pre_cb = Some (image_pre_stream E)"
  shows "P h'"
proof -
  have q: "P h1 \<Longrightarrow> P h'" if "quiet h1 h'" for h1 using quietly that by blast
  have c: "quiet h1 (close_sock N h1)" for h1 :: "('n, 'e) http" by (simp add: quiet_def close_sock_def)
  show ?thesis
  proof (cases "parse_url (Some url)")
    case (Inl e)
    then show ?thesis using assms(1,2) q [of h] by (auto simp: http_request_once_def quiet_def)
  next
    case (Inr u)
    obtain s n1 where o1: "sock_open N (net h) = (s, n1)" by force
    obtain cn n2 where o2: "sock_connect N u n1 = (cn, n2)" by force
    let ?t = "request_text u n"
    obtain sn n3 where o3: "send_all N ?t n2 = (sn, n3)" by force
    let ?h = "h\<lparr>s_state := REQUESTING, hdrbuf := print_hdrbuf ?t (hdrbuf h), net := n3\<rparr>"
    show ?thesis
    proof (cases "resolve_host N (host u) = 0 \<and> 0 \<le> s \<and> cn = 0 \<and> length ?t < 1024 \<and> sn = 0")
      case False
      then have "quiet h h'"
        using assms(2) Inr o1 o2 o3
        by (auto simp: http_request_once_def quiet_def close_sock_def Let_def split: if_splits)
      then show ?thesis using q [of h] assms(1) by simp
    next
      case True
      then have r: "Option.bind (recv_head N 0 zero_response ?h) (\<lambda>(parsed, filled, rsp, h).
          if parsed < 0 then Some (parsed, rsp, close_sock N h)
          else Option.bind (serve_response N E pre_cb n (nat parsed) filled rsp h)
            (\<lambda>(rc, h). Some (rc, rsp, close_sock N h))) = Some (rc, rsp, h')"
        using assms(2) Inr o1 o2 o3 by (simp add: http_request_once_def Let_def)
      then obtain k fl rsp1 h1 where rh: "recv_head N 0 zero_response ?h = Some (k, fl, rsp1, h1)"
        by (cases "recv_head N 0 zero_response ?h") auto
      have "quiet h ?h" by (simp add: quiet_def)
      then have h1: "P h1" using quietly [OF assms(1)] quiet_trans quiet_recv_head [OF rh] by blast
      show ?thesis
      proof (cases "k < 0")
        case True
        then show ?thesis using r rh h1 c [of h1] quietly by auto
      next
        case False
        then obtain rc2 h2 where sr: "serve_response N E pre_cb n (nat k) fl rsp1 h1 = Some (rc2, h2)"
          and "h' = close_sock N h2"
          using r rh by (cases "serve_response N E pre_cb n (nat k) fl rsp1 h1") auto
        then show ?thesis using by_response [OF h1 sr assms(3)] c quietly by blast
      qed
    qed
  qed
qed

lemma by_hops:
  assumes "pre_cb = None \<or> pre_cb = Some (image_pre_stream E)"
  shows "P h \<Longrightarrow> http_hops N E pre_cb n hop url h = Some (rc, h') \<Longrightarrow> P h'"
proof (induction "3 - hop" arbitrary: hop url h)
  case 0
  then show ?case by (subst (asm) http_hops.simps) auto
next
  case (Suc k)
  have k: "k = 3 - (hop + 1)" using Suc.hyps(2) by simp
  show ?case
  proof (cases "http_request_once N E pre_cb n url h")
    case None
    then show ?thesis using Suc.prems(1) Suc.prems(2) [unfolded http_hops.simps [of N E pre_cb n hop url h]]
      by (auto split: if_splits)
  next
    case (Some y)
    then obtain rc1 rsp h1 where o: "http_request_once N E pre_cb n url h = Some (rc1, rsp, h1)"
      by (metis prod_cases3)
    have h1: "P h1" by (rule by_once [OF Suc.prems(1) o assms])
    show ?thesis
      using Suc.prems(1) Suc.prems(2) [unfolded http_hops.simps [of N E pre_cb n hop url h]] o h1 Suc.hyps(1) [OF k h1]
      by (auto split: if_splits)
  qed
qed

lemma by_request:
  "P h \<Longrightarrow> http_request N E pre_cb n url h = Some (rc, h') \<Longrightarrow>
     pre_cb = None \<or> pre_cb = Some (image_pre_stream E) \<Longrightarrow> P h'"
  using by_hops [of pre_cb h N n 0 url rc h'] by (auto simp: http_request_def split: if_splits)

end

lemma inited_ops:
  "app_ota_chunk E off d s = (rc, s') \<Longrightarrow> inited s' = inited s"
  "app_ota_begin E n s = (rc, s') \<Longrightarrow> inited s' = inited s"
  "inited (app_ota_abort E s) = inited s"
proof -
  show "app_ota_chunk E off d s = (rc, s') \<Longrightarrow> inited s' = inited s"
    by (auto simp: app_ota_chunk_def ota_reject_def ota_fail_def Let_def split: option.splits if_splits prod.splits)
  have "inited (snd (app_ota_begin E n s)) = inited s"
    by (simp add: app_ota_begin_def Let_def prod.case_eq_if)
  then show "app_ota_begin E n s = (rc, s') \<Longrightarrow> inited s' = inited s" by simp
  show "inited (app_ota_abort E s) = inited s" by (simp add: app_ota_abort_def Let_def)
qed

interpretation keep_inited: http_inv E "\<lambda>h. inited (ota h) \<and> cfg h = k" for E k
  by unfold_locales (auto simp: quiet_def inited_ops(3) dest: inited_ops(1,2))

interpretation keep_session: http_inv E "\<lambda>h. ota_ok E c (ota h) \<and> cfg h = k" for E c k
  by unfold_locales (auto simp: quiet_def ota_ok_def dest: begin_refines chunk_refines abort_refines)

text \<open>The ways a task ends, after its requests.\<close>

lemma fail_outcome:
  "inited (ota h) \<Longrightarrow> \<not> s_running (task_fail E h) \<and> s_state (task_fail E h) = FAILED \<and>
     app_ota_get_status (ota (task_fail E h)) =
       \<lparr>state = OTA_IDLE, last_err = ERR_ABORTED, bytes_received = 0, total_size = 0\<rparr> \<and>
     \<not> img_ready (ota (task_fail E h)) \<and> resume_point (ota (task_fail E h)) = 0"
  by (simp add: task_fail_def app_ota_abort_def app_ota_get_status_def resume_point_def Let_def)

lemma commit_outcome:
  assumes "inited (ota h)"
  shows "\<not> s_running (task_commit E h) \<and>
    (s_state (task_commit E h) = FAILED \<and>
       app_ota_get_status (ota (task_commit E h)) =
         \<lparr>state = OTA_IDLE, last_err = ERR_ABORTED, bytes_received = 0, total_size = 0\<rparr> \<and>
       \<not> img_ready (ota (task_commit E h)) \<and> resume_point (ota (task_commit E h)) = 0 \<or>
     s_state (task_commit E h) = DONE \<and>
       (s_auto_commit h \<longrightarrow> state (st (ota (task_commit E h))) = OTA_COMMITTED \<and>
          reboot_scheduled (ota (task_commit E h))))"
proof (cases "s_auto_commit h")
  case False
  then show ?thesis by (simp add: task_commit_def)
next
  case True
  obtain rc o' where c: "app_ota_commit E (ota h) = (rc, o')" by force
  let ?h = "h\<lparr>s_state := COMMITTING, ota := o'\<rparr>"
  have i: "inited o'" using c assms
    by (auto simp: app_ota_commit_def ota_reject_def ota_fail_def app_ota_reboot_after_ms_def Let_def
        split: if_splits prod.splits)
  have o: "rc = OTA_OK \<Longrightarrow> state (st o') = OTA_COMMITTED"
    using c by (auto simp: app_ota_commit_def ota_reject_def ota_fail_def app_ota_reboot_after_ms_def Let_def
        split: if_splits prod.splits)
  show ?thesis
    using True c fail_outcome [of ?h E] i o
    by (cases "rc = OTA_OK") (auto simp: task_commit_def Let_def app_ota_reboot_after_ms_def)
qed

subsection \<open>Properties\<close>

text \<open>A download task that returns is no longer running and is DONE or FAILED.  FAILED leaves
  the OTA front-end idle with nothing received, so the next start never resumes; DONE with
  auto-commit means the image is committed and the reboot scheduled.\<close>

theorem task_outcome:
  assumes "inited (ota h)" "http_task N E h = Some h'"
  shows "\<not> s_running h' \<and>
    (s_state h' = FAILED \<and>
       app_ota_get_status (ota h') =
         \<lparr>state = OTA_IDLE, last_err = ERR_ABORTED, bytes_received = 0, total_size = 0\<rparr> \<and>
       \<not> img_ready (ota h') \<and> resume_point (ota h') = 0 \<or>
     s_state h' = DONE \<and>
       (s_auto_commit h \<longrightarrow> state (st (ota h')) = OTA_COMMITTED \<and> reboot_scheduled (ota h')))"
proof -
  let ?h = "h\<lparr>sink := \<lparr>mode = SINK_OTA_CHUNK, ota_offset = resume_point (ota h), sbuf = [], buf_cap = 0\<rparr>,
      ipa := \<lparr>resume_attempted = False, resume_succeeded = False, session_restarted = False\<rparr>\<rparr>"
  let ?pre = "Some (image_pre_stream E)"
  obtain rc h1 where r: "http_request N E ?pre (resume_point (ota h)) (s_image_url h) ?h = Some (rc, h1)"
    using assms(2) by (auto simp: http_task_def Let_def bind_eq_Some_conv)
  have k: "inited (ota h1)" "s_auto_commit h1 = s_auto_commit h"
    using keep_inited.by_request [OF _ r, of "cfg h"] assms(1) by (auto simp: cfg_def)
  let ?b = "h1\<lparr>sink := \<lparr>mode = SINK_BUFFER, ota_offset = 0, sbuf = [], buf_cap = 512\<rparr>, s_state := HEADER_DL\<rparr>"
  consider "h' = task_fail E h1" | "h' = task_commit E h1"
    | rc2 h2 where "http_request N E None 0 (s_header_url h1) ?b = Some (rc2, h2)"
        "h' = task_fail E h2 \<or> h' = task_commit E h2"
    using assms(2) r by (auto simp: http_task_def Let_def bind_eq_Some_conv split: if_splits)
  then show ?thesis
  proof cases
    case 1
    then show ?thesis using fail_outcome [OF k(1)] by blast
  next
    case 2
    then show ?thesis using commit_outcome [OF k(1)] k(2) by auto
  next
    case (3 rc2 h2)
    have "inited (ota h2)" "s_auto_commit h2 = s_auto_commit h"
      using keep_inited.by_request [OF _ 3(1), of "cfg h1"] k by (auto simp: cfg_def)
    then show ?thesis using 3(2) fail_outcome [of h2 E] commit_outcome [of h2 E] by auto
  qed
qed

lemma task_outcome_witness:
  "\<exists>h'. http_task demo_net demo_flash ((demo_ram [])\<lparr>s_image_url := []\<rparr>) = Some h' \<and> s_state h' = FAILED \<and>
    resume_point (ota h') = 0"
proof -
  have i: "inited (ota ((demo_ram [])\<lparr>s_image_url := []\<rparr>))"
    using demo_begun_ok(1) by (simp add: demo_ram_def demo_http_def ota_ok_def session_inv_def)
  obtain h' where h: "http_task demo_net demo_flash ((demo_ram [])\<lparr>s_image_url := []\<rparr>) = Some h'" "s_state h' = FAILED"
    by (simp add: http_task_def http_request_def http_hops.simps http_request_once_def parse_url_def starts_def
        split_authority_def task_fail_def Let_def)
  from task_outcome [OF i h(1)] h show ?thesis by auto
qed

end
