(* ===== verification/HttpDownload.thy ===== *)
theory HttpDownload
  imports HttpTask
begin

text \<open>
  The complete download: with a server that answers 200 and a Content-Length, a connection that
  is not cut and a flash that works, \<open>http_task\<close> ends DONE with exactly the body committed,
  however the socket fragments the response.
\<close>

subsection \<open>The surroundings\<close>

definition serves :: "'n net_api \<Rightarrow> ('n \<Rightarrow> u8 list) \<Rightarrow> bool" where
  "serves N src \<longleftrightarrow> live N src \<and>
     (\<forall>n. 0 \<le> fst (sock_open N n) \<and> src (snd (sock_open N n)) = src n) \<and>
     (\<forall>u n. fst (sock_connect N u n) = 0 \<and> src (snd (sock_connect N u n)) = src n) \<and>
     (\<forall>bs n. bs \<noteq> [] \<longrightarrow> 0 < fst (sock_send N bs n) \<and> src (snd (sock_send N bs n)) = src n)"

text \<open>A flash whose slot holds \<open>n\<close> bytes and that does what it is asked.\<close>

definition flash_works :: "'e flash_api \<Rightarrow> ('e \<Rightarrow> u8 list) \<Rightarrow> u32 \<Rightarrow> bool" where
  "flash_works E c n \<longleftrightarrow> flash_laws E c \<and> flash_writes_ok E \<and>
     (\<forall>i e. \<exists>a e'. flash_area_open E i e = (0, Some a, e') \<and> n \<le> fa_size a) \<and>
     (\<forall>a e. fst (flash_area_erase E a 0 (fa_size a) e) = 0) \<and>
     (\<forall>e. fst (boot_request_upgrade E e) = 0 \<and> c (snd (boot_request_upgrade E e)) = c e)"

lemma send_all_ok:
  "serves N src \<Longrightarrow> \<exists>n'. send_all N buf n = (0, n') \<and> src n' = src n"
proof (induction N buf n rule: send_all.induct)
  case (1 N buf n)
  obtain k n1 where s: "sock_send N buf n = (k, n1)" by force
  show ?case
  proof (cases "buf = []")
    case True
    then show ?thesis by (subst send_all.simps) simp
  next
    case False
    then have k: "0 < k" "src n1 = src n" using 1(2) s unfolding serves_def by (metis fst_conv snd_conv)+
    then obtain n' where "send_all N (drop (nat k) buf) n1 = (0, n')" "src n' = src n1"
      using "1.IH" [OF False s [symmetric] _ "1.prems"] by auto
    then show ?thesis using s k False by (subst send_all.simps) simp
  qed
qed

lemma begin_works:
  assumes "flash_works E c n" "n \<noteq> 0" "inited s"
  shows "\<exists>s'. app_ota_begin E n s = (OTA_OK, s')"
proof -
  let ?t = "(close_upload E s)\<lparr>img_ready := False, st := (st s)\<lparr>bytes_received := 0, total_size := 0\<rparr>\<rparr>"
  obtain a e where o: "flash_area_open E (upload_slot s) (env ?t) = (0, Some a, e)" "n \<le> fa_size a"
    using assms(1) unfolding flash_works_def by metis
  obtain e2 where r: "flash_area_erase E a 0 (fa_size a) e = (0, e2)"
    using assms(1) unfolding flash_works_def by (metis prod.collapse)
  show ?thesis using o r assms(2,3)
    by (simp add: app_ota_begin_def ota_prepare_storage_def Let_def not_less)
qed

lemma commit_works:
  assumes W: "flash_works E c n" and I: "session_inv c s" and v: "session_of c s = Receiving n img"
    and "length img = unat n"
  shows "\<exists>s'. app_ota_commit E s = (OTA_OK, s') \<and> take (length img) (c (env s')) = img \<and>
    state (st s') = OTA_COMMITTED \<and> reboot_scheduled s'"
proof -
  obtain a where s: "img_ready s" "n = total_size (st s)" "n \<noteq> 0"
    "img = take (unat (bytes_received (st s))) (c (env s))" "length img = unat (bytes_received (st s))"
    using session_inv_receiving [OF I v] by metis
  have i: "inited s" "ota_inv s" using I by (simp_all add: session_inv_def)
  have b: "bytes_received (st s) = n" using s(5) assms(4) by (simp add: word_unat_eq_iff)
  have w: "state (st s) = OTA_WRITING"
    using v i(2) b s(3) by (auto simp: session_of_def ota_inv_def split: ota_state.splits)
  obtain e where u: "boot_request_upgrade E (env s) = (0, e)" "c e = c (env s)"
    using W unfolding flash_works_def by (metis prod.collapse snd_conv)
  show ?thesis
    using i s(1,2,4) b w u assms(4) by (simp add: app_ota_commit_def app_ota_reboot_after_ms_def Let_def)
qed

subsection \<open>The response head arrives\<close>

lemma recv_head_ok:
  assumes "live N src" "length (hdrbuf h) = 1024" "take filled (hdrbuf h) @ src (net h) = ok_head 200 n @ body"
    and "filled < length (ok_head 200 n)" "length (ok_head 200 n) \<le> 1024"
  shows "\<exists>m h'. recv_head N filled rsp h = Some (int (length (ok_head 200 n)), m,
       zero_response\<lparr>status := 200, content_length := n, has_content_length := True\<rparr>, h') \<and>
     length (ok_head 200 n) \<le> m \<and> m \<le> 1024 \<and> take m (hdrbuf h') @ src (net h') = ok_head 200 n @ body \<and>
     length (hdrbuf h') = 1024 \<and> quiet h h' \<and> sink h' = sink h \<and> s_running h' = s_running h"
  using assms(2-4)
proof (induction "1024 - filled" arbitrary: filled rsp h rule: less_induct)
  case less
  let ?H = "ok_head 200 n"
  obtain bs n1 where r: "sock_recv N (1024 - filled) (net h) = (bs, n1)" by force
  let ?bs = "take (1024 - filled) bs"
  let ?h = "h\<lparr>net := n1, hdrbuf := blit filled ?bs (hdrbuf h)\<rparr>"
  let ?m = "filled + length ?bs"
  have f: "filled < 1024" using less.prems(3) assms(5) by simp
  have src: "src (net h) = ?bs @ src n1" using assms(1) r unfolding live_def feeds_def by blast
  have ne: "src (net h) \<noteq> []"
  proof
    assume "src (net h) = []"
    then have "length (take filled (hdrbuf h)) = length (?H @ body)" using less.prems(2) by simp
    then show False using less.prems(1,3) f by simp
  qed
  then have bs: "?bs \<noteq> []" using assms(1) r f unfolding live_def by fastforce
  have m: "?m \<le> 1024" "filled < ?m" using f bs by (auto simp: length_greater_0_conv [symmetric] simp del: length_greater_0_conv)
  have tk: "take ?m (hdrbuf ?h) @ src (net ?h) = ?H @ body"
    using less.prems(2) src take_blit_append [of filled ?bs "hdrbuf h"] m(1) less.prems(1)
    by (simp del: length_take append_assoc) (simp only: append_assoc)
  have len: "length (hdrbuf ?h) = 1024" using less.prems(1) m(1) by simp
  have q: "quiet h ?h" by (simp add: quiet_def)
  show ?case
  proof (cases "?m < length ?H")
    case True
    have pre: "take ?m (hdrbuf ?h) = take ?m (?H @ body)"
      using arg_cong [OF tk, of "take ?m"] len m(1) by simp
    have "find_end 0 (take ?m (hdrbuf ?h)) = None"
      unfolding pre using True by (simp only: find_end_take [OF ok_head_end] add_0 not_le [symmetric] if_False)
    then have pr: "parse_response_headers (hdrbuf ?h) ?m rsp = Some (- 1, rsp)"
      by (rule head_incomplete)
    have step: "recv_head N filled rsp h = recv_head N ?m rsp ?h"
      using f r bs pr by (subst recv_head.simps) (simp add: Let_def del: length_take take_eq_Nil)
    have "1024 - ?m < 1024 - filled" using m(2) f by (rule diff_less_mono2)
    from less.hyps [OF this len tk True] show ?thesis
      using quiet_trans [OF q] unfolding step by fastforce
  next
    case False
    have cut: "take (length ?H) (hdrbuf ?h) = ?H"
      using arg_cong [OF tk, of "take (length ?H)"] False len m(1) by (simp add: min_def)
    have "hdrbuf ?h = ?H @ drop (length ?H) (hdrbuf ?h)" using cut by (metis append_take_drop_id)
    then have pr: "parse_response_headers (hdrbuf ?h) ?m rsp = Some (int (length ?H),
        zero_response\<lparr>status := 200, content_length := n, has_content_length := True\<rparr>)"
      using ok_head_parsed [of 200 n ?m "drop (length ?H) (hdrbuf ?h)" rsp] False by simp
    have "recv_head N filled rsp h = Some (int (length ?H), ?m,
        zero_response\<lparr>status := 200, content_length := n, has_content_length := True\<rparr>, ?h)"
      using f r bs pr by (subst recv_head.simps) (simp add: Let_def del: length_take take_eq_Nil)
    then show ?thesis using False m tk q len by force
  qed
qed

lemma dec_length: "k < 10 ^ Suc m \<Longrightarrow> length (dec k) \<le> Suc m"
proof (induction m arbitrary: k)
  case 0
  then show ?case by (subst dec.simps) simp
next
  case (Suc m)
  show ?case
  proof (cases "k < 10")
    case True
    then show ?thesis by (subst dec.simps) simp
  next
    case False
    have "k div 10 < 10 ^ Suc m" using Suc.prems by (simp add: less_mult_imp_div_less)
    then show ?thesis using Suc.IH [of "k div 10"] False by (subst dec.simps) simp
  qed
qed

lemma ok_head_short: "length (ok_head 200 n) \<le> 1024"
proof -
  have "unat n < 2 ^ LENGTH(32)" by (rule unsigned_less)
  then have "length (dec (unat n)) \<le> Suc 9" by (intro dec_length) simp
  moreover have "length (dec 200) \<le> Suc 2" by (rule dec_length) simp
  ultimately show ?thesis by (simp add: ok_head_def)
qed

subsection \<open>The body arrives\<close>

lemma body_ok:
  assumes "live N src" "flash_writes_ok E" "sink_aligned E c n h" "session_img c h = []"
    and "s_running h" "pending src h = body @ rest" "length body = unat n" "n \<noteq> 0"
    and "rsp = zero_response\<lparr>status := 200, content_length := n, has_content_length := True\<rparr>"
  shows "\<exists>h'. serve_body N E rsp h = Some (0, h') \<and> sink_aligned E c n h' \<and> session_img c h' = body"
proof -
  obtain img where v: "session_of c (ota h) = Receiving n img" "length img = unat (ota_offset (sink h))"
    and I: "session_inv c (ota h)" using assms(3) by (auto simp: sink_aligned_def ota_ok_def)
  have "img = []" using v(1) assms(4) by (simp add: session_img_def)
  moreover have "n = total_size (st (ota h))" by (rule session_inv_receiving [OF I v(1)])
  ultimately have "session_room E h = unat n" using v(2) assms(2) by (simp add: session_room_def)
  let ?h = "h\<lparr>dl_seen := 0, dl_total := unat n\<rparr>"
  have p: "pending src ?h = pending src h" by (simp add: pending_def)
  have room: "session_room E ?h = session_room E h" by (simp add: session_room_def)
  have al: "sink_aligned E c n ?h" using assms(3) by (simp add: sink_aligned_def)
  have "fst (fixed_body_loop N (sink_write E) (unat n) 0 ?h) = 0"
    by (rule ota_willing.fixed_loop_complete [OF assms(1) al])
       (use assms(5-7) p room \<open>session_room E h = unat n\<close> in simp_all)
  then obtain h' where r: "stream_fixed_body N (sink_write E) n h = (0, h')"
    unfolding stream_fixed_body_def by (metis prod.collapse)
  obtain bs where "pending src h = bs @ pending src h'" "length bs = unat n"
    "session_img c h' = session_img c h @ bs" "sink_aligned E c n h'"
    using ota_sink.fixed_exact [OF live_feeds [OF assms(1)] assms(3) r] by auto
  moreover from this(1,2) have "bs = body" using assms(6,7) by (simp add: append_eq_append_conv)
  ultimately show ?thesis using r assms(4,8,9) by (simp add: serve_body_def zero_response_def)
qed

text \<open>The hook opens a session the sink is aligned with.\<close>

lemma pre_ok:
  assumes "flash_works E c n" "n \<noteq> 0" "ota_ok E c (ota h)" "mode (sink h) = SINK_OTA_CHUNK"
    and "rsp = zero_response\<lparr>status := 200, content_length := n, has_content_length := True\<rparr>"
  shows "\<exists>h'. image_pre_stream E rsp 0 h = (0, h') \<and> sink_aligned E c n h' \<and> session_img c h' = [] \<and>
    net h' = net h \<and> hdrbuf h' = hdrbuf h \<and> s_running h' = s_running h \<and> cfg h' = cfg h"
proof -
  have "inited (ota h)" using assms(3) by (simp add: ota_ok_def session_inv_def)
  then obtain o' where b: "app_ota_begin E n (ota h) = (OTA_OK, o')"
    using begin_works [OF assms(1,2)] by blast
  have "ota_ok E c o' \<and> session_of c o' = Receiving n []"
    using ota_if.beg_law [OF assms(3) b] assms(2) by (simp add: begin_spec_def)
  then show ?thesis using b assms(4,5)
    by (simp add: image_pre_stream_def set_offset_def sink_aligned_def session_img_def zero_response_def cfg_def)
qed

lemma request_text_short:
  "length (host u) < 64 \<Longrightarrow> length (path u) < 160 \<Longrightarrow> length (request_text u 0) < 1024"
  by (simp add: request_text_def crlf_def)

subsection \<open>The request for the image\<close>

text \<open>The sink the task starts its image request with.\<close>

definition fresh_sink :: "('n, 'e) http \<Rightarrow> ('n, 'e) http" where
  "fresh_sink h = h\<lparr>sink := \<lparr>mode = SINK_OTA_CHUNK, ota_offset = 0, sbuf = [], buf_cap = 0\<rparr>,
     ipa := \<lparr>resume_attempted = False, resume_succeeded = False, session_restarted = False\<rparr>\<rparr>"

lemma fresh_sink_simps [simp]:
  "net (fresh_sink h) = net h" "ota (fresh_sink h) = ota h" "hdrbuf (fresh_sink h) = hdrbuf h"
  "s_running (fresh_sink h) = s_running h" "cfg (fresh_sink h) = cfg h"
  "mode (sink (fresh_sink h)) = SINK_OTA_CHUNK"
  by (simp_all add: fresh_sink_def)

lemma image_request:
  assumes "serves N src" "flash_works E c n" "ota_ok E c (ota h)"
    and "s_running h" "length (hdrbuf h) = 1024"
    and "parse_url (Some (s_image_url h)) = Inr u" "length (s_image_url h) \<le> 240" "inet_pton N (host u)"
    and "src (net h) = ok_head 200 n @ body @ rest" "length body = unat n" "n \<noteq> 0"
  shows "\<exists>h'. http_request N E (Some (image_pre_stream E)) 0 (s_image_url h) (fresh_sink h) = Some (0, h') \<and>
    session_inv c (ota h') \<and> session_of c (ota h') = Receiving n body \<and> cfg h' = cfg h"
proof -
  note L = assms(1) [unfolded serves_def]
  let ?H = "ok_head 200 n"
  let ?rsp = "zero_response\<lparr>status := 200, content_length := n, has_content_length := True\<rparr>"
  let ?h0 = "fresh_sink h"
  let ?t = "request_text u 0"
  obtain s n1 where o1: "sock_open N (net h) = (s, n1)" "0 \<le> s" "src n1 = src (net h)"
    using L by (metis prod.collapse)
  obtain n2 where o2: "sock_connect N u n1 = (0, n2)" "src n2 = src n1" using L by (metis prod.collapse)
  obtain n3 where o3: "send_all N ?t n2 = (0, n3)" "src n3 = src n2" using send_all_ok [OF assms(1)] by blast
  have t: "length ?t < 1024" using parse_url_fits [OF assms(6)] by (intro request_text_short) auto
  let ?h1 = "?h0\<lparr>s_state := REQUESTING, hdrbuf := print_hdrbuf ?t (hdrbuf h), net := n3\<rparr>"
  have "length (hdrbuf ?h1) = 1024" "take 0 (hdrbuf ?h1) @ src (net ?h1) = ?H @ (body @ rest)"
    "0 < length ?H"
    using t assms(5,9) o1(3) o2(2) o3(2) by (simp_all add: print_hdrbuf_def ok_head_def)
  from recv_head_ok [OF conjunct1 [OF L] this ok_head_short, of zero_response]
  obtain m h2 where 2: "recv_head N 0 zero_response ?h1 = Some (int (length ?H), m, ?rsp, h2)"
    "length ?H \<le> m" "m \<le> 1024" "take m (hdrbuf h2) @ src (net h2) = ?H @ body @ rest" "quiet ?h1 h2"
    "sink h2 = sink ?h0" "s_running h2" "length (hdrbuf h2) = 1024"
    using assms(4) by auto
  have c2: "ota_ok E c (ota h2)" "cfg h2 = cfg h" "mode (sink h2) = SINK_OTA_CHUNK"
    using 2(5,6) assms(3) by (simp_all add: quiet_def)
  obtain h3 where 3: "image_pre_stream E ?rsp 0 h2 = (0, h3)" "sink_aligned E c n h3" "session_img c h3 = []"
    "net h3 = net h2" "hdrbuf h3 = hdrbuf h2" "s_running h3 = s_running h2" "cfg h3 = cfg h2"
    using pre_ok [OF assms(2,11) c2(1,3) refl] by blast
  let ?h4 = "h3\<lparr>s_state := DOWNLOADING, pre := take (m - length ?H) (drop (length ?H) (hdrbuf h3))\<rparr>"
  have md: "mode (sink h3) = SINK_OTA_CHUNK" using 3(2) by (simp add: sink_aligned_def)
  have "drop (length ?H) (take m (hdrbuf h2)) @ src (net h2) = body @ rest"
    using arg_cong [OF 2(4), of "drop (length ?H)"] 2(2,3,8) by simp
  then have p: "pending src ?h4 = body @ rest" by (simp add: pending_def 3(4,5) drop_take)
  have al: "sink_aligned E c n ?h4" "session_img c ?h4 = []" "s_running ?h4"
    using 3(2,3,6) 2(7) by (simp_all add: sink_aligned_def session_img_def)
  obtain h5 where 5: "serve_body N E ?rsp ?h4 = Some (0, h5)" "sink_aligned E c n h5" "session_img c h5 = body"
    using body_ok [OF conjunct1 [OF L] _ al p assms(10,11) refl] assms(2) by (auto simp: flash_works_def)
  have c5: "cfg h5 = cfg h"
    using keep_session.by_body [of E c ?h4 "cfg h" N ?rsp 0 h5] 5(1) 3(2,7) c2(2) by (simp add: sink_aligned_def)
  have sr: "serve_response N E (Some (image_pre_stream E)) 0 (length ?H) m ?rsp h2 = Some (0, h5)"
    using 3(1,4,5) 5(1) md by (simp add: serve_response_def is_redirect_def zero_response_def)
  have once: "http_request_once N E (Some (image_pre_stream E)) 0 (s_image_url h) ?h0 = Some (0, ?rsp, close_sock N h5)"
    using assms(6,8) o1 o2 o3 t 2(1) sr by (simp add: http_request_once_def resolve_host_def Let_def)
  have req: "http_request N E (Some (image_pre_stream E)) 0 (s_image_url h) ?h0 = Some (0, close_sock N h5)"
    using once assms(7) by (simp add: http_request_def http_hops.simps)
  obtain img where "session_of c (ota h5) = Receiving n img" "session_inv c (ota h5)"
    using 5(2) by (auto simp: sink_aligned_def ota_ok_def)
  moreover from this(1) have "img = body" using 5(3) by (simp add: session_img_def)
  ultimately show ?thesis using req c5 by (simp add: close_sock_def)
qed

text \<open>With a server that answers 200, a Content-Length and that many bytes, an uncut connection that
  nobody stops, and a flash that works and is large enough, the download task returns and ends
  DONE, whatever pieces the socket delivers: with auto-commit the committed slot starts with
  exactly the body, without it the session waits for a commit with exactly the body received.\<close>

theorem download_ends:
  assumes "serves N src" "flash_works E c n" "ota_ok E c (ota h)" "resume_point (ota h) = 0"
    and "s_running h" "\<not> s_has_header_url h" "length (hdrbuf h) = 1024"
    and "parse_url (Some (s_image_url h)) = Inr u" "length (s_image_url h) \<le> 240" "inet_pton N (host u)"
    and "src (net h) = ok_head 200 n @ body @ rest" "length body = unat n" "n \<noteq> 0"
  shows "\<exists>h'. http_task N E h = Some h' \<and> s_state h' = DONE \<and> \<not> s_running h' \<and>
    (if s_auto_commit h then state (st (ota h')) = OTA_COMMITTED \<and>
       take (length body) (c (env (ota h'))) = body \<and> reboot_scheduled (ota h')
     else session_inv c (ota h') \<and> session_of c (ota h') = Receiving n body)"
proof -
  obtain h5 where 5: "http_request N E (Some (image_pre_stream E)) 0 (s_image_url h) (fresh_sink h) = Some (0, h5)"
    "session_inv c (ota h5)" "session_of c (ota h5) = Receiving n body" "cfg h5 = cfg h"
    using image_request [OF assms(1-3,5,7-13)] by blast
  obtain o' where co: "app_ota_commit E (ota h5) = (OTA_OK, o')" "take (length body) (c (env o')) = body"
    "state (st o') = OTA_COMMITTED" "reboot_scheduled o'"
    using commit_works [OF assms(2) 5(2,3)] assms(12) by blast
  have k: "s_auto_commit h5 = s_auto_commit h" "\<not> s_has_header_url h5" using 5(4) assms(6) by (simp_all add: cfg_def)
  then have "http_task N E h = Some (task_commit E h5)"
    using 5(1) assms(4) by (simp add: http_task_def Let_def fresh_sink_def)
  then show ?thesis using co 5(2,3) k(1)
    by (simp add: task_commit_def Let_def app_ota_reboot_after_ms_def)
qed

definition demo_task :: "u8 list \<Rightarrow> (u8 list, u8 list) http" where
  "demo_task n = demo_http n demo_started \<lparr>mode = SINK_BUFFER, ota_offset = 0, sbuf = [], buf_cap = 0\<rparr>"

end
