(* ===== verification/Nvs.thy ===== *)
theory Nvs
  imports Prelude
begin

text \<open>
  The non-volatile store \<open>app/nvm/nvs_backend.c\<close>: mounting the Zephyr NVS file system once.
  The flash driver and NVS are the functions of the record \<open>nvs_api\<close> on a state \<open>'v\<close>;
  \<open>nvs_laws\<close> is what the modules above rely on.  Locale \<open>nv_record\<close> is the contract of
  one stored record; the Wi-Fi credentials and the Matter preferences are its two instances.
\<close>

record 'v nvs_api =
  storage_ready :: "'v \<Rightarrow> bool"
  partition_off :: nat
  page_info :: "nat \<Rightarrow> 'v \<Rightarrow> int \<times> nat"
  nvs_mount :: "nat \<Rightarrow> nat \<Rightarrow> nat \<Rightarrow> 'v \<Rightarrow> int \<times> 'v"
  nvs_write :: "nat \<Rightarrow> u8 list \<Rightarrow> 'v \<Rightarrow> int \<times> 'v"
  nvs_read :: "nat \<Rightarrow> nat \<Rightarrow> 'v \<Rightarrow> int \<times> u8 list"
  nvs_delete :: "nat \<Rightarrow> 'v \<Rightarrow> int \<times> 'v"

text \<open>\<open>s_nvs\<close> and \<open>s_mounted\<close>; \<open>nv\<close> is the state of the flash.\<close>

record 'v nvs =
  mounted :: bool
  fs_offset :: nat
  sector_size :: nat
  sector_count :: nat
  nv :: 'v

definition app_nvs_init :: "'v nvs_api \<Rightarrow> 'v nvs \<Rightarrow> int \<times> 'v nvs" where
  "app_nvs_init N s =
     (if mounted s then (0, s)
      else if \<not> storage_ready N (nv s) then (- ENODEV, s)
      else let s = s\<lparr>fs_offset := partition_off N\<rparr> in
        case page_info N (fs_offset s) (nv s) of (rc, sz) \<Rightarrow>
          if rc \<noteq> 0 then (- EIO, s)
          else let s = s\<lparr>sector_size := sz, sector_count := 3\<rparr> in
            case nvs_mount N (fs_offset s) (sector_size s) (sector_count s) (nv s) of (rc, v) \<Rightarrow>
              if rc \<noteq> 0 then (rc, s\<lparr>nv := v\<rparr>) else (0, s\<lparr>nv := v, mounted := True\<rparr>))"

text \<open>What the users of NVS rely on: a write that succeeds sets the entry, a delete removes it,
  a read of an entry reports its size and fills the buffer with what fits, a read of nothing
  is \<open>-ENOENT\<close>; a write that fails and mounting keep the entries.\<close>

definition nvs_laws :: "'v nvs_api \<Rightarrow> ('v \<Rightarrow> nat \<Rightarrow> u8 list option) \<Rightarrow> bool" where
  "nvs_laws N entry \<longleftrightarrow>
     (\<forall>i d v rc v'. nvs_write N i d v = (rc, v') \<longrightarrow> 0 \<le> rc \<longrightarrow> entry v' = (entry v)(i \<mapsto> d)) \<and>
     (\<forall>i v rc v'. nvs_delete N i v = (rc, v') \<longrightarrow> rc = 0 \<or> rc = - ENOENT \<longrightarrow> entry v' = (entry v)(i := None)) \<and>
     (\<forall>i n v d. entry v i = Some d \<longrightarrow> nvs_read N i n v = (int (length d), take n d)) \<and>
     (\<forall>i n v. entry v i = None \<longrightarrow> fst (nvs_read N i n v) = - ENOENT) \<and>
     (\<forall>i d v rc v'. nvs_write N i d v = (rc, v') \<longrightarrow> rc < 0 \<longrightarrow> entry v' = entry v) \<and>
     (\<forall>off sz k v rc v'. nvs_mount N off sz k v = (rc, v') \<longrightarrow> entry v' = entry v)"

lemma nvs_write_law:
  "nvs_laws N entry \<Longrightarrow> nvs_write N i d v = (rc, v') \<Longrightarrow> 0 \<le> rc \<Longrightarrow> entry v' = (entry v)(i \<mapsto> d)"
  by (simp add: nvs_laws_def)

lemma nvs_delete_law:
  "nvs_laws N entry \<Longrightarrow> nvs_delete N i v = (rc, v') \<Longrightarrow> rc = 0 \<or> rc = - ENOENT \<Longrightarrow>
     entry v' = (entry v)(i := None)"
  by (auto simp: nvs_laws_def)

lemma nvs_read_law:
  "nvs_laws N entry \<Longrightarrow> entry v i = Some d \<Longrightarrow> nvs_read N i n v = (int (length d), take n d)"
  "nvs_laws N entry \<Longrightarrow> entry v i = None \<Longrightarrow> fst (nvs_read N i n v) = - ENOENT"
  by (simp_all add: nvs_laws_def)

lemma nvs_init_mounts: "app_nvs_init N s = (0, s') \<Longrightarrow> mounted s'"
  by (auto simp: app_nvs_init_def Let_def split: if_splits prod.splits)

lemma nvs_write_fail:
  "nvs_laws N entry \<Longrightarrow> nvs_write N i d v = (rc, v') \<Longrightarrow> rc < 0 \<Longrightarrow> entry v' = entry v"
  by (simp add: nvs_laws_def)

lemma nvs_init_keeps: "nvs_laws N entry \<Longrightarrow> app_nvs_init N s = (rc, s') \<Longrightarrow> entry (nv s') = entry (nv s)"
  by (auto simp: app_nvs_init_def nvs_laws_def Let_def split: if_splits prod.splits)

lemma nvs_init_again: "mounted s \<Longrightarrow> app_nvs_init N s = (0, s)"
  by (simp add: app_nvs_init_def)

text \<open>A reboot forgets the mount, not the flash.\<close>

definition nvs_reboot :: "'v nvs \<Rightarrow> 'v nvs" where
  "nvs_reboot s = \<lparr>mounted = False, fs_offset = 0, sector_size = 0, sector_count = 0, nv = nv s\<rparr>"

lemma nvs_reboot_nv [simp]: "nv (nvs_reboot s) = nv s"
  by (simp add: nvs_reboot_def)

subsection \<open>The contract of one stored record\<close>

locale nv_record =
  fixes save :: "'a \<Rightarrow> 's \<Rightarrow> int \<times> 's"
    and load :: "'a \<Rightarrow> 's \<Rightarrow> int \<times> 'a \<times> 's"
    and shape :: "'a \<Rightarrow> bool"
    and norm :: "'a \<Rightarrow> 'a"
    and held :: "'s \<Rightarrow> 'a option"
    and good :: "'s \<Rightarrow> bool"
  assumes saved: "good s \<Longrightarrow> shape x \<Longrightarrow> save x s = (0, s') \<Longrightarrow> good s' \<and> held s' = Some (norm x)"
    and loaded: "good s \<Longrightarrow> held s = Some x \<Longrightarrow> load y s = (0, x, s)"
    and absent: "good s \<Longrightarrow> held s = None \<Longrightarrow> fst (load y s) \<noteq> 0"
begin

lemma save_load:
  assumes "good s" "shape x" "save x s = (0, s')"
  shows "load y s' = (0, norm x, s')"
  using saved [OF assms] loaded by blast

text \<open>A later save wins.\<close>

lemma save_save_load:
  assumes "good s" "shape x" "shape z" "save x s = (0, s1)" "save z s1 = (0, s2)"
  shows "load y s2 = (0, norm z, s2)"
  using save_load [OF _ assms(3,5)] saved [OF assms(1,2,4)] by blast

lemma load_iff:
  assumes "good s"
  shows "fst (load y s) = 0 \<longleftrightarrow> held s \<noteq> None"
proof (cases "held s")
  case None
  then show ?thesis using absent [OF assms None, of y] by simp
next
  case (Some x)
  then show ?thesis using loaded [OF assms Some] by simp
qed

end

subsection \<open>A flash for concrete runs\<close>

definition demo_nvs :: "(nat \<Rightarrow> u8 list option) nvs_api" where
  "demo_nvs = \<lparr>storage_ready = (\<lambda>_. True), partition_off = 4096, page_info = (\<lambda>off v. (0, 4096)),
     nvs_mount = (\<lambda>off sz k v. (0, v)), nvs_write = (\<lambda>i d v. (int (length d), v(i \<mapsto> d))),
     nvs_read = (\<lambda>i n v. case v i of None \<Rightarrow> (- ENOENT, []) | Some d \<Rightarrow> (int (length d), take n d)),
     nvs_delete = (\<lambda>i v. (0, v(i := None)))\<rparr>"

lemma demo_nvs_laws: "nvs_laws demo_nvs (\<lambda>v. v)"
  by (auto simp: nvs_laws_def demo_nvs_def)

definition demo_store :: "(nat \<Rightarrow> u8 list option) nvs" where
  "demo_store = \<lparr>mounted = True, fs_offset = 4096, sector_size = 4096, sector_count = 3, nv = (\<lambda>_. None)\<rparr>"

end
