(* ===== verification/Nvram.thy ===== *)
theory Nvram
  imports Nvs CText
begin

text \<open>
  The Wi-Fi credentials record \<open>app/nvm/app_nvram.c\<close>: load, save, reset and the validity check.
  A \<open>char\<close> array is the list of its bytes at its full length; the record is stored as the
  bytes of the C structure.
\<close>

record app_nvram_data =
  ssid :: cstr
  password :: cstr
  security :: cstr
  host_ip :: cstr
  nport :: u16
  npad :: u16

text \<open>The array lengths of the structure, 33, 65, 17 and 65 bytes.\<close>

definition nvram_shape :: "app_nvram_data \<Rightarrow> bool" where
  "nvram_shape d \<longleftrightarrow> length (ssid d) = 33 \<and> length (password d) = 65 \<and> length (security d) = 17 \<and>
     length (host_ip d) = 65"

definition nvram_bytes :: "app_nvram_data \<Rightarrow> u8 list" where
  "nvram_bytes d = ssid d @ password d @ security d @ host_ip d @ enc16 (nport d) @ enc16 (npad d)"

definition nvram_of_bytes :: "u8 list \<Rightarrow> app_nvram_data" where
  "nvram_of_bytes b = \<lparr>ssid = take 33 b, password = take 65 (drop 33 b), security = take 17 (drop 98 b),
     host_ip = take 65 (drop 115 b), nport = le16 (b ! 180) (b ! 181), npad = le16 (b ! 182) (b ! 183)\<rparr>"

definition terminated :: "app_nvram_data \<Rightarrow> app_nvram_data" where
  "terminated d = d\<lparr>ssid := (ssid d)[32 := 0], password := (password d)[64 := 0],
     security := (security d)[16 := 0], host_ip := (host_ip d)[64 := 0]\<rparr>"

definition zero_nvram :: app_nvram_data where
  "zero_nvram = \<lparr>ssid = replicate 33 0, password = replicate 65 0, security = replicate 17 0,
     host_ip = replicate 65 0, nport = 0, npad = 0\<rparr>"

datatype nvram_rc = NVRAM_OK | NVRAM_PARAM | NVRAM_IO | NVRAM_NO_RECORD | NVRAM_LENGTH

fun nvram_int :: "nvram_rc \<Rightarrow> int" where
  "nvram_int NVRAM_OK = 0"
| "nvram_int NVRAM_PARAM = - 1"
| "nvram_int NVRAM_IO = - 2"
| "nvram_int NVRAM_NO_RECORD = - 3"
| "nvram_int NVRAM_LENGTH = - 6"

lemma nvram_int_0 [simp]: "nvram_int rc = 0 \<longleftrightarrow> rc = NVRAM_OK"
  by (cases rc) simp_all

subsection \<open>Operations\<close>

definition app_nvram_init :: "'v nvs_api \<Rightarrow> 'v nvs \<Rightarrow> nvram_rc \<times> 'v nvs" where
  "app_nvram_init N s = (case app_nvs_init N s of (rc, s) \<Rightarrow> (if rc = 0 then NVRAM_OK else NVRAM_IO, s))"

text \<open>\<open>out\<close> is the caller's structure; a short or failed read changes its first bytes only.\<close>

definition overlay :: "u8 list \<Rightarrow> app_nvram_data \<Rightarrow> app_nvram_data" where
  "overlay b out = nvram_of_bytes (b @ drop (length b) (nvram_bytes out))"

definition app_nvram_load ::
  "'v nvs_api \<Rightarrow> app_nvram_data \<Rightarrow> 'v nvs \<Rightarrow> nvram_rc \<times> app_nvram_data \<times> 'v nvs" where
  "app_nvram_load N out s =
     (case app_nvs_init N s of (rc, s) \<Rightarrow>
        if rc \<noteq> 0 then (NVRAM_IO, out, s)
        else case nvs_read N 1 184 (nv s) of (rc, b) \<Rightarrow>
          let out = overlay (take 184 b) out in
          if rc = - ENOENT then (NVRAM_NO_RECORD, out, s)
          else if rc < 0 then (NVRAM_IO, out, s)
          else if rc \<noteq> 184 then (NVRAM_LENGTH, out, s)
          else (NVRAM_OK, terminated out, s))"

definition app_nvram_save :: "'v nvs_api \<Rightarrow> app_nvram_data \<Rightarrow> 'v nvs \<Rightarrow> nvram_rc \<times> 'v nvs" where
  "app_nvram_save N d s =
     (case app_nvs_init N s of (rc, s) \<Rightarrow>
        if rc \<noteq> 0 then (NVRAM_IO, s)
        else case nvs_write N 1 (nvram_bytes ((terminated d)\<lparr>npad := 0\<rparr>)) (nv s) of (rc, v) \<Rightarrow>
          (if rc < 0 then NVRAM_IO else NVRAM_OK, s\<lparr>nv := v\<rparr>))"

definition app_nvram_reset :: "'v nvs_api \<Rightarrow> 'v nvs \<Rightarrow> nvram_rc \<times> 'v nvs" where
  "app_nvram_reset N s =
     (case app_nvs_init N s of (rc, s) \<Rightarrow>
        if rc \<noteq> 0 then (NVRAM_IO, s)
        else case nvs_delete N 1 (nv s) of (rc, v) \<Rightarrow>
          (if rc = 0 \<or> rc = - ENOENT then NVRAM_OK else NVRAM_IO, s\<lparr>nv := v\<rparr>))"

text \<open>\<open>strnlen\<close> and \<open>strcmp\<close> on an array.\<close>

definition cstring :: "u8 list \<Rightarrow> cstr" where
  "cstring b = takeWhile (\<lambda>c. c \<noteq> 0) b"

definition str_nonempty_within :: "u8 list \<Rightarrow> nat \<Rightarrow> bool" where
  "str_nonempty_within b maxlen =
     (let n = length (cstring (take (maxlen + 1) b)) in 0 < n \<and> n \<le> maxlen)"

definition security_allowed :: "u8 list \<Rightarrow> bool" where
  "security_allowed b = (cstring b \<in> set [str ''OPEN'', str ''WPA2'', str ''WPA2_WPA3'', str ''WPA3_SAE''])"

definition app_nvram_is_valid :: "app_nvram_data \<Rightarrow> bool" where
  "app_nvram_is_valid d =
     (if \<not> str_nonempty_within (ssid d) 32 then False
      else if \<not> str_nonempty_within (host_ip d) 64 then False
      else if \<not> security_allowed (security d) then False
      else if cstring (security d) \<noteq> str ''OPEN'' \<and> \<not> str_nonempty_within (password d) 64 then False
      else if nport d = 0 then False
      else True)"

subsection \<open>The record is the bytes\<close>

lemma nvram_shape_terminated [simp]: "nvram_shape (terminated d) = nvram_shape d"
  by (simp add: nvram_shape_def terminated_def)

lemma nvram_shape_pad [simp]: "nvram_shape (d\<lparr>npad := p\<rparr>) = nvram_shape d"
  by (simp add: nvram_shape_def)

lemma length_nvram_bytes: "nvram_shape d \<Longrightarrow> length (nvram_bytes d) = 184"
  by (simp add: nvram_shape_def nvram_bytes_def)

lemma nvram_of_nvram_bytes: "nvram_shape d \<Longrightarrow> nvram_of_bytes (nvram_bytes d) = d"
  by (cases d) (simp add: nvram_shape_def nvram_of_bytes_def nvram_bytes_def nth_append enc16_def)

lemma terminated_idem [simp]: "terminated (terminated d) = terminated d"
  by (simp add: terminated_def)

lemma terminated_pad: "terminated (d\<lparr>npad := p\<rparr>) = (terminated d)\<lparr>npad := p\<rparr>"
  by (simp add: terminated_def)

text \<open>What is stored, and the states in which the store holds a credentials record or none.\<close>

definition creds_held :: "('v \<Rightarrow> nat \<Rightarrow> u8 list option) \<Rightarrow> 'v nvs \<Rightarrow> app_nvram_data option" where
  "creds_held entry s = map_option (\<lambda>b. terminated (nvram_of_bytes b)) (entry (nv s) 1)"

definition creds_good :: "('v \<Rightarrow> nat \<Rightarrow> u8 list option) \<Rightarrow> 'v nvs_api \<Rightarrow> 'v nvs \<Rightarrow> bool" where
  "creds_good entry N s \<longleftrightarrow> nvs_laws N entry \<and> mounted s \<and>
     (\<forall>b. entry (nv s) 1 = Some b \<longrightarrow> length b = 184)"

lemma creds_saved:
  assumes "creds_good entry N s" "nvram_shape d" "app_nvram_save N d s = (NVRAM_OK, s')"
  shows "creds_good entry N s' \<and> creds_held entry s' = Some ((terminated d)\<lparr>npad := 0\<rparr>)"
proof -
  let ?d = "(terminated d)\<lparr>npad := 0\<rparr>"
  have sh: "nvram_shape ?d" using assms(2) by simp
  obtain rc v where w: "nvs_write N 1 (nvram_bytes ?d) (nv s) = (rc, v)" by force
  have k: "0 \<le> rc" "s' = s\<lparr>nv := v\<rparr>"
    using assms w by (auto simp: app_nvram_save_def creds_good_def nvs_init_again split: if_splits)
  have "entry v = (entry (nv s))(1 \<mapsto> nvram_bytes ?d)"
    using nvs_write_law [OF _ w k(1)] assms(1) unfolding creds_good_def by blast
  moreover have "terminated ?d = ?d" by (simp add: terminated_pad)
  ultimately show ?thesis
    using assms(1) k(2) nvram_of_nvram_bytes [OF sh] length_nvram_bytes [OF sh]
    by (simp add: creds_good_def creds_held_def)
qed

lemma creds_loaded:
  assumes "creds_good entry N s" "creds_held entry s = Some d"
  shows "app_nvram_load N out s = (NVRAM_OK, d, s)"
proof -
  obtain b where b: "entry (nv s) 1 = Some b" "d = terminated (nvram_of_bytes b)"
    using assms(2) by (auto simp: creds_held_def)
  then have l: "length b = 184" using assms(1) by (simp add: creds_good_def)
  have "nvs_read N 1 184 (nv s) = (184, b)" using nvs_read_law(1) [of N entry "nv s" 1 b 184] b(1) assms(1) l by (simp add: creds_good_def)
  moreover have "overlay b out = nvram_of_bytes b"
    using l by (simp add: overlay_def nvram_of_bytes_def nth_append)
  ultimately show ?thesis using assms(1) b(2) l
    by (simp add: app_nvram_load_def creds_good_def nvs_init_again Let_def)
qed

lemma creds_nothing:
  assumes "creds_good entry N s" "creds_held entry s = None"
  shows "fst (app_nvram_load N out s) = NVRAM_NO_RECORD"
proof -
  obtain r b where r: "nvs_read N 1 184 (nv s) = (r, b)" by force
  have "entry (nv s) 1 = None" using assms(2) by (simp add: creds_held_def)
  then have "r = - ENOENT" using nvs_read_law(2) [of N entry "nv s" 1 184] assms(1) r by (simp add: creds_good_def)
  then show ?thesis using assms(1) r
    by (simp add: app_nvram_load_def creds_good_def nvs_init_again Let_def)
qed

text \<open>Across a reboot: the store is mounted again by the load.\<close>

lemma load_after_init: "app_nvs_init N f = (0, f1) \<Longrightarrow> app_nvram_load N out f = app_nvram_load N out f1"
  by (simp add: app_nvram_load_def nvs_init_again nvs_init_mounts)

lemma creds_reboot:
  assumes "creds_good entry N s" "app_nvs_init N (nvs_reboot s) = (0, s1)"
  shows "creds_good entry N s1 \<and> creds_held entry s1 = creds_held entry s"
  using assms nvs_init_mounts [OF assms(2)] nvs_init_keeps [OF _ assms(2)]
  by (simp add: creds_good_def creds_held_def)

interpretation creds: nv_record "\<lambda>d s. map_prod nvram_int id (app_nvram_save N d s)"
  "\<lambda>y s. map_prod nvram_int id (app_nvram_load N y s)" nvram_shape "\<lambda>d. (terminated d)\<lparr>npad := 0\<rparr>"
  "creds_held entry" "creds_good entry N" for N entry
proof unfold_locales
  fix s s' x
  assume "creds_good entry N s" "nvram_shape x" "map_prod nvram_int id (app_nvram_save N x s) = (0, s')"
  then show "creds_good entry N s' \<and> creds_held entry s' = Some ((terminated x)\<lparr>npad := 0\<rparr>)"
    using creds_saved by (metis fst_map_prod id_apply nvram_int_0 prod.collapse prod.sel(1,2) snd_map_prod)
next
  fix s x y
  assume "creds_good entry N s" "creds_held entry s = Some x"
  then show "map_prod nvram_int id (app_nvram_load N y s) = (0, x, s)" by (simp add: creds_loaded)
next
  fix s y
  assume "creds_good entry N s" "creds_held entry s = None"
  then show "fst (map_prod nvram_int id (app_nvram_load N y s)) \<noteq> 0"
    using creds_nothing [of entry N s y] by simp
qed

end
