(* ===== verification/Matter.thy ===== *)
theory Matter
  imports Nvram Gatt
begin

text \<open>
  The Matter hub stub: the stored preferences \<open>app/matter/matter_prefs.c\<close>, the commissioning
  state \<open>app/matter/matter_hub_core.c\<close> and its GATT service
  \<open>app/ble/gatt_servers/svc_matter.c\<close>.  The optional OpenThread start is not built in.
\<close>

subsection \<open>Preferences\<close>

abbreviation (input) CMP_READY :: u32 where "CMP_READY \<equiv> 1"
abbreviation (input) CMP_WINDOW_OPEN :: u32 where "CMP_WINDOW_OPEN \<equiv> 2"
abbreviation (input) CMP_COMMISSIONED :: u32 where "CMP_COMMISSIONED \<equiv> 3"

record matter_prefs =
  commissioning_state :: u32
  fabric_count :: u8
  feature_flags :: u8
  prefs_pad :: "u8 list"
  opaque_blob :: "u8 list"

definition prefs_shape :: "matter_prefs \<Rightarrow> bool" where
  "prefs_shape p \<longleftrightarrow> length (prefs_pad p) = 2 \<and> length (opaque_blob p) = 152"

definition prefs_bytes :: "matter_prefs \<Rightarrow> u8 list" where
  "prefs_bytes p = enc32 (commissioning_state p) @ [fabric_count p, feature_flags p] @ prefs_pad p @ opaque_blob p"

definition prefs_of_bytes :: "u8 list \<Rightarrow> matter_prefs" where
  "prefs_of_bytes b = \<lparr>commissioning_state = le32 (b ! 0) (b ! 1) (b ! 2) (b ! 3), fabric_count = b ! 4,
     feature_flags = b ! 5, prefs_pad = take 2 (drop 6 b), opaque_blob = take 152 (drop 8 b)\<rparr>"

definition prefs_zero :: matter_prefs where
  "prefs_zero = \<lparr>commissioning_state = 0, fabric_count = 0, feature_flags = 0,
     prefs_pad = replicate 2 0, opaque_blob = replicate 152 0\<rparr>"

definition payload_default :: matter_prefs where
  "payload_default = prefs_zero\<lparr>commissioning_state := CMP_READY\<rparr>"

definition matter_prefs_save :: "'v nvs_api \<Rightarrow> matter_prefs \<Rightarrow> 'v nvs \<Rightarrow> int \<times> 'v nvs" where
  "matter_prefs_save N p s =
     (case app_nvs_init N s of (rc, s) \<Rightarrow>
        if rc \<noteq> 0 then (- 2, s)
        else case nvs_write N 2 (prefs_bytes p) (nv s) of (rc, v) \<Rightarrow>
          (if rc < 0 then - 3 else 0, s\<lparr>nv := v\<rparr>))"

text \<open>Every failure leaves the defaults in the caller's structure.\<close>

definition matter_prefs_load :: "'v nvs_api \<Rightarrow> 'v nvs \<Rightarrow> int \<times> matter_prefs \<times> 'v nvs" where
  "matter_prefs_load N s =
     (case app_nvs_init N s of (rc, s) \<Rightarrow>
        if rc \<noteq> 0 then (- 2, payload_default, s)
        else case nvs_read N 2 160 (nv s) of (rc, b) \<Rightarrow>
          if rc = - ENOENT then (- 3, payload_default, s)
          else if rc < 0 then (- 4, payload_default, s)
          else if rc \<noteq> 160 then (- 5, payload_default, s)
          else (0, prefs_of_bytes b, s))"

definition matter_prefs_factory_default :: "'v nvs_api \<Rightarrow> 'v nvs \<Rightarrow> int \<times> 'v nvs" where
  "matter_prefs_factory_default N s = matter_prefs_save N payload_default s"

definition matter_prefs_is_commissioned :: "'v nvs_api \<Rightarrow> 'v nvs \<Rightarrow> bool \<times> 'v nvs" where
  "matter_prefs_is_commissioned N s = (case matter_prefs_load N s of (rc, p, s) \<Rightarrow>
     (if rc \<noteq> 0 then False else fabric_count p \<noteq> 0 \<and> commissioning_state p = CMP_COMMISSIONED, s))"

subsection \<open>The hub\<close>

record 'v hub =
  s_prefs :: matter_prefs
  s_inited :: bool
  s_window_active :: bool
  s_window_end :: u32
  s_cached_uptime :: u32
  flash :: "'v nvs"

definition persist_prefs :: "'v nvs_api \<Rightarrow> 'v hub \<Rightarrow> int \<times> 'v hub" where
  "persist_prefs N h = (case matter_prefs_save N (s_prefs h) (flash h) of (rc, f) \<Rightarrow> (rc, h\<lparr>flash := f\<rparr>))"

definition matter_hub_init :: "'v nvs_api \<Rightarrow> 'v hub \<Rightarrow> int \<times> 'v hub" where
  "matter_hub_init N h =
     (if s_inited h then (0, h)
      else case matter_prefs_load N (flash h) of (rc, p, f) \<Rightarrow>
        let h = h\<lparr>s_prefs := p, flash := f\<rparr>;
            done = (\<lambda>h. (0, h\<lparr>s_window_end := 0, s_inited := True\<rparr>))
        in if rc \<noteq> 0 then (case persist_prefs N h of (rc, h) \<Rightarrow> if rc \<noteq> 0 then (- 2, h) else done h)
           else done h)"

definition matter_hub_on_tick :: "u32 \<Rightarrow> 'v hub \<Rightarrow> 'v hub" where
  "matter_hub_on_tick up h =
     (if \<not> s_inited h then h
      else let h = h\<lparr>s_cached_uptime := up\<rparr> in
        if \<not> s_window_active h \<or> s_window_end h = 0 then h
        else if up < s_window_end h then h
        else h\<lparr>s_window_active := False, s_window_end := 0\<rparr>)"

definition matter_hub_get_prefs_view :: "'v hub \<Rightarrow> matter_prefs" where
  "matter_hub_get_prefs_view h =
     (if s_window_active h then (s_prefs h)\<lparr>commissioning_state := CMP_WINDOW_OPEN\<rparr> else s_prefs h)"

definition matter_hub_commission_window_open :: "u32 \<Rightarrow> u32 \<Rightarrow> 'v hub \<Rightarrow> int \<times> 'v hub" where
  "matter_hub_commission_window_open dur up h =
     (if \<not> s_inited h then (- 2, h)
      else let dur = (if dur = 0 then 180 else dur) in
        (0, h\<lparr>s_cached_uptime := up, s_window_active := True, s_window_end := up + dur\<rparr>))"

definition matter_hub_commission_window_close :: "'v hub \<Rightarrow> int \<times> 'v hub" where
  "matter_hub_commission_window_close h =
     (if \<not> s_inited h then (- 2, h) else (0, h\<lparr>s_window_active := False, s_window_end := 0\<rparr>))"

definition matter_hub_factory_reset :: "'v nvs_api \<Rightarrow> 'v hub \<Rightarrow> int \<times> 'v hub" where
  "matter_hub_factory_reset N h =
     persist_prefs N (h\<lparr>s_prefs := prefs_zero\<lparr>commissioning_state := CMP_READY\<rparr>,
       s_window_active := False, s_window_end := 0\<rparr>)"

definition matter_hub_dev_simulate_fabric_commissioned :: "'v nvs_api \<Rightarrow> 'v hub \<Rightarrow> int \<times> 'v hub" where
  "matter_hub_dev_simulate_fabric_commissioned N h =
     (if \<not> s_inited h then (- 2, h)
      else let p = s_prefs h;
               p = (if fabric_count p < 8 then p\<lparr>fabric_count := fabric_count p + 1\<rparr> else p)
        in persist_prefs N (h\<lparr>s_prefs := p\<lparr>commissioning_state := CMP_COMMISSIONED\<rparr>,
             s_window_active := False, s_window_end := 0\<rparr>))"

definition matter_hub_commission_window_remaining_s :: "u32 \<Rightarrow> 'v hub \<Rightarrow> u32" where
  "matter_hub_commission_window_remaining_s up h =
     (if \<not> s_window_active h then 0 else if s_window_end h \<le> up then 0 else s_window_end h - up)"

definition matter_hub_cached_uptime_s :: "'v hub \<Rightarrow> u32" where
  "matter_hub_cached_uptime_s h = s_cached_uptime h"

record matter_descriptor =
  vendor_id :: u16
  product_id :: u16
  hardware_version :: u16
  software_version :: u16
  friendly_name :: cstr

definition matter_hub_get_descriptor :: matter_descriptor where
  "matter_hub_get_descriptor = \<lparr>vendor_id = 0xFFF1, product_id = 0x8001, hardware_version = 1,
     software_version = 1, friendly_name = take 31 (str ''ZCUBE-matter-hub'')\<rparr>"

definition matter_hub_pack_status :: "'v hub \<Rightarrow> u8 list" where
  "matter_hub_pack_status h =
     (let vw = matter_hub_get_prefs_view h;
          wr = (ucast (matter_hub_commission_window_remaining_s (s_cached_uptime h) h) :: u16);
          d = matter_hub_get_descriptor
      in [ucast (commissioning_state vw AND 0xFF), fabric_count vw] @ enc16 wr @ enc16 (vendor_id d) @
         enc16 (product_id d) @ enc16 (hardware_version d) @ enc16 (software_version d) @ replicate 4 0)"

subsection \<open>The GATT service\<close>

record 'v matter_svc =
  hub :: "'v hub"
  s_packed :: "u8 list"
  m_notified :: "u8 list list"

definition m_refresh_packed :: "'v matter_svc \<Rightarrow> 'v matter_svc" where
  "m_refresh_packed s = s\<lparr>s_packed := matter_hub_pack_status (hub s)\<rparr>"

definition m_notify :: "'v matter_svc \<Rightarrow> 'v matter_svc" where
  "m_notify s = s\<lparr>m_notified := m_notified s @ [s_packed s]\<rparr>"

definition matter_cmd :: "'v nvs_api \<Rightarrow> u8 list \<Rightarrow> 'v hub \<Rightarrow> int \<times> 'v hub" where
  "matter_cmd N p h =
     (if p ! 0 = 1 then matter_hub_factory_reset N h
      else if p ! 0 = 2 then
        matter_hub_commission_window_open
          (if 3 \<le> length p then ucast (p ! 1) OR push_bit 8 (ucast (p ! 2)) else 0)
          (matter_hub_cached_uptime_s h) h
      else if p ! 0 = 3 then matter_hub_commission_window_close h
      else if p ! 0 = 4 then matter_hub_dev_simulate_fabric_commissioned N h
      else (- 2, h))"

definition matter_write_cmd ::
  "'v nvs_api \<Rightarrow> nat \<Rightarrow> u8 list \<Rightarrow> 'v matter_svc \<Rightarrow> write_result \<times> 'v matter_svc" where
  "matter_write_cmd N off p s =
     (if off \<noteq> 0 then (Inl ATT_INVALID_OFFSET, s)
      else if length p < 1 then (Inl ATT_INVALID_ATTRIBUTE_LEN, s)
      else case matter_cmd N p (hub s) of (rc, h) \<Rightarrow>
        let s = s\<lparr>hub := h\<rparr> in
        if rc \<noteq> 0 then (Inl ATT_UNLIKELY, s) else (Inr (length p), m_notify (m_refresh_packed s)))"

definition matter_read_status :: "'v matter_svc \<Rightarrow> u8 list \<times> 'v matter_svc" where
  "matter_read_status s = (let s = m_refresh_packed s in (s_packed s, s))"

definition matter_ccc_changed :: "u16 \<Rightarrow> 'v matter_svc \<Rightarrow> 'v matter_svc" where
  "matter_ccc_changed v s = (if v = 1 then m_notify (m_refresh_packed s) else s)"

definition app_matter_svc_init :: "'v matter_svc \<Rightarrow> 'v matter_svc" where
  "app_matter_svc_init s = m_refresh_packed s"

definition app_matter_svc_publish_status :: "'v matter_svc \<Rightarrow> 'v matter_svc" where
  "app_matter_svc_publish_status s = m_notify (m_refresh_packed s)"

subsection \<open>The stored preferences\<close>

lemma length_prefs_bytes: "prefs_shape p \<Longrightarrow> length (prefs_bytes p) = 160"
  by (simp add: prefs_shape_def prefs_bytes_def)

lemma prefs_of_prefs_bytes: "prefs_shape p \<Longrightarrow> prefs_of_bytes (prefs_bytes p) = p"
  by (cases p) (simp add: prefs_shape_def prefs_of_bytes_def prefs_bytes_def enc32_def)

lemma prefs_shape_simps [simp]: "prefs_shape prefs_zero" "prefs_shape payload_default"
  "prefs_shape (p\<lparr>commissioning_state := c\<rparr>) = prefs_shape p"
  "prefs_shape (p\<lparr>fabric_count := n\<rparr>) = prefs_shape p"
  by (simp_all add: prefs_shape_def prefs_zero_def payload_default_def)

definition prefs_held :: "('v \<Rightarrow> nat \<Rightarrow> u8 list option) \<Rightarrow> 'v nvs \<Rightarrow> matter_prefs option" where
  "prefs_held entry s = map_option prefs_of_bytes (entry (nv s) 2)"

definition prefs_good :: "('v \<Rightarrow> nat \<Rightarrow> u8 list option) \<Rightarrow> 'v nvs_api \<Rightarrow> 'v nvs \<Rightarrow> bool" where
  "prefs_good entry N s \<longleftrightarrow> nvs_laws N entry \<and> mounted s \<and>
     (\<forall>b. entry (nv s) 2 = Some b \<longrightarrow> length b = 160)"

lemma prefs_saved:
  assumes "prefs_good entry N s" "prefs_shape p" "matter_prefs_save N p s = (0, s')"
  shows "prefs_good entry N s' \<and> prefs_held entry s' = Some p"
proof -
  obtain rc v where w: "nvs_write N 2 (prefs_bytes p) (nv s) = (rc, v)" by force
  have k: "0 \<le> rc" "s' = s\<lparr>nv := v\<rparr>"
    using assms w by (auto simp: matter_prefs_save_def prefs_good_def nvs_init_again split: if_splits)
  have "entry v = (entry (nv s))(2 \<mapsto> prefs_bytes p)"
    using nvs_write_law [OF _ w k(1)] assms(1) unfolding prefs_good_def by blast
  then show ?thesis
    using assms(1) k(2) prefs_of_prefs_bytes [OF assms(2)] length_prefs_bytes [OF assms(2)]
    by (simp add: prefs_good_def prefs_held_def)
qed

lemma prefs_loaded:
  assumes "prefs_good entry N s" "prefs_held entry s = Some p"
  shows "matter_prefs_load N s = (0, p, s)"
proof -
  obtain b where b: "entry (nv s) 2 = Some b" "p = prefs_of_bytes b"
    using assms(2) by (auto simp: prefs_held_def)
  then have l: "length b = 160" using assms(1) by (simp add: prefs_good_def)
  have "nvs_read N 2 160 (nv s) = (160, b)"
    using nvs_read_law(1) [of N entry "nv s" 2 b 160] b(1) assms(1) l by (simp add: prefs_good_def)
  then show ?thesis using assms(1) b(2) by (simp add: matter_prefs_load_def prefs_good_def nvs_init_again)
qed

lemma prefs_absent:
  assumes "prefs_good entry N s" "prefs_held entry s = None"
  shows "matter_prefs_load N s = (- 3, payload_default, s)"
proof -
  obtain r b where r: "nvs_read N 2 160 (nv s) = (r, b)" by force
  have "entry (nv s) 2 = None" using assms(2) by (simp add: prefs_held_def)
  then have "r = - ENOENT" using nvs_read_law(2) [of N entry "nv s" 2 160] assms(1) r by (simp add: prefs_good_def)
  then show ?thesis using assms(1) r by (simp add: matter_prefs_load_def prefs_good_def nvs_init_again)
qed

interpretation prefs: nv_record "matter_prefs_save N" "\<lambda>_. matter_prefs_load N" prefs_shape "\<lambda>p. p"
  "prefs_held entry" "prefs_good entry N" for N entry
  by unfold_locales (auto simp: prefs_loaded prefs_absent dest: prefs_saved)

subsection \<open>Steps and reachable states\<close>

text \<open>A reboot clears the RAM and keeps the flash.\<close>

definition hub_boot :: "'v nvs \<Rightarrow> 'v hub" where
  "hub_boot f = \<lparr>s_prefs = prefs_zero, s_inited = False, s_window_active = False, s_window_end = 0,
     s_cached_uptime = 0, flash = nvs_reboot f\<rparr>"

datatype hub_op = HInit | HTick u32 | HOpen u32 u32 | HClose | HReset | HSim | HReboot

fun hub_exec :: "'v nvs_api \<Rightarrow> hub_op \<Rightarrow> 'v hub \<Rightarrow> int \<times> 'v hub" where
  "hub_exec N HInit h = matter_hub_init N h"
| "hub_exec N (HTick t) h = (0, matter_hub_on_tick t h)"
| "hub_exec N (HOpen d t) h = matter_hub_commission_window_open d t h"
| "hub_exec N HClose h = matter_hub_commission_window_close h"
| "hub_exec N HReset h = matter_hub_factory_reset N h"
| "hub_exec N HSim h = matter_hub_dev_simulate_fabric_commissioned N h"
| "hub_exec N HReboot h = (0, hub_boot (flash h))"

inductive hub_reach :: "'v nvs_api \<Rightarrow> 'v nvs \<Rightarrow> 'v hub \<Rightarrow> bool" for N f where
  boot: "hub_reach N f (hub_boot f)"
| step: "hub_reach N f h \<Longrightarrow> hub_exec N op h = (rc, h') \<Longrightarrow> hub_reach N f h'"

text \<open>Preferences that may be kept: never a window, never more than eight fabrics.\<close>

definition keepable :: "matter_prefs \<Rightarrow> bool" where
  "keepable p \<longleftrightarrow> prefs_shape p \<and> commissioning_state p \<noteq> CMP_WINDOW_OPEN \<and> fabric_count p \<le> 8"

lemma keepable_simps [simp]: "keepable prefs_zero" "keepable payload_default"
  "keepable (prefs_zero\<lparr>commissioning_state := CMP_READY\<rparr>)"
  by (simp_all add: keepable_def prefs_zero_def payload_default_def prefs_shape_def)

definition hub_inv :: "('v \<Rightarrow> nat \<Rightarrow> u8 list option) \<Rightarrow> 'v hub \<Rightarrow> bool" where
  "hub_inv entry h \<longleftrightarrow> keepable (s_prefs h) \<and> (\<not> s_window_active h \<longrightarrow> s_window_end h = 0) \<and>
     (s_window_active h \<longrightarrow> s_inited h) \<and>
     (\<forall>b. entry (nv (flash h)) 2 = Some b \<longrightarrow> length b = 160 \<and> keepable (prefs_of_bytes b))"

lemma prefs_save_entry:
  assumes "nvs_laws N entry" "matter_prefs_save N p s = (rc, s')"
  shows "entry (nv s') = entry (nv s) \<or> entry (nv s') = (entry (nv s))(2 \<mapsto> prefs_bytes p)"
proof -
  obtain r1 s1 where i: "app_nvs_init N s = (r1, s1)" by force
  obtain r2 v where w: "nvs_write N 2 (prefs_bytes p) (nv s1) = (r2, v)" by force
  have "entry v = entry (nv s1) \<or> entry v = (entry (nv s1))(2 \<mapsto> prefs_bytes p)"
    using nvs_write_fail [OF assms(1) w] nvs_write_law [OF assms(1) w] by linarith
  then show ?thesis
    using assms(2) i w nvs_init_keeps [OF assms(1) i] by (auto simp: matter_prefs_save_def split: if_splits)
qed

lemma hub_inv_persist:
  assumes "nvs_laws N entry" "hub_inv entry h" "persist_prefs N h = (rc, h')"
  shows "hub_inv entry h'"
proof -
  obtain f where f: "matter_prefs_save N (s_prefs h) (flash h) = (rc, f)" "h' = h\<lparr>flash := f\<rparr>"
    using assms(3) by (auto simp: persist_prefs_def split: prod.splits)
  have "keepable (s_prefs h)" using assms(2) by (simp add: hub_inv_def)
  then have "length (prefs_bytes (s_prefs h)) = 160" "prefs_of_bytes (prefs_bytes (s_prefs h)) = s_prefs h"
    by (auto simp: keepable_def intro: length_prefs_bytes prefs_of_prefs_bytes)
  then show ?thesis
    using prefs_save_entry [OF assms(1) f(1)] assms(2) f(2) by (auto simp: hub_inv_def)
qed

lemma hub_inv_load:
  assumes "nvs_laws N entry" "hub_inv entry h" "matter_prefs_load N (flash h) = (rc, p, f)"
  shows "keepable p \<and> entry (nv f) = entry (nv (flash h))"
proof -
  obtain r1 s1 where i: "app_nvs_init N (flash h) = (r1, s1)" by force
  obtain r2 b where r: "nvs_read N 2 160 (nv s1) = (r2, b)" by force
  have e: "entry (nv s1) = entry (nv (flash h))" by (rule nvs_init_keeps [OF assms(1) i])
  have "r2 = 160 \<Longrightarrow> keepable (prefs_of_bytes b)"
  proof (cases "entry (nv s1) 2")
    case None
    then show "r2 = 160 \<Longrightarrow> ?thesis" using nvs_read_law(2) [OF assms(1) None, of 160] r by simp
  next
    case (Some d)
    then have "length d = 160" "keepable (prefs_of_bytes d)" using assms(2) e by (auto simp: hub_inv_def)
    then show ?thesis using nvs_read_law(1) [OF assms(1) Some, of 160] r by simp
  qed
  then show ?thesis using assms(3) i r e by (auto simp: matter_prefs_load_def split: if_splits)
qed

lemma hub_inv_init:
  assumes "nvs_laws N entry" "hub_inv entry h" "matter_hub_init N h = (rc, h')"
  shows "hub_inv entry h'"
proof (cases "s_inited h")
  case True
  then show ?thesis using assms by (simp add: matter_hub_init_def)
next
  case False
  obtain r p f where l: "matter_prefs_load N (flash h) = (r, p, f)" by (metis prod_cases3)
  let ?h = "h\<lparr>s_prefs := p, flash := f\<rparr>"
  have 1: "hub_inv entry ?h" using hub_inv_load [OF assms(1,2) l] assms(2) by (simp add: hub_inv_def)
  obtain r2 h2 where p: "persist_prefs N ?h = (r2, h2)" by force
  have 2: "hub_inv entry h2" by (rule hub_inv_persist [OF assms(1) 1 p])
  have d: "hub_inv entry (g\<lparr>s_window_end := 0, s_inited := True\<rparr>)" if "hub_inv entry g" for g
    using that by (simp add: hub_inv_def)
  show ?thesis using assms(3) False l p 2 d [OF 1] d [OF 2]
    by (auto simp: matter_hub_init_def Let_def split: if_splits)
qed

lemma hub_inv_step:
  assumes "nvs_laws N entry" "hub_inv entry h" "hub_exec N op h = (rc, h')"
  shows "hub_inv entry h'"
proof (cases op)
  case HInit
  then show ?thesis using assms hub_inv_init by simp
next
  case HReset
  show ?thesis
    by (rule hub_inv_persist [OF assms(1), of "h\<lparr>s_prefs := prefs_zero\<lparr>commissioning_state := CMP_READY\<rparr>,
          s_window_active := False, s_window_end := 0\<rparr>"])
       (use HReset assms in \<open>auto simp: matter_hub_factory_reset_def hub_inv_def\<close>)
next
  case HSim
  let ?p = "if fabric_count (s_prefs h) < 8 then (s_prefs h)\<lparr>fabric_count := fabric_count (s_prefs h) + 1\<rparr> else s_prefs h"
  have "fabric_count (s_prefs h) < 8 \<Longrightarrow> fabric_count (s_prefs h) + 1 \<le> 8" by (rule inc_le)
  then have "hub_inv entry (h\<lparr>s_prefs := ?p\<lparr>commissioning_state := CMP_COMMISSIONED\<rparr>,
      s_window_active := False, s_window_end := 0\<rparr>)"
    using assms(2) by (auto simp: hub_inv_def keepable_def)
  then show ?thesis
    using HSim assms hub_inv_persist [OF assms(1)]
    by (auto simp: matter_hub_dev_simulate_fabric_commissioned_def Let_def split: if_splits)
qed (use assms in \<open>auto simp: hub_inv_def hub_boot_def matter_hub_on_tick_def Let_def
    matter_hub_commission_window_open_def matter_hub_commission_window_close_def split: if_splits\<close>)

subsection \<open>Ticks\<close>

lemma tick_sel [simp]:
  "s_inited (matter_hub_on_tick t h) = s_inited h" "s_prefs (matter_hub_on_tick t h) = s_prefs h"
  "flash (matter_hub_on_tick t h) = flash h"
  by (simp_all add: matter_hub_on_tick_def Let_def)

lemma ticks_closed: "\<not> s_window_active h \<Longrightarrow> \<not> s_window_active (fold matter_hub_on_tick ts h)"
  by (induction ts arbitrary: h) (simp_all add: matter_hub_on_tick_def Let_def)

lemma ticks_window:
  "s_inited h \<Longrightarrow> s_window_active h \<Longrightarrow> s_window_end h = e \<Longrightarrow> e \<noteq> 0 \<Longrightarrow>
     s_window_active (fold matter_hub_on_tick ts h) \<longleftrightarrow> (\<forall>t \<in> set ts. t < e)"
proof (induction ts arbitrary: h)
  case (Cons t ts)
  show ?case
  proof (cases "t < e")
    case True
    then have "matter_hub_on_tick t h = h\<lparr>s_cached_uptime := t\<rparr>"
      using Cons.prems by (simp add: matter_hub_on_tick_def Let_def)
    then show ?thesis using Cons.IH [of "h\<lparr>s_cached_uptime := t\<rparr>"] Cons.prems True by simp
  next
    case False
    then have "\<not> s_window_active (matter_hub_on_tick t h)"
      using Cons.prems by (simp add: matter_hub_on_tick_def Let_def)
    then show ?thesis using ticks_closed False by auto
  qed
qed simp

lemma ticks_stuck:
  "s_window_active h \<Longrightarrow> s_window_end h = 0 \<Longrightarrow> s_window_active (fold matter_hub_on_tick ts h)"
  by (induction ts arbitrary: h) (simp_all add: matter_hub_on_tick_def Let_def)

subsection \<open>Properties\<close>

text \<open>C15: over any sequence of hub operations, service commands and reboots, with flash writes that
  may fail, the preferences in RAM and the record in flash never hold an open window and never
  more than eight fabrics, and the record keeps its size; an inactive window has no end time.\<close>

theorem hub_reach_inv:
  assumes "nvs_laws N entry" "hub_reach N f h" "entry (nv f) 2 = None"
  shows "hub_inv entry h"
  using assms(2)
proof (induction rule: hub_reach.induct)
  case boot
  then show ?case using assms(3) by (simp add: hub_inv_def hub_boot_def)
next
  case (step h op rc h')
  then show ?case using hub_inv_step [OF assms(1)] by blast
qed

lemma hub_reach_inv_witness:
  "hub_inv (\<lambda>v. v) (snd (matter_hub_init demo_nvs (hub_boot demo_store)))"
proof -
  obtain rc h where r: "matter_hub_init demo_nvs (hub_boot demo_store) = (rc, h)" by force
  then have "hub_exec demo_nvs HInit (hub_boot demo_store) = (rc, h)" by simp
  then have "hub_reach demo_nvs demo_store h" using hub_reach.boot hub_reach.step by blast
  from hub_reach_inv [OF demo_nvs_laws this] r show ?thesis by (simp add: demo_store_def)
qed

text \<open>C25: an opened commissioning window is reported as open by exactly the ticks before its end,
  180 s after the opening when no duration is given, and the stored preferences are untouched;
  but a window whose end wraps to uptime 0 is never closed by a tick.\<close>

theorem window_lifetime:
  assumes "s_inited h" "matter_hub_commission_window_open dur up h = (rc, h')"
    and "d = (if dur = 0 then 180 else dur)"
  shows "rc = 0 \<and> s_prefs h' = s_prefs h \<and> flash h' = flash h \<and>
    (unat up + unat d < 2 ^ 32 \<longrightarrow>
       (\<forall>ts. s_window_active (fold matter_hub_on_tick ts h') \<longleftrightarrow> (\<forall>t \<in> set ts. unat t < unat up + unat d))) \<and>
    (up + d = 0 \<longrightarrow> (\<forall>ts. s_window_active (fold matter_hub_on_tick ts h')))"
proof -
  have h': "h' = h\<lparr>s_cached_uptime := up, s_window_active := True, s_window_end := up + d\<rparr>" "rc = 0"
    using assms by (auto simp: matter_hub_commission_window_open_def Let_def)
  have w: "s_window_active (fold matter_hub_on_tick ts h') \<longleftrightarrow> (\<forall>t \<in> set ts. unat t < unat up + unat d)"
    if "unat up + unat d < 2 ^ 32" for ts
  proof -
    have u: "unat (up + d) = unat up + unat d" using that by (simp add: unat_word_ariths)
    have "d \<noteq> 0" using assms(3) by simp
    then have "0 < unat (up + d)" using u by (simp add: unat_pos_iff)
    then have "up + d \<noteq> 0" by (simp add: unat_pos_iff)
    then show ?thesis
      using ticks_window [of h' "up + d" ts] assms(1) h' u by (simp add: word_less_nat_alt)
  qed
  have z: "s_window_active (fold matter_hub_on_tick ts h')" if "up + d = 0" for ts
    using ticks_stuck [of h' ts] h'(1) that by simp
  show ?thesis using h' w z by simp
qed

lemma window_lifetime_witness:
  "\<not> s_window_active (fold matter_hub_on_tick [100, 160] (snd (matter_hub_commission_window_open 60 100
      ((hub_boot demo_store)\<lparr>s_inited := True\<rparr>))))"
proof -
  let ?h = "(hub_boot demo_store)\<lparr>s_inited := True\<rparr>"
  obtain rc h' where r: "matter_hub_commission_window_open 60 100 ?h = (rc, h')" by force
  have "\<forall>ts. s_window_active (fold matter_hub_on_tick ts h') \<longleftrightarrow> (\<forall>t \<in> set ts. unat t < unat (100 :: u32) + unat (60 :: u32))"
    using window_lifetime [OF _ r refl] by simp
  then have "\<not> s_window_active (fold matter_hub_on_tick [100, 160] h')" by (simp del: fold.simps)
  then show ?thesis using r by simp
qed

end
