(* ===== verification/Prov.thy ===== *)
theory Prov
  imports Nvram Gatt
begin

text \<open>
  The provisioning GATT service \<open>app/ble/gatt_servers/svc_prov.c\<close>: the staged credentials, the
  five field writers and the commit characteristic.  The events given to the callback and the
  notified state bytes are logged; \<open>pflash\<close> is the store behind \<open>app_nvram\<close>.
\<close>

datatype prov_evt = PROV_COMMIT_OK | PROV_COMMIT_INVALID | PROV_COMMIT_IO_ERROR | PROV_RESET

abbreviation (input) PROV_IDLE :: u8 where "PROV_IDLE \<equiv> 0"
abbreviation (input) PROV_COMMITTED :: u8 where "PROV_COMMITTED \<equiv> 1"
abbreviation (input) PROV_INVALID :: u8 where "PROV_INVALID \<equiv> 2"
abbreviation (input) PROV_IO_ERROR :: u8 where "PROV_IO_ERROR \<equiv> 3"
abbreviation (input) PROV_APPLIED :: u8 where "PROV_APPLIED \<equiv> 4"

record 'v prov =
  staging :: app_nvram_data
  p_state :: u8
  p_cb :: bool
  p_evts :: "prov_evt list"
  p_notified :: "u8 list"
  pflash :: "'v nvs"

text \<open>The new contents of a field of \<open>maxlen + 1\<close> bytes.\<close>

definition write_string_field :: "nat \<Rightarrow> nat \<Rightarrow> u8 list \<Rightarrow> att_err + u8 list" where
  "write_string_field maxlen off buf =
     (if off \<noteq> 0 then Inl ATT_INVALID_OFFSET
      else if maxlen < length buf then Inl ATT_INVALID_ATTRIBUTE_LEN
      else Inr (blit 0 buf (replicate (maxlen + 1) 0)))"

definition stage :: "(u8 list \<Rightarrow> app_nvram_data \<Rightarrow> app_nvram_data) \<Rightarrow> u8 list \<Rightarrow> att_err + u8 list \<Rightarrow> 'v prov
  \<Rightarrow> write_result \<times> 'v prov" where
  "stage upd buf r s = (case r of Inl e \<Rightarrow> (Inl e, s)
     | Inr b \<Rightarrow> (Inr (length buf), s\<lparr>staging := upd b (staging s)\<rparr>))"

definition write_ssid :: "nat \<Rightarrow> u8 list \<Rightarrow> 'v prov \<Rightarrow> write_result \<times> 'v prov" where
  "write_ssid off buf = stage (\<lambda>b d. d\<lparr>ssid := b\<rparr>) buf (write_string_field 32 off buf)"

definition write_pass :: "nat \<Rightarrow> u8 list \<Rightarrow> 'v prov \<Rightarrow> write_result \<times> 'v prov" where
  "write_pass off buf = stage (\<lambda>b d. d\<lparr>password := b\<rparr>) buf (write_string_field 64 off buf)"

definition write_sec :: "nat \<Rightarrow> u8 list \<Rightarrow> 'v prov \<Rightarrow> write_result \<times> 'v prov" where
  "write_sec off buf = stage (\<lambda>b d. d\<lparr>security := b\<rparr>) buf (write_string_field 16 off buf)"

definition write_host :: "nat \<Rightarrow> u8 list \<Rightarrow> 'v prov \<Rightarrow> write_result \<times> 'v prov" where
  "write_host off buf = stage (\<lambda>b d. d\<lparr>host_ip := b\<rparr>) buf (write_string_field 64 off buf)"

definition write_port :: "nat \<Rightarrow> u8 list \<Rightarrow> 'v prov \<Rightarrow> write_result \<times> 'v prov" where
  "write_port off buf s =
     (if off \<noteq> 0 then (Inl ATT_INVALID_OFFSET, s)
      else if length buf \<noteq> 2 then (Inl ATT_INVALID_ATTRIBUTE_LEN, s)
      else (Inr (length buf), s\<lparr>staging := (staging s)\<lparr>nport := le16 (buf ! 0) (buf ! 1)\<rparr>\<rparr>))"

definition emit :: "prov_evt \<Rightarrow> u8 \<Rightarrow> 'v prov \<Rightarrow> 'v prov" where
  "emit evt x s = (let s = s\<lparr>p_state := x\<rparr> in if p_cb s then s\<lparr>p_evts := p_evts s @ [evt]\<rparr> else s)"

definition app_prov_set_state :: "u8 \<Rightarrow> 'v prov \<Rightarrow> 'v prov" where
  "app_prov_set_state x s = s\<lparr>p_state := x, p_notified := p_notified s @ [x]\<rparr>"

definition write_commit :: "'v nvs_api \<Rightarrow> nat \<Rightarrow> u8 list \<Rightarrow> 'v prov \<Rightarrow> write_result \<times> 'v prov" where
  "write_commit N off buf s =
     (if off \<noteq> 0 then (Inl ATT_INVALID_OFFSET, s)
      else if length buf < 1 then (Inl ATT_INVALID_ATTRIBUTE_LEN, s)
      else if buf ! 0 = 0xFF then
        (case app_nvram_reset N (pflash s) of (_, f) \<Rightarrow>
           (Inr (length buf),
            app_prov_set_state PROV_IDLE (emit PROV_RESET PROV_IDLE (s\<lparr>pflash := f, staging := zero_nvram\<rparr>))))
      else if buf ! 0 \<noteq> 1 then (Inl ATT_VALUE_NOT_ALLOWED, s)
      else if \<not> app_nvram_is_valid (staging s) then
        (Inr (length buf), app_prov_set_state PROV_INVALID (emit PROV_COMMIT_INVALID PROV_INVALID s))
      else case app_nvram_save N (staging s) (pflash s) of (rc, f) \<Rightarrow>
        let s = s\<lparr>pflash := f\<rparr> in
        if rc \<noteq> NVRAM_OK then
          (Inr (length buf), app_prov_set_state PROV_IO_ERROR (emit PROV_COMMIT_IO_ERROR PROV_IO_ERROR s))
        else (Inr (length buf), app_prov_set_state PROV_COMMITTED (emit PROV_COMMIT_OK PROV_COMMITTED s)))"

definition read_state :: "'v prov \<Rightarrow> u8" where
  "read_state s = p_state s"

definition app_prov_init :: "'v nvs_api \<Rightarrow> bool \<Rightarrow> 'v prov \<Rightarrow> int \<times> 'v prov" where
  "app_prov_init N cb s =
     (case app_nvram_load N zero_nvram (pflash s) of (_, d, f) \<Rightarrow>
        (0, s\<lparr>p_cb := cb, p_state := PROV_IDLE, staging := d, pflash := f\<rparr>))"

subsection \<open>Lemmas\<close>

lemma emit_sel [simp]: "p_state (emit e x s) = x" "staging (emit e x s) = staging s"
  "pflash (emit e x s) = pflash s" "p_notified (emit e x s) = p_notified s" "p_cb (emit e x s) = p_cb s"
  "p_evts (emit e x s) = (if p_cb s then p_evts s @ [e] else p_evts s)"
  by (simp_all add: emit_def Let_def)

text \<open>A field that holds \<open>b\<close>, padded.\<close>

definition field :: "nat \<Rightarrow> cstr \<Rightarrow> u8 list" where
  "field maxlen b = b @ replicate (maxlen + 1 - length b) 0"

lemma field_written: "length b \<le> maxlen \<Longrightarrow> write_string_field maxlen 0 b = Inr (field maxlen b)"
  by (simp add: write_string_field_def field_def blit_def del: replicate_Suc)

lemma length_field: "length b \<le> maxlen \<Longrightarrow> length (field maxlen b) = maxlen + 1"
  by (simp add: field_def)

lemma cstring_field:
  assumes "0 \<notin> set b" "length b \<le> maxlen"
  shows "cstring (field maxlen b) = b"
proof -
  have "replicate (maxlen + 1 - length b) 0 = 0 # replicate (maxlen - length b) (0 :: u8)"
    using assms(2) by (simp add: Suc_diff_le)
  then show ?thesis using assms(1) by (auto simp: cstring_def field_def takeWhile_append)
qed

lemma field_terminated: "length b \<le> maxlen \<Longrightarrow> (field maxlen b)[maxlen := 0] = field maxlen b"
  by (rule nth_equalityI) (auto simp: field_def nth_append nth_list_update)

lemma field_nonempty:
  "0 \<notin> set b \<Longrightarrow> length b \<le> maxlen \<Longrightarrow> str_nonempty_within (field maxlen b) maxlen \<longleftrightarrow> b \<noteq> []"
  using cstring_field [of b maxlen] length_field [of b maxlen] by (simp add: str_nonempty_within_def Let_def)

subsection \<open>A whole provisioning\<close>

definition provision ::
  "'v nvs_api \<Rightarrow> cstr \<Rightarrow> cstr \<Rightarrow> cstr \<Rightarrow> cstr \<Rightarrow> u16 \<Rightarrow> 'v prov \<Rightarrow> write_result \<times> 'v prov" where
  "provision N sd pw sec ho prt s = write_commit N 0 [1]
     (snd (write_port 0 (enc16 prt) (snd (write_host 0 ho (snd (write_sec 0 sec (snd (write_pass 0 pw
       (snd (write_ssid 0 sd s))))))))))"

definition creds_of :: "cstr \<Rightarrow> cstr \<Rightarrow> cstr \<Rightarrow> cstr \<Rightarrow> u16 \<Rightarrow> u16 \<Rightarrow> app_nvram_data" where
  "creds_of sd pw sec ho prt pad = \<lparr>ssid = field 32 sd, password = field 64 pw, security = field 16 sec,
     host_ip = field 64 ho, nport = prt, npad = pad\<rparr>"

definition creds_fit :: "cstr \<Rightarrow> cstr \<Rightarrow> cstr \<Rightarrow> cstr \<Rightarrow> u16 \<Rightarrow> bool" where
  "creds_fit sd pw sec ho prt \<longleftrightarrow> 0 \<notin> set (sd @ pw @ ho) \<and> sd \<noteq> [] \<and> length sd \<le> 32 \<and>
     length pw \<le> 64 \<and> ho \<noteq> [] \<and> length ho \<le> 64 \<and> prt \<noteq> 0 \<and>
     sec \<in> set [str ''OPEN'', str ''WPA2'', str ''WPA2_WPA3'', str ''WPA3_SAE''] \<and>
     (sec = str ''OPEN'' \<or> pw \<noteq> [])"

lemma creds_fit_sec: "creds_fit sd pw sec ho prt \<Longrightarrow> 0 \<notin> set sec \<and> length sec \<le> 16"
  by (auto simp: creds_fit_def c8_def)

lemma creds_of_shape: "creds_fit sd pw sec ho prt \<Longrightarrow> nvram_shape (creds_of sd pw sec ho prt pad)"
  using creds_fit_sec [of sd pw sec ho prt]
  by (simp add: nvram_shape_def creds_of_def length_field creds_fit_def)

lemma creds_of_valid:
  assumes "creds_fit sd pw sec ho prt"
  shows "app_nvram_is_valid (creds_of sd pw sec ho prt pad)"
  using assms creds_fit_sec [OF assms]
  by (auto simp: app_nvram_is_valid_def creds_of_def creds_fit_def field_nonempty security_allowed_def
      cstring_field)

lemma creds_of_terminated:
  "creds_fit sd pw sec ho prt \<Longrightarrow> terminated (creds_of sd pw sec ho prt pad) = creds_of sd pw sec ho prt pad"
  using creds_fit_sec [of sd pw sec ho prt]
  by (simp add: terminated_def creds_of_def field_terminated creds_fit_def)

lemma provision_stages:
  assumes "creds_fit sd pw sec ho prt"
  shows "provision N sd pw sec ho prt s =
    write_commit N 0 [1] (s\<lparr>staging := creds_of sd pw sec ho prt (npad (staging s))\<rparr>)"
  using assms creds_fit_sec [OF assms]
  by (cases "staging s") (simp add: provision_def write_ssid_def write_pass_def write_sec_def write_host_def write_port_def
      stage_def field_written creds_fit_def creds_of_def enc16_def)

lemma commit_valid:
  assumes "app_nvram_is_valid (staging s)" "app_nvram_save N (staging s) (pflash s) = (NVRAM_OK, f)"
  shows "write_commit N 0 [1] s =
    (Inr 1, app_prov_set_state PROV_COMMITTED (emit PROV_COMMIT_OK PROV_COMMITTED (s\<lparr>pflash := f\<rparr>)))"
  using assms by (simp add: write_commit_def)

lemma save_succeeds:
  assumes "\<forall>i d v. 0 \<le> fst (nvs_write N i d v)" "mounted f"
  shows "\<exists>f'. app_nvram_save N d f = (NVRAM_OK, f')"
  using assms by (auto simp: app_nvram_save_def nvs_init_again prod.case_eq_if not_less [symmetric])

lemma provision_commits:
  assumes "creds_good entry N (pflash s)" "\<forall>i d v. 0 \<le> fst (nvs_write N i d v)"
    and "creds_fit sd pw sec ho prt"
  shows "\<exists>f. provision N sd pw sec ho prt s = (Inr 1, app_prov_set_state PROV_COMMITTED (emit PROV_COMMIT_OK PROV_COMMITTED
      (s\<lparr>staging := creds_of sd pw sec ho prt (npad (staging s)), pflash := f\<rparr>))) \<and>
    creds_good entry N f \<and> creds_held entry f = Some (creds_of sd pw sec ho prt 0)"
proof -
  let ?d = "creds_of sd pw sec ho prt (npad (staging s))"
  let ?s = "s\<lparr>staging := ?d\<rparr>"
  have "mounted (pflash s)" using assms(1) by (simp add: creds_good_def)
  then obtain f1 where sv: "app_nvram_save N ?d (pflash s) = (NVRAM_OK, f1)"
    using save_succeeds [OF assms(2)] by blast
  have "provision N sd pw sec ho prt s =
      (Inr 1, app_prov_set_state PROV_COMMITTED (emit PROV_COMMIT_OK PROV_COMMITTED (?s\<lparr>pflash := f1\<rparr>)))"
    using commit_valid [of ?s N f1] sv creds_of_valid [OF assms(3)] by (simp add: provision_stages [OF assms(3)])
  moreover have "creds_good entry N f1" "creds_held entry f1 = Some (creds_of sd pw sec ho prt 0)"
    using creds_saved [OF assms(1) creds_of_shape [OF assms(3)] sv] creds_of_terminated [OF assms(3)]
    by (simp_all add: creds_of_def)
  ultimately show ?thesis by auto
qed

lemma creds_of_strings:
  assumes "creds_fit sd pw sec ho prt"
  shows "cstring (ssid (creds_of sd pw sec ho prt k)) = sd" "cstring (password (creds_of sd pw sec ho prt k)) = pw"
    "cstring (security (creds_of sd pw sec ho prt k)) = sec" "cstring (host_ip (creds_of sd pw sec ho prt k)) = ho"
    "nport (creds_of sd pw sec ho prt k) = prt"
  using assms creds_fit_sec [OF assms] by (auto simp: creds_of_def creds_fit_def intro!: cstring_field)

lemma reset_empties:
  assumes "creds_good entry N s" "app_nvram_reset N s = (NVRAM_OK, g)"
  shows "creds_good entry N g \<and> creds_held entry g = None"
proof -
  obtain k v where d: "nvs_delete N 1 (nv s) = (k, v)" by force
  have m: "mounted s" "nvs_laws N entry" using assms(1) by (simp_all add: creds_good_def)
  have "k = 0 \<or> k = - ENOENT" "g = s\<lparr>nv := v\<rparr>"
    using assms(2) d m(1) by (auto simp: app_nvram_reset_def nvs_init_again split: if_splits)
  then show ?thesis using nvs_delete_law [OF m(2) d] m by (auto simp: creds_good_def creds_held_def)
qed

subsection \<open>Properties\<close>

text \<open>C16: writing the five fields and committing, with credentials that fit, ends COMMITTED, tells
  the callback and notifies once; after a reboot the load returns exactly the written strings
  and port, and the record passes the validity check.\<close>

theorem provision_roundtrip:
  assumes "creds_good entry N (pflash s)" "\<forall>i d v. 0 \<le> fst (nvs_write N i d v)"
    and "creds_fit sd pw sec ho prt" "provision N sd pw sec ho prt s = (r, s')"
    and "app_nvs_init N (nvs_reboot (pflash s')) = (0, f)"
  shows "r = Inr 1 \<and> p_state s' = PROV_COMMITTED \<and> p_notified s' = p_notified s @ [PROV_COMMITTED] \<and>
    (p_cb s \<longrightarrow> p_evts s' = p_evts s @ [PROV_COMMIT_OK]) \<and>
    (\<exists>d. app_nvram_load N out (nvs_reboot (pflash s')) = (NVRAM_OK, d, f) \<and> app_nvram_is_valid d \<and>
       cstring (ssid d) = sd \<and> cstring (password d) = pw \<and> cstring (security d) = sec \<and>
       cstring (host_ip d) = ho \<and> nport d = prt)"
proof -
  obtain f1 where p: "provision N sd pw sec ho prt s = (Inr 1, app_prov_set_state PROV_COMMITTED (emit PROV_COMMIT_OK PROV_COMMITTED
      (s\<lparr>staging := creds_of sd pw sec ho prt (npad (staging s)), pflash := f1\<rparr>)))"
    and c: "creds_good entry N f1" "creds_held entry f1 = Some (creds_of sd pw sec ho prt 0)"
    using provision_commits [OF assms(1-3)] by blast
  have "pflash s' = f1" using p assms(4) by (auto simp: app_prov_set_state_def)
  then have "app_nvram_load N out (nvs_reboot (pflash s')) = (NVRAM_OK, creds_of sd pw sec ho prt 0, f)"
    using creds_reboot [OF c(1), of f] assms(5) c(2) load_after_init [OF assms(5)] creds_loaded by metis
  then show ?thesis
    using p assms(4) creds_of_valid [OF assms(3), of 0] creds_of_strings [OF assms(3), of 0]
    by (auto simp: app_prov_set_state_def)
qed

definition demo_prov :: "(nat \<Rightarrow> u8 list option) prov" where
  "demo_prov = \<lparr>staging = zero_nvram, p_state = 0, p_cb = True, p_evts = [], p_notified = [], pflash = demo_store\<rparr>"

lemma demo_prov_good: "creds_good (\<lambda>v. v) demo_nvs (pflash demo_prov)"
  using demo_nvs_laws by (simp add: creds_good_def demo_prov_def demo_store_def)

lemma provision_roundtrip_witness:
  "\<exists>d f. app_nvram_load demo_nvs zero_nvram (nvs_reboot (pflash (snd (provision demo_nvs
       (str ''home'') (str ''secret'') (str ''WPA2'') (str ''10.0.0.1'') 5000 demo_prov)))) = (NVRAM_OK, d, f) \<and>
     cstring (ssid d) = str ''home'' \<and> nport d = 5000"
proof -
  have w: "\<forall>i d v. 0 \<le> fst (nvs_write demo_nvs i d v)" by (simp add: demo_nvs_def)
  have c: "creds_fit (str ''home'') (str ''secret'') (str ''WPA2'') (str ''10.0.0.1'') 5000"
    by (simp add: creds_fit_def c8_def)
  obtain r s' where p: "provision demo_nvs (str ''home'') (str ''secret'') (str ''WPA2'') (str ''10.0.0.1'') 5000 demo_prov = (r, s')"
    by force
  obtain f where m: "app_nvs_init demo_nvs (nvs_reboot (pflash s')) = (0, f)"
    by (simp add: app_nvs_init_def nvs_reboot_def demo_nvs_def)
  from provision_roundtrip [OF demo_prov_good w c p m, of zero_nvram] p show ?thesis by auto
qed

text \<open>A commit of complete staged credentials always answers the write and ends in one of three
  states: INVALID with the store untouched when a field is wrong, IO_ERROR when the store
  refuses, COMMITTED when the store now returns the staged record; a reset empties both.\<close>

theorem prov_commit_outcome:
  assumes "creds_good entry N (pflash s)" "nvram_shape (staging s)" "buf \<noteq> []"
    and "write_commit N 0 buf s = (r, s')"
  shows "(hd buf = 1 \<longrightarrow> r = Inr (length buf) \<and> p_notified s' = p_notified s @ [p_state s'] \<and>
      (if \<not> app_nvram_is_valid (staging s) then p_state s' = PROV_INVALID \<and> pflash s' = pflash s
       else p_state s' = PROV_IO_ERROR \<or> p_state s' = PROV_COMMITTED \<and>
         app_nvram_load N out (pflash s') = (NVRAM_OK, (terminated (staging s))\<lparr>npad := 0\<rparr>, pflash s'))) \<and>
    (hd buf = 0xFF \<longrightarrow> r = Inr (length buf) \<and> p_state s' = PROV_IDLE \<and> staging s' = zero_nvram \<and>
      (fst (app_nvram_reset N (pflash s)) = NVRAM_OK \<longrightarrow>
         fst (app_nvram_load N out (pflash s')) = NVRAM_NO_RECORD)) \<and>
    (hd buf \<noteq> 1 \<and> hd buf \<noteq> 0xFF \<longrightarrow> r = Inl ATT_VALUE_NOT_ALLOWED \<and> s' = s)"
proof -
  have b: "buf ! 0 = hd buf" "\<not> length buf < 1" using assms(3) by (simp_all add: hd_conv_nth)
  obtain rc f where sv: "app_nvram_save N (staging s) (pflash s) = (rc, f)" by force
  obtain rr g where rs: "app_nvram_reset N (pflash s) = (rr, g)" by force
  have l: "app_nvram_load N out f = (NVRAM_OK, (terminated (staging s))\<lparr>npad := 0\<rparr>, f)" if "rc = NVRAM_OK"
    using creds_saved [OF assms(1,2)] sv that creds_loaded by metis
  have "fst (app_nvram_load N out g) = NVRAM_NO_RECORD" if "rr = NVRAM_OK"
    using reset_empties [OF assms(1)] rs that creds_nothing by blast
  then show ?thesis
    using assms(4) b sv rs l by (auto simp: write_commit_def app_prov_set_state_def Let_def split: if_splits)
qed

lemma prov_commit_outcome_witness:
  "p_state (snd (write_commit demo_nvs 0 [1] demo_prov)) = PROV_INVALID"
proof -
  obtain r s' where w: "write_commit demo_nvs 0 [1] demo_prov = (r, s')" by force
  have i: "\<not> app_nvram_is_valid (staging demo_prov)"
    by (simp add: demo_prov_def app_nvram_is_valid_def str_nonempty_within_def cstring_def zero_nvram_def Let_def)
  have sh: "nvram_shape (staging demo_prov)" by (simp add: demo_prov_def nvram_shape_def zero_nvram_def)
  from prov_commit_outcome [OF demo_prov_good sh _ w] i w show ?thesis by simp
qed

subsection \<open>The structure the phone fills\<close>

text \<open>Whatever the phone writes and whatever the flash answers, from the zeroed statics on.\<close>

inductive prov_reach :: "'v nvs_api \<Rightarrow> 'v prov \<Rightarrow> bool" for N where
  boot: "staging s = zero_nvram \<Longrightarrow> p_state s = PROV_IDLE \<Longrightarrow> prov_reach N s"
| init: "prov_reach N s \<Longrightarrow> prov_reach N (snd (app_prov_init N cb s))"
| ssid: "prov_reach N s \<Longrightarrow> prov_reach N (snd (write_ssid off buf s))"
| pass: "prov_reach N s \<Longrightarrow> prov_reach N (snd (write_pass off buf s))"
| sec: "prov_reach N s \<Longrightarrow> prov_reach N (snd (write_sec off buf s))"
| host: "prov_reach N s \<Longrightarrow> prov_reach N (snd (write_host off buf s))"
| port: "prov_reach N s \<Longrightarrow> prov_reach N (snd (write_port off buf s))"
| commit: "prov_reach N s \<Longrightarrow> prov_reach N (snd (write_commit N off buf s))"
| applied: "prov_reach N s \<Longrightarrow> prov_reach N (app_prov_set_state PROV_APPLIED s)"
| elsewhere: "prov_reach N s \<Longrightarrow> prov_reach N (s\<lparr>pflash := f\<rparr>)"

lemma field_length: "write_string_field maxlen off buf = Inr b \<Longrightarrow> length b = maxlen + 1"
  by (auto simp: write_string_field_def split: if_splits)

lemma stage_sel:
  "staging (snd (stage upd buf r s)) = (case r of Inl e \<Rightarrow> staging s | Inr b \<Rightarrow> upd b (staging s))"
  "p_state (snd (stage upd buf r s)) = p_state s"
  by (simp_all add: stage_def split: sum.split)

lemma of_bytes_shape: "length x = 184 \<Longrightarrow> nvram_shape (nvram_of_bytes x)"
  by (simp add: nvram_shape_def nvram_of_bytes_def)

lemma overlay_shape:
  assumes "nvram_shape out"
  shows "nvram_shape (overlay (take 184 b) out)"
proof -
  have "length (take 184 b @ drop (length (take 184 b)) (nvram_bytes out)) = 184"
    using length_nvram_bytes [OF assms] by simp
  then show ?thesis unfolding overlay_def by (rule of_bytes_shape)
qed

lemma load_shape:
  assumes "nvram_shape out" "app_nvram_load N out s = (rc, d, s')"
  shows "nvram_shape d"
  using assms overlay_shape [OF assms(1)] by (auto simp: app_nvram_load_def Let_def split: prod.splits if_splits)

lemma zero_shape [simp]: "nvram_shape zero_nvram"
  by (simp add: nvram_shape_def zero_nvram_def)

lemma commit_sel:
  "nvram_shape (staging s) \<Longrightarrow> nvram_shape (staging (snd (write_commit N off buf s)))"
  "p_state s \<le> 4 \<Longrightarrow> p_state (snd (write_commit N off buf s)) \<le> 4"
  by (auto simp: write_commit_def app_prov_set_state_def Let_def split: prod.splits)

lemma prov_shape: "prov_reach N s \<Longrightarrow> nvram_shape (staging s) \<and> p_state s \<le> 4"
proof (induction rule: prov_reach.induct)
  case (init s cb)
  then show ?case by (auto simp: app_prov_init_def dest: load_shape [OF zero_shape] split: prod.split)
next
  case (port s off buf)
  then show ?case by (simp add: write_port_def nvram_shape_def)
next
  case (commit s off buf)
  then show ?case by (simp add: commit_sel)
next
  case (boot s)
  then show ?case by simp
qed (auto simp: write_ssid_def write_pass_def write_sec_def write_host_def stage_sel nvram_shape_def
    app_prov_set_state_def dest: field_length split: sum.split)

lemma valid_string_ends:
  assumes "str_nonempty_within b m" "length b = Suc m"
  shows "0 \<in> set b"
proof (rule ccontr)
  assume "0 \<notin> set b"
  then have "cstring (take (m + 1) b) = b" using assms(2) by (auto simp: cstring_def takeWhile_eq_all_conv)
  then show False using assms by (simp add: str_nonempty_within_def Let_def)
qed



end
