(* ===== verification/Fds.thy ===== *)
theory Fds
  imports Prelude
begin

text \<open>
  Socket descriptors as the TCP modules use them: the table of open ones, and whether a
  descriptor that is not open has ever been closed (\<open>bad_close\<close>), which on Zephyr hits whatever
  socket the number belongs to by then.
\<close>

record fds =
  open_fds :: "int list"
  bad_close :: bool

definition no_fds :: fds where
  "no_fds = \<lparr>open_fds = [], bad_close = False\<rparr>"

text \<open>The kernel hands out a number that is not in use.\<close>

definition fd_open :: "int \<Rightarrow> fds \<Rightarrow> fds option" where
  "fd_open s t = (if 0 \<le> s \<and> s \<notin> set (open_fds t) then Some (t\<lparr>open_fds := s # open_fds t\<rparr>) else None)"

definition fd_close :: "int \<Rightarrow> fds \<Rightarrow> fds" where
  "fd_close s t = (if s \<in> set (open_fds t) then t\<lparr>open_fds := removeAll s (open_fds t)\<rparr>
     else t\<lparr>bad_close := True\<rparr>)"

lemma fd_open_sel:
  "fd_open s t = Some t' \<Longrightarrow> 0 \<le> s \<and> s \<notin> set (open_fds t) \<and> set (open_fds t') = insert s (set (open_fds t)) \<and>
     bad_close t' = bad_close t"
  by (auto simp: fd_open_def split: if_splits)

lemma fd_close_sel [simp]:
  "set (open_fds (fd_close s t)) = set (open_fds t) - {s}"
  "s \<in> set (open_fds t) \<Longrightarrow> bad_close (fd_close s t) = bad_close t"
  by (auto simp: fd_close_def)

end
