(* ===== verification/TcpClient.thy ===== *)
theory TcpClient
  imports Nvram Fds
begin

text \<open>
  The TCP client \<open>app/tcp/app_tcp_client.c\<close>: the connection task and the functions other threads
  call.  A step is one access to the shared state: a check of \<open>s_running\<close>, a section under
  \<open>s_lock\<close>, a socket call.  An event names the task that moves and what the socket call
  answered; \<open>c_step\<close> is \<open>None\<close> when the event is not possible.  Each start adds a task, as
  \<open>k_thread_create\<close> does, whether or not an earlier one has ended.
\<close>

datatype task_pc = TLoop u32 | TConn int u32 | TUp int | TRecv int | TDown int | TClose int | TDone

record tcp_client =
  c_sock :: int
  c_running :: bool
  c_connected :: bool
  c_cfg :: app_nvram_data
  c_cb :: bool
  c_rx :: "u8 list list"
  c_slept :: "u32 list"
  c_tasks :: "task_pc list"
  c_fds :: fds

definition tcp_client_boot :: tcp_client where
  "tcp_client_boot = \<lparr>c_sock = - 1, c_running = False, c_connected = False, c_cfg = zero_nvram, c_cb = False,
     c_rx = [], c_slept = [], c_tasks = [], c_fds = no_fds\<rparr>"

definition backoff_next :: "u32 \<Rightarrow> u32" where
  "backoff_next cur = (let n = cur * 2 in if 10000 < n then 10000 else n)"

text \<open>The answers of the socket calls.\<close>

datatype c_event = ESocket int | EConnect bool | ELock | ERecv "u8 list" | EClose

fun tcp_task :: "task_pc \<Rightarrow> c_event \<Rightarrow> tcp_client \<Rightarrow> (task_pc \<times> tcp_client) option" where
  "tcp_task (TLoop b) (ESocket s) c =
     (if \<not> c_running c then Some (TDone, c)
      else if s < 0 then Some (TLoop (backoff_next b), c\<lparr>c_slept := c_slept c @ [b]\<rparr>)
      else map_option (\<lambda>t. (TConn s b, c\<lparr>c_fds := t\<rparr>)) (fd_open s (c_fds c)))"
| "tcp_task (TConn s b) (EConnect ok) c =
     (if \<not> ok then Some (TLoop (backoff_next b), c\<lparr>c_fds := fd_close s (c_fds c), c_slept := c_slept c @ [b]\<rparr>)
      else Some (TUp s, c))"
| "tcp_task (TUp s) ELock c = Some (TRecv s, c\<lparr>c_sock := s, c_connected := True\<rparr>)"
| "tcp_task (TRecv s) (ERecv d) c =
     (if d = [] then Some (TDown s, c)
      else Some (TRecv s, if c_cb c then c\<lparr>c_rx := c_rx c @ [take 512 d]\<rparr> else c))"
| "tcp_task (TDown s) ELock c = Some (TClose s, c\<lparr>c_connected := False, c_sock := - 1\<rparr>)"
| "tcp_task (TClose s) EClose c = Some (TLoop 500, c\<lparr>c_fds := fd_close s (c_fds c)\<rparr>)"
| "tcp_task pc e c = None"

definition app_tcp_client_start :: "app_nvram_data option \<Rightarrow> bool \<Rightarrow> bool \<Rightarrow> tcp_client \<Rightarrow> int \<times> tcp_client" where
  "app_tcp_client_start cfg cb created c = (case cfg of None \<Rightarrow> (- 1, c) | Some d \<Rightarrow>
     if c_running c then (0, c)
     else let c = c\<lparr>c_cfg := d, c_cb := cb, c_running := True\<rparr> in
       if \<not> created then (- 3, c\<lparr>c_running := False\<rparr>)
       else (0, c\<lparr>c_tasks := c_tasks c @ [TLoop 500]\<rparr>))"

text \<open>\<open>snd_rc\<close> is what \<open>zsock_send\<close> answers.\<close>

definition app_tcp_client_send :: "int \<Rightarrow> tcp_client \<Rightarrow> int" where
  "app_tcp_client_send snd_rc c = (if \<not> c_connected c \<or> c_sock c < 0 then - 1 else snd_rc)"

definition stop_flag :: "tcp_client \<Rightarrow> tcp_client" where
  "stop_flag c = c\<lparr>c_running := False\<rparr>"

definition stop_close :: "tcp_client \<Rightarrow> tcp_client" where
  "stop_close c = (if 0 \<le> c_sock c
     then c\<lparr>c_fds := fd_close (c_sock c) (c_fds c), c_sock := - 1, c_connected := False\<rparr> else c)"

definition app_tcp_client_stop :: "tcp_client \<Rightarrow> tcp_client" where
  "app_tcp_client_stop c = stop_close (stop_flag c)"

definition app_tcp_client_is_connected :: "tcp_client \<Rightarrow> bool" where
  "app_tcp_client_is_connected c = c_connected c"

subsection \<open>Interleavings\<close>

datatype c_label = CTask nat c_event | CStart app_nvram_data bool bool | CStopFlag | CStopClose

fun c_step :: "c_label \<Rightarrow> tcp_client \<Rightarrow> tcp_client option" where
  "c_step (CTask i e) c =
     (if i < length (c_tasks c)
      then map_option (\<lambda>(pc, c). c\<lparr>c_tasks := (c_tasks c)[i := pc]\<rparr>) (tcp_task (c_tasks c ! i) e c)
      else None)"
| "c_step (CStart d cb created) c = Some (snd (app_tcp_client_start (Some d) cb created c))"
| "c_step CStopFlag c = Some (stop_flag c)"
| "c_step CStopClose c = Some (stop_close c)"

fun c_run :: "c_label list \<Rightarrow> tcp_client \<Rightarrow> tcp_client option" where
  "c_run [] c = Some c"
| "c_run (l # ls) c = Option.bind (c_step l c) (c_run ls)"

text \<open>In every interleaving the connected flag says that there is a socket to send on, and the
  waits stay between half a second and ten.\<close>

definition pc_ok :: "task_pc \<Rightarrow> bool" where
  "pc_ok pc = (case pc of TLoop b \<Rightarrow> 500 \<le> b \<and> b \<le> 10000 | TConn s b \<Rightarrow> 0 \<le> s \<and> 500 \<le> b \<and> b \<le> 10000
     | TUp s \<Rightarrow> 0 \<le> s | _ \<Rightarrow> True)"

definition client_inv :: "tcp_client \<Rightarrow> bool" where
  "client_inv c \<longleftrightarrow> (c_connected c \<longleftrightarrow> 0 \<le> c_sock c) \<and> (\<forall>pc \<in> set (c_tasks c). pc_ok pc) \<and>
     (\<forall>b \<in> set (c_slept c). 500 \<le> b \<and> b \<le> 10000) \<and> (\<forall>d \<in> set (c_rx c). 0 < length d \<and> length d \<le> 512)"

lemma backoff_next_bounds: "500 \<le> b \<Longrightarrow> b \<le> 10000 \<Longrightarrow> 500 \<le> backoff_next b \<and> backoff_next b \<le> 10000"
proof -
  assume b: "500 \<le> b" "b \<le> 10000"
  then have "unat b \<le> 10000" "500 \<le> unat b" by (simp_all add: word_le_nat_alt)
  then have "unat (b * 2) = unat b * 2" by (simp add: unat_word_ariths)
  then have "500 \<le> b * 2" using b by (simp add: word_le_nat_alt)
  then show ?thesis by (auto simp: backoff_next_def Let_def not_less)
qed

lemma tcp_task_ok:
  assumes "tcp_task pc e c = Some (pc', c')" "client_inv c" "pc_ok pc"
  shows "client_inv c' \<and> pc_ok pc' \<and> c_tasks c' = c_tasks c"
  using assms
  by (cases "(pc, e, c)" rule: tcp_task.cases)
     (auto simp: client_inv_def pc_ok_def backoff_next_bounds fd_open_def split: if_splits)

lemma client_inv_step: "c_step l c = Some c' \<Longrightarrow> client_inv c \<Longrightarrow> client_inv c'"
proof (induction l c rule: c_step.induct)
  case (1 i e c)
  then obtain pc c1 where t: "i < length (c_tasks c)" "tcp_task (c_tasks c ! i) e c = Some (pc, c1)"
    "c' = c1\<lparr>c_tasks := (c_tasks c1)[i := pc]\<rparr>" by (auto split: if_splits)
  have "pc_ok (c_tasks c ! i)" using 1(2) t(1) by (simp add: client_inv_def)
  from tcp_task_ok [OF t(2) 1(2) this] t(3) show ?case
    by (auto simp: client_inv_def dest!: set_update_subset_insert [THEN subsetD])
next
  case (2 d cb created c)
  then show ?case
    by (auto simp: app_tcp_client_start_def client_inv_def pc_ok_def Let_def split: if_splits)
qed (auto simp: stop_flag_def stop_close_def client_inv_def split: if_splits)

lemma client_inv_run: "c_run ls c = Some c' \<Longrightarrow> client_inv c \<Longrightarrow> client_inv c'"
  by (induction ls arbitrary: c) (auto simp: bind_eq_Some_conv dest: client_inv_step)

subsection \<open>Properties\<close>

text \<open>In every interleaving of the connection tasks with starts and stops, the client reports
  connected exactly when there is a socket to send on, every wait before a retry is between half
  a second and ten, and the callback gets 1 to 512 bytes.\<close>

theorem tcp_client_inv:
  assumes "c_run ls tcp_client_boot = Some c"
  shows "(app_tcp_client_is_connected c \<longleftrightarrow> 0 \<le> c_sock c) \<and>
    (app_tcp_client_send n c \<noteq> - 1 \<longrightarrow> 0 \<le> c_sock c) \<and>
    (\<forall>b \<in> set (c_slept c). 500 \<le> b \<and> b \<le> 10000) \<and> (\<forall>d \<in> set (c_rx c). 0 < length d \<and> length d \<le> 512)"
proof -
  have "client_inv tcp_client_boot" by (simp add: client_inv_def tcp_client_boot_def)
  from client_inv_run [OF assms this] show ?thesis
    by (auto simp: client_inv_def app_tcp_client_is_connected_def app_tcp_client_send_def)
qed

definition demo_connect :: "c_label list" where
  "demo_connect = [CStart zero_nvram True True, CTask 0 (ESocket (- 1)), CTask 0 (ESocket 7), CTask 0 (EConnect True),
     CTask 0 ELock, CTask 0 (ERecv [1, 2])]"

lemma demo_connected:
  "c_run demo_connect tcp_client_boot = Some \<lparr>c_sock = 7, c_running = True, c_connected = True, c_cfg = zero_nvram,
     c_cb = True, c_rx = [[1, 2]], c_slept = [500], c_tasks = [TRecv 7], c_fds = \<lparr>open_fds = [7], bad_close = False\<rparr>\<rparr>"
  by (simp add: demo_connect_def tcp_client_boot_def app_tcp_client_start_def no_fds_def fd_open_def Let_def)

lemma tcp_client_inv_witness:
  "\<exists>c. c_run demo_connect tcp_client_boot = Some c \<and> app_tcp_client_is_connected c \<and> 0 \<le> c_sock c"
  using tcp_client_inv [OF demo_connected] demo_connected by (auto simp: app_tcp_client_is_connected_def)

text \<open>C26: stopping an established connection always closes its descriptor twice: once by the stop and
  again by the task when its receive returns, although the number may belong to another socket
  by then.\<close>

theorem stop_closes_twice:
  assumes "i < length (c_tasks c)" "c_tasks c ! i = TRecv s" "c_sock c = s" "0 \<le> s"
  shows "\<exists>c'. c_run [CStopFlag, CStopClose, CTask i (ERecv []), CTask i ELock, CTask i EClose] c = Some c' \<and>
    bad_close (c_fds c') \<and> \<not> c_connected c' \<and> c_sock c' = - 1 \<and> c_tasks c' ! i = TLoop 500"
  using assms by (simp add: stop_flag_def stop_close_def) (simp add: fd_close_def)

lemma stop_closes_twice_witness:
  "\<exists>c c'. c_run demo_connect tcp_client_boot = Some c \<and>
     c_run [CStopFlag, CStopClose, CTask 0 (ERecv []), CTask 0 ELock, CTask 0 EClose] c = Some c' \<and> bad_close (c_fds c')"
proof -
  obtain c where c: "c_run demo_connect tcp_client_boot = Some c" "c_tasks c = [TRecv 7]" "c_sock c = 7"
    using demo_connected by simp
  show ?thesis using stop_closes_twice [of 0 c 7] c by auto
qed

text \<open>A start soon after a stop: the old task still waits to retry and runs on beside the new one,
  on the thread object and the stack the new one was given.\<close>

lemma restart_overlaps:
  "\<exists>c. c_run [CStart d cb True, CTask 0 (ESocket (- 1)), CStopFlag, CStopClose, CStart d cb True] tcp_client_boot = Some c \<and>
    c_tasks c = [TLoop 1000, TLoop 500] \<and> c_running c"
  by (simp add: tcp_client_boot_def app_tcp_client_start_def stop_flag_def stop_close_def backoff_next_def Let_def)

end
