(* ===== verification/TcpServer.thy ===== *)
theory TcpServer
  imports Fds
begin

text \<open>
  The TCP server \<open>app/tcp/app_tcp_server.c\<close>, in the same style: listening, accepting, serving one
  client, and the functions other threads call, interleaved at the accesses to the shared state.
\<close>

datatype srv_pc = SLoop | SBind int | SListen int | SReady int | SAccept int | SServe int int | SRecv int int
  | SClientEnd int | SListenEnd | SDone

record tcp_server =
  v_listen :: int
  v_client :: int
  v_running :: bool
  v_connected :: bool
  v_port :: u16
  v_cb :: bool
  v_rx :: "u8 list list"
  v_slept :: "nat list"
  v_tasks :: "srv_pc list"
  v_fds :: fds

definition tcp_server_boot :: tcp_server where
  "tcp_server_boot = \<lparr>v_listen = - 1, v_client = - 1, v_running = False, v_connected = False, v_port = 0,
     v_cb = False, v_rx = [], v_slept = [], v_tasks = [], v_fds = no_fds\<rparr>"

datatype v_event = VSocket int | VResult bool | VLock | VAccept int | VRecv "u8 list"

text \<open>A failed \<open>build_listening_socket\<close> waits a second and tries again.\<close>

definition srv_retry :: "tcp_server \<Rightarrow> srv_pc \<times> tcp_server" where
  "srv_retry v = (SLoop, v\<lparr>v_slept := v_slept v @ [1000]\<rparr>)"

fun srv_task :: "srv_pc \<Rightarrow> v_event \<Rightarrow> tcp_server \<Rightarrow> (srv_pc \<times> tcp_server) option" where
  "srv_task SLoop (VSocket s) v =
     (if \<not> v_running v then Some (SDone, v)
      else if s < 0 then Some (srv_retry v)
      else map_option (\<lambda>t. (SBind s, v\<lparr>v_fds := t\<rparr>)) (fd_open s (v_fds v)))"
| "srv_task (SBind s) (VResult ok) v =
     (if ok then Some (SListen s, v) else Some (srv_retry (v\<lparr>v_fds := fd_close s (v_fds v)\<rparr>)))"
| "srv_task (SListen s) (VResult ok) v =
     (if ok then Some (SReady s, v) else Some (srv_retry (v\<lparr>v_fds := fd_close s (v_fds v)\<rparr>)))"
| "srv_task (SReady s) VLock v = Some (SAccept s, v\<lparr>v_listen := s\<rparr>)"
| "srv_task (SAccept s) (VAccept a) v =
     (if \<not> v_running v then Some (SListenEnd, v)
      else if a < 0 then Some (SListenEnd, v)
      else map_option (\<lambda>t. (SServe s a, v\<lparr>v_fds := t\<rparr>)) (fd_open a (v_fds v)))"
| "srv_task (SServe s a) VLock v = Some (SRecv s a, v\<lparr>v_client := a, v_connected := True\<rparr>)"
| "srv_task (SRecv s a) (VRecv d) v =
     (if d = [] then Some (SClientEnd s, v)
      else Some (SRecv s a, if v_cb v then v\<lparr>v_rx := v_rx v @ [take 512 d]\<rparr> else v))"
| "srv_task (SClientEnd s) VLock v =
     Some (SAccept s, if 0 \<le> v_client v
       then v\<lparr>v_connected := False, v_fds := fd_close (v_client v) (v_fds v), v_client := - 1\<rparr>
       else v\<lparr>v_connected := False\<rparr>)"
| "srv_task SListenEnd VLock v =
     (let v = (if 0 \<le> v_listen v then v\<lparr>v_fds := fd_close (v_listen v) (v_fds v), v_listen := - 1\<rparr> else v)
      in Some (SLoop, if v_running v then v\<lparr>v_slept := v_slept v @ [500]\<rparr> else v))"
| "srv_task pc e v = None"

definition app_tcp_server_start :: "u16 \<Rightarrow> bool \<Rightarrow> bool \<Rightarrow> tcp_server \<Rightarrow> int \<times> tcp_server" where
  "app_tcp_server_start p cb created v =
     (if p = 0 then (- 1, v)
      else if v_running v then (0, v)
      else let v = v\<lparr>v_port := p, v_cb := cb, v_running := True\<rparr> in
        if \<not> created then (- 3, v\<lparr>v_running := False\<rparr>)
        else (0, v\<lparr>v_tasks := v_tasks v @ [SLoop]\<rparr>))"

definition app_tcp_server_send :: "int \<Rightarrow> tcp_server \<Rightarrow> int" where
  "app_tcp_server_send snd_rc v = (if \<not> v_connected v \<or> v_client v < 0 then - 1 else snd_rc)"

definition srv_stop_flag :: "tcp_server \<Rightarrow> tcp_server" where
  "srv_stop_flag v = v\<lparr>v_running := False\<rparr>"

definition srv_stop_close :: "tcp_server \<Rightarrow> tcp_server" where
  "srv_stop_close v =
     (let v = (if 0 \<le> v_client v
               then v\<lparr>v_fds := fd_close (v_client v) (v_fds v), v_client := - 1, v_connected := False\<rparr> else v)
      in if 0 \<le> v_listen v then v\<lparr>v_fds := fd_close (v_listen v) (v_fds v), v_listen := - 1\<rparr> else v)"

definition app_tcp_server_stop :: "tcp_server \<Rightarrow> tcp_server" where
  "app_tcp_server_stop v = srv_stop_close (srv_stop_flag v)"

definition app_tcp_server_is_client_connected :: "tcp_server \<Rightarrow> bool" where
  "app_tcp_server_is_client_connected v = v_connected v"

subsection \<open>Interleavings\<close>

datatype v_label = VTask nat v_event | VStart u16 bool bool | VStopFlag | VStopClose

fun v_step :: "v_label \<Rightarrow> tcp_server \<Rightarrow> tcp_server option" where
  "v_step (VTask i e) v =
     (if i < length (v_tasks v)
      then map_option (\<lambda>(pc, v). v\<lparr>v_tasks := (v_tasks v)[i := pc]\<rparr>) (srv_task (v_tasks v ! i) e v)
      else None)"
| "v_step (VStart p cb created) v = Some (snd (app_tcp_server_start p cb created v))"
| "v_step VStopFlag v = Some (srv_stop_flag v)"
| "v_step VStopClose v = Some (srv_stop_close v)"

inductive v_reach :: "tcp_server \<Rightarrow> bool" where
  boot: "v_reach tcp_server_boot"
| step: "v_reach v \<Longrightarrow> v_step l v = Some v' \<Longrightarrow> v_reach v'"

text \<open>A descriptor the task still has to hand over is its own; everything else is owned by the two
  shared variables.\<close>

fun held_fd :: "srv_pc \<Rightarrow> int option" where
  "held_fd (SBind s) = Some s"
| "held_fd (SListen s) = Some s"
| "held_fd (SReady s) = Some s"
| "held_fd (SServe s a) = Some a"
| "held_fd pc = None"

definition owns :: "(nat \<Rightarrow> int option) \<Rightarrow> int \<Rightarrow> int \<Rightarrow> int set \<Rightarrow> bool" where
  "owns h l c opn \<longleftrightarrow> (0 \<le> l \<longrightarrow> l \<in> opn) \<and> (0 \<le> c \<longrightarrow> c \<in> opn \<and> c \<noteq> l) \<and>
     (\<forall>i s. h i = Some s \<longrightarrow> 0 \<le> s \<and> s \<in> opn \<and> s \<noteq> l \<and> s \<noteq> c) \<and>
     (\<forall>i j s. h i = Some s \<longrightarrow> h j = Some s \<longrightarrow> i = j)"

lemma owns_same: "owns h l c opn \<Longrightarrow> h i = x \<Longrightarrow> owns (h(i := x)) l c opn"
  by (auto simp: owns_def)

lemma owns_open:
  "owns h l c opn \<Longrightarrow> 0 \<le> s \<Longrightarrow> s \<notin> opn \<Longrightarrow> owns (h(i := Some s)) l c (insert s opn)"
  unfolding owns_def by (auto simp: fun_upd_apply)

lemma owns_release: "owns h l c opn \<Longrightarrow> h i = Some s \<Longrightarrow> owns (h(i := None)) l c (opn - {s})"
  unfolding owns_def by (auto simp: fun_upd_apply)

lemma owns_listen: "owns h l c opn \<Longrightarrow> h i = Some s \<Longrightarrow> owns (h(i := None)) s c opn"
  unfolding owns_def by (auto simp: fun_upd_apply)

lemma owns_client: "owns h l c opn \<Longrightarrow> h i = Some s \<Longrightarrow> owns (h(i := None)) l s opn"
  unfolding owns_def by (auto simp: fun_upd_apply)

lemma owns_close_client: "owns h l c opn \<Longrightarrow> 0 \<le> c \<Longrightarrow> owns h l (- 1) (opn - {c})"
  unfolding owns_def by fastforce

lemma owns_close_listen: "owns h l c opn \<Longrightarrow> 0 \<le> l \<Longrightarrow> owns h (- 1) c (opn - {l})"
  unfolding owns_def by fastforce

definition hold :: "tcp_server \<Rightarrow> nat \<Rightarrow> int option" where
  "hold v i = (if i < length (v_tasks v) then held_fd (v_tasks v ! i) else None)"

lemma hold_update [simp]:
  "i < length (v_tasks v) \<Longrightarrow> hold (v\<lparr>v_tasks := (v_tasks v)[i := pc]\<rparr>) = (hold v)(i := held_fd pc)"
  by (auto simp: hold_def fun_eq_iff)

lemma hold_fields [simp]: "hold (v\<lparr>v_fds := t\<rparr>) = hold v" "hold (v\<lparr>v_client := a\<rparr>) = hold v"
  "hold (v\<lparr>v_listen := a\<rparr>) = hold v" "hold (v\<lparr>v_connected := b\<rparr>) = hold v"
  by (simp_all add: hold_def fun_eq_iff)

definition server_inv :: "tcp_server \<Rightarrow> bool" where
  "server_inv v \<longleftrightarrow> \<not> bad_close (v_fds v) \<and>
     owns (hold v) (v_listen v) (v_client v) (set (open_fds (v_fds v)))"

text \<open>A task step, seen from the descriptors: \<open>h\<close> is what the task held.\<close>

definition task_keeps :: "nat \<Rightarrow> srv_pc \<Rightarrow> tcp_server \<Rightarrow> srv_pc \<times> tcp_server \<Rightarrow> bool" where
  "task_keeps i pc v r \<longleftrightarrow> (case r of (pc', v') \<Rightarrow> v_tasks v' = v_tasks v \<and> \<not> bad_close (v_fds v') \<and>
     (\<forall>h. h i = held_fd pc \<longrightarrow> owns h (v_listen v) (v_client v) (set (open_fds (v_fds v))) \<longrightarrow>
        owns (h(i := held_fd pc')) (v_listen v') (v_client v') (set (open_fds (v_fds v')))))"

lemma srv_task_keeps:
  assumes "\<not> bad_close (v_fds v)" "owns h0 (v_listen v) (v_client v) (set (open_fds (v_fds v)))"
    and "h0 i = held_fd pc" "srv_task pc e v = Some r"
  shows "task_keeps i pc v r"
proof -
  have mem: "held_fd pc = Some s \<Longrightarrow> s \<in> set (open_fds (v_fds v))"
    "0 \<le> v_client v \<Longrightarrow> v_client v \<in> set (open_fds (v_fds v))"
    "0 \<le> v_listen v \<Longrightarrow> v_listen v \<in> set (open_fds (v_fds v))" for s
    using assms(2,3) by (auto simp: owns_def)
  show ?thesis
    using assms(1,4) mem
    by (cases pc; cases e)
       (auto simp: task_keeps_def srv_retry_def Let_def owns_same owns_open owns_release owns_listen owns_client
         owns_close_client owns_close_listen dest!: fd_open_sel split: if_splits)
qed

lemma server_inv_step:
  assumes "server_inv v" "v_step l v = Some v'"
  shows "server_inv v'"
proof (cases l)
  case (VTask i e)
  then obtain pc v1 where t: "i < length (v_tasks v)" "srv_task (v_tasks v ! i) e v = Some (pc, v1)"
    "v' = v1\<lparr>v_tasks := (v_tasks v1)[i := pc]\<rparr>" using assms(2) by (auto split: if_splits)
  have h: "hold v i = held_fd (v_tasks v ! i)" using t(1) by (simp add: hold_def)
  have I: "\<not> bad_close (v_fds v)" "owns (hold v) (v_listen v) (v_client v) (set (open_fds (v_fds v)))"
    using assms(1) by (simp_all add: server_inv_def)
  have k: "v_tasks v1 = v_tasks v" "\<not> bad_close (v_fds v1)"
    "owns ((hold v)(i := held_fd pc)) (v_listen v1) (v_client v1) (set (open_fds (v_fds v1)))"
    using srv_task_keeps [OF I h t(2)] h I(2) by (simp_all add: task_keeps_def)
  have "hold v' = (hold v)(i := held_fd pc)" using t(1,3) k(1) by (auto simp: hold_def fun_eq_iff)
  then show ?thesis using k t(3) by (simp add: server_inv_def)
next
  case (VStart p cb created)
  have "hold (v\<lparr>v_port := p, v_cb := cb, v_running := True, v_tasks := v_tasks v @ [SLoop]\<rparr>) = hold v"
    by (auto simp: hold_def fun_eq_iff nth_append less_Suc_eq)
  moreover have "hold (v\<lparr>v_port := p, v_cb := cb, v_running := False\<rparr>) = hold v" by (simp add: hold_def fun_eq_iff)
  ultimately show ?thesis using assms VStart
    by (auto simp: app_tcp_server_start_def Let_def server_inv_def split: if_splits)
next
  case VStopFlag
  have "hold (v\<lparr>v_running := False\<rparr>) = hold v" by (simp add: hold_def fun_eq_iff)
  then show ?thesis using assms VStopFlag by (auto simp: srv_stop_flag_def server_inv_def)
next
  case VStopClose
  have o: "owns (hold v) (v_listen v) (v_client v) (set (open_fds (v_fds v)))" "\<not> bad_close (v_fds v)"
    using assms(1) by (simp_all add: server_inv_def)
  have m: "0 \<le> v_client v \<Longrightarrow> v_client v \<in> set (open_fds (v_fds v)) \<and> v_client v \<noteq> v_listen v"
    "0 \<le> v_listen v \<Longrightarrow> v_listen v \<in> set (open_fds (v_fds v))"
    using o(1) by (auto simp: owns_def)
  show ?thesis
    using assms(2) VStopClose o m owns_close_client [OF o(1)] owns_close_listen [OF o(1)]
      owns_close_listen [OF owns_close_client [OF o(1)]]
    by (cases "0 \<le> v_client v"; cases "0 \<le> v_listen v")
       (clarsimp simp: server_inv_def srv_stop_close_def)+
qed

subsection \<open>Property\<close>

text \<open>C17: in every interleaving of the server tasks with starts and stops, no descriptor is ever closed
  that is not open, and the shared descriptors are open ones, so a send never uses a closed
  socket.\<close>

theorem server_closes_once:
  assumes "v_reach v"
  shows "\<not> bad_close (v_fds v) \<and> (0 \<le> v_listen v \<longrightarrow> v_listen v \<in> set (open_fds (v_fds v))) \<and>
    (app_tcp_server_send n v \<noteq> - 1 \<longrightarrow> v_client v \<in> set (open_fds (v_fds v)))"
proof -
  have "server_inv v" using assms
  proof (induction rule: v_reach.induct)
    case boot
    then show ?case by (simp add: server_inv_def tcp_server_boot_def no_fds_def owns_def hold_def)
  next
    case (step v l v')
    then show ?case using server_inv_step by blast
  qed
  then show ?thesis by (auto simp: server_inv_def owns_def app_tcp_server_send_def)
qed

definition demo_serve :: "v_label list" where
  "demo_serve = [VStart 5000 True True, VTask 0 (VSocket 3), VTask 0 (VResult True), VTask 0 (VResult True),
     VTask 0 VLock, VTask 0 (VAccept 4), VTask 0 VLock, VStopFlag, VStopClose, VTask 0 (VRecv []), VTask 0 VLock]"

fun v_run :: "v_label list \<Rightarrow> tcp_server \<Rightarrow> tcp_server option" where
  "v_run [] v = Some v"
| "v_run (l # ls) v = Option.bind (v_step l v) (v_run ls)"

lemma v_run_reach: "v_reach v \<Longrightarrow> v_run ls v = Some v' \<Longrightarrow> v_reach v'"
  by (induction ls arbitrary: v) (auto simp: bind_eq_Some_conv intro: v_reach.step)

lemma server_closes_once_witness:
  "\<exists>v. v_run demo_serve tcp_server_boot = Some v \<and> \<not> bad_close (v_fds v)"
proof -
  obtain v where v: "v_run demo_serve tcp_server_boot = Some v"
    by (simp add: demo_serve_def tcp_server_boot_def app_tcp_server_start_def no_fds_def fd_open_def
        srv_stop_flag_def srv_stop_close_def Let_def)
  show ?thesis using server_closes_once [OF v_run_reach [OF v_reach.boot v]] v by blast
qed

end
