(* ===== verification/Wifi.thy ===== *)
theory Wifi
  imports Nvram
begin

text \<open>
  The Wi-Fi manager \<open>app/wifi/app_wifi.c\<close>: start-up, connecting with the two bands in turn, the
  events of the network stack and the work items.  The stack's answers are arguments.  What is
  scheduled (retry work, connect timeout, ready fallback) is part of the state; the requests to
  the stack and the events given to the callback are logged.
\<close>

datatype wifi_evt = WIFI_READY | WIFI_CONNECTED | WIFI_DISCONNECTED | WIFI_AUTH_FAILED | WIFI_INIT_FAILED

datatype wifi_band = BAND_5_GHZ | BAND_2_4_GHZ

datatype wifi_security = SEC_NONE | SEC_PSK | SEC_SAE

datatype wifi_req = ReqConnect cstr wifi_band wifi_security "cstr option" | ReqDisconnect | ReqPsOff | ReqIfUp

record wifi =
  w_cb :: bool
  w_started :: bool
  w_connected :: bool
  w_iface :: bool
  w_band :: int
  w_retry_idx :: int
  w_retry_cfg :: app_nvram_data
  w_retry_pending :: bool
  w_timeout_on :: bool
  w_ready_pending :: bool
  w_evts :: "wifi_evt list"
  w_reqs :: "wifi_req list"

definition wifi_boot :: wifi where
  "wifi_boot = \<lparr>w_cb = False, w_started = False, w_connected = False, w_iface = False, w_band = 0,
     w_retry_idx = 0, w_retry_cfg = zero_nvram, w_retry_pending = False, w_timeout_on = False,
     w_ready_pending = False, w_evts = [], w_reqs = []\<rparr>"

definition k_band_seq :: "wifi_band list" where
  "k_band_seq = [BAND_5_GHZ, BAND_2_4_GHZ]"

definition w_emit :: "wifi_evt \<Rightarrow> wifi \<Rightarrow> wifi" where
  "w_emit e w = (if w_cb w then w\<lparr>w_evts := w_evts w @ [e]\<rparr> else w)"

definition w_request :: "wifi_req \<Rightarrow> wifi \<Rightarrow> wifi" where
  "w_request r w = w\<lparr>w_reqs := w_reqs w @ [r]\<rparr>"

definition start_connect_timeout :: "wifi \<Rightarrow> wifi" where
  "start_connect_timeout w = w\<lparr>w_timeout_on := True\<rparr>"

definition cancel_connect_timeout :: "wifi \<Rightarrow> wifi" where
  "cancel_connect_timeout w = w\<lparr>w_timeout_on := False\<rparr>"

definition next_band :: "wifi \<Rightarrow> wifi" where
  "next_band w = w\<lparr>w_retry_idx := w_retry_idx w + 1, w_retry_pending := True\<rparr>"

definition connect_timeout_fn :: "wifi \<Rightarrow> wifi" where
  "connect_timeout_fn w = next_band (w_request ReqDisconnect w)"

definition connect_security :: "app_nvram_data \<Rightarrow> (wifi_security \<times> cstr option) option" where
  "connect_security d =
     (if cstring (security d) = str ''OPEN'' then Some (SEC_NONE, None)
      else if cstring (security d) = str ''WPA2'' then Some (SEC_PSK, Some (cstring (password d)))
      else if cstring (security d) = str ''WPA2_WPA3'' \<or> cstring (security d) = str ''WPA3_SAE''
        then Some (SEC_SAE, Some (cstring (password d)))
      else None)"

text \<open>\<open>rc\<close> is the answer to the connect request.\<close>

definition retry_work_fn :: "int \<Rightarrow> wifi \<Rightarrow> wifi" where
  "retry_work_fn rc w =
     (if 2 \<le> w_retry_idx w then w_emit WIFI_AUTH_FAILED w
      else let band = k_band_seq ! nat (w_retry_idx w) in
        (case connect_security (w_retry_cfg w) of
           None \<Rightarrow> w_emit WIFI_AUTH_FAILED w
         | Some (sec, psk) \<Rightarrow>
             let w = w_request (ReqConnect (cstring (ssid (w_retry_cfg w))) band sec psk) w in
             if rc \<noteq> 0 then next_band w else start_connect_timeout w))"

definition disable_power_save :: "wifi \<Rightarrow> wifi" where
  "disable_power_save w = w_request ReqPsOff w"

text \<open>\<open>band\<close>: the interface status, or nothing when the stack has none.\<close>

definition log_connection_status :: "int option \<Rightarrow> wifi \<Rightarrow> wifi" where
  "log_connection_status band w = (case band of None \<Rightarrow> w | Some b \<Rightarrow> w\<lparr>w_band := b\<rparr>)"

definition ready_work_fn :: "wifi \<Rightarrow> wifi" where
  "ready_work_fn w = (if w_started w then w else w_emit WIFI_READY (w\<lparr>w_started := True\<rparr>))"

definition iface_event_handler :: "bool \<Rightarrow> bool \<Rightarrow> wifi \<Rightarrow> wifi" where
  "iface_event_handler ours up w =
     (if \<not> ours then w
      else if up \<and> \<not> w_started w then w_emit WIFI_READY (w\<lparr>w_ready_pending := False, w_started := True\<rparr>)
      else w)"

datatype conn_status = ConnSuccess | ConnWrongPassword | ConnFail

datatype mgmt_event = ConnectResult "conn_status option" "int option" | DisconnectResult | ScanDone

text \<open>A connect result carries its status, if any, and the band the interface status reports then.\<close>

fun wifi_mgmt_event_handler :: "mgmt_event \<Rightarrow> wifi \<Rightarrow> wifi" where
  "wifi_mgmt_event_handler (ConnectResult ws band) w =
     (if ws \<noteq> Some ConnSuccess then
        let w = cancel_connect_timeout w in
        if ws = Some ConnWrongPassword then w_emit WIFI_AUTH_FAILED w else next_band w
      else log_connection_status band (disable_power_save ((cancel_connect_timeout w)\<lparr>w_connected := True\<rparr>)))"
| "wifi_mgmt_event_handler DisconnectResult w =
     (if w_connected w then w_emit WIFI_DISCONNECTED (w\<lparr>w_connected := False, w_band := 0\<rparr>) else w)"
| "wifi_mgmt_event_handler ScanDone w = w"

definition ipv4_event_handler :: "bool \<Rightarrow> wifi \<Rightarrow> wifi" where
  "ipv4_event_handler bound w = (if bound then w_emit WIFI_CONNECTED w else w)"

definition app_wifi_init :: "bool \<Rightarrow> bool \<Rightarrow> wifi \<Rightarrow> int \<times> wifi" where
  "app_wifi_init cb iface w =
     (let w = w\<lparr>w_cb := cb, w_started := False, w_connected := False, w_iface := iface\<rparr> in
      if \<not> iface then (- 1, w)
      else (0, (w_request ReqIfUp (w\<lparr>w_retry_pending := False, w_timeout_on := False\<rparr>))\<lparr>w_ready_pending := True\<rparr>))"

definition app_wifi_connect :: "app_nvram_data option \<Rightarrow> wifi \<Rightarrow> int \<times> wifi" where
  "app_wifi_connect cfg w = (case cfg of None \<Rightarrow> (- 1, w) | Some d \<Rightarrow>
     if \<not> w_started w then (- 2, w)
     else if \<not> w_iface w then (- 3, w)
     else (0, (cancel_connect_timeout w)\<lparr>w_retry_cfg := d, w_retry_idx := 0, w_retry_pending := True\<rparr>))"

definition app_wifi_disconnect :: "int \<Rightarrow> wifi \<Rightarrow> int \<times> wifi" where
  "app_wifi_disconnect rc w =
     (if \<not> w_iface w then (- 1, w)
      else let w = w_request ReqDisconnect ((cancel_connect_timeout w)\<lparr>w_retry_idx := 2, w_connected := False\<rparr>)
        in (if rc = 0 then 0 else - 1, w))"

definition app_wifi_is_connected :: "wifi \<Rightarrow> bool" where
  "app_wifi_is_connected w = w_connected w"

definition app_wifi_get_band :: "wifi \<Rightarrow> int" where
  "app_wifi_get_band w = w_band w"

subsection \<open>Steps\<close>

text \<open>A work item runs only when it is pending, and is no longer pending while it runs.\<close>

datatype wifi_label = WConnect app_nvram_data | WDisconnect int | WRetry int | WTimeout | WReadyTimer
  | WIfUp bool bool | WMgmt mgmt_event | WDhcp bool

fun w_step :: "wifi_label \<Rightarrow> wifi \<Rightarrow> wifi option" where
  "w_step (WConnect d) w = Some (snd (app_wifi_connect (Some d) w))"
| "w_step (WDisconnect rc) w = Some (snd (app_wifi_disconnect rc w))"
| "w_step (WRetry rc) w = (if w_retry_pending w then Some (retry_work_fn rc (w\<lparr>w_retry_pending := False\<rparr>)) else None)"
| "w_step WTimeout w = (if w_timeout_on w then Some (connect_timeout_fn (w\<lparr>w_timeout_on := False\<rparr>)) else None)"
| "w_step WReadyTimer w = (if w_ready_pending w then Some (ready_work_fn (w\<lparr>w_ready_pending := False\<rparr>)) else None)"
| "w_step (WIfUp ours up) w = Some (iface_event_handler ours up w)"
| "w_step (WMgmt e) w = Some (wifi_mgmt_event_handler e w)"
| "w_step (WDhcp b) w = Some (ipv4_event_handler b w)"

fun w_run :: "wifi_label list \<Rightarrow> wifi \<Rightarrow> wifi option" where
  "w_run [] w = Some w"
| "w_run (l # ls) w = Option.bind (w_step l w) (w_run ls)"

lemma w_run_append: "w_run (xs @ ys) w = Option.bind (w_run xs w) (w_run ys)"
  by (induction xs arbitrary: w) (auto simp: bind_eq_Some_conv split: bind_splits)

lemmas wifi_defs = w_emit_def w_request_def start_connect_timeout_def cancel_connect_timeout_def next_band_def
  connect_timeout_fn_def retry_work_fn_def disable_power_save_def log_connection_status_def ready_work_fn_def
  iface_event_handler_def ipv4_event_handler_def app_wifi_connect_def app_wifi_disconnect_def

text \<open>The ways an attempt fails: the request is refused, the result is a failure, nothing happens for
  35 s.  After the result wrong password the band sequence is over.\<close>

datatype attempt = Refused int | Failed "conn_status option" "int option" | TimedOut

fun attempt_ok :: "attempt \<Rightarrow> bool" where
  "attempt_ok (Refused rc) \<longleftrightarrow> rc \<noteq> 0"
| "attempt_ok (Failed ws b) \<longleftrightarrow> ws \<noteq> Some ConnSuccess"
| "attempt_ok TimedOut \<longleftrightarrow> True"

fun attempt_labels :: "attempt \<Rightarrow> wifi_label list" where
  "attempt_labels (Refused rc) = [WRetry rc]"
| "attempt_labels (Failed ws b) = [WRetry 0, WMgmt (ConnectResult ws b)]"
| "attempt_labels TimedOut = [WRetry 0, WTimeout]"

fun wrong_password :: "attempt \<Rightarrow> bool" where
  "wrong_password (Failed ws b) \<longleftrightarrow> ws = Some ConnWrongPassword"
| "wrong_password a \<longleftrightarrow> False"

text \<open>The steps of a connect whose attempts fail as \<open>a\<close> and then \<open>b\<close>: each one goes as far as work is
  scheduled.\<close>

definition failing_connect :: "app_nvram_data \<Rightarrow> attempt \<Rightarrow> attempt \<Rightarrow> int \<Rightarrow> wifi_label list" where
  "failing_connect d a b rc = WConnect d # attempt_labels a @
     (if wrong_password a then [] else attempt_labels b @ (if wrong_password b then [] else [WRetry rc]))"

fun attempt_reqs :: "attempt \<Rightarrow> wifi_req list" where
  "attempt_reqs TimedOut = [ReqDisconnect]"
| "attempt_reqs a = []"

lemma attempt_run:
  assumes "attempt_ok a" "w_retry_pending w" "w_retry_idx w = i" "0 \<le> i" "i < 2"
    and "connect_security (w_retry_cfg w) = Some (sec, psk)" "\<not> w_timeout_on w" "w_cb w"
  shows "w_run (attempt_labels a) w = Some (w\<lparr>w_retry_idx := i + of_bool (\<not> wrong_password a),
    w_retry_pending := \<not> wrong_password a,
    w_evts := w_evts w @ (if wrong_password a then [WIFI_AUTH_FAILED] else []),
    w_reqs := w_reqs w @ [ReqConnect (cstring (ssid (w_retry_cfg w))) (k_band_seq ! nat i) sec psk] @ attempt_reqs a\<rparr>)"
  using assms by (cases a) (auto simp: wifi_defs Let_def)

text \<open>What every step keeps: READY is announced at most once.\<close>

definition wifi_inv :: "wifi \<Rightarrow> bool" where
  "wifi_inv w \<longleftrightarrow> count_list (w_evts w) WIFI_READY \<le> (if w_started w then 1 else 0) \<and> 0 \<le> w_retry_idx w"

lemma wifi_inv_step: "w_step l w = Some w' \<Longrightarrow> wifi_inv w \<Longrightarrow> wifi_inv w'"
proof (induction l w rule: w_step.induct)
  case (3 rc w)
  then show ?case
    by (cases "connect_security (w_retry_cfg w)") (auto simp: wifi_inv_def wifi_defs Let_def split: if_splits)
next
  case (7 e w)
  then show ?case
    by (cases e) (auto simp: wifi_inv_def wifi_defs Let_def split: if_splits option.splits)
qed (auto simp: wifi_inv_def wifi_defs Let_def split: if_splits)

lemma wifi_inv_run: "w_run ls w = Some w' \<Longrightarrow> wifi_inv w \<Longrightarrow> wifi_inv w'"
  by (induction ls arbitrary: w) (auto simp: bind_eq_Some_conv dest: wifi_inv_step)

subsection \<open>Properties\<close>

text \<open>C18: A connect whose attempts all fail.  The device asks for the 5 GHz network with the stored
  name, security and password; when that attempt fails, in any way but a wrong password, it asks
  for the 2.4 GHz network; and a wrong password ends the sequence at the band where it is
  reported, so that after a wrong password at 5 GHz the other band is never tried.  Either way
  the failure is reported exactly once, nothing is left scheduled and the connection flag is
  untouched.\<close>

theorem connect_exhausts_bands:
  assumes "w_started w" "w_iface w" "w_cb w" "connect_security d = Some (sec, psk)" "attempt_ok a" "attempt_ok b"
  shows "\<exists>w'. w_run (failing_connect d a b rc) w = Some w' \<and>
    w_reqs w' = w_reqs w @ [ReqConnect (cstring (ssid d)) BAND_5_GHZ sec psk] @ attempt_reqs a @
      (if wrong_password a then [] else [ReqConnect (cstring (ssid d)) BAND_2_4_GHZ sec psk] @ attempt_reqs b) \<and>
    w_evts w' = w_evts w @ [WIFI_AUTH_FAILED] \<and> \<not> w_retry_pending w' \<and> \<not> w_timeout_on w' \<and>
    w_connected w' = w_connected w"
proof -
  let ?w = "w\<lparr>w_timeout_on := False, w_retry_cfg := d, w_retry_idx := 0, w_retry_pending := True\<rparr>"
  have c: "w_step (WConnect d) w = Some ?w" using assms(1,2) by (simp add: wifi_defs)
  let ?r1 = "w_reqs w @ [ReqConnect (cstring (ssid d)) BAND_5_GHZ sec psk] @ attempt_reqs a"
  note 1 = attempt_run [of a ?w 0 sec psk, simplified]
  show ?thesis
  proof (cases "wrong_password a")
    case True
    then show ?thesis using c 1 assms by (simp add: failing_connect_def k_band_seq_def)
  next
    case False
    let ?w1 = "?w\<lparr>w_retry_idx := 1, w_reqs := ?r1\<rparr>"
    have "w_run (attempt_labels a) ?w = Some ?w1"
      using False 1 assms by (simp add: k_band_seq_def)
    moreover note attempt_run [of b ?w1 1 sec psk, simplified]
    ultimately show ?thesis using c assms False
      by (cases "wrong_password b") (simp_all add: failing_connect_def w_run_append k_band_seq_def wifi_defs)
  qed
qed

definition demo_wifi :: wifi where
  "demo_wifi = wifi_boot\<lparr>w_cb := True, w_iface := True, w_started := True\<rparr>"

lemma connect_exhausts_bands_witness:
  "\<exists>w'. w_run [WConnect (zero_nvram\<lparr>security := str ''OPEN'' @ [0]\<rparr>), WRetry 0, WTimeout, WRetry (- 5), WRetry 0] demo_wifi
      = Some w' \<and> w_evts w' = [WIFI_AUTH_FAILED]"
proof -
  have "connect_security (zero_nvram\<lparr>security := str ''OPEN'' @ [0]\<rparr>) = Some (SEC_NONE, None)"
    by (simp add: connect_security_def cstring_def c8_def)
  moreover have "w_started demo_wifi" "w_iface demo_wifi" "w_cb demo_wifi" "w_evts demo_wifi = []"
    "attempt_ok TimedOut" "attempt_ok (Refused (- 5))"
    by (simp_all add: demo_wifi_def wifi_boot_def)
  moreover have "w_run (failing_connect (zero_nvram\<lparr>security := str ''OPEN'' @ [0]\<rparr>) TimedOut (Refused (- 5)) 0) demo_wifi =
      w_run [WConnect (zero_nvram\<lparr>security := str ''OPEN'' @ [0]\<rparr>), WRetry 0, WTimeout, WRetry (- 5), WRetry 0] demo_wifi"
    by (simp add: failing_connect_def)
  ultimately show ?thesis
    using connect_exhausts_bands [of demo_wifi _ SEC_NONE None TimedOut "Refused (- 5)" 0] by fastforce
qed

end
