(* ===== verification/LedStrip.thy ===== *)
theory LedStrip
  imports Prelude
begin

unbundle bit_operations_syntax

text \<open>
  The LED strip driver \<open>app/leds/led_strip_zephyr.c\<close>: the pixel buffer, the brightness scaler and the
  two bit-banged protocols.  The waveform on the pins is a log of data bits: for SK6812 one entry
  per high/low pulse pair (True is the long high), for APA102 one entry per rising clock edge.
  Each refresh adds one frame to the log.
\<close>

record rgbw =
  ch_r :: u8
  ch_g :: u8
  ch_b :: u8
  ch_w :: u8

definition RGBW :: "u8 \<Rightarrow> u8 \<Rightarrow> u8 \<Rightarrow> u8 \<Rightarrow> rgbw" where
  "RGBW r g b w = \<lparr>ch_r = r, ch_g = g, ch_b = b, ch_w = w\<rparr>"

definition COLOR_OFF :: rgbw where
  "COLOR_OFF = RGBW 0 0 0 0"

datatype strip_type = LED_STRIP_SK6812 | LED_STRIP_APA102

record strip_config =
  cfg_type :: strip_type
  cfg_count :: nat
  cfg_brightness :: u8

text \<open>What the GPIO driver answers while configuring.\<close>

record gpio_answers =
  gpio_ready :: bool
  rc_data :: int
  rc_clk :: int

record strip =
  strip_cfg :: strip_config
  pixels :: "rgbw list"
  brightness :: u8
  strip_inited :: bool
  frames :: "bool list list"

definition strip_boot :: strip where
  "strip_boot = \<lparr>strip_cfg = \<lparr>cfg_type = LED_STRIP_SK6812, cfg_count = 0, cfg_brightness = 0\<rparr>,
     pixels = replicate 64 COLOR_OFF, brightness = 255, strip_inited = False, frames = []\<rparr>"

definition apply_brightness :: "u8 \<Rightarrow> u8 \<Rightarrow> u8" where
  "apply_brightness br ch = ucast (drop_bit 8 (ucast ch * ucast br :: u32))"

subsection \<open>Bits on the wire\<close>

text \<open>\<open>send_byte\<close> of both protocols: bit 7 first.\<close>

definition send_byte :: "u8 \<Rightarrow> bool list" where
  "send_byte b = map (\<lambda>i. drop_bit i b AND 1 = 1) (rev [0..<8])"

definition sk6812_pixel :: "u8 \<Rightarrow> rgbw \<Rightarrow> bool list" where
  "sk6812_pixel br p = send_byte (apply_brightness br (ch_g p)) @ send_byte (apply_brightness br (ch_r p)) @
     send_byte (apply_brightness br (ch_b p)) @ send_byte (apply_brightness br (ch_w p))"

definition sk6812_refresh :: "strip \<Rightarrow> int \<times> strip" where
  "sk6812_refresh s = (0, s\<lparr>frames := frames s @
     [concat (map (sk6812_pixel (brightness s)) (take (cfg_count (strip_cfg s)) (pixels s)))]\<rparr>)"

definition apa102_pixel :: "u8 \<Rightarrow> rgbw \<Rightarrow> u8 list" where
  "apa102_pixel br p = [0xE0 OR (drop_bit 3 br AND 0x1F), apply_brightness br (ch_b p),
     apply_brightness br (ch_g p), apply_brightness br (ch_r p)]"

definition apa102_end_bytes :: "nat \<Rightarrow> nat" where
  "apa102_end_bytes n = n div 2 + 2"

definition apa102_buf :: "strip \<Rightarrow> u8 list" where
  "apa102_buf s = (let n = cfg_count (strip_cfg s) in
     replicate 4 0 @ concat (map (apa102_pixel (brightness s)) (take n (pixels s))) @
     replicate (apa102_end_bytes n) 0xFF)"

definition apa102_refresh :: "strip \<Rightarrow> int \<times> strip" where
  "apa102_refresh s = (0, s\<lparr>frames := frames s @ [concat (map send_byte (apa102_buf s))]\<rparr>)"

subsection \<open>Operations\<close>

definition strip_hw_init :: "gpio_answers \<Rightarrow> strip_type \<Rightarrow> int" where
  "strip_hw_init g ty = (if \<not> gpio_ready g then - ENODEV
     else case ty of LED_STRIP_SK6812 \<Rightarrow> rc_data g
     | LED_STRIP_APA102 \<Rightarrow> if rc_data g = 0 then rc_clk g else rc_data g)"

definition led_strip_refresh :: "strip \<Rightarrow> int \<times> strip" where
  "led_strip_refresh s = (if \<not> strip_inited s then (- EAGAIN, s)
     else case cfg_type (strip_cfg s) of LED_STRIP_SK6812 \<Rightarrow> sk6812_refresh s | LED_STRIP_APA102 \<Rightarrow> apa102_refresh s)"

definition led_strip_clear :: "strip \<Rightarrow> int \<times> strip" where
  "led_strip_clear s = (if \<not> strip_inited s then (- EAGAIN, s)
     else led_strip_refresh (s\<lparr>pixels := blit 0 (replicate (cfg_count (strip_cfg s)) COLOR_OFF) (pixels s)\<rparr>))"

definition led_strip_init :: "gpio_answers \<Rightarrow> strip_config option \<Rightarrow> strip \<Rightarrow> int \<times> strip" where
  "led_strip_init g cfg s = (case cfg of None \<Rightarrow> (- EINVAL, s) | Some c \<Rightarrow>
     if cfg_count c = 0 \<or> 64 < cfg_count c then (- EINVAL, s)
     else let s = s\<lparr>strip_cfg := c, brightness := cfg_brightness c, strip_inited := False,
                    pixels := replicate 64 COLOR_OFF\<rparr>;
              rc = strip_hw_init g (cfg_type c)
       in if rc \<noteq> 0 then (rc, s) else (0, snd (led_strip_clear (s\<lparr>strip_inited := True\<rparr>))))"

definition led_strip_set_pixel :: "nat \<Rightarrow> rgbw \<Rightarrow> strip \<Rightarrow> int \<times> strip" where
  "led_strip_set_pixel i c s = (if \<not> strip_inited s \<or> cfg_count (strip_cfg s) \<le> i then (- EINVAL, s)
     else (0, s\<lparr>pixels := (pixels s)[i := c]\<rparr>))"

fun fill_loop :: "rgbw \<Rightarrow> nat \<Rightarrow> rgbw list \<Rightarrow> rgbw list" where
  "fill_loop c 0 ps = ps"
| "fill_loop c (Suc n) ps = (fill_loop c n ps)[n := c]"

definition led_strip_fill :: "rgbw \<Rightarrow> strip \<Rightarrow> int \<times> strip" where
  "led_strip_fill c s = (if \<not> strip_inited s then (- EAGAIN, s)
     else (0, s\<lparr>pixels := fill_loop c (cfg_count (strip_cfg s)) (pixels s)\<rparr>))"

definition led_strip_set_brightness :: "u8 \<Rightarrow> strip \<Rightarrow> strip" where
  "led_strip_set_brightness br s = s\<lparr>brightness := br\<rparr>"

definition led_strip_get_brightness :: "strip \<Rightarrow> u8" where
  "led_strip_get_brightness s = brightness s"

definition led_strip_count :: "strip \<Rightarrow> nat" where
  "led_strip_count s = (if strip_inited s then cfg_count (strip_cfg s) else 0)"

subsection \<open>The receiving side\<close>

text \<open>What a strip latches: bytes, most significant bit first; four bytes per SK6812 pixel.\<close>

definition byte_of_bits :: "bool list \<Rightarrow> u8" where
  "byte_of_bits bs = horner_sum of_bool 2 (rev bs)"

fun latch :: "nat \<Rightarrow> bool list \<Rightarrow> u8 list" where
  "latch 0 bs = []"
| "latch (Suc n) bs = byte_of_bits (take 8 bs) # latch n (drop 8 bs)"

definition scaled :: "u8 \<Rightarrow> rgbw \<Rightarrow> u8 list" where
  "scaled br p = map (apply_brightness br) [ch_g p, ch_r p, ch_b p, ch_w p]"

lemma length_send_byte [simp]: "length (send_byte b) = 8"
  by (simp add: send_byte_def)

lemma send_byte_bits: "send_byte b = map (bit b) (rev [0..<8])"
  by (simp add: send_byte_def bit_iff_and_drop_bit_eq_1)

lemma byte_of_send_byte [simp]: "byte_of_bits (send_byte b) = b"
  using horner_sum_bit_eq_take_bit [of b 8]
  by (simp add: byte_of_bits_def send_byte_bits rev_map take_bit_word_eq_self del: upt_rec_numeral)

lemma latch_bytes: "latch (length bs) (concat (map send_byte bs)) = bs"
  by (induction bs) simp_all

lemma sk6812_pixel_bytes: "sk6812_pixel br p = concat (map send_byte (scaled br p))"
  by (simp add: sk6812_pixel_def scaled_def)

lemma sk6812_frame_bytes:
  "concat (map (sk6812_pixel br) ps) = concat (map send_byte (concat (map (scaled br) ps)))"
  by (induction ps) (simp_all add: sk6812_pixel_bytes)

lemma length_scaled: "length (concat (map (scaled br) ps)) = 4 * length ps"
  by (induction ps) (simp_all add: scaled_def)

text \<open>The scaler rounds down: full brightness keeps a channel up to one step.\<close>

lemma unat_apply_brightness: "unat (apply_brightness br ch) = unat ch * unat br div 256"
proof -
  have a: "unat ch < 2 ^ LENGTH(8)" "unat br < 2 ^ LENGTH(8)" by (rule unsigned_less)+
  have "unat ch * unat br \<le> 255 * 255" by (rule mult_mono) (use a in simp_all)
  then have "unat (ucast ch * ucast br :: u32) = unat ch * unat br"
    using a by (simp add: unat_word_ariths unsigned_ucast_eq take_bit_eq_mod)
  moreover have "unat ch * unat br div 256 < 256"
    using \<open>unat ch * unat br \<le> 255 * 255\<close> by simp
  ultimately show ?thesis
    by (simp add: apply_brightness_def unsigned_ucast_eq unat_div_distrib drop_bit_eq_div take_bit_eq_mod)
qed

lemma apply_brightness_le: "unat (apply_brightness br ch) \<le> unat ch"
proof -
  have "unat br < 2 ^ LENGTH(8)" by (rule unsigned_less)
  then have "unat ch * unat br \<le> unat ch * 256" by (intro mult_le_mono2) simp
  then have "unat ch * unat br div 256 \<le> unat ch * 256 div 256" by (rule div_le_mono)
  then show ?thesis by (simp add: unat_apply_brightness)
qed

lemma length_fill_loop [simp]: "length (fill_loop c n ps) = length ps"
  by (induction n) simp_all

lemma fill_loop_eq: "n \<le> length ps \<Longrightarrow> fill_loop c n ps = blit 0 (replicate n c) ps"
proof (induction n)
  case (Suc n)
  then have "fill_loop c (Suc n) ps = (replicate n c @ drop n ps)[n := c]" by (simp add: blit_def)
  also have "\<dots> = replicate n c @ c # drop (Suc n) ps"
    using Suc.prems by (simp add: list_update_append Cons_nth_drop_Suc [symmetric])
  finally show ?case by (simp add: blit_def replicate_append_same)
qed (simp add: blit_def)

definition strip_inv :: "strip \<Rightarrow> bool" where
  "strip_inv s \<longleftrightarrow> length (pixels s) = 64 \<and> cfg_count (strip_cfg s) \<le> 64"

lemma strip_inv_ops:
  assumes "strip_inv s"
  shows "strip_inv (snd (led_strip_refresh s))" "strip_inv (snd (led_strip_clear s))"
    "strip_inv (snd (led_strip_init g c s))" "strip_inv (snd (led_strip_set_pixel i p s))"
    "strip_inv (snd (led_strip_fill p s))" "strip_inv (led_strip_set_brightness br s)"
  using assms
  by (auto simp: strip_inv_def led_strip_refresh_def led_strip_clear_def led_strip_init_def Let_def
      sk6812_refresh_def apa102_refresh_def led_strip_set_pixel_def led_strip_fill_def
      led_strip_set_brightness_def split: option.split strip_type.split)

end
