(* ===== verification/Words.thy ===== *)
theory Words
  imports Prelude
begin

text \<open>
  Machine arithmetic that does not wrap: bytes widened to 32 bits, products and sums that fit,
  and the way back.  The drivers compute in \<open>uint32_t\<close> and store in bytes; these facts turn
  their expressions into natural numbers.
\<close>

lemma u8_lt: "unat (ch :: u8) < 256"
proof -
  have "unat ch < 2 ^ LENGTH(8)" by (rule unsigned_less)
  then show ?thesis by simp
qed

lemma unat_u8 [simp]: "unat (ucast (ch :: u8) :: u32) = unat ch"
  using u8_lt [of ch] by (simp add: unsigned_ucast_eq take_bit_eq_mod)

lemma unat_u8_of_u32: "unat (w :: u32) < 256 \<Longrightarrow> unat (ucast w :: u8) = unat w"
  by (simp add: unsigned_ucast_eq take_bit_eq_mod)

lemma unat_u16_of_u32: "unat (w :: u32) < 65536 \<Longrightarrow> unat (ucast w :: u16) = unat w"
  by (simp add: unsigned_ucast_eq take_bit_eq_mod)

lemma unat_u32_of_u16: "unat (ucast (w :: u16) :: u32) = unat w"
proof -
  have "unat w < 2 ^ LENGTH(16)" by (rule unsigned_less)
  then show ?thesis by (simp add: unsigned_ucast_eq take_bit_eq_mod)
qed

lemma unat_mult_small:
  "unat a * unat b < 4294967296 \<Longrightarrow> unat (a * b :: u32) = unat a * unat b"
  by (simp add: unat_word_ariths)

lemma unat_add_small:
  "unat a + unat b < 4294967296 \<Longrightarrow> unat (a + b :: u32) = unat a + unat b"
  by (simp add: unat_word_ariths)

lemma unat_of_nat_small: "n < 4294967296 \<Longrightarrow> unat (of_nat n :: u32) = n"
  by (simp add: unat_of_nat)

lemma word_of_unat: "unat w = n \<Longrightarrow> w = of_nat n"
  by (auto simp: of_nat_unat)

end
