(* ===== verification/Led.thy ===== *)
theory Led
  imports LedStrip Words Gatt
begin

text \<open>
  The LED animation task \<open>app/leds/led_task_zephyr.c\<close>, the sleep-light table
  \<open>app/leds/sleep_light_table.h\<close> and the LED service
  \<open>app/ble/gatt_servers/svc_led.c\<close>.  A pattern is the byte the phone wrote: the code casts it
  to the enumeration unchecked.  The reference \<open>shown\<close> says in natural numbers what
  each pixel shows at a tick; every tick latches exactly that.
\<close>

abbreviation (input) PAT_OFF :: u8 where "PAT_OFF \<equiv> 0"
abbreviation (input) PAT_SOLID :: u8 where "PAT_SOLID \<equiv> 1"
abbreviation (input) PAT_BREATHING :: u8 where "PAT_BREATHING \<equiv> 2"
abbreviation (input) PAT_RAINBOW :: u8 where "PAT_RAINBOW \<equiv> 3"
abbreviation (input) PAT_STROBE :: u8 where "PAT_STROBE \<equiv> 4"

type_synonym sk6812_color = rgbw

definition to_rgbw :: "sk6812_color \<Rightarrow> rgbw" where
  "to_rgbw c = RGBW (ch_r c) (ch_g c) (ch_b c) (ch_w c)"

subsection \<open>Sleep lights\<close>

definition sleep_light_preset_table :: "sk6812_color list" where
  "sleep_light_preset_table =
     [RGBW 0 0 0 0, RGBW 4 1 0 0, RGBW 10 0 0 0, RGBW 22 6 0 0,
      RGBW 30 12 0 0, RGBW 38 18 0 0, RGBW 45 22 0 4, RGBW 35 20 2 6]"

definition pct_scale :: "u8 \<Rightarrow> u8 \<Rightarrow> u8" where
  "pct_scale pct ch = ucast (ucast ch * ucast pct div 100 :: u32)"

definition map_channels :: "(u8 \<Rightarrow> u8) \<Rightarrow> rgbw \<Rightarrow> rgbw" where
  "map_channels f c = RGBW (f (ch_r c)) (f (ch_g c)) (f (ch_b c)) (f (ch_w c))"

definition sleep_light_get_scaled :: "u8 \<Rightarrow> u8 \<Rightarrow> sk6812_color" where
  "sleep_light_get_scaled preset pct =
     (if 8 \<le> preset then RGBW 0 0 0 0
      else map_channels (pct_scale (if 100 < pct then 100 else pct)) (sleep_light_preset_table ! unat preset))"

definition sleep_light_get_scaled2 :: "u8 \<Rightarrow> u8 \<Rightarrow> u8 \<Rightarrow> sk6812_color" where
  "sleep_light_get_scaled2 preset pct gain =
     map_channels (pct_scale (if 100 < gain then 100 else gain)) (sleep_light_get_scaled preset pct)"

definition sleep_light_color :: "u8 \<Rightarrow> u8 \<Rightarrow> sk6812_color" where
  "sleep_light_color preset pct = sleep_light_get_scaled preset pct"

subsection \<open>The task\<close>

record led =
  l_started :: bool
  l_pattern :: u8
  l_color :: sk6812_color
  l_brightness :: u8
  l_preset :: u8
  l_pct :: u8
  l_tick :: u32
  l_strip :: strip

definition led_boot :: led where
  "led_boot = \<lparr>l_started = False, l_pattern = PAT_OFF, l_color = COLOR_OFF, l_brightness = 255,
     l_preset = 0, l_pct = 0, l_tick = 0, l_strip = strip_boot\<rparr>"

definition hsv_to_rgb :: "u16 \<Rightarrow> u8 \<Rightarrow> u8 \<Rightarrow> rgbw" where
  "hsv_to_rgb h s v = (if s = 0 then RGBW v v v 0 else
     let region = h div 60; remain = (ucast (h mod 60) :: u32); S = ucast s; V = ucast v;
         p = (ucast (V * (255 - S) div 255) :: u8);
         q = ucast (V * (255 - S * remain div 60) div 255);
         t = ucast (V * (255 - S * (60 - remain) div 60) div 255)
     in if region = 0 then RGBW v t p 0 else if region = 1 then RGBW q v p 0
        else if region = 2 then RGBW p v t 0 else if region = 3 then RGBW p q v 0
        else if region = 4 then RGBW t p v 0 else RGBW v p q 0)"

definition breathing_env :: "u32 \<Rightarrow> u8" where
  "breathing_env tick = (let phase = tick mod 200 in
     ucast (if phase < 100 then phase * 255 div 100 else (200 - phase) * 255 div 100))"

definition env_scale :: "u8 \<Rightarrow> u8 \<Rightarrow> u8" where
  "env_scale env ch = ucast (ucast ch * ucast env div 255 :: u32)"

definition rainbow_hue :: "u32 \<Rightarrow> nat \<Rightarrow> nat \<Rightarrow> u16" where
  "rainbow_hue tick n i = (let base = (ucast (tick * 3 mod 360) :: u16) in
     ucast ((ucast base + of_nat i * 360 div of_nat n) mod 360 :: u32))"

fun rainbow_loop :: "u32 \<Rightarrow> u8 \<Rightarrow> nat \<Rightarrow> nat \<Rightarrow> strip \<Rightarrow> strip" where
  "rainbow_loop tick w n 0 s = s"
| "rainbow_loop tick w n (Suc i) s =
     snd (led_strip_set_pixel i ((hsv_to_rgb (rainbow_hue tick n i) 255 255)\<lparr>ch_w := w\<rparr>) (rainbow_loop tick w n i s))"

definition tick_paint :: "led \<Rightarrow> strip" where
  "tick_paint l =
     (let s = l_strip l; n = led_strip_count s in
      if l_pattern l = PAT_SOLID then snd (led_strip_fill (to_rgbw (l_color l)) s)
      else if l_pattern l = PAT_BREATHING
        then snd (led_strip_fill (map_channels (env_scale (breathing_env (l_tick l))) (to_rgbw (l_color l))) s)
      else if l_pattern l = PAT_RAINBOW then rainbow_loop (l_tick l) (ch_w (l_color l)) n n s
      else if l_pattern l = PAT_STROBE
        then snd (led_strip_fill (if (l_tick l div 5) mod 2 = 0 then to_rgbw (l_color l) else COLOR_OFF) s)
      else s)"

definition tick_fn :: "led \<Rightarrow> led" where
  "tick_fn l = (if led_strip_count (l_strip l) = 0 then l
     else if l_pattern l = PAT_OFF then l\<lparr>l_strip := snd (led_strip_clear (l_strip l))\<rparr>
     else l\<lparr>l_strip := snd (led_strip_refresh (tick_paint l)), l_tick := l_tick l + 1\<rparr>)"

definition led_task_start :: "gpio_answers \<Rightarrow> bool \<Rightarrow> led \<Rightarrow> int \<times> led" where
  "led_task_start g apa l = (if l_started l then (0, l)
     else case led_strip_init g (Some \<lparr>cfg_type = if apa then LED_STRIP_APA102 else LED_STRIP_SK6812,
              cfg_count = 8, cfg_brightness = 255\<rparr>) (l_strip l) of (rc, s) \<Rightarrow>
       if rc \<noteq> 0 then (rc, l\<lparr>l_strip := s\<rparr>) else (0, l\<lparr>l_strip := s, l_started := True\<rparr>))"

definition led_task_set_pattern :: "u8 \<Rightarrow> sk6812_color \<Rightarrow> led \<Rightarrow> led" where
  "led_task_set_pattern p base l = l\<lparr>l_pattern := p, l_color := base, l_tick := 0\<rparr>"

definition led_task_set_color :: "sk6812_color \<Rightarrow> led \<Rightarrow> led" where
  "led_task_set_color base l = l\<lparr>l_color := base\<rparr>"

definition led_task_set_brightness :: "u8 \<Rightarrow> led \<Rightarrow> led" where
  "led_task_set_brightness br l =
     l\<lparr>l_brightness := br, l_strip := led_strip_set_brightness br (l_strip l)\<rparr>"

definition led_task_set_pixel :: "nat \<Rightarrow> sk6812_color \<Rightarrow> led \<Rightarrow> int \<times> led" where
  "led_task_set_pixel i c l = (case led_strip_set_pixel i (to_rgbw c) (l_strip l) of (rc, s) \<Rightarrow>
     (rc, l\<lparr>l_strip := s\<rparr>))"

definition led_task_set_sleep_light :: "u8 \<Rightarrow> u8 \<Rightarrow> led \<Rightarrow> led" where
  "led_task_set_sleep_light preset pct l =
     l\<lparr>l_preset := preset, l_pct := pct, l_pattern := PAT_SOLID, l_color := sleep_light_color preset pct\<rparr>"

definition led_task_get_sleep_light :: "led \<Rightarrow> u8 \<times> u8" where
  "led_task_get_sleep_light l = (l_preset l, l_pct l)"

definition led_task_get_pattern :: "led \<Rightarrow> u8" where
  "led_task_get_pattern l = l_pattern l"

definition led_task_get_color :: "led \<Rightarrow> sk6812_color" where
  "led_task_get_color l = l_color l"

subsection \<open>The sk6812 interface on top of the strip\<close>

definition on_strip :: "(strip \<Rightarrow> int \<times> strip) \<Rightarrow> led \<Rightarrow> int \<times> led" where
  "on_strip f l = (case f (l_strip l) of (rc, s) \<Rightarrow> (rc, l\<lparr>l_strip := s\<rparr>))"

definition sk6812_set_pixel :: "nat \<Rightarrow> sk6812_color \<Rightarrow> led \<Rightarrow> int \<times> led" where
  "sk6812_set_pixel i c = on_strip (led_strip_set_pixel i (to_rgbw c))"

definition sk6812_fill :: "sk6812_color \<Rightarrow> led \<Rightarrow> int \<times> led" where
  "sk6812_fill c = on_strip (led_strip_fill (to_rgbw c))"

definition sk6812_fill_scaled :: "sk6812_color \<Rightarrow> u8 \<Rightarrow> led \<Rightarrow> int \<times> led" where
  "sk6812_fill_scaled c pct = on_strip (led_strip_fill (map_channels (pct_scale pct) c))"

definition sk6812_set_pixel_scaled :: "nat \<Rightarrow> sk6812_color \<Rightarrow> u8 \<Rightarrow> led \<Rightarrow> int \<times> led" where
  "sk6812_set_pixel_scaled i c pct = on_strip (led_strip_set_pixel i (map_channels (pct_scale pct) c))"

definition sk6812_clear :: "led \<Rightarrow> int \<times> led" where
  "sk6812_clear = on_strip led_strip_clear"

definition sk6812_show :: "led \<Rightarrow> int \<times> led" where
  "sk6812_show = on_strip led_strip_refresh"

definition sk6812_set_brightness :: "u8 \<Rightarrow> led \<Rightarrow> led" where
  "sk6812_set_brightness br l = l\<lparr>l_strip := led_strip_set_brightness br (l_strip l)\<rparr>"

definition sk6812_get_brightness :: "led \<Rightarrow> u8" where
  "sk6812_get_brightness l = led_strip_get_brightness (l_strip l)"

definition sk6812_count :: "led \<Rightarrow> nat" where
  "sk6812_count l = led_strip_count (l_strip l)"

subsection \<open>The LED service\<close>

record led_status =
  st_pattern :: u8
  st_color :: rgbw
  st_brightness :: u8
  st_count :: u16

text \<open>\<open>manual_hold\<close> is \<open>s_led_manual_hold_s\<close> of the application; \<open>led_notes\<close> the notifications.\<close>

record led_svc =
  led_task :: led
  led_cached :: led_status
  manual_hold :: u32
  led_notes :: "led_status list"

definition led_refresh_status :: "led_svc \<Rightarrow> led_svc" where
  "led_refresh_status s = s\<lparr>led_cached := \<lparr>st_pattern = led_task_get_pattern (led_task s),
     st_color = led_task_get_color (led_task s), st_brightness = sk6812_get_brightness (led_task s),
     st_count = of_nat (sk6812_count (led_task s))\<rparr>\<rparr>"

definition with_task :: "(led \<Rightarrow> led) \<Rightarrow> led_svc \<Rightarrow> int \<times> led_svc" where
  "with_task f s = (0, s\<lparr>led_task := f (led_task s)\<rparr>)"

definition handle_set_pattern :: "u8 list \<Rightarrow> led_svc \<Rightarrow> int \<times> led_svc" where
  "handle_set_pattern p s = (if length p < 1 then (- 1, s)
     else with_task (\<lambda>l. led_task_set_pattern (p ! 0) (led_task_get_color l) l) s)"

definition handle_set_color :: "u8 list \<Rightarrow> led_svc \<Rightarrow> int \<times> led_svc" where
  "handle_set_color p s = (if length p < 4 then (- 1, s)
     else with_task (led_task_set_color (RGBW (p ! 0) (p ! 1) (p ! 2) (p ! 3))) s)"

definition handle_set_brightness :: "u8 list \<Rightarrow> led_svc \<Rightarrow> int \<times> led_svc" where
  "handle_set_brightness p s = (if length p < 1 then (- 1, s)
     else with_task (led_task_set_brightness (p ! 0)) s)"

definition handle_off :: "led_svc \<Rightarrow> int \<times> led_svc" where
  "handle_off s = with_task (led_task_set_pattern PAT_OFF COLOR_OFF) s"

definition handle_set_pixel :: "u8 list \<Rightarrow> led_svc \<Rightarrow> int \<times> led_svc" where
  "handle_set_pixel p s = (if length p < 6 then (- 1, s)
     else case led_task_set_pixel (unat (le16 (p ! 0) (p ! 1))) (RGBW (p ! 2) (p ! 3) (p ! 4) (p ! 5)) (led_task s)
       of (rc, l) \<Rightarrow> (rc, s\<lparr>led_task := l\<rparr>))"

definition handle_set_pattern_color :: "u8 list \<Rightarrow> led_svc \<Rightarrow> int \<times> led_svc" where
  "handle_set_pattern_color p s = (if length p < 5 then (- 1, s)
     else with_task (led_task_set_pattern (p ! 0) (RGBW (p ! 1) (p ! 2) (p ! 3) (p ! 4))) s)"

definition handle_set_sleep_light :: "u8 list \<Rightarrow> led_svc \<Rightarrow> int \<times> led_svc" where
  "handle_set_sleep_light p s = (if length p < 2 then (- 1, s)
     else if 8 \<le> p ! 0 then (- 2, s)
     else with_task (led_task_set_sleep_light (p ! 0) (p ! 1)) s)"

definition led_dispatch_cmd :: "u8 list \<Rightarrow> led_svc \<Rightarrow> int \<times> led_svc" where
  "led_dispatch_cmd b s = (case b of [] \<Rightarrow> (- 1, s) | op # p \<Rightarrow>
     if op = 1 then handle_set_pattern p s
     else if op = 2 then handle_set_color p s
     else if op = 3 then handle_set_brightness p s
     else if op = 4 then handle_off s
     else if op = 5 then handle_set_pixel p s
     else if op = 6 then handle_set_pattern_color p s
     else if op = 7 then handle_set_sleep_light p s
     else (- 2, s))"

definition app_led_svc_publish_status :: "led_svc \<Rightarrow> led_svc" where
  "app_led_svc_publish_status s = (let s = led_refresh_status s in s\<lparr>led_notes := led_notes s @ [led_cached s]\<rparr>)"

definition led_write_cmd :: "nat \<Rightarrow> u8 list \<Rightarrow> led_svc \<Rightarrow> write_result \<times> led_svc" where
  "led_write_cmd off b s =
     (if off \<noteq> 0 then (Inl ATT_INVALID_OFFSET, s)
      else if length b < 1 then (Inl ATT_INVALID_ATTRIBUTE_LEN, s)
      else case led_dispatch_cmd b s of (rc, s) \<Rightarrow>
        if rc \<noteq> 0 then (Inl ATT_UNLIKELY, s)
        else (Inr (length b), app_led_svc_publish_status (s\<lparr>manual_hold := 0\<rparr>)))"

definition led_read_status :: "led_svc \<Rightarrow> led_status \<times> led_svc" where
  "led_read_status s = (let s = led_refresh_status s in (led_cached s, s))"

definition app_led_svc_init :: "gpio_answers \<Rightarrow> bool \<Rightarrow> led_svc \<Rightarrow> int \<times> led_svc" where
  "app_led_svc_init g apa s = (0, led_refresh_status (s\<lparr>led_task := snd (led_task_start g apa (led_task s))\<rparr>))"

subsection \<open>The reference colours\<close>

lemma unat_env_scale: "unat (env_scale e ch) = unat ch * unat e div 255"
proof -
  have le: "unat ch * unat e \<le> unat ch * 255" using u8_lt [of e] by simp
  also have "\<dots> \<le> 255 * 255" using u8_lt [of ch] by simp
  finally have "unat (ucast ch * ucast e :: u32) = unat ch * unat e" by (simp add: unat_mult_small)
  then have q: "unat (ucast ch * ucast e div 255 :: u32) = unat ch * unat e div 255"
    by (simp only: unat_div_distrib) simp
  have "unat ch * unat e div 255 \<le> unat ch * 255 div 255" using le by (rule div_le_mono)
  then have "unat ch * unat e div 255 < 256" using u8_lt [of ch] by simp
  then show ?thesis by (simp only: env_scale_def unat_u8_of_u32 q)
qed

definition env :: "nat \<Rightarrow> nat" where
  "env p = (if p < 100 then p * 255 div 100 else (200 - p) * 255 div 100)"

lemma unat_numeral100: "unat (100 :: u32) = 100" by simp

lemma unat_breathing_env: "unat (breathing_env t) = env (unat t mod 200)"
proof -
  have m: "unat (t mod 200) = unat t mod 200" by (simp add: unat_mod_distrib)
  define p where "p = t mod 200"
  have p: "unat p < 200" using m by (simp add: p_def)
  have s: "unat (200 - p) = 200 - unat p" using p by (simp add: unat_sub word_le_nat_alt)
  have a: "unat (p * 255) = unat p * 255" using p by (subst unat_mult_small) simp_all
  have b: "unat ((200 - p) * 255) = (200 - unat p) * 255" by (subst unat_mult_small) (simp_all add: s)
  have c: "(p < 100) = (unat p < 100)" by (simp add: word_less_nat_alt)
  have e: "env (unat p) < 256" by (simp add: env_def div_less_iff_less_mult) arith
  have "unat (if p < 100 then p * 255 div 100 else (200 - p) * 255 div 100) = env (unat p)"
    using a b by (cases "unat p < 100") (simp_all only: env_def c if_True if_False unat_div_distrib unat_numeral100)
  then have "unat (breathing_env t) = env (unat p)"
    using e by (simp add: breathing_env_def Let_def p_def [symmetric] unat_u8_of_u32)
  then show ?thesis by (simp add: p_def m)
qed

lemma unat_rainbow_hue:
  assumes "i < n" "n \<le> 64"
  shows "unat (rainbow_hue t n i) = (3 * unat t mod 2 ^ 32 mod 360 + i * 360 div n) mod 360"
proof -
  have b: "unat (t * 3 mod 360) = 3 * unat t mod 2 ^ 32 mod 360"
    by (simp add: unat_mod_distrib unat_word_ariths mult.commute)
  have c: "unat (ucast (ucast (t * 3 mod 360) :: u16) :: u32) = 3 * unat t mod 2 ^ 32 mod 360"
  proof -
    have "3 * unat t mod 2 ^ 32 mod 360 < 360" by simp
    then have "unat (t * 3 mod 360) < 65536" using b by linarith
    then show ?thesis by (simp only: unat_u32_of_u16 unat_u16_of_u32 b)
  qed
  have i: "i * 360 < 23040" using assms by simp
  have m: "unat (of_nat i * 360 :: u32) = i * 360"
    using i by (subst unat_mult_small) (simp_all add: unat_of_nat_small)
  have q: "unat (of_nat i * 360 div of_nat n :: u32) = i * 360 div n"
    using assms by (simp add: unat_div_distrib m unat_of_nat_small)
  have "i * 360 div n \<le> i * 360" by simp
  then have s: "unat (ucast (ucast (t * 3 mod 360) :: u16) + of_nat i * 360 div of_nat n :: u32)
      = 3 * unat t mod 2 ^ 32 mod 360 + i * 360 div n"
    proof -
    have "3 * unat t mod 2 ^ 32 mod 360 < 360" by simp
    then have "3 * unat t mod 2 ^ 32 mod 360 + i * 360 div n < 4294967296"
      using i \<open>i * 360 div n \<le> i * 360\<close> by linarith
    then show ?thesis by (subst unat_add_small) (simp_all only: c q)
  qed
  show ?thesis
    by (simp only: rainbow_hue_def Let_def) (subst unat_u16_of_u32, simp_all only: unat_mod_distrib s, simp_all)
qed

definition wheel :: "nat \<Rightarrow> rgbw" where
  "wheel h = (let m = h mod 60; up = of_nat (255 - 255 * (60 - m) div 60); down = of_nat (255 - 255 * m div 60) in
     [RGBW 255 up 0 0, RGBW down 255 0 0, RGBW 0 255 up 0, RGBW 0 down 255 0, RGBW up 0 255 0, RGBW 255 0 down 0]
       ! (h div 60))"

lemma sat_channel:
  assumes "unat r \<le> 60"
  shows "(ucast (255 * (255 - 255 * r div 60 :: u32) div 255) :: u8) = of_nat (255 - 255 * unat r div 60)"
proof (rule word_of_unat)
  have a: "unat (255 * r) = 255 * unat r" using assms by (subst unat_mult_small) simp_all
  have b: "unat (255 * r div 60) = 255 * unat r div 60"
    unfolding unat_div_distrib a by simp
  have c: "unat (255 - 255 * r div 60) = 255 - 255 * unat r div 60"
    using assms b by (subst unat_sub) (simp_all add: word_le_nat_alt b)
  have d: "unat (255 * (255 - 255 * r div 60)) = 255 * (255 - 255 * unat r div 60)"
    by (subst unat_mult_small) (simp_all add: c)
  have "unat (255 * (255 - 255 * r div 60) div 255) = 255 - 255 * unat r div 60"
    unfolding unat_div_distrib d by simp
  then show "unat (ucast (255 * (255 - 255 * r div 60 :: u32) div 255) :: u8) = 255 - 255 * unat r div 60"
    by (subst unat_u8_of_u32) simp_all
qed

lemma hsv_wheel:
  assumes "unat h < 360"
  shows "hsv_to_rgb h 255 255 = wheel (unat h)"
proof -
  let ?r = "ucast (h mod 60) :: u32"
  have r: "unat ?r = unat h mod 60" by (simp add: unat_u32_of_u16 unat_mod_distrib)
  have r': "unat (60 - ?r) = 60 - unat h mod 60"
    by (subst unat_sub) (simp_all add: word_le_nat_alt r)
  have reg: "unat (h div 60) = unat h div 60" by (simp add: unat_div_distrib)
  have eq: "(h div 60 = of_nat k) = (unat h div 60 = k)" if "k < 6" for k
    using that by (simp add: word_unat_eq_iff reg unat_of_nat)
  have R: "unat h div 60 < 6" using assms by simp
  have q: "(ucast (255 * (255 - 255 * ?r div 60) div 255) :: u8) = of_nat (255 - 255 * (unat h mod 60) div 60)"
    using sat_channel [of ?r] r by simp
  have t: "(ucast (255 * (255 - 255 * (60 - ?r) div 60) div 255) :: u8) = of_nat (255 - 255 * (60 - unat h mod 60) div 60)"
    using sat_channel [of "60 - ?r"] r' by simp
  define Q where "Q = (of_nat (255 - 255 * (unat h mod 60) div 60) :: u8)"
  define T where "T = (of_nat (255 - 255 * (60 - unat h mod 60) div 60) :: u8)"
  have code: "hsv_to_rgb h 255 255 = (if h div 60 = 0 then RGBW 255 T 0 0 else if h div 60 = 1 then RGBW Q 255 0 0
      else if h div 60 = 2 then RGBW 0 255 T 0 else if h div 60 = 3 then RGBW 0 Q 255 0
      else if h div 60 = 4 then RGBW T 0 255 0 else RGBW 255 0 Q 0)"
    using q [folded Q_def] t [folded T_def] by (simp add: hsv_to_rgb_def Let_def)
  have ref: "wheel (unat h) = [RGBW 255 T 0 0, RGBW Q 255 0 0, RGBW 0 255 T 0, RGBW 0 Q 255 0,
      RGBW T 0 255 0, RGBW 255 0 Q 0] ! (unat h div 60)"
    by (simp add: wheel_def Let_def Q_def T_def)
  consider "unat h div 60 = 0" | "unat h div 60 = 1" | "unat h div 60 = 2" | "unat h div 60 = 3"
    | "unat h div 60 = 4" | "unat h div 60 = 5" using R by linarith
  then show ?thesis
    using eq [of 0] eq [of 1] eq [of 2] eq [of 3] eq [of 4]
    by cases (simp_all add: code ref)
qed

subsection \<open>What a tick shows\<close>

definition shown :: "led \<Rightarrow> nat \<Rightarrow> rgbw" where
  "shown l i =
     (let t = unat (l_tick l); n = led_strip_count (l_strip l); c = l_color l in
      if l_pattern l = PAT_OFF then RGBW 0 0 0 0
      else if l_pattern l = PAT_SOLID then c
      else if l_pattern l = PAT_BREATHING
        then map_channels (\<lambda>ch. of_nat (unat ch * env (t mod 200) div 255)) c
      else if l_pattern l = PAT_RAINBOW
        then (wheel ((3 * t mod 2 ^ 32 mod 360 + i * 360 div n) mod 360))\<lparr>ch_w := ch_w c\<rparr>
      else if even (t div 5) then c else RGBW 0 0 0 0)"

lemma to_rgbw_id [simp]: "to_rgbw c = c"
  by (cases c) (simp add: to_rgbw_def RGBW_def)

lemma rainbow_loop_pixels:
  assumes "strip_inv s" "strip_inited s" "k \<le> n" "cfg_count (strip_cfg s) = n" "0 < n"
  shows "rainbow_loop t w n k s = s\<lparr>pixels :=
    map (\<lambda>i. (hsv_to_rgb (rainbow_hue t n i) 255 255)\<lparr>ch_w := w\<rparr>) [0..<k] @ drop k (pixels s)\<rparr>"
  using assms(3)
proof (induction k)
  case (Suc k)
  have "length (pixels s) = 64" "n \<le> 64" using assms by (simp_all add: strip_inv_def)
  then show ?case
    using Suc assms
    by (simp add: led_strip_set_pixel_def list_update_append Cons_nth_drop_Suc [symmetric])
qed simp

lemma tick_paint_pixels:
  assumes inv: "strip_inv (l_strip l)" "strip_inited (l_strip l)" "0 < cfg_count (strip_cfg (l_strip l))"
    and pat: "l_pattern l \<le> PAT_STROBE" "l_pattern l \<noteq> PAT_OFF"
  shows "\<exists>ps. tick_paint l = (l_strip l)\<lparr>pixels := ps\<rparr> \<and> length ps = length (pixels (l_strip l)) \<and>
    take (led_strip_count (l_strip l)) ps = map (shown l) [0..<led_strip_count (l_strip l)]"
proof -
  let ?n = "cfg_count (strip_cfg (l_strip l))"
  have n: "?n \<le> 64" "length (pixels (l_strip l)) = 64" "led_strip_count (l_strip l) = ?n"
    using inv by (simp_all add: strip_inv_def led_strip_count_def)
  have fill: "snd (led_strip_fill c (l_strip l)) = (l_strip l)\<lparr>pixels := replicate ?n c @ drop ?n (pixels (l_strip l))\<rparr>" for c
    using inv n by (simp add: led_strip_fill_def fill_loop_eq blit_def)
  have scale: "map_channels (env_scale e) c = map_channels (\<lambda>ch. of_nat (unat ch * unat e div 255)) c" for e c
    using word_of_unat [OF unat_env_scale] by (simp add: map_channels_def)
  consider "l_pattern l = PAT_SOLID" | "l_pattern l = PAT_BREATHING" | "l_pattern l = PAT_RAINBOW" | "l_pattern l = PAT_STROBE"
  proof -
    have "unat (l_pattern l) \<le> 4" "unat (l_pattern l) \<noteq> 0"
      using pat by (simp_all add: word_le_nat_alt unat_eq_0)
    then have "unat (l_pattern l) \<in> {1, 2, 3, 4}" by auto
    then show ?thesis using that by (auto simp: word_unat_eq_iff)
  qed
  then show ?thesis
  proof cases
    case 1
    have "shown l = (\<lambda>_. l_color l)" using 1 by (simp add: shown_def fun_eq_iff)
    then show ?thesis
      using 1 by (intro exI [of _ "replicate ?n (l_color l) @ drop ?n (pixels (l_strip l))"])
         (simp add: tick_paint_def n fill map_replicate_const)
  next
    case 2
    have c: "shown l = (\<lambda>_. shown l 0)" using 2 by (simp add: shown_def fun_eq_iff)
    have "tick_paint l = (l_strip l)\<lparr>pixels := replicate ?n (shown l 0) @ drop ?n (pixels (l_strip l))\<rparr>"
      using 2 by (simp add: tick_paint_def n fill shown_def scale unat_breathing_env)
    then show ?thesis
      by (intro exI [of _ "replicate ?n (shown l 0) @ drop ?n (pixels (l_strip l))"])
         (simp add: n, subst c, simp add: map_replicate_const)
  next
    case 3
    have h: "hsv_to_rgb (rainbow_hue (l_tick l) ?n i) 255 255 =
        wheel ((3 * unat (l_tick l) mod 2 ^ 32 mod 360 + i * 360 div ?n) mod 360)" if "i < ?n" for i
    proof -
      have u: "unat (rainbow_hue (l_tick l) ?n i) = (3 * unat (l_tick l) mod 2 ^ 32 mod 360 + i * 360 div ?n) mod 360"
        using that n(1) by (rule unat_rainbow_hue)
      then have "unat (rainbow_hue (l_tick l) ?n i) < 360" by simp
      then show ?thesis using u by (simp only: hsv_wheel)
    qed
    then show ?thesis
      using 3 n inv
      by (intro exI [of _ "map (\<lambda>i. (hsv_to_rgb (rainbow_hue (l_tick l) ?n i) 255 255)\<lparr>ch_w := ch_w (l_color l)\<rparr>) [0..<?n]
            @ drop ?n (pixels (l_strip l))"])
         (simp add: tick_paint_def rainbow_loop_pixels shown_def Let_def)
  next
    case 4
    have e: "(l_tick l div 5 mod 2 = 0) = even (unat (l_tick l) div 5)"
      by (simp add: word_unat_eq_iff unat_mod_distrib unat_div_distrib even_iff_mod_2_eq_zero)
    have c: "shown l = (\<lambda>_. shown l 0)" using 4 by (simp add: shown_def fun_eq_iff)
    have "tick_paint l = (l_strip l)\<lparr>pixels := replicate ?n (shown l 0) @ drop ?n (pixels (l_strip l))\<rparr>"
      using 4 by (simp add: tick_paint_def n fill shown_def e COLOR_OFF_def)
    then show ?thesis
      by (intro exI [of _ "replicate ?n (shown l 0) @ drop ?n (pixels (l_strip l))"])
         (simp add: n, subst c, simp add: map_replicate_const)
  qed
qed

lemma refresh_latched:
  assumes "cfg_type (strip_cfg s) = LED_STRIP_SK6812" "strip_inited s" "strip_inv s"
    and "take (cfg_count (strip_cfg s)) (pixels s) = map f [0..<cfg_count (strip_cfg s)]"
  shows "\<exists>fr. snd (led_strip_refresh s) = s\<lparr>frames := frames s @ [fr]\<rparr> \<and>
    latch (4 * cfg_count (strip_cfg s)) fr = concat (map (\<lambda>i. scaled (brightness s) (f i)) [0..<cfg_count (strip_cfg s)])"
proof -
  let ?n = "cfg_count (strip_cfg s)" and ?ps = "concat (map (scaled (brightness s)) (map f [0..<cfg_count (strip_cfg s)]))"
  have "length ?ps = 4 * ?n" by (simp only: length_scaled length_map length_upt diff_zero)
  then have "latch (4 * ?n) (concat (map send_byte ?ps)) = ?ps" using latch_bytes [of ?ps] by simp
  moreover have "snd (led_strip_refresh s) = s\<lparr>frames := frames s @ [concat (map send_byte ?ps)]\<rparr>"
    using assms(1,2) by (simp only: led_strip_refresh_def sk6812_refresh_def assms(4) sk6812_frame_bytes) simp
  moreover have "?ps = concat (map (\<lambda>i. scaled (brightness s) (f i)) [0..<?n])" by (simp add: comp_def)
  ultimately show ?thesis by auto
qed

lemma scaled_off: "scaled br (RGBW 0 0 0 0) = [0, 0, 0, 0]"
  by (simp add: scaled_def RGBW_def apply_brightness_def)

text \<open>The LED animation shows what its pattern says.  On an SK6812 strip whose driver is initialised, every
  tick in one of the five patterns sends one more frame, and the bytes the strip latches from it
  are, pixel for pixel, the colour \<open>shown\<close> of the pattern, the tick counter and the base colour,
  scaled by the brightness.  Off, solid, breathing (a triangle of 200 ticks), rainbow (a colour
  wheel over the pixels) and strobe (five ticks on, five off) are all covered, the wrap of the
  32-bit tick counter included.  No pixel set on its own beforehand has any influence.\<close>

theorem tick_shows_pattern:
  assumes "strip_inv (l_strip l)" "strip_inited (l_strip l)" "cfg_type (strip_cfg (l_strip l)) = LED_STRIP_SK6812"
    and "0 < led_strip_count (l_strip l)" "l_pattern l \<le> PAT_STROBE"
  shows "\<exists>fr. frames (l_strip (tick_fn l)) = frames (l_strip l) @ [fr] \<and>
    latch (4 * led_strip_count (l_strip l)) fr =
      concat (map (\<lambda>i. scaled (brightness (l_strip l)) (shown l i)) [0..<led_strip_count (l_strip l)])"
proof (cases "l_pattern l = PAT_OFF")
  case True
  let ?n = "cfg_count (strip_cfg (l_strip l))"
  define s where "s = (l_strip l)\<lparr>pixels := blit 0 (replicate ?n COLOR_OFF) (pixels (l_strip l))\<rparr>"
  have off: "shown l = (\<lambda>_. RGBW 0 0 0 0)" using True by (simp add: shown_def fun_eq_iff)
  have "strip_inv s" "take (cfg_count (strip_cfg s)) (pixels s) = map (shown l) [0..<cfg_count (strip_cfg s)]"
    using assms by (simp_all add: s_def strip_inv_def blit_def off COLOR_OFF_def map_replicate_const)
  from refresh_latched [OF _ _ this] True assms show ?thesis
    by (fastforce simp: tick_fn_def led_strip_count_def led_strip_clear_def s_def)
next
  case False
  obtain ps where ps: "tick_paint l = (l_strip l)\<lparr>pixels := ps\<rparr>" "length ps = length (pixels (l_strip l))"
      "take (led_strip_count (l_strip l)) ps = map (shown l) [0..<led_strip_count (l_strip l)]"
    using tick_paint_pixels [of l] assms False by (auto simp: led_strip_count_def)
  have "strip_inv (tick_paint l)" using ps assms(1) by (simp add: strip_inv_def)
  with refresh_latched [of "tick_paint l" "shown l"] ps False assms show ?thesis
    by (fastforce simp: tick_fn_def led_strip_count_def)
qed

definition demo_led :: led where
  "demo_led = led_boot\<lparr>l_pattern := PAT_BREATHING, l_color := RGBW 255 0 0 0, l_tick := 50,
     l_strip := strip_boot\<lparr>strip_cfg := \<lparr>cfg_type = LED_STRIP_SK6812, cfg_count = 2, cfg_brightness = 255\<rparr>,
       strip_inited := True\<rparr>\<rparr>"

theorem tick_shows_pattern_witness:
  "\<exists>fr. frames (l_strip (tick_fn demo_led)) = [fr] \<and> latch 8 fr = [0, 126, 0, 0, 0, 126, 0, 0]"
proof -
  have a: "strip_inv (l_strip demo_led)" "strip_inited (l_strip demo_led)"
    "cfg_type (strip_cfg (l_strip demo_led)) = LED_STRIP_SK6812" "l_pattern demo_led \<le> PAT_STROBE"
    "led_strip_count (l_strip demo_led) = 2" "frames (l_strip demo_led) = []"
    by (simp_all add: demo_led_def led_boot_def strip_boot_def strip_inv_def led_strip_count_def)
  have "concat (map (\<lambda>i. scaled (brightness (l_strip demo_led)) (shown demo_led i)) [0..<2]) = [0, 126, 0, 0, 0, 126, 0, 0]"
    by (simp add: demo_led_def led_boot_def strip_boot_def shown_def scaled_def map_channels_def RGBW_def env_def
        apply_brightness_def led_strip_count_def upt_rec)
  then show ?thesis using tick_shows_pattern [of demo_led] a by auto
qed

end
