(* ===== verification/Rotary.thy ===== *)
theory Rotary
  imports Words
begin

text \<open>
  The rotary encoder \<open>app/rotary_enc/rotary_enc.c\<close>: the quadrature interrupt, the polled push
  button and the start-up.  A pin read is an \<open>int\<close>, as \<open>gpio_pin_get_dt\<close> returns it, errors
  included; the atomic counters are 32-bit words.
\<close>

record rotary =
  r_count :: u32
  r_state :: u8
  r_sw_count :: u32
  r_sw_prev :: bool
  r_isr_a :: bool
  r_isr_b :: bool
  r_polling :: bool

definition rotary_boot :: rotary where
  "rotary_boot = \<lparr>r_count = 0, r_state = 0, r_sw_count = 0, r_sw_prev = False, r_isr_a = False,
     r_isr_b = False, r_polling = False\<rparr>"

definition s_quad :: "int list" where
  "s_quad = [0, -1, 1, 0,  1, 0, 0, -1,  -1, 0, 0, 1,  0, 1, -1, 0]"

definition pin_state :: "int \<Rightarrow> int \<Rightarrow> u8" where
  "pin_state a b = push_bit 1 (of_int (a AND 1)) OR of_int (b AND 1)"

definition rotary_isr :: "int \<Rightarrow> int \<Rightarrow> rotary \<Rightarrow> rotary" where
  "rotary_isr a b r =
     (let new = pin_state a b;
          delta = s_quad ! unat (push_bit 2 (r_state r) OR new);
          r = r\<lparr>r_state := new\<rparr>
      in if delta \<noteq> 0 then r\<lparr>r_count := r_count r + of_int delta\<rparr> else r)"

definition rotary_sw_poll_fn :: "int \<Rightarrow> rotary \<Rightarrow> rotary" where
  "rotary_sw_poll_fn level r =
     (let pressed = (level = 1);
          r = (if pressed \<noteq> r_sw_prev r \<and> pressed then r\<lparr>r_sw_count := r_sw_count r + 1\<rparr> else r)
      in r\<lparr>r_sw_prev := pressed, r_polling := True\<rparr>)"

text \<open>What the GPIO driver answers during the start-up, in the order of the calls.\<close>

record rot_answers =
  ra_ready :: bool
  ra_conf_a :: int
  ra_conf_b :: int
  ra_level_a :: int
  ra_level_b :: int
  ra_int_a :: int
  ra_int_b :: int
  ra_add_a :: int
  ra_add_b :: int
  ra_sw_ready :: bool
  ra_conf_sw :: int

definition rotary_init_sw :: "rot_answers \<Rightarrow> rotary \<Rightarrow> int \<times> rotary" where
  "rotary_init_sw g r =
     (let r = r\<lparr>r_sw_count := 0, r_sw_prev := False\<rparr> in
      if \<not> ra_sw_ready g then (0, r)
      else if ra_conf_sw g \<noteq> 0 then (ra_conf_sw g, r)
      else (0, r\<lparr>r_polling := True\<rparr>))"

definition rotary_enc_init :: "rot_answers \<Rightarrow> rotary \<Rightarrow> int \<times> rotary" where
  "rotary_enc_init g r =
     (if \<not> ra_ready g then (- ENODEV, r)
      else let r = r\<lparr>r_count := 0\<rparr> in
        if ra_conf_a g \<noteq> 0 then (ra_conf_a g, r)
        else if ra_conf_b g \<noteq> 0 then (ra_conf_b g, r)
        else let r = r\<lparr>r_state := pin_state (ra_level_a g) (ra_level_b g)\<rparr> in
          if ra_int_a g \<noteq> 0 then (ra_int_a g, r)
          else if ra_int_b g \<noteq> 0 then (ra_int_b g, r)
          else if ra_add_a g \<noteq> 0 then (ra_add_a g, r)
          else let r = r\<lparr>r_isr_a := True\<rparr> in
            if ra_add_b g \<noteq> 0 then (ra_add_b g, r)
            else rotary_init_sw g (r\<lparr>r_isr_b := True\<rparr>))"

definition rotary_enc_get_count :: "rotary \<Rightarrow> int" where
  "rotary_enc_get_count r = sint (r_count r)"

definition rotary_enc_reset_count :: "rotary \<Rightarrow> rotary" where
  "rotary_enc_reset_count r = r\<lparr>r_count := 0\<rparr>"

definition rotary_enc_get_sw_count :: "rotary \<Rightarrow> int" where
  "rotary_enc_get_sw_count r = sint (r_sw_count r)"

definition rotary_enc_sw_pressed :: "int \<Rightarrow> bool" where
  "rotary_enc_sw_pressed level = (level = 1)"

subsection \<open>The shaft\<close>

text \<open>The levels of the two contacts at a shaft position, counted in quarter cycles.\<close>

definition gray :: "int \<Rightarrow> bool \<times> bool" where
  "gray p = [(False, False), (True, False), (True, True), (False, True)] ! nat (p mod 4)"

definition at_shaft :: "int \<Rightarrow> rotary \<Rightarrow> bool" where
  "at_shaft p r \<longleftrightarrow> r_state r = [0, 2, 3, 1] ! nat (p mod 4)"

text \<open>Each interrupt reads both contacts at the shaft position it finds.\<close>

definition isr_at :: "int \<Rightarrow> rotary \<Rightarrow> rotary" where
  "isr_at p = rotary_isr (of_bool (fst (gray p))) (of_bool (snd (gray p)))"

fun isr_run :: "int list \<Rightarrow> rotary \<Rightarrow> rotary" where
  "isr_run [] r = r"
| "isr_run (p # ps) r = isr_run ps (isr_at p r)"

fun smooth :: "int \<Rightarrow> int list \<Rightarrow> bool" where
  "smooth p [] = True"
| "smooth p (q # qs) = (\<bar>q - p\<bar> \<le> 1 \<and> smooth q qs)"

lemma mod4_cases:
  obtains "(p :: int) mod 4 = 0" | "p mod 4 = 1" | "p mod 4 = 2" | "p mod 4 = 3"
  using pos_mod_bound [of 4 p] pos_mod_sign [of 4 p] by linarith

text \<open>One interrupt: the delta is the shaft's move modulo a whole cycle, zero for half a cycle.\<close>

definition seen_delta :: "int \<Rightarrow> int" where
  "seen_delta d = [0, 1, 0, -1] ! nat (d mod 4)"

lemma isr_step:
  assumes "at_shaft p r"
  shows "at_shaft q (isr_at q r)" "r_count (isr_at q r) = r_count r + of_int (seen_delta (q - p))"
    "r_sw_count (isr_at q r) = r_sw_count r"
proof -
  have d: "(q - p) mod 4 = (q mod 4 - p mod 4) mod 4" by (simp add: mod_diff_eq)
  have "at_shaft q (isr_at q r) \<and> r_count (isr_at q r) = r_count r + of_int (seen_delta (q - p)) \<and>
    r_sw_count (isr_at q r) = r_sw_count r"
    using assms
    by (cases rule: mod4_cases [of p]; cases rule: mod4_cases [of q])
       (simp_all add: at_shaft_def isr_at_def gray_def rotary_isr_def pin_state_def s_quad_def seen_delta_def d Let_def)
  then show "at_shaft q (isr_at q r)" "r_count (isr_at q r) = r_count r + of_int (seen_delta (q - p))"
    "r_sw_count (isr_at q r) = r_sw_count r" by simp_all
qed

lemma seen_delta_small: "\<bar>d\<bar> \<le> 1 \<Longrightarrow> seen_delta d = d"
proof -
  assume "\<bar>d\<bar> \<le> 1"
  then have "d = -1 \<or> d = 0 \<or> d = 1" by linarith
  then show ?thesis by (auto simp: seen_delta_def)
qed

lemma isr_run_tracks:
  "at_shaft p r \<Longrightarrow> at_shaft (last (p # ps)) (isr_run ps r) \<and>
    (smooth p ps \<longrightarrow> r_count (isr_run ps r) = r_count r + of_int (last (p # ps) - p))"
proof (induction ps arbitrary: p r)
  case (Cons q qs)
  note s = isr_step [OF Cons.prems, of q]
  show ?case using Cons.IH [OF s(1)] s(2) by (auto simp: seen_delta_small)
qed simp

text \<open>C14: The encoder follows the shaft.  Whatever positions the interrupts find, bounces and missed edges
  included, the stored contact state is that of the last position; and if no two consecutive
  interrupts are more than a quarter cycle apart, the counter has moved by exactly the net
  displacement (as a 32-bit counter, which wraps).\<close>

theorem rotary_tracks_shaft:
  assumes "at_shaft p r"
  shows "at_shaft (last (p # ps)) (isr_run ps r) \<and>
    (smooth p ps \<longrightarrow> rotary_enc_get_count (isr_run ps r) =
       sint (r_count r + of_int (last (p # ps) - p)))"
  using isr_run_tracks [OF assms, of ps] by (simp add: rotary_enc_get_count_def)

lemma rotary_tracks_shaft_witness: "rotary_enc_get_count (isr_run [1, 2, 1, 0, -1, -2] rotary_boot) = - 2"
proof -
  have "at_shaft 0 rotary_boot" by (simp add: at_shaft_def rotary_boot_def)
  from rotary_tracks_shaft [OF this, of "[1, 2, 1, 0, -1, -2]"] show ?thesis
    by (simp add: rotary_boot_def)
qed

subsection \<open>The button\<close>

fun presses :: "bool \<Rightarrow> int list \<Rightarrow> nat" where
  "presses b [] = 0"
| "presses b (l # ls) = (if l = 1 \<and> \<not> b then 1 else 0) + presses (l = 1) ls"

lemma polls_count:
  "r_sw_count (fold rotary_sw_poll_fn ls r) = r_sw_count r + of_nat (presses (r_sw_prev r) ls) \<and>
   r_count (fold rotary_sw_poll_fn ls r) = r_count r"
proof (induction ls arbitrary: r)
  case (Cons l ls)
  show ?case
    using Cons.IH [of "rotary_sw_poll_fn l r"] by (simp add: rotary_sw_poll_fn_def Let_def)
qed simp

end
