(* ===== verification/Ctrl.thy ===== *)
theory Ctrl
  imports Gatt
begin

text \<open>
  The control service \<open>app/ble/gatt_servers/svc_ctrl.c\<close> and the status service
  \<open>app/ble/gatt_servers/svc_status.c\<close>.  The callback of the control service is a function on the
  state of the service, which is all the code's callback touches; what is notified is logged.
\<close>

datatype ctrl_evt = CTRL_REBOOT | CTRL_FACTORY_RESET | CTRL_WIFI_DISCONNECT | CTRL_WIFI_RECONNECT
  | CTRL_TCP_DISCONNECT | CTRL_TCP_RECONNECT

abbreviation (input) RSP_OK :: u8 where "RSP_OK \<equiv> 0"
abbreviation (input) RSP_UNKNOWN_OP :: u8 where "RSP_UNKNOWN_OP \<equiv> 1"

record ctrl =
  resp_state :: u8
  ctrl_notes :: "u8 list"
  ctrl_seen :: "ctrl_evt list"

type_synonym ctrl_cb = "(ctrl_evt \<Rightarrow> ctrl \<Rightarrow> ctrl) option"

definition opcode_to_evt :: "u8 \<Rightarrow> ctrl_evt option" where
  "opcode_to_evt op =
     (if op = 1 then Some CTRL_REBOOT else if op = 2 then Some CTRL_FACTORY_RESET
      else if op = 3 then Some CTRL_WIFI_DISCONNECT else if op = 4 then Some CTRL_WIFI_RECONNECT
      else if op = 5 then Some CTRL_TCP_DISCONNECT else if op = 6 then Some CTRL_TCP_RECONNECT else None)"

definition app_ctrl_respond :: "u8 \<Rightarrow> ctrl \<Rightarrow> ctrl" where
  "app_ctrl_respond status c = c\<lparr>resp_state := status, ctrl_notes := ctrl_notes c @ [status]\<rparr>"

definition ctrl_write_cmd :: "ctrl_cb \<Rightarrow> nat \<Rightarrow> u8 list \<Rightarrow> ctrl \<Rightarrow> write_result \<times> ctrl" where
  "ctrl_write_cmd cb off b c =
     (if off \<noteq> 0 then (Inl ATT_INVALID_OFFSET, c)
      else if length b < 1 then (Inl ATT_INVALID_ATTRIBUTE_LEN, c)
      else case opcode_to_evt (b ! 0) of
        None \<Rightarrow> (Inr (length b), app_ctrl_respond RSP_UNKNOWN_OP c)
      | Some evt \<Rightarrow>
          let c = (case cb of None \<Rightarrow> c | Some f \<Rightarrow> f evt c)
          in (Inr (length b), app_ctrl_respond RSP_OK c))"

definition read_resp :: "ctrl \<Rightarrow> u8" where
  "read_resp c = resp_state c"

definition app_ctrl_init :: "ctrl \<Rightarrow> int \<times> ctrl" where
  "app_ctrl_init c = (0, c\<lparr>resp_state := RSP_OK\<rparr>)"

text \<open>The callback the application registers: every command is answered OK and nothing else happens.\<close>

definition ctrl_cb :: "ctrl_evt \<Rightarrow> ctrl \<Rightarrow> ctrl" where
  "ctrl_cb evt c = app_ctrl_respond RSP_OK (c\<lparr>ctrl_seen := ctrl_seen c @ [evt]\<rparr>)"

text \<open>A control command cannot be refused.  Whatever the callback answers, and whatever else it does, a
  known command always ends with the response OK, notified after the callback's own: a callback's
  refusal is overwritten.  An unknown command never reaches the callback and answers UNKNOWN.\<close>

lemma ctrl_answers_ok:
  assumes "b \<noteq> []" "ctrl_write_cmd cb 0 b c = (r, c')"
  shows "r = Inr (length b) \<and>
    (case opcode_to_evt (hd b) of
       None \<Rightarrow> read_resp c' = RSP_UNKNOWN_OP \<and> ctrl_notes c' = ctrl_notes c @ [RSP_UNKNOWN_OP] \<and> ctrl_seen c' = ctrl_seen c
     | Some evt \<Rightarrow> read_resp c' = RSP_OK \<and> last (ctrl_notes c') = RSP_OK \<and>
         (\<forall>f. cb = Some f \<longrightarrow> ctrl_notes c' = ctrl_notes (f evt c) @ [RSP_OK]))"
  using assms
  by (auto simp: ctrl_write_cmd_def app_ctrl_respond_def read_resp_def hd_conv_nth Let_def
      split: option.splits if_splits)

subsection \<open>Status\<close>

record status_report =
  wifi_state :: u8
  tcp_state :: u8
  prov_state :: u8
  sensor_state :: u8
  uptime_s :: u32
  sensor_rx_count :: u16
  lux1_err :: u8
  lux2_err :: u8
  lux1_x100 :: u32
  lux2_x100 :: u32
  amg_err :: u8
  amg_pad :: u8
  amg_min_q2 :: u16
  amg_avg_q2 :: u16
  amg_max_q2 :: u16
  radar_rx_bytes :: u32

definition status_bytes :: "status_report \<Rightarrow> u8 list" where
  "status_bytes r = [wifi_state r, tcp_state r, prov_state r, sensor_state r] @ enc32 (uptime_s r) @
     enc16 (sensor_rx_count r) @ [lux1_err r, lux2_err r] @ enc32 (lux1_x100 r) @ enc32 (lux2_x100 r) @
     [amg_err r, amg_pad r] @ enc16 (amg_min_q2 r) @ enc16 (amg_avg_q2 r) @ enc16 (amg_max_q2 r) @
     enc32 (radar_rx_bytes r)"

text \<open>As the header announces, 32 bytes.\<close>

lemma length_status_bytes: "length (status_bytes r) = 32"
  by (simp add: status_bytes_def)

record status_svc =
  st_last :: "u8 list"
  st_notes :: "u8 list list"

definition app_status_init :: "status_svc \<Rightarrow> int \<times> status_svc" where
  "app_status_init s = (0, s\<lparr>st_last := replicate 32 0\<rparr>)"

definition app_status_publish :: "status_report option \<Rightarrow> status_svc \<Rightarrow> status_svc" where
  "app_status_publish r s = (case r of None \<Rightarrow> s
     | Some r \<Rightarrow> s\<lparr>st_last := status_bytes r, st_notes := st_notes s @ [status_bytes r]\<rparr>)"

definition read_report :: "status_svc \<Rightarrow> u8 list" where
  "read_report s = st_last s"

end
