(* ===== verification/SvcOta.thy ===== *)
theory SvcOta
  imports HttpDownload Gatt
begin

text \<open>
  The BLE transport of the OTA front-end, \<open>app/ble/gatt_servers/svc_ota.c\<close>: the control
  characteristic, the status value and its notifications.  The status callback runs inside the
  OTA operation that emits; here it is applied to the snapshots the operation added to the log.
\<close>

fun ota_state_code :: "ota_state \<Rightarrow> u8" where
  "ota_state_code OTA_IDLE = 0"
| "ota_state_code OTA_READY = 1"
| "ota_state_code OTA_WRITING = 2"
| "ota_state_code OTA_COMMITTED = 3"
| "ota_state_code OTA_FAILED = 4"

record ota_pdu =
  pdu_state :: u8
  pdu_err :: u8
  pdu_bytes :: u32
  pdu_total :: u32

record ('n, 'e) ota_svc =
  s_last_pdu :: ota_pdu
  s_subscribers :: u16
  pdu_notes :: "ota_pdu list"
  ohttp :: "('n, 'e) http"

definition pdu_of :: "ota_status \<Rightarrow> ota_pdu" where
  "pdu_of t = \<lparr>pdu_state = ota_state_code (state t), pdu_err = of_int (ota_err_int (last_err t)),
     pdu_bytes = bytes_received t, pdu_total = total_size t\<rparr>"

definition ota_status_cb :: "ota_status \<Rightarrow> ('n, 'e) ota_svc \<Rightarrow> ('n, 'e) ota_svc" where
  "ota_status_cb t s = (let s = s\<lparr>s_last_pdu := pdu_of t\<rparr> in
     if s_subscribers s \<noteq> 0 then s\<lparr>pdu_notes := pdu_notes s @ [s_last_pdu s]\<rparr> else s)"

definition call_ota :: "('e ota \<Rightarrow> ota_err \<times> 'e ota) \<Rightarrow> ('n, 'e) ota_svc \<Rightarrow> ota_err \<times> ('n, 'e) ota_svc" where
  "call_ota f s = (let p = ota (ohttp s) in case f p of (rc, q) \<Rightarrow>
     (rc, fold ota_status_cb (drop (length (notified p)) (notified q)) (s\<lparr>ohttp := (ohttp s)\<lparr>ota := q\<rparr>\<rparr>)))"

text \<open>A commit that is accepted asks for the reboot again, which is already scheduled.\<close>

definition ble_commit :: "'e flash_api \<Rightarrow> 'e ota \<Rightarrow> ota_err \<times> 'e ota" where
  "ble_commit E p = (case app_ota_commit E p of (rc, p) \<Rightarrow>
     (rc, if rc = OTA_OK then app_ota_reboot_after_ms 800 p else p))"

definition http_pull :: "'e flash_api \<Rightarrow> bool \<Rightarrow> u8 list \<Rightarrow> ('n, 'e) ota_svc \<Rightarrow> ota_err \<times> ('n, 'e) ota_svc" where
  "http_pull E created arg s =
     (if length arg < 3 then (ERR_PARAM, s)
      else let iurl_len = unat (le16 (arg ! 1) (arg ! 2)) in
        if iurl_len = 0 \<or> 240 < iurl_len then (ERR_PARAM, s)
        else if length arg < 3 + iurl_len + 2 then (ERR_PARAM, s)
        else let hurl_len = unat (le16 (arg ! (3 + iurl_len)) (arg ! (4 + iurl_len))) in
          if 240 < hurl_len then (ERR_PARAM, s)
          else if length arg < 3 + iurl_len + 2 + hurl_len then (ERR_PARAM, s)
          else let iurl = takeWhile (\<lambda>c. c \<noteq> 0) (take iurl_len (drop 3 arg));
                   hurl = takeWhile (\<lambda>c. c \<noteq> 0) (take hurl_len (drop (5 + iurl_len) arg))
            in case app_ota_http_start E created (Some \<lparr>image_url = Some iurl,
                   header_url = (if 0 < hurl_len then Some hurl else None),
                   auto_commit = (arg ! 0 AND 1 \<noteq> 0)\<rparr>) (ohttp s) of (rc, h) \<Rightarrow>
              (if rc = 0 then OTA_OK else ERR_WRITE_FAILED, s\<lparr>ohttp := h\<rparr>))"

definition dispatch_ctrl :: "'e flash_api \<Rightarrow> bool \<Rightarrow> u8 list \<Rightarrow> ('n, 'e) ota_svc \<Rightarrow> ota_err \<times> ('n, 'e) ota_svc" where
  "dispatch_ctrl E created p s = (case p of [] \<Rightarrow> (ERR_PARAM, s) | op # arg \<Rightarrow>
     if op = 1 then
       if length arg < 4 then (ERR_PARAM, s)
       else call_ota (app_ota_begin E (le32 (arg ! 0) (arg ! 1) (arg ! 2) (arg ! 3))) s
     else if op = 2 then
       if length arg < 6 then (ERR_PARAM, s)
       else let dlen = unat (le16 (arg ! 4) (arg ! 5)) in
         if length arg < 6 + dlen then (ERR_PARAM, s)
         else call_ota (app_ota_chunk E (le32 (arg ! 0) (arg ! 1) (arg ! 2) (arg ! 3))
                (Some (take dlen (drop 6 arg)))) s
     else if op = 3 then call_ota (ble_commit E) s
     else if op = 4 then
       (case call_ota (\<lambda>p. (OTA_OK, app_ota_abort E p)) s of (rc, s) \<Rightarrow>
          (OTA_OK, s\<lparr>ohttp := app_ota_http_stop (ohttp s)\<rparr>))
     else if op = 5 then call_ota (\<lambda>p. (OTA_OK, app_ota_reboot_after_ms 200 p)) s
     else if op = 6 then http_pull E created arg s
     else (ERR_PARAM, s))"

definition write_ctrl ::
  "'e flash_api \<Rightarrow> bool \<Rightarrow> nat \<Rightarrow> u8 list \<Rightarrow> ('n, 'e) ota_svc \<Rightarrow> write_result \<times> ('n, 'e) ota_svc" where
  "write_ctrl E created off b s =
     (if off \<noteq> 0 then (Inl ATT_INVALID_OFFSET, s)
      else if length b = 0 then (Inl ATT_INVALID_ATTRIBUTE_LEN, s)
      else case dispatch_ctrl E created b s of (rc, s) \<Rightarrow>
        (if rc \<noteq> OTA_OK then Inl ATT_UNLIKELY else Inr (length b), s))"

definition read_ota_status :: "('n, 'e) ota_svc \<Rightarrow> ota_pdu" where
  "read_ota_status s = s_last_pdu s"

definition status_ccc_cfg_changed :: "u16 \<Rightarrow> ('n, 'e) ota_svc \<Rightarrow> ('n, 'e) ota_svc" where
  "status_ccc_cfg_changed v s =
     (if v = 1 then s\<lparr>s_subscribers := s_subscribers s + 1\<rparr>
      else if s_subscribers s \<noteq> 0 then s\<lparr>s_subscribers := s_subscribers s - 1\<rparr> else s)"

definition app_ota_svc_init :: "'e flash_api \<Rightarrow> ('n, 'e) ota_svc \<Rightarrow> ota_err \<times> ('n, 'e) ota_svc" where
  "app_ota_svc_init E s = call_ota (app_ota_init E True)
     (s\<lparr>s_last_pdu := \<lparr>pdu_state = 0, pdu_err = 0, pdu_bytes = 0, pdu_total = 0\<rparr>\<rparr>)"

subsection \<open>Uploads over the air\<close>

text \<open>What the phone writes.\<close>

definition ble_begin :: "u32 \<Rightarrow> u8 list" where
  "ble_begin n = 1 # enc32 n"

definition ble_chunk :: "u32 \<Rightarrow> u8 list \<Rightarrow> u8 list" where
  "ble_chunk off d = 2 # enc32 off @ enc16 (of_nat (length d)) @ d"

fun ble_chunks :: "u32 \<Rightarrow> u8 list list \<Rightarrow> u8 list list" where
  "ble_chunks off [] = []"
| "ble_chunks off (d # ds) = ble_chunk off d # ble_chunks (off + of_nat (length d)) ds"

definition ble_upload :: "u32 \<Rightarrow> u8 list list \<Rightarrow> u8 list list" where
  "ble_upload n ds = ble_begin n # ble_chunks 0 ds @ [[3]]"

fun write_all :: "'e flash_api \<Rightarrow> u8 list list \<Rightarrow> ('n, 'e) ota_svc \<Rightarrow> write_result list \<times> ('n, 'e) ota_svc" where
  "write_all E [] s = ([], s)"
| "write_all E (b # bs) s = (case write_ctrl E True 0 b s of (r, s) \<Rightarrow>
     case write_all E bs s of (rs, s) \<Rightarrow> (r # rs, s))"

lemma write_all_append:
  "write_all E (as @ bs) s = (case write_all E as s of (rs, s) \<Rightarrow> case write_all E bs s of (ts, s) \<Rightarrow> (rs @ ts, s))"
  by (induction as arbitrary: s) (simp_all split: prod.split)

lemma fold_status_ota [simp]: "ohttp (fold ota_status_cb ts s) = ohttp s"
  by (induction ts arbitrary: s) (simp_all add: ota_status_cb_def Let_def)

lemma call_ota_sel: "call_ota f s = (rc, s') \<Longrightarrow> f (ota (ohttp s)) = (rc, ota (ohttp s'))"
  by (auto simp: call_ota_def Let_def split: prod.splits)

lemma write_begin:
  assumes "app_ota_begin E n (ota (ohttp s)) = (OTA_OK, q)"
  shows "\<exists>s'. write_ctrl E True 0 (ble_begin n) s = (Inr (length (ble_begin n)), s') \<and> ota (ohttp s') = q"
  using assms by (auto simp: write_ctrl_def dispatch_ctrl_def ble_begin_def enc32_def call_ota_def Let_def)

lemma write_chunk:
  assumes "app_ota_chunk E off (Some d) (ota (ohttp s)) = (OTA_OK, q)" "length d < 65536"
  shows "\<exists>s'. write_ctrl E True 0 (ble_chunk off d) s = (Inr (length (ble_chunk off d)), s') \<and> ota (ohttp s') = q"
proof -
  have "unat (of_nat (length d) :: u16) = length d" using assms(2) by (simp add: unat_of_nat)
  then show ?thesis
    using assms(1) by (auto simp: write_ctrl_def dispatch_ctrl_def ble_chunk_def enc32_def enc16_def call_ota_def Let_def)
qed

lemma write_commit3:
  assumes "app_ota_commit E (ota (ohttp s)) = (OTA_OK, q)" "reboot_scheduled q"
  shows "\<exists>s'. write_ctrl E True 0 [3] s = (Inr 1, s') \<and> ota (ohttp s') = q"
  using assms by (auto simp: write_ctrl_def dispatch_ctrl_def ble_commit_def call_ota_def app_ota_reboot_after_ms_def Let_def)

lemma chunk_works:
  assumes "flash_writes_ok E" "ota_ok E c p" "session_of c p = Receiving t img" "length img = unat off"
    and "d \<noteq> []" "length d < 65536" "unat off + length d \<le> unat t"
  shows "\<exists>q. app_ota_chunk E off (Some d) p = (OTA_OK, q) \<and> session_of c q = Receiving t (img @ d) \<and> ota_ok E c q"
proof -
  have I: "session_inv c p" using assms(2) by (simp add: ota_ok_def)
  obtain fa where s: "upload_fa p = Some fa" "img_ready p" "t = total_size (st p)"
    "unat t \<le> unat (fa_size fa)" "length img = unat (bytes_received (st p))"
    using session_inv_receiving [OF I assms(3)] by metis
  have off: "off = bytes_received (st p)" using assms(4) s(5) by (simp add: word_unat_eq_iff)
  have st: "state (st p) = OTA_READY \<or> state (st p) = OTA_WRITING"
    using assms(3) by (auto simp: session_of_def split: ota_state.splits)
  obtain w e where w: "flash_area_write E (Some fa) off d (env p) = (w, e)" by force
  have "0 \<le> w" using assms(1,7) s(4) w unfolding flash_writes_ok_def by (metis fst_conv le_trans)
  then have ok: "fst (app_ota_chunk E off (Some d) p) = OTA_OK"
    using I s st off assms(5-7) w by (auto simp: app_ota_chunk_def session_inv_def Let_def)
  obtain rc q where C: "app_ota_chunk E off (Some d) p = (rc, q)" by force
  with ok have C: "app_ota_chunk E off (Some d) p = (OTA_OK, q)" by simp
  show ?thesis using C ota_if.accepted_chunk [OF assms(2) C] assms(3) by auto
qed

lemma write_chunks:
  assumes "flash_writes_ok E" "ota_ok E c (ota (ohttp s))" "session_of c (ota (ohttp s)) = Receiving t img"
    and "length img = unat off" "\<forall>d \<in> set ds. d \<noteq> [] \<and> length d < 65536" "unat off + length (concat ds) \<le> unat t"
  shows "\<exists>s'. write_all E (ble_chunks off ds) s = (map (\<lambda>b. Inr (length b)) (ble_chunks off ds), s') \<and>
    session_of c (ota (ohttp s')) = Receiving t (img @ concat ds) \<and> ota_ok E c (ota (ohttp s'))"
  using assms(2-)
proof (induction ds arbitrary: off s img)
  case (Cons d ds)
  have fit: "unat off + length d \<le> unat t" using Cons.prems(5) by simp
  obtain q where q: "app_ota_chunk E off (Some d) (ota (ohttp s)) = (OTA_OK, q)"
    "session_of c q = Receiving t (img @ d)" "ota_ok E c q"
    using chunk_works [OF assms(1) Cons.prems(1-3)] Cons.prems(4) fit by auto
  obtain s1 where s1: "write_ctrl E True 0 (ble_chunk off d) s = (Inr (length (ble_chunk off d)), s1)" "ota (ohttp s1) = q"
    using write_chunk [OF q(1)] Cons.prems(4) by auto
  have "length (img @ d) = unat (off + of_nat (length d))"
    using unat_add_of_nat [OF fit] Cons.prems(3) by simp
  then show ?case
    using Cons.IH [of s1 "img @ d" "off + of_nat (length d)"] q s1 Cons.prems(4,5) unat_add_of_nat [OF fit] by auto
qed simp

text \<open>C10: An upload over BLE arrives.  When the phone writes BEGIN, the chunks with their running offsets
  and COMMIT, each encoded as the protocol says, and the flash does what it is asked, every
  write is acknowledged with its length and the session ends committed with exactly the
  concatenated chunks in the slot and a reboot scheduled.\<close>

theorem ble_upload_commits:
  assumes "flash_works E c n" "ota_ok E c (ota (ohttp s))" "n \<noteq> 0"
    and "\<forall>d \<in> set ds. d \<noteq> [] \<and> length d < 65536" "length (concat ds) = unat n"
  shows "\<exists>s'. write_all E (ble_upload n ds) s = (map (\<lambda>b. Inr (length b)) (ble_upload n ds), s') \<and>
    state (st (ota (ohttp s'))) = OTA_COMMITTED \<and> reboot_scheduled (ota (ohttp s')) \<and>
    take (unat n) (c (env (ota (ohttp s')))) = concat ds"
proof -
  have I: "inited (ota (ohttp s))" "flash_writes_ok E"
    using assms(1,2) by (simp_all add: ota_ok_def session_inv_def flash_works_def)
  obtain q where q: "app_ota_begin E n (ota (ohttp s)) = (OTA_OK, q)" using begin_works [OF assms(1,3) I(1)] by blast
  obtain s1 where s1: "write_ctrl E True 0 (ble_begin n) s = (Inr (length (ble_begin n)), s1)" "ota (ohttp s1) = q"
    using write_begin [OF q] by blast
  have v: "ota_ok E c q" "session_of c q = Receiving n []"
    using ota_if.beg_law [OF assms(2) q] assms(3) by (auto simp: begin_spec_def)
  obtain s2 where s2: "write_all E (ble_chunks 0 ds) s1 = (map (\<lambda>b. Inr (length b)) (ble_chunks 0 ds), s2)"
    "session_of c (ota (ohttp s2)) = Receiving n (concat ds)" "ota_ok E c (ota (ohttp s2))"
    using write_chunks [OF I(2), of c s1 n "[]" 0 ds] v s1(2) assms(4,5) by auto
  have "session_inv c (ota (ohttp s2))" using s2(3) by (simp add: ota_ok_def)
  from commit_works [OF assms(1) this s2(2) assms(5)] obtain q3 where q3:
    "app_ota_commit E (ota (ohttp s2)) = (OTA_OK, q3)" "take (length (concat ds)) (c (env q3)) = concat ds"
    "state (st q3) = OTA_COMMITTED" "reboot_scheduled q3" by blast
  obtain s3 where s3: "write_ctrl E True 0 [3] s2 = (Inr 1, s3)" "ota (ohttp s3) = q3"
    using write_commit3 [OF q3(1,4)] by blast
  show ?thesis
    using s1 s2 s3 q3 assms(5) by (auto simp: ble_upload_def write_all_append)
qed

definition demo_svc :: "(u8 list, u8 list) ota_svc" where
  "demo_svc = \<lparr>s_last_pdu = pdu_of zero_status, s_subscribers = 1, pdu_notes = [], ohttp = demo_task []\<rparr>"

lemma ble_upload_commits_witness:
  "\<exists>s'. write_all demo_flash (ble_upload 2 [[7], [8]]) demo_svc = ([Inr 5, Inr 8, Inr 8, Inr 1], s') \<and>
    take 2 (env (ota (ohttp s'))) = [7, 8]"
proof -
  have F: "flash_works demo_flash (\<lambda>e. e) 2"
    unfolding flash_works_def using demo_flash_laws by (auto simp: demo_flash_def flash_writes_ok_def)
  have O: "ota_ok demo_flash (\<lambda>e. e) (ota (ohttp demo_svc))"
    using demo_started_ok by (simp add: demo_svc_def demo_task_def demo_http_def)
  have D: "\<forall>d \<in> set [[7], [8 :: u8]]. d \<noteq> [] \<and> length d < 65536" "length (concat [[7], [8 :: u8]]) = unat (2 :: u32)"
    "(2 :: u32) \<noteq> 0"
    by simp_all
  have L: "map (\<lambda>b. Inr (length b)) (ble_upload 2 [[7], [8]]) = ([Inr 5, Inr 8, Inr 8, Inr 1] :: write_result list)"
    by (simp add: ble_upload_def ble_begin_def ble_chunk_def)
  from ble_upload_commits [OF F O D(3,1,2)] obtain s' where
    "write_all demo_flash (ble_upload 2 [[7], [8]]) demo_svc = ([Inr 5, Inr 8, Inr 8, Inr 1], s')"
    "take (unat (2 :: u32)) (env (ota (ohttp s'))) = concat [[7], [8]]"
    unfolding L by blast
  then show ?thesis by simp
qed

end
