(* ===== verification/AppMain.thy ===== *)
theory AppMain
  imports HttpDownload Matter Prov TcpClient Wifi SvcIr Led Ctrl Rotary
begin

text \<open>
  The application \<open>app/app_main_zephyr.c\<close>: its statics, the callbacks it registers with the
  components and the turn of its main loop.  A component's state is a field; a component's event
  log is read after the operation, in the order of the calls, because every component calls back
  as the last thing it does.  The credentials and the Matter preferences live in one flash file
  system: \<open>with_matter\<close> hands it to the hub and takes it back.
\<close>

record ('v, 'n, 'e) app =
  a_ble_ready :: bool
  a_nvram_cfg :: app_nvram_data
  a_prov_applied :: bool
  a_connect_pending :: bool
  a_reset_pending :: bool
  a_wifi :: wifi
  a_tcp :: tcp_client
  a_prov :: "'v prov"
  a_matter :: "'v matter_svc"
  a_http :: "('n, 'e) http"
  a_ir :: ir_svc
  a_led :: led_svc
  a_ctrl :: ctrl
  a_status :: status_svc
  a_rot :: rotary
  a_last_rot :: int
  a_last_sw :: int

subsection \<open>Callbacks\<close>

definition prov_connect_work_fn :: "'v nvs_api \<Rightarrow> ('v, 'n, 'e) app \<Rightarrow> ('v, 'n, 'e) app" where
  "prov_connect_work_fn N a =
     (case app_nvram_load N (a_nvram_cfg a) (pflash (a_prov a)) of (rc, d, f) \<Rightarrow>
        let a = a\<lparr>a_nvram_cfg := d, a_prov := (a_prov a)\<lparr>pflash := f\<rparr>\<rparr> in
        if rc = NVRAM_OK then a\<lparr>a_wifi := snd (app_wifi_connect (Some d) (a_wifi a))\<rparr> else a)"

definition prov_reset_work_fn :: "int \<Rightarrow> ('v, 'n, 'e) app \<Rightarrow> ('v, 'n, 'e) app" where
  "prov_reset_work_fn rc a = a\<lparr>a_tcp := app_tcp_client_stop (a_tcp a),
     a_wifi := snd (app_wifi_disconnect rc (a_wifi a)), a_prov_applied := False\<rparr>"

text \<open>The command \<open>OTA:<url>\<close> or \<open>OTA:<url> --commit\<close> of a received block: cut to 255 bytes, trailing
  line ends and blanks removed, read as a C string.\<close>

definition ota_trailing :: "u8 \<Rightarrow> bool" where
  "ota_trailing c \<longleftrightarrow> c = 13 \<or> c = 10 \<or> c = 32"

definition ota_command :: "u8 list \<Rightarrow> (cstr \<times> bool) option" where
  "ota_command data =
     (if \<not> 4 < length data \<or> \<not> starts (str ''OTA:'') data then None
      else let cmd = rev (dropWhile ota_trailing (rev (take 255 data)));
               url = takeWhile (\<lambda>c. c \<noteq> 0) (drop 4 cmd)
        in Some (takeWhile (\<lambda>c. c \<noteq> 32) url,
             drop 1 (dropWhile (\<lambda>c. c \<noteq> 32) url) = str ''--commit'' \<and> 32 \<in> set url))"

definition tcp_rx_cb :: "'e flash_api \<Rightarrow> bool \<Rightarrow> u8 list \<Rightarrow> ('v, 'n, 'e) app \<Rightarrow> ('v, 'n, 'e) app" where
  "tcp_rx_cb E created data a =
     (if data = [] then a
      else case ota_command data of None \<Rightarrow> a
      | Some (url, auto) \<Rightarrow>
          if app_ota_http_is_running (a_http a) then a
          else a\<lparr>a_http := snd (app_ota_http_start E created
                 (Some \<lparr>image_url = Some url, header_url = None, auto_commit = auto\<rparr>) (a_http a))\<rparr>)"

fun wifi_cb :: "bool \<Rightarrow> wifi_evt \<Rightarrow> ('v, 'n, 'e) app \<Rightarrow> ('v, 'n, 'e) app" where
  "wifi_cb created WIFI_READY a =
     (if app_nvram_is_valid (a_nvram_cfg a)
      then a\<lparr>a_wifi := snd (app_wifi_connect (Some (a_nvram_cfg a)) (a_wifi a))\<rparr> else a)"
| "wifi_cb created WIFI_CONNECTED a =
     a\<lparr>a_tcp := snd (app_tcp_client_start (Some (a_nvram_cfg a)) True created (a_tcp a))\<rparr>"
| "wifi_cb created WIFI_DISCONNECTED a =
     a\<lparr>a_tcp := app_tcp_client_stop (a_tcp a), a_prov_applied := False\<rparr>"
| "wifi_cb created WIFI_AUTH_FAILED a = a"
| "wifi_cb created WIFI_INIT_FAILED a = a"

fun prov_cb :: "prov_evt \<Rightarrow> ('v, 'n, 'e) app \<Rightarrow> ('v, 'n, 'e) app" where
  "prov_cb PROV_COMMIT_OK a = a\<lparr>a_connect_pending := True\<rparr>"
| "prov_cb PROV_RESET a = a\<lparr>a_reset_pending := True\<rparr>"
| "prov_cb PROV_COMMIT_INVALID a = a"
| "prov_cb PROV_COMMIT_IO_ERROR a = a"

subsection \<open>Components with their callbacks\<close>

definition with_wifi :: "bool \<Rightarrow> (wifi \<Rightarrow> wifi option) \<Rightarrow> ('v, 'n, 'e) app \<Rightarrow> ('v, 'n, 'e) app option" where
  "with_wifi created f a = map_option (\<lambda>w. fold (wifi_cb created) (drop (length (w_evts (a_wifi a))) (w_evts w))
     (a\<lparr>a_wifi := w\<rparr>)) (f (a_wifi a))"

definition with_prov :: "('v prov \<Rightarrow> 'r \<times> 'v prov) \<Rightarrow> ('v, 'n, 'e) app \<Rightarrow> 'r \<times> ('v, 'n, 'e) app" where
  "with_prov f a = (case f (a_prov a) of (r, p) \<Rightarrow>
     (r, fold prov_cb (drop (length (p_evts (a_prov a))) (p_evts p)) (a\<lparr>a_prov := p\<rparr>)))"

definition with_matter :: "('v matter_svc \<Rightarrow> 'r \<times> 'v matter_svc) \<Rightarrow> ('v, 'n, 'e) app \<Rightarrow> 'r \<times> ('v, 'n, 'e) app" where
  "with_matter f a =
     (let m = a_matter a in case f (m\<lparr>hub := (hub m)\<lparr>flash := pflash (a_prov a)\<rparr>\<rparr>) of (r, m) \<Rightarrow>
        (r, a\<lparr>a_matter := m, a_prov := (a_prov a)\<lparr>pflash := flash (hub m)\<rparr>\<rparr>))"

subsection \<open>Start-up after the Bluetooth stack is ready\<close>

text \<open>\<open>err\<close> and \<open>adv\<close> are the answers of the stack; \<open>apa\<close> is the build option of the strip;
  \<open>iface\<close>: there is a Wi-Fi interface.  The audio player is a build option that is off.\<close>

definition init_services :: "'v nvs_api \<Rightarrow> tx_hw \<Rightarrow> gpio_answers \<Rightarrow> bool \<Rightarrow> ('v, 'n, 'e) app \<Rightarrow> ('v, 'n, 'e) app" where
  "init_services N H g apa a =
     (let a = a\<lparr>a_prov := (a_prov a)\<lparr>pflash := snd (app_nvram_init N (pflash (a_prov a)))\<rparr>\<rparr>;
          a = snd (with_matter (\<lambda>m. case matter_hub_init N (hub m) of (rc, h) \<Rightarrow> (rc, m\<lparr>hub := h\<rparr>)) a);
          a = snd (with_prov (app_prov_init N True) a)
      in a\<lparr>a_status := snd (app_status_init (a_status a)), a_ctrl := snd (app_ctrl_init (a_ctrl a)),
           a_ir := snd (app_ir_svc_init H (a_ir a)), a_led := snd (app_led_svc_init g apa (a_led a)),
           a_matter := app_matter_svc_init (a_matter a)\<rparr>)"

definition bt_ready_cb ::
  "'v nvs_api \<Rightarrow> tx_hw \<Rightarrow> gpio_answers \<Rightarrow> bool \<Rightarrow> int \<Rightarrow> int \<Rightarrow> bool \<Rightarrow> ('v, 'n, 'e) app \<Rightarrow> ('v, 'n, 'e) app" where
  "bt_ready_cb N H g apa err adv iface a =
     (if err \<noteq> 0 then a
      else let a = a\<lparr>a_connect_pending := False, a_reset_pending := False\<rparr> in
        if adv \<noteq> 0 then a
        else let a = init_services N H g apa a in
          (case app_nvram_load N zero_nvram (pflash (a_prov a)) of (rc, d, f) \<Rightarrow>
             a\<lparr>a_nvram_cfg := d, a_prov := (a_prov a)\<lparr>pflash := f\<rparr>,
               a_wifi := snd (app_wifi_init True iface (a_wifi a)), a_ble_ready := True\<rparr>))"

subsection \<open>The main loop\<close>

definition report_of :: "u32 \<Rightarrow> ('v, 'n, 'e) app \<Rightarrow> status_report" where
  "report_of up a =
     \<lparr>wifi_state = (if app_wifi_is_connected (a_wifi a) then 1 else 0),
      tcp_state = (if app_tcp_client_is_connected (a_tcp a) then 1 else 0),
      prov_state = (if a_prov_applied a then PROV_APPLIED else PROV_IDLE),
      sensor_state = (if a_ble_ready a then 1 else 0), uptime_s = up, sensor_rx_count = 0,
      lux1_err = 0, lux2_err = 0, lux1_x100 = 0, lux2_x100 = 0, amg_err = 0, amg_pad = 0,
      amg_min_q2 = 0, amg_avg_q2 = 0, amg_max_q2 = 0, radar_rx_bytes = 0\<rparr>"

definition publish_status :: "u32 \<Rightarrow> ('v, 'n, 'e) app \<Rightarrow> ('v, 'n, 'e) app" where
  "publish_status up a = a\<lparr>a_status := app_status_publish (Some (report_of up a)) (a_status a)\<rparr>"

definition app_main_led_manual_override :: "u32 \<Rightarrow> ('v, 'n, 'e) app \<Rightarrow> ('v, 'n, 'e) app" where
  "app_main_led_manual_override hold a = a\<lparr>a_led := (a_led a)\<lparr>manual_hold := hold\<rparr>\<rparr>"

text \<open>\<open>sw % 4\<close> of C keeps the sign; 0 is power on, 1 power off, 2 warmer, 3 cooler.\<close>

definition sw_action :: "int \<Rightarrow> nat" where
  "sw_action sw = (let r = sgn sw * (\<bar>sw\<bar> mod 4) in
     if r = 1 then 0 else if r = 2 then 2 else if r = 3 then 3 else 1)"

definition poll_rotary :: "tx_hw \<Rightarrow> ('v, 'n, 'e) app \<Rightarrow> ('v, 'n, 'e) app" where
  "poll_rotary H a =
     (let rot = rotary_enc_get_count (a_rot a); sw = rotary_enc_get_sw_count (a_rot a);
          a = (if rot \<noteq> a_last_rot a then a\<lparr>a_last_rot := rot\<rparr> else a)
      in if sw \<noteq> a_last_sw a
         then a\<lparr>a_last_sw := sw, a_ir := snd (on_aircon (ir_aircon_send H 0 (sw_action sw)) (a_ir a))\<rparr>
         else a)"

definition loop_ble :: "u32 \<Rightarrow> ('v, 'n, 'e) app \<Rightarrow> ('v, 'n, 'e) app" where
  "loop_ble up a =
     (let a = (if \<not> a_prov_applied a \<and> app_tcp_client_is_connected (a_tcp a)
               then a\<lparr>a_prov_applied := True, a_prov := app_prov_set_state PROV_APPLIED (a_prov a)\<rparr> else a);
          a = a\<lparr>a_matter := (a_matter a)\<lparr>hub := matter_hub_on_tick up (hub (a_matter a))\<rparr>\<rparr>;
          a = publish_status up a;
          a = a\<lparr>a_matter := app_matter_svc_publish_status (a_matter a)\<rparr>
      in if manual_hold (a_led a) \<noteq> 0
         then a\<lparr>a_led := (a_led a)\<lparr>manual_hold := manual_hold (a_led a) - 1\<rparr>\<rparr> else a)"

text \<open>One turn; \<open>toggled\<close>: the LED pin could be switched, otherwise the loop ends.\<close>

definition main_turn :: "tx_hw \<Rightarrow> bool \<Rightarrow> u32 \<Rightarrow> ('v, 'n, 'e) app \<Rightarrow> ('v, 'n, 'e) app option" where
  "main_turn H toggled up a =
     (if \<not> toggled then None
      else let a = poll_rotary H a in Some (if a_ble_ready a then loop_ble up a else a))"

end
