(* ===== verification/AppFlow.thy ===== *)
theory AppFlow
  imports AppMain
begin

text \<open>
  The components working together: an update requested over TCP, provisioning from the phone to
  the server, the reset, and what one turn of the main loop publishes.
\<close>

subsection \<open>Updates over TCP\<close>

lemma strip_trailing:
  assumes "\<forall>c \<in> set tail. ota_trailing c" "x \<noteq> []" "\<not> ota_trailing (last x)"
  shows "rev (dropWhile ota_trailing (rev (x @ tail))) = x"
proof -
  obtain y c where x: "x = y @ [c]" using assms(2) by (cases x rule: rev_cases) auto
  have "dropWhile ota_trailing (rev tail @ rev x) = dropWhile ota_trailing (rev x)"
    using assms(1) by (simp add: dropWhile_append)
  then show ?thesis using assms(3) by (simp add: x)
qed

lemma take_past: "length x \<le> n \<Longrightarrow> take n (x @ y) = x @ take (n - length x) y"
  by simp

definition plain_url :: "cstr \<Rightarrow> bool" where
  "plain_url url \<longleftrightarrow> url \<noteq> [] \<and> length url \<le> 240 \<and> list_all (\<lambda>c. c \<noteq> 0 \<and> \<not> ota_trailing c) url"

lemma ota_command_parses:
  assumes "plain_url url" "\<forall>c \<in> set tail. ota_trailing c"
  shows "ota_command (str ''OTA:'' @ url @ (if auto then str '' --commit'' else []) @ tail) = Some (url, auto)"
proof -
  let ?x = "str ''OTA:'' @ url @ (if auto then str '' --commit'' else [])"
  have l: "length ?x \<le> 255" "url \<noteq> []" using assms(1) by (auto simp: plain_url_def)
  have t: "take 255 (?x @ tail) = ?x @ take (255 - length ?x) tail"
    using l(1) by (rule take_past)
  have "\<not> ota_trailing (last ?x)"
    using assms(1) by (auto simp: plain_url_def list_all_iff ota_trailing_def c8_def)
  then have s: "rev (dropWhile ota_trailing (rev (take 255 (?x @ tail)))) = ?x"
    using assms(2) by (simp only: t) (rule strip_trailing, auto dest: in_set_takeD)
  have u: "\<forall>c \<in> set url. c \<noteq> 0 \<and> c \<noteq> 32" using assms(1) by (auto simp: plain_url_def list_all_iff ota_trailing_def)
  have c: "takeWhile (\<lambda>c. c \<noteq> 0) (drop 4 ?x) = url @ (if auto then str '' --commit'' else [])"
    using u by (auto simp: takeWhile_append c8_def)
  have "ota_command (?x @ tail) = Some (url, auto)"
    using l(2) u unfolding ota_command_def s c
    by (auto simp: Let_def starts_def c8_def takeWhile_append dropWhile_append)
  then show ?thesis by simp
qed

subsection \<open>From the phone to the server\<close>

definition psk_for :: "cstr \<Rightarrow> cstr \<Rightarrow> wifi_security \<times> cstr option" where
  "psk_for sec pw = (if sec = str ''OPEN'' then (SEC_NONE, None) else if sec = str ''WPA2'' then (SEC_PSK, Some pw)
     else (SEC_SAE, Some pw))"

lemma connect_security_creds:
  assumes "creds_fit sd pw sec ho prt"
  shows "connect_security (creds_of sd pw sec ho prt k) = Some (psk_for sec pw)"
  using assms creds_of_strings [OF assms, of k]
  by (auto simp: connect_security_def psk_for_def creds_fit_def)

text \<open>C3: Provisioning brings the device to its server, unless its TCP client is already running.
  When Wi-Fi has started, the phone writes credentials that fit and flash takes them at the
  commit, the deferred connect reads them back from flash and asks for the 5 GHz network of that
  name with the security and the key they say; when the network then accepts and an address
  arrives, power save is off and the TCP client runs.  A client that was not running gets one
  new task, with the host and the port the phone wrote.  A client that was running is left as it
  is: \<open>app_tcp_client_start\<close> answers success without taking the new configuration, and the
  device keeps talking to the old server.\<close>

theorem provision_to_tcp:
  assumes "creds_good entry N (pflash (a_prov a))" "\<forall>i d v. 0 \<le> fst (nvs_write N i d v)"
    and "creds_fit sd pw sec ho prt" "p_cb (a_prov a)"
    and "w_started (a_wifi a)" "w_iface (a_wifi a)" "w_cb (a_wifi a)"
    and "with_prov (provision N sd pw sec ho prt) a = (r, a1)"
  shows "r = Inr 1 \<and> a_connect_pending a1 \<and> (\<exists>a2 a3 a4.
    with_wifi True (w_step (WRetry 0)) (prov_connect_work_fn N a1) = Some a2 \<and>
    with_wifi True (w_step (WMgmt (ConnectResult (Some ConnSuccess) band))) a2 = Some a3 \<and>
    with_wifi True (w_step (WDhcp True)) a3 = Some a4 \<and>
    w_reqs (a_wifi a4) = w_reqs (a_wifi a) @
      [ReqConnect sd BAND_5_GHZ (fst (psk_for sec pw)) (snd (psk_for sec pw)), ReqPsOff] \<and>
    app_wifi_is_connected (a_wifi a4) \<and> c_running (a_tcp a4) \<and>
    (if c_running (a_tcp a) then a_tcp a4 = a_tcp a
     else c_tasks (a_tcp a4) = c_tasks (a_tcp a) @ [TLoop 500] \<and>
       cstring (host_ip (c_cfg (a_tcp a4))) = ho \<and> nport (c_cfg (a_tcp a4)) = prt))"
proof -
  let ?d = "creds_of sd pw sec ho prt 0"
  obtain f where p: "provision N sd pw sec ho prt (a_prov a) = (Inr 1, app_prov_set_state PROV_COMMITTED (emit PROV_COMMIT_OK PROV_COMMITTED
      ((a_prov a)\<lparr>staging := creds_of sd pw sec ho prt (npad (staging (a_prov a))), pflash := f\<rparr>)))"
    and c: "creds_good entry N f" "creds_held entry f = Some ?d"
    using provision_commits [OF assms(1-3)] by blast
  let ?p = "snd (provision N sd pw sec ho prt (a_prov a))"
  have a1: "r = Inr 1" "a1 = a\<lparr>a_prov := ?p, a_connect_pending := True\<rparr>" "pflash ?p = f"
    using assms(4,8) p by (auto simp: with_prov_def app_prov_set_state_def)
  have ld: "app_nvram_load N x f = (NVRAM_OK, ?d, f)" for x using creds_loaded [OF c] .
  let ?w = "(a_wifi a)\<lparr>w_timeout_on := False, w_retry_cfg := ?d, w_retry_idx := 0, w_retry_pending := True\<rparr>"
  let ?a = "a\<lparr>a_nvram_cfg := ?d, a_connect_pending := True, a_prov := ?p\<lparr>pflash := f\<rparr>, a_wifi := ?w\<rparr>"
  have w: "prov_connect_work_fn N a1 = ?a"
    using assms(5,6) by (simp add: prov_connect_work_fn_def a1(2,3) ld app_wifi_connect_def cancel_connect_timeout_def)
  let ?q = "ReqConnect sd BAND_5_GHZ (fst (psk_for sec pw)) (snd (psk_for sec pw))"
  let ?w2 = "?w\<lparr>w_retry_pending := False, w_reqs := w_reqs (a_wifi a) @ [?q], w_timeout_on := True\<rparr>"
  have 1: "with_wifi True (w_step (WRetry 0)) ?a = Some (?a\<lparr>a_wifi := ?w2\<rparr>)"
    using creds_of_strings [OF assms(3), of 0] connect_security_creds [OF assms(3), of 0]
    by (simp add: with_wifi_def wifi_defs k_band_seq_def Let_def split_beta)
  let ?w3 = "wifi_mgmt_event_handler (ConnectResult (Some ConnSuccess) band) ?w2"
  have e3: "w_evts ?w3 = w_evts ?w2" "w_reqs ?w3 = w_reqs ?w2 @ [ReqPsOff]" "w_connected ?w3" "w_cb ?w3 = w_cb ?w2"
    by (simp_all add: wifi_defs split: option.split)
  have 2: "with_wifi True (w_step (WMgmt (ConnectResult (Some ConnSuccess) band))) (?a\<lparr>a_wifi := ?w2\<rparr>) = Some (?a\<lparr>a_wifi := ?w3\<rparr>)"
    using e3(1) by (simp add: with_wifi_def del: wifi_mgmt_event_handler.simps)
  let ?w4 = "?w3\<lparr>w_evts := w_evts ?w3 @ [WIFI_CONNECTED]\<rparr>"
  have 3: "with_wifi True (w_step (WDhcp True)) (?a\<lparr>a_wifi := ?w3\<rparr>) = Some (wifi_cb True WIFI_CONNECTED (?a\<lparr>a_wifi := ?w4\<rparr>))"
    using e3(4) assms(7) by (simp add: with_wifi_def ipv4_event_handler_def w_emit_def del: wifi_mgmt_event_handler.simps)
  show ?thesis
    using 1 2 3 w a1 e3 creds_of_strings [OF assms(3), of 0]
    by (simp add: app_wifi_is_connected_def app_tcp_client_start_def del: wifi_mgmt_event_handler.simps)
qed


definition demo_app :: "(nat \<Rightarrow> u8 list option, u8 list, u8 list) app" where
  "demo_app = \<lparr>a_ble_ready = True, a_nvram_cfg = zero_nvram, a_prov_applied = False, a_connect_pending = False,
     a_reset_pending = False, a_wifi = demo_wifi, a_tcp = tcp_client_boot, a_prov = demo_prov,
     a_matter = \<lparr>hub = hub_boot demo_store, s_packed = [], m_notified = []\<rparr>, a_http = demo_task [],
     a_ir = \<lparr>irs_ac = aircon_boot, irs_status = \<lparr>aircon_powered = 0, aircon_temp_c = 0, status_carrier = 0\<rparr>,
       irs_notified = []\<rparr>,
     a_led = \<lparr>led_task = led_boot, led_cached = \<lparr>st_pattern = 0, st_color = COLOR_OFF, st_brightness = 0, st_count = 0\<rparr>,
       manual_hold = 0, led_notes = []\<rparr>,
     a_ctrl = \<lparr>resp_state = 0, ctrl_notes = [], ctrl_seen = []\<rparr>, a_status = \<lparr>st_last = [], st_notes = []\<rparr>,
     a_rot = rotary_boot, a_last_rot = 0, a_last_sw = 0\<rparr>"

lemma provision_to_tcp_witness:
  "(\<exists>a4 :: (nat \<Rightarrow> u8 list option, u8 list, u8 list) app. c_running (a_tcp a4) \<and>
    cstring (host_ip (c_cfg (a_tcp a4))) = str ''10.0.0.1'' \<and> nport (c_cfg (a_tcp a4)) = 5000 \<and>
    w_reqs (a_wifi a4) = [ReqConnect (str ''home'') BAND_5_GHZ SEC_PSK (Some (str ''secret'')), ReqPsOff]) \<and>
   (\<exists>a4 :: (nat \<Rightarrow> u8 list option, u8 list, u8 list) app. nport (c_cfg (a_tcp a4)) = 4000 \<and>
    w_reqs (a_wifi a4) = [ReqConnect (str ''home'') BAND_5_GHZ SEC_PSK (Some (str ''secret'')), ReqPsOff])"
proof -
  let ?b = "demo_app\<lparr>a_tcp := tcp_client_boot\<lparr>c_running := True, c_cfg := zero_nvram\<lparr>nport := 4000\<rparr>\<rparr>\<rparr>"
  have g: "creds_good (\<lambda>v. v) demo_nvs (pflash (a_prov demo_app))" "creds_good (\<lambda>v. v) demo_nvs (pflash (a_prov ?b))"
    using demo_prov_good by (simp_all add: demo_app_def)
  have w: "\<forall>i d v. 0 \<le> fst (nvs_write demo_nvs i d v)" by (simp add: demo_nvs_def)
  have c: "creds_fit (str ''home'') (str ''secret'') (str ''WPA2'') (str ''10.0.0.1'') 5000"
    by (simp add: creds_fit_def c8_def)
  have b: "p_cb (a_prov demo_app)" "w_started (a_wifi demo_app)" "w_iface (a_wifi demo_app)" "w_cb (a_wifi demo_app)"
    by (simp_all add: demo_app_def demo_prov_def demo_wifi_def wifi_boot_def)
  then have b2: "p_cb (a_prov ?b)" "w_started (a_wifi ?b)" "w_iface (a_wifi ?b)" "w_cb (a_wifi ?b)" by simp_all
  have n: "\<not> c_running (a_tcp demo_app)" "w_reqs (a_wifi demo_app) = []" "w_reqs (a_wifi ?b) = []"
    "c_running (a_tcp ?b)" "nport (c_cfg (a_tcp ?b)) = 4000"
    by (simp_all add: demo_app_def demo_wifi_def wifi_boot_def tcp_client_boot_def)
  have s: "psk_for (str ''WPA2'') (str ''secret'') = (SEC_PSK, Some (str ''secret''))" by (simp add: psk_for_def c8_def)
  let ?w = "provision demo_nvs (str ''home'') (str ''secret'') (str ''WPA2'') (str ''10.0.0.1'') 5000"
  obtain r a1 r' b1 where p: "with_prov ?w demo_app = (r, a1)" "with_prov ?w ?b = (r', b1)" by force
  from provision_to_tcp [OF g(1) w c b p(1), of None] provision_to_tcp [OF g(2) w c b2 p(2), of None] n(1,4,5)
  show ?thesis unfolding s n(2,3) fst_conv snd_conv append_Nil by metis
qed

subsection \<open>One turn of the main loop\<close>

lemma poll_rotary_kept:
  "a_ble_ready (poll_rotary H a) = a_ble_ready a" "a_status (poll_rotary H a) = a_status a"
  "a_wifi (poll_rotary H a) = a_wifi a" "a_tcp (poll_rotary H a) = a_tcp a"
  "a_prov_applied (poll_rotary H a) = a_prov_applied a" "a_matter (poll_rotary H a) = a_matter a"
  "a_prov (poll_rotary H a) = a_prov a" "a_led (poll_rotary H a) = a_led a"
  by (simp_all add: poll_rotary_def Let_def)

lemma poll_rotary_ac:
  "irs_ac (a_ir (poll_rotary H a)) = (if rotary_enc_get_sw_count (a_rot a) = a_last_sw a then irs_ac (a_ir a)
      else snd (ir_aircon_send H 0 (sw_action (rotary_enc_get_sw_count (a_rot a))) (irs_ac (a_ir a))))"
  by (simp add: poll_rotary_def on_aircon_def Let_def split: prod.split)

definition latched :: "('v, 'n, 'e) app \<Rightarrow> ('v, 'n, 'e) app" where
  "latched a = a\<lparr>a_prov_applied := a_prov_applied a \<or> app_tcp_client_is_connected (a_tcp a)\<rparr>"

lemma report_of_cong:
  "a_wifi a = a_wifi b \<Longrightarrow> a_tcp a = a_tcp b \<Longrightarrow> a_prov_applied a = a_prov_applied b \<Longrightarrow> a_ble_ready a = a_ble_ready b \<Longrightarrow>
   report_of up a = report_of up b"
  by (simp add: report_of_def)

lemma loop_ble_sel:
  "st_notes (a_status (loop_ble up a)) = st_notes (a_status a) @ [status_bytes (report_of up (latched a))]"
  "m_notified (a_matter (loop_ble up a)) = m_notified (a_matter a) @ [matter_hub_pack_status (matter_hub_on_tick up (hub (a_matter a)))]"
  "p_notified (a_prov (loop_ble up a)) = p_notified (a_prov a) @
     (if \<not> a_prov_applied a \<and> app_tcp_client_is_connected (a_tcp a) then [PROV_APPLIED] else [])"
  "manual_hold (a_led (loop_ble up a)) = manual_hold (a_led a) - (if manual_hold (a_led a) = 0 then 0 else 1)"
  "a_ir (loop_ble up a) = a_ir a"
proof -
  show "st_notes (a_status (loop_ble up a)) = st_notes (a_status a) @ [status_bytes (report_of up (latched a))]"
    by (auto simp: loop_ble_def publish_status_def app_status_publish_def latched_def Let_def intro!: arg_cong [of _ _ status_bytes] report_of_cong)
qed (simp_all add: loop_ble_def publish_status_def app_matter_svc_publish_status_def m_notify_def m_refresh_packed_def
    app_prov_set_state_def Let_def)

lemma report_bytes:
  "length (status_bytes r) = 32"
  "status_bytes (report_of up (latched a)) ! 0 = of_bool (app_wifi_is_connected (a_wifi a))"
  "status_bytes (report_of up (latched a)) ! Suc 0 = of_bool (app_tcp_client_is_connected (a_tcp a))"
  "status_bytes (report_of up (latched a)) ! 2 =
     (if a_prov_applied a \<or> app_tcp_client_is_connected (a_tcp a) then PROV_APPLIED else PROV_IDLE)"
  "le32 (status_bytes (report_of up b) ! 4) (status_bytes (report_of up b) ! 5)
     (status_bytes (report_of up b) ! 6) (status_bytes (report_of up b) ! 7) = up"
  by (simp_all add: status_bytes_def report_of_def latched_def enc32_def)

text \<open>C27: A turn of the main loop publishes the state.  Once Bluetooth is ready every turn sends one
  32-byte status report whose bytes are the Wi-Fi and TCP connection flags, the provisioning
  state and the uptime, and one Matter status of the hub after this second's tick; the first
  turn with a TCP connection also announces APPLIED; the LED hold counts down to zero; and the
  air conditioner receives one command exactly when the button counter has changed.  The
  connection bytes are never 2, the value the service documents for connected.\<close>

theorem turn_publishes:
  assumes "a_ble_ready a" "main_turn H True up a = Some a'"
  shows "\<exists>b. st_notes (a_status a') = st_notes (a_status a) @ [b] \<and> length b = 32 \<and>
    b ! 0 = of_bool (app_wifi_is_connected (a_wifi a)) \<and> b ! 1 = of_bool (app_tcp_client_is_connected (a_tcp a)) \<and>
    b ! 2 = (if a_prov_applied a \<or> app_tcp_client_is_connected (a_tcp a) then PROV_APPLIED else PROV_IDLE) \<and>
    le32 (b ! 4) (b ! 5) (b ! 6) (b ! 7) = up \<and>
    m_notified (a_matter a') = m_notified (a_matter a) @ [matter_hub_pack_status (matter_hub_on_tick up (hub (a_matter a)))] \<and>
    p_notified (a_prov a') = p_notified (a_prov a) @
      (if \<not> a_prov_applied a \<and> app_tcp_client_is_connected (a_tcp a) then [PROV_APPLIED] else []) \<and>
    manual_hold (a_led a') = manual_hold (a_led a) - (if manual_hold (a_led a) = 0 then 0 else 1) \<and>
    irs_ac (a_ir a') = (if rotary_enc_get_sw_count (a_rot a) = a_last_sw a then irs_ac (a_ir a)
      else snd (ir_aircon_send H 0 (sw_action (rotary_enc_get_sw_count (a_rot a))) (irs_ac (a_ir a))))"
proof -
  have a': "a' = loop_ble up (poll_rotary H a)"
    using assms by (simp add: main_turn_def poll_rotary_kept)
  show ?thesis
    unfolding a' loop_ble_sel poll_rotary_kept poll_rotary_ac
    by (intro exI conjI, rule refl) (simp_all add: report_bytes poll_rotary_kept)
qed

lemma turn_publishes_witness:
  "\<exists>a' b. main_turn \<lparr>pwm_ready = True, thread_done = \<lambda>s. True\<rparr> True 7 demo_app = Some a' \<and>
    st_notes (a_status a') = [b] \<and> le32 (b ! 4) (b ! 5) (b ! 6) (b ! 7) = 7"
proof -
  obtain a' where m: "main_turn \<lparr>pwm_ready = True, thread_done = \<lambda>s. True\<rparr> True 7 demo_app = Some a'"
    by (simp add: main_turn_def Let_def)
  have "a_ble_ready demo_app" "st_notes (a_status demo_app) = []" by (simp_all add: demo_app_def)
  with turn_publishes [OF _ m] m show ?thesis by auto
qed

text \<open>C28: A reset before Wi-Fi is ready does not forget the credentials.  The device has booted with
  valid credentials and Wi-Fi has not started yet (for five seconds at most); the phone connects
  and resets.  After the reset and its deferred work flash holds no credentials, TCP and Wi-Fi are
  down; yet when Wi-Fi then becomes ready, by its timer or by the interface coming up, and the
  scheduled connect runs, the device asks for the network of the credentials it had loaded at
  boot, with their key.\<close>

theorem reset_keeps_old_credentials:
  assumes "creds_good entry N (pflash (a_prov a))" "p_cb (a_prov a)" "app_nvram_is_valid (a_nvram_cfg a)"
    and "connect_security (a_nvram_cfg a) = Some (sec, psk)"
    and "\<not> w_started (a_wifi a)" "w_ready_pending (a_wifi a)" "w_iface (a_wifi a)" "w_cb (a_wifi a)"
    and "app_nvram_reset N (pflash (a_prov a)) = (NVRAM_OK, f)"
    and "with_prov (write_commit N 0 [0xFF]) a = (r, a1)" "a2 = prov_reset_work_fn rc a1"
    and "l = WReadyTimer \<or> l = WIfUp True True"
  shows "r = Inr 1 \<and> a_reset_pending a1 \<and> \<not> c_running (a_tcp a2) \<and> \<not> app_wifi_is_connected (a_wifi a2) \<and>
    (\<exists>a3 a4. with_wifi created (w_step l) a2 = Some a3 \<and>
      with_wifi created (w_step (WRetry 0)) a3 = Some a4 \<and>
      fst (app_nvram_load N zero_nvram (pflash (a_prov a4))) = NVRAM_NO_RECORD \<and>
      w_reqs (a_wifi a4) = w_reqs (a_wifi a) @
        [ReqDisconnect, ReqConnect (cstring (ssid (a_nvram_cfg a))) BAND_5_GHZ sec psk])"
proof -
  let ?p = "app_prov_set_state PROV_IDLE (emit PROV_RESET PROV_IDLE ((a_prov a)\<lparr>pflash := f, staging := zero_nvram\<rparr>))"
  have w: "write_commit N 0 [0xFF] (a_prov a) = (Inr 1, ?p)" using assms(9) by (simp add: write_commit_def)
  have e: "p_evts ?p = p_evts (a_prov a) @ [PROV_RESET]" "pflash ?p = f"
    using assms(2) by (simp_all add: app_prov_set_state_def)
  have a1: "r = Inr 1" "a1 = a\<lparr>a_prov := ?p, a_reset_pending := True\<rparr>"
    using assms(10) e(1) unfolding with_prov_def w by auto
  have l: "fst (app_nvram_load N zero_nvram f) = NVRAM_NO_RECORD"
    using reset_empties [OF assms(1,9)] creds_nothing by blast
  let ?w = "(a_wifi a)\<lparr>w_timeout_on := False, w_retry_idx := 2, w_connected := False,
    w_reqs := w_reqs (a_wifi a) @ [ReqDisconnect]\<rparr>"
  have a2: "a2 = a\<lparr>a_prov := ?p, a_reset_pending := True, a_tcp := app_tcp_client_stop (a_tcp a),
      a_wifi := ?w, a_prov_applied := False\<rparr>"
    unfolding assms(11) a1(2) using assms(7)
    by (simp add: prov_reset_work_fn_def app_wifi_disconnect_def w_request_def cancel_connect_timeout_def Let_def)
  let ?w3 = "?w\<lparr>w_started := True, w_ready_pending := False, w_evts := w_evts (a_wifi a) @ [WIFI_READY],
    w_retry_cfg := a_nvram_cfg a, w_retry_idx := 0, w_retry_pending := True\<rparr>"
  have 3: "with_wifi created (w_step l) a2 = Some (a2\<lparr>a_wifi := ?w3\<rparr>)"
    unfolding a2 using assms(3,5-8,12)
    by (elim disjE) (simp_all add: with_wifi_def wifi_defs)
  let ?w4 = "?w3\<lparr>w_retry_pending := False, w_timeout_on := True, w_reqs := w_reqs ?w3 @
    [ReqConnect (cstring (ssid (a_nvram_cfg a))) BAND_5_GHZ sec psk]\<rparr>"
  have 4: "with_wifi created (w_step (WRetry 0)) (a2\<lparr>a_wifi := ?w3\<rparr>) = Some (a2\<lparr>a_wifi := ?w4\<rparr>)"
    unfolding a2 using assms(4) by (simp add: with_wifi_def wifi_defs k_band_seq_def Let_def)
  have "\<not> c_running (a_tcp a2)" "\<not> app_wifi_is_connected (a_wifi a2)" "pflash (a_prov a2) = f"
    unfolding a2 using e(2)
    by (simp_all add: app_tcp_client_stop_def stop_close_def stop_flag_def app_wifi_is_connected_def)
  then show ?thesis using a1 3 4 l by simp
qed

lemma reset_keeps_old_credentials_witness:
  "\<exists>a4 :: (nat \<Rightarrow> u8 list option, u8 list, u8 list) app. fst (app_nvram_load demo_nvs zero_nvram (pflash (a_prov a4))) = NVRAM_NO_RECORD \<and>
    w_reqs (a_wifi a4) = [ReqIfUp, ReqDisconnect, ReqConnect (str ''home'') BAND_5_GHZ SEC_PSK (Some (str ''secret''))]"
proof -
  let ?d = "creds_of (str ''home'') (str ''secret'') (str ''WPA2'') (str ''10.0.0.1'') 5000 0"
  let ?a = "demo_app\<lparr>a_nvram_cfg := ?d, a_wifi := snd (app_wifi_init True True wifi_boot)\<rparr>"
  have fit: "creds_fit (str ''home'') (str ''secret'') (str ''WPA2'') (str ''10.0.0.1'') 5000"
    by (simp add: creds_fit_def c8_def)
  have g: "creds_good (\<lambda>v. v) demo_nvs (pflash (a_prov ?a))" using demo_prov_good by (simp add: demo_app_def)
  have b: "p_cb (a_prov ?a)" "app_nvram_is_valid (a_nvram_cfg ?a)"
    using creds_of_valid [OF fit, of 0] by (simp_all add: demo_app_def demo_prov_def)
  have k: "connect_security (a_nvram_cfg ?a) = Some (SEC_PSK, Some (str ''secret''))"
    using connect_security_creds [OF fit, of 0] by (simp add: psk_for_def c8_def)
  have w: "\<not> w_started (a_wifi ?a)" "w_ready_pending (a_wifi ?a)" "w_iface (a_wifi ?a)" "w_cb (a_wifi ?a)"
    by (simp_all add: app_wifi_init_def wifi_boot_def w_request_def Let_def)
  have q: "w_reqs (a_wifi ?a) = [ReqIfUp]" by (simp add: app_wifi_init_def wifi_boot_def w_request_def Let_def)
  obtain f where f: "app_nvram_reset demo_nvs (pflash (a_prov ?a)) = (NVRAM_OK, f)"
    by (simp add: demo_app_def demo_prov_def demo_store_def app_nvram_reset_def app_nvs_init_def demo_nvs_def)
  obtain r a1 where c: "with_prov (write_commit demo_nvs 0 [0xFF]) ?a = (r, a1)" by force
  have n: "cstring (ssid (a_nvram_cfg ?a)) = str ''home''" using creds_of_strings(1) [OF fit, of 0] by simp
  from reset_keeps_old_credentials [OF g b k w f c refl disjI1 [OF refl], of 0 True]
  show ?thesis unfolding n q by auto
qed

end
