(* ===== verification/I2c.thy ===== *)
theory I2c
  imports Words
begin

text \<open>
  The shared I2C bus \<open>app/i2c_bus.c\<close>.  The Zephyr driver and the register write that latches the
  FlexComm engine are the functions of \<open>i2c_api\<close>, with their own state \<open>'b\<close>.  Every operation
  holds the bus lock throughout, so it is one step.  A transfer that answers bytes answers a
  list; on an error the caller does not look at it.
\<close>

record 'b i2c_api =
  i2c_ready :: bool
  drv_write :: "u8 \<Rightarrow> u8 list \<Rightarrow> 'b \<Rightarrow> int \<times> 'b"
  drv_read :: "u8 \<Rightarrow> nat \<Rightarrow> 'b \<Rightarrow> int \<times> u8 list \<times> 'b"
  drv_write_read :: "u8 \<Rightarrow> u8 list \<Rightarrow> nat \<Rightarrow> 'b \<Rightarrow> int \<times> u8 list \<times> 'b"
  drv_probe :: "u8 \<Rightarrow> 'b \<Rightarrow> int \<times> 'b"
  pselid_latch :: "'b \<Rightarrow> 'b"

record 'b i2c =
  i2c_selected :: bool
  wires :: 'b

definition i2c_bus_flexcomm_latch :: "'b i2c_api \<Rightarrow> 'b i2c \<Rightarrow> 'b i2c" where
  "i2c_bus_flexcomm_latch I s = s\<lparr>wires := pselid_latch I (wires s)\<rparr>"

definition i2c_bus_select_once :: "'b i2c_api \<Rightarrow> 'b i2c \<Rightarrow> 'b i2c" where
  "i2c_bus_select_once I s = (if i2c_selected s then s
     else i2c_bus_flexcomm_latch I (s\<lparr>i2c_selected := True\<rparr>))"

definition i2c_bus_recover_on_err :: "'b i2c_api \<Rightarrow> int \<Rightarrow> 'b i2c \<Rightarrow> 'b i2c" where
  "i2c_bus_recover_on_err I rc s = (if rc \<noteq> 0 then i2c_bus_flexcomm_latch I s else s)"

definition i2c_bus_init :: "'b i2c_api \<Rightarrow> int" where
  "i2c_bus_init I = (if \<not> i2c_ready I then - ENODEV else 0)"

definition i2c_bus_write :: "'b i2c_api \<Rightarrow> u8 \<Rightarrow> u8 list \<Rightarrow> 'b i2c \<Rightarrow> int \<times> 'b i2c" where
  "i2c_bus_write I a data s =
     (if data = [] then (- EINVAL, s)
      else let s = i2c_bus_select_once I s in
        case drv_write I a data (wires s) of (rc, b) \<Rightarrow> (rc, i2c_bus_recover_on_err I rc (s\<lparr>wires := b\<rparr>)))"

definition i2c_bus_read :: "'b i2c_api \<Rightarrow> u8 \<Rightarrow> nat \<Rightarrow> 'b i2c \<Rightarrow> int \<times> u8 list \<times> 'b i2c" where
  "i2c_bus_read I a n s =
     (if n = 0 then (- EINVAL, [], s)
      else let s = i2c_bus_select_once I s in
        case drv_read I a n (wires s) of (rc, d, b) \<Rightarrow> (rc, d, i2c_bus_recover_on_err I rc (s\<lparr>wires := b\<rparr>)))"

definition i2c_bus_probe :: "'b i2c_api \<Rightarrow> u8 \<Rightarrow> 'b i2c \<Rightarrow> int \<times> 'b i2c" where
  "i2c_bus_probe I a s =
     (let s = i2c_bus_select_once I s in
      case drv_probe I a (wires s) of (rc, b) \<Rightarrow> (if rc = 0 then 0 else - ENODEV, s\<lparr>wires := b\<rparr>))"

definition i2c_bus_write_read ::
  "'b i2c_api \<Rightarrow> u8 \<Rightarrow> u8 list \<Rightarrow> nat \<Rightarrow> 'b i2c \<Rightarrow> int \<times> u8 list \<times> 'b i2c" where
  "i2c_bus_write_read I a tx n s =
     (if tx = [] \<or> n = 0 then (- EINVAL, [], s)
      else let s = i2c_bus_select_once I s in
        case drv_write_read I a tx n (wires s) of (rc, d, b) \<Rightarrow>
          (rc, d, i2c_bus_recover_on_err I rc (s\<lparr>wires := b\<rparr>)))"

subsection \<open>Accesses to the bus\<close>

text \<open>One access that reaches the wires; the flag says that it was a probe that was not acknowledged,
  the one access after which the code does not latch the engine again.\<close>

inductive bus_access :: "'b i2c_api \<Rightarrow> bool \<Rightarrow> 'b i2c \<Rightarrow> 'b i2c \<Rightarrow> bool" for I where
  acc_write: "d \<noteq> [] \<Longrightarrow> i2c_bus_write I a d s = (rc, s') \<Longrightarrow> bus_access I False s s'"
| acc_read: "0 < n \<Longrightarrow> i2c_bus_read I a n s = (rc, e, s') \<Longrightarrow> bus_access I False s s'"
| acc_write_read: "d \<noteq> [] \<Longrightarrow> 0 < n \<Longrightarrow> i2c_bus_write_read I a d n s = (rc, e, s') \<Longrightarrow> bus_access I False s s'"
| acc_probe: "i2c_bus_probe I a s = (rc, s') \<Longrightarrow> bus_access I (rc \<noteq> 0) s s'"

text \<open>A run of accesses, with the flag of the last one.\<close>

inductive bus_run :: "'b i2c_api \<Rightarrow> bool \<Rightarrow> 'b i2c \<Rightarrow> 'b i2c \<Rightarrow> bool" for I where
  run_none: "bus_run I False s s"
| run_more: "bus_run I q s s1 \<Longrightarrow> bus_access I q' s1 s2 \<Longrightarrow> bus_run I q' s s2"

text \<open>\<open>uses I s s'\<close>: the bus gets from one state to the other by accesses alone.\<close>

definition uses :: "'b i2c_api \<Rightarrow> 'b i2c \<Rightarrow> 'b i2c \<Rightarrow> bool" where
  "uses I s s' \<longleftrightarrow> (\<exists>q. bus_run I q s s')"

lemma uses_refl [simp]: "uses I s s"
  unfolding uses_def by (blast intro: run_none)

lemma uses_more: "uses I s s1 \<Longrightarrow> bus_access I q s1 s2 \<Longrightarrow> uses I s s2"
  unfolding uses_def by (blast intro: run_more)

lemma uses_trans: "uses I s s1 \<Longrightarrow> uses I s1 s2 \<Longrightarrow> uses I s s2"
proof -
  have "bus_run I q s1 s2 \<Longrightarrow> uses I s s1 \<Longrightarrow> uses I s s2" for q
    by (induction rule: bus_run.induct) (blast intro: uses_more)+
  then show "uses I s s1 \<Longrightarrow> uses I s1 s2 \<Longrightarrow> uses I s s2" unfolding uses_def [of I s1] by blast
qed

text \<open>The four functions as rules; a call without bytes does not reach the wires.\<close>

lemma bus_rules:
  "uses I s0 s \<Longrightarrow> i2c_bus_write I a d s = (rc, s') \<Longrightarrow> uses I s0 s'"
  "uses I s0 s \<Longrightarrow> i2c_bus_read I a n s = (rc, e, s') \<Longrightarrow> uses I s0 s'"
  "uses I s0 s \<Longrightarrow> i2c_bus_write_read I a d n s = (rc, e, s') \<Longrightarrow> uses I s0 s'"
  "uses I s0 s \<Longrightarrow> i2c_bus_probe I a s = (rc, s') \<Longrightarrow> uses I s0 s'"
proof -
  show "uses I s0 s'" if u: "uses I s0 s" and w: "i2c_bus_write I a d s = (rc, s')"
    using uses_more [OF u acc_write [OF _ w]] u w by (cases "d = []") (auto simp: i2c_bus_write_def)
  show "uses I s0 s'" if u: "uses I s0 s" and r: "i2c_bus_read I a n s = (rc, e, s')"
    using uses_more [OF u acc_read [OF _ r]] u r by (cases "n = 0") (auto simp: i2c_bus_read_def)
  show "uses I s0 s'" if u: "uses I s0 s" and x: "i2c_bus_write_read I a d n s = (rc, e, s')"
    using uses_more [OF u acc_write_read [OF _ _ x]] u x by (cases "d = [] \<or> n = 0") (auto simp: i2c_bus_write_read_def)
  show "uses I s0 s'" if u: "uses I s0 s" and p: "i2c_bus_probe I a s = (rc, s')"
    by (rule uses_more [OF u acc_probe [OF p]])
qed

subsection \<open>The engine is latched\<close>

text \<open>\<open>live\<close> is any property of the wires that the latch establishes and that holds after a transfer that
  was acknowledged; after one that was not, a NAK or a timeout, anything may be the case.\<close>

definition engine_law :: "'b i2c_api \<Rightarrow> ('b \<Rightarrow> bool) \<Rightarrow> bool" where
  "engine_law I live \<longleftrightarrow> (\<forall>b. live (pselid_latch I b)) \<and>
     (\<forall>a d b b'. drv_write I a d b = (0, b') \<longrightarrow> live b') \<and>
     (\<forall>a n b e b'. drv_read I a n b = (0, e, b') \<longrightarrow> live b') \<and>
     (\<forall>a t n b e b'. drv_write_read I a t n b = (0, e, b') \<longrightarrow> live b') \<and>
     (\<forall>a b b'. drv_probe I a b = (0, b') \<longrightarrow> live b')"

lemma selected_kept [simp]: "i2c_selected (i2c_bus_recover_on_err I rc s) = i2c_selected s"
  "i2c_selected (i2c_bus_select_once I s)"
  by (simp_all add: i2c_bus_recover_on_err_def i2c_bus_select_once_def i2c_bus_flexcomm_latch_def)

lemma recovered: "engine_law I live \<Longrightarrow> (rc = 0 \<Longrightarrow> live b) \<Longrightarrow> live (wires (i2c_bus_recover_on_err I rc (s\<lparr>wires := b\<rparr>)))"
  by (simp add: engine_law_def i2c_bus_recover_on_err_def i2c_bus_flexcomm_latch_def)

lemma access_live:
  assumes L: "engine_law I live" and a: "bus_access I q s s'"
  shows "i2c_selected s' \<and> (q \<or> live (wires s'))"
  using a
proof cases
  case (acc_write d a rc)
  obtain k b where d: "drv_write I a d (wires (i2c_bus_select_once I s)) = (k, b)" by force
  have "k = 0 \<Longrightarrow> live b" using L d unfolding engine_law_def by blast
  then show ?thesis using acc_write d recovered [OF L] by (auto simp: i2c_bus_write_def Let_def)
next
  case (acc_read n a rc e)
  obtain k e' b where d: "drv_read I a n (wires (i2c_bus_select_once I s)) = (k, e', b)" by (metis prod_cases3)
  have "k = 0 \<Longrightarrow> live b" using L d unfolding engine_law_def by blast
  then show ?thesis using acc_read d recovered [OF L] by (auto simp: i2c_bus_read_def Let_def)
next
  case (acc_write_read d n a rc e)
  obtain k e' b where d: "drv_write_read I a d n (wires (i2c_bus_select_once I s)) = (k, e', b)" by (metis prod_cases3)
  have "k = 0 \<Longrightarrow> live b" using L d unfolding engine_law_def by blast
  then show ?thesis using acc_write_read d recovered [OF L] by (auto simp: i2c_bus_write_read_def Let_def)
next
  case (acc_probe a rc)
  obtain k b where d: "drv_probe I a (wires (i2c_bus_select_once I s)) = (k, b)" by force
  have "k = 0 \<Longrightarrow> live b" using L d unfolding engine_law_def by blast
  then show ?thesis using acc_probe d by (auto simp: i2c_bus_probe_def Let_def split: if_splits)
qed

text \<open>After the boot every access finds a live engine, unless the one before it was a failed probe.\<close>

lemma run_live:
  assumes "engine_law I live" "bus_run I q s s'" "\<not> i2c_selected s"
  shows "q \<or> live (wires (i2c_bus_select_once I s'))"
  using assms(2,3)
proof cases
  case run_none
  then show ?thesis using assms(1,3) by (simp add: engine_law_def i2c_bus_select_once_def i2c_bus_flexcomm_latch_def)
next
  case (run_more q0 s1)
  then show ?thesis using access_live [OF assms(1) run_more(2)] by (auto simp: i2c_bus_select_once_def)
qed

subsection \<open>Pacing of the sampling tasks\<close>

text \<open>The end of a turn of the sampling tasks: the next absolute wake-up, moved on when it is not in
  the future.  Both tasks write the same lines.\<close>

definition next_wake :: "u32 \<Rightarrow> u32 \<Rightarrow> u32 \<Rightarrow> u32" where
  "next_wake period next now = (let next = next + period in
     if sint (next - now) < 1 then now + period else next)"

lemma next_wake_future:
  assumes "0 < sint period"
  shows "0 < sint (next_wake period nxt now - now)"
  using assms by (auto simp: next_wake_def Let_def)

end
