(* ===== verification/Lux.thy ===== *)
theory Lux
  imports I2c
begin

text \<open>
  The light sensor: the driver \<open>app/sensors/bh1750.c\<close> with its adapter
  \<open>app/sensors/bh1750_io_nxp_i2c.c\<close>, and the sampling task \<open>app/sensors/lux_task.c\<close>.  A
  device whose \<open>bh_io\<close> is false is the zeroed structure, whose function pointers are null.  The
  floating-point reading is left out.
\<close>

abbreviation (input) BH_LOW :: u8 where "BH_LOW \<equiv> 0x23"
abbreviation (input) BH_HIGH :: u8 where "BH_HIGH \<equiv> 0x5C"

datatype bh_mode = CONT_H | CONT_H2 | CONT_L | ONE_H | ONE_H2 | ONE_L

record bh1750 =
  bh_io :: bool
  bh_addr :: u8
  bh_mode_of :: bh_mode
  bh_last :: u16

definition bh_zero :: bh1750 where
  "bh_zero = \<lparr>bh_io = False, bh_addr = 0, bh_mode_of = CONT_H, bh_last = 0\<rparr>"

fun mode_to_opcode :: "bh_mode \<Rightarrow> u8" where
  "mode_to_opcode CONT_H = 0x10"
| "mode_to_opcode CONT_H2 = 0x11"
| "mode_to_opcode CONT_L = 0x13"
| "mode_to_opcode ONE_H = 0x20"
| "mode_to_opcode ONE_H2 = 0x21"
| "mode_to_opcode ONE_L = 0x23"

definition mode_to_conv_ms :: "bh_mode \<Rightarrow> u32" where
  "mode_to_conv_ms m = (if m = CONT_L \<or> m = ONE_L then 24 else 180)"

definition is_one_shot :: "bh_mode \<Rightarrow> bool" where
  "is_one_shot m \<longleftrightarrow> m = ONE_H \<or> m = ONE_H2 \<or> m = ONE_L"

subsection \<open>Driver\<close>

definition nxp_i2c_write :: "'b i2c_api \<Rightarrow> u8 \<Rightarrow> u8 list \<Rightarrow> 'b i2c \<Rightarrow> int \<times> 'b i2c" where
  "nxp_i2c_write I a d s = (case i2c_bus_write I a d s of (rc, s) \<Rightarrow> (if rc = 0 then 0 else - 1, s))"

definition nxp_i2c_read :: "'b i2c_api \<Rightarrow> u8 \<Rightarrow> nat \<Rightarrow> 'b i2c \<Rightarrow> int \<times> u8 list \<times> 'b i2c" where
  "nxp_i2c_read I a n s = (case i2c_bus_read I a n s of (rc, d, s) \<Rightarrow> (if rc = 0 then 0 else - 1, d, s))"

definition bh1750_io_nxp_i2c_init :: "'b i2c_api \<Rightarrow> int" where
  "bh1750_io_nxp_i2c_init I = (if i2c_bus_init I \<noteq> 0 then - 2 else 0)"

definition bh1750_write_op :: "'b i2c_api \<Rightarrow> u8 \<Rightarrow> bh1750 \<Rightarrow> 'b i2c \<Rightarrow> int \<times> 'b i2c" where
  "bh1750_write_op I op d s = (if \<not> bh_io d then (- 2, s)
     else case nxp_i2c_write I (bh_addr d) [op] s of (rc, s) \<Rightarrow> (if rc \<noteq> 0 then - 2 else 0, s))"

definition bh1750_init :: "bool \<Rightarrow> u8 \<Rightarrow> bh1750 \<Rightarrow> int \<times> bh1750" where
  "bh1750_init io a d = (if \<not> io then (- 1, d)
     else if a \<noteq> BH_LOW \<and> a \<noteq> BH_HIGH then (- 1, d)
     else (0, \<lparr>bh_io = True, bh_addr = a, bh_mode_of = CONT_H, bh_last = 0\<rparr>))"

definition bh1750_power_on :: "'b i2c_api \<Rightarrow> bh1750 \<Rightarrow> 'b i2c \<Rightarrow> int \<times> 'b i2c" where
  "bh1750_power_on I = bh1750_write_op I 1"

definition bh1750_power_off :: "'b i2c_api \<Rightarrow> bh1750 \<Rightarrow> 'b i2c \<Rightarrow> int \<times> 'b i2c" where
  "bh1750_power_off I = bh1750_write_op I 0"

definition bh1750_reset :: "'b i2c_api \<Rightarrow> bh1750 \<Rightarrow> 'b i2c \<Rightarrow> int \<times> 'b i2c" where
  "bh1750_reset I d s = (case bh1750_power_on I d s of (rc, s) \<Rightarrow>
     if rc \<noteq> 0 then (rc, s) else bh1750_write_op I 7 d s)"

definition bh1750_set_mode :: "'b i2c_api \<Rightarrow> bh_mode \<Rightarrow> bh1750 \<Rightarrow> 'b i2c \<Rightarrow> int \<times> bh1750 \<times> 'b i2c" where
  "bh1750_set_mode I m d s = (case bh1750_power_on I d s of (rc, s) \<Rightarrow>
     if rc \<noteq> 0 then (rc, d, s)
     else case bh1750_write_op I (mode_to_opcode m) d s of (rc, s) \<Rightarrow>
       if rc \<noteq> 0 then (rc, d, s) else (0, d\<lparr>bh_mode_of := m\<rparr>, s))"

definition be16 :: "u8 list \<Rightarrow> u16" where
  "be16 b = push_bit 8 (ucast (b ! 0)) OR ucast (b ! 1)"

definition bh1750_read_raw :: "'b i2c_api \<Rightarrow> bh1750 \<Rightarrow> 'b i2c \<Rightarrow> (int + u16) \<times> bh1750 \<times> 'b i2c" where
  "bh1750_read_raw I d s = (if \<not> bh_io d then (Inl (- 2), d, s)
     else case (if is_one_shot (bh_mode_of d) then bh1750_write_op I (mode_to_opcode (bh_mode_of d)) d s else (0, s))
       of (rc, s) \<Rightarrow>
         if rc \<noteq> 0 then (Inl rc, d, s)
         else case nxp_i2c_read I (bh_addr d) 2 s of (rc, b, s) \<Rightarrow>
           if rc \<noteq> 0 then (Inl (- 2), d, s)
           else (Inr (be16 b), d\<lparr>bh_last := be16 b\<rparr>, s))"

definition lux_x100 :: "bh_mode \<Rightarrow> u16 \<Rightarrow> u32" where
  "lux_x100 m raw = ucast raw * 1000 div (if m = CONT_H2 \<or> m = ONE_H2 then 24 else 12)"

definition bh1750_read_lux_x100 :: "'b i2c_api \<Rightarrow> bh1750 \<Rightarrow> 'b i2c \<Rightarrow> (int + u32) \<times> bh1750 \<times> 'b i2c" where
  "bh1750_read_lux_x100 I d s = (case bh1750_read_raw I d s of (r, d, s) \<Rightarrow>
     (map_sum id (lux_x100 (bh_mode_of d)) r, d, s))"

text \<open>The integer formula is the exact quotient: no product wraps.\<close>

lemma unat_lux_x100:
  "unat (lux_x100 m raw) = unat raw * 1000 div (if m = CONT_H2 \<or> m = ONE_H2 then 24 else 12)"
proof -
  have "unat raw < 2 ^ LENGTH(16)" by (rule unsigned_less)
  then have "unat (ucast raw * 1000 :: u32) = unat raw * 1000"
    by (subst unat_mult_small) (simp_all add: unat_u32_of_u16)
  then show ?thesis by (simp only: lux_x100_def unat_div_distrib) simp
qed

subsection \<open>The sampling task\<close>

record lux_sample =
  lux1 :: u32
  lux2 :: u32
  err1 :: int
  err2 :: int
  lux_seq :: u16
  lux_time :: u32

definition lux_zero :: lux_sample where
  "lux_zero = \<lparr>lux1 = 0, lux2 = 0, err1 = 0, err2 = 0, lux_seq = 0, lux_time = 0\<rparr>"

record 'b lux =
  lux_s1 :: bh1750
  lux_s2 :: bh1750
  lux_running :: bool
  lux_probing :: bool
  lux_has_sample :: bool
  lux_last :: lux_sample
  lux_cb :: bool
  lux_given :: "lux_sample list"
  lux_period :: u32
  lux_watchdog :: bool
  lux_count :: u16
  lux_next :: u32
  lux_bus :: "'b i2c"

definition lux_watchdog_fn :: "'b lux \<Rightarrow> 'b lux" where
  "lux_watchdog_fn l = (if lux_probing l then l\<lparr>lux_running := False\<rparr> else l)"

definition lux_start_s1 :: "'b i2c_api \<Rightarrow> 'b lux \<Rightarrow> int \<times> 'b lux" where
  "lux_start_s1 I l = (case bh1750_set_mode I CONT_H (lux_s1 l) (lux_bus l) of (rc, d, s) \<Rightarrow>
     (rc, l\<lparr>lux_s1 := d, lux_bus := s\<rparr>))"

definition lux_start_s2 :: "'b i2c_api \<Rightarrow> 'b lux \<Rightarrow> int \<times> 'b lux" where
  "lux_start_s2 I l = (case bh1750_set_mode I CONT_H (lux_s2 l) (lux_bus l) of (rc, d, s) \<Rightarrow>
     (rc, l\<lparr>lux_s2 := d, lux_bus := s\<rparr>))"

text \<open>\<open>found1\<close> is the probe of the high address and starts the first device, the low one.\<close>

definition lux_hw_init :: "'b i2c_api \<Rightarrow> 'b lux \<Rightarrow> int \<times> 'b lux" where
  "lux_hw_init I l =
     (if bh1750_io_nxp_i2c_init I \<noteq> 0 then (bh1750_io_nxp_i2c_init I, l)
      else case i2c_bus_probe I BH_HIGH (lux_bus l) of (p1, s) \<Rightarrow>
        case i2c_bus_probe I BH_LOW s of (p2, s) \<Rightarrow>
          let found1 = (p1 = 0); found2 = (p2 = 0); l = l\<lparr>lux_bus := s\<rparr> in
          if \<not> found1 \<and> \<not> found2 then (- 2, l)
          else
            let l = l\<lparr>lux_watchdog := False, lux_s1 := snd (bh1750_init True BH_LOW (lux_s1 l)),
                      lux_s2 := snd (bh1750_init True BH_HIGH (lux_s2 l))\<rparr>
            in case (if found1 then lux_start_s1 I l else (0, l)) of (rc, l) \<Rightarrow>
              if rc \<noteq> 0 then (rc, l)
              else if found2 then lux_start_s2 I l else (0, l))"

definition lux_task_begin :: "'b i2c_api \<Rightarrow> u32 \<Rightarrow> 'b lux \<Rightarrow> 'b lux" where
  "lux_task_begin I now l = (case lux_hw_init I (l\<lparr>lux_probing := True\<rparr>) of (rc, l) \<Rightarrow>
     l\<lparr>lux_probing := False, lux_watchdog := False, lux_count := 0, lux_next := now\<rparr>)"

definition lux_publish :: "lux_sample \<Rightarrow> 'b lux \<Rightarrow> 'b lux" where
  "lux_publish x l = (let l = l\<lparr>lux_last := x, lux_has_sample := True\<rparr> in
     if lux_cb l then l\<lparr>lux_given := lux_given l @ [x]\<rparr> else l)"

fun err_of :: "int + 'a \<Rightarrow> int" where
  "err_of (Inl e) = e"
| "err_of (Inr x) = 0"

fun value_or_0 :: "int + u32 \<Rightarrow> u32" where
  "value_or_0 (Inl e) = 0"
| "value_or_0 (Inr x) = x"

text \<open>A turn while running, with the two readings of the clock; the task then sleeps until
  \<open>lux_next\<close>.\<close>

definition lux_turn :: "'b i2c_api \<Rightarrow> u32 \<Rightarrow> u32 \<Rightarrow> 'b lux \<Rightarrow> 'b lux option" where
  "lux_turn I stamp now l =
     (if \<not> lux_running l then None
      else case bh1750_read_lux_x100 I (lux_s1 l) (lux_bus l) of (r1, d1, s) \<Rightarrow>
        case bh1750_read_lux_x100 I (lux_s2 l) s of (r2, d2, s) \<Rightarrow>
          let l = l\<lparr>lux_s1 := d1, lux_s2 := d2, lux_bus := s, lux_count := lux_count l + 1\<rparr>;
              l = lux_publish \<lparr>lux1 = value_or_0 r1, lux2 = value_or_0 r2, err1 = err_of r1, err2 = err_of r2,
                    lux_seq = lux_count l, lux_time = stamp\<rparr> l
          in Some (l\<lparr>lux_next := next_wake (lux_period l) (lux_next l) now\<rparr>))"

definition lux_task_start :: "u32 \<Rightarrow> bool \<Rightarrow> bool \<Rightarrow> 'b lux \<Rightarrow> int \<times> 'b lux" where
  "lux_task_start period cb created l =
     (let period = (if period < 200 then 200 else period) in
      if lux_running l then (0, l)
      else let l = l\<lparr>lux_cb := cb, lux_period := period, lux_running := True, lux_probing := False\<rparr> in
        if \<not> created then (- 2, l\<lparr>lux_running := False\<rparr>) else (0, l\<lparr>lux_watchdog := True\<rparr>))"

definition lux_task_stop :: "'b lux \<Rightarrow> 'b lux" where
  "lux_task_stop l = l\<lparr>lux_running := False\<rparr>"

definition lux_task_is_running :: "'b lux \<Rightarrow> bool" where
  "lux_task_is_running l = lux_running l"

definition lux_task_get_last :: "'b lux \<Rightarrow> lux_sample option" where
  "lux_task_get_last l = (if lux_has_sample l then Some (lux_last l) else None)"

subsection \<open>Which sensor is started\<close>

text \<open>The bus as the sensors make it: a probe answers exactly where a sensor is fitted, and a write
  succeeds exactly there.\<close>

definition fitted :: "'b i2c_api \<Rightarrow> u8 set \<Rightarrow> bool" where
  "fitted I A \<longleftrightarrow> (\<forall>a b. fst (drv_probe I a b) = 0 \<longleftrightarrow> a \<in> A) \<and>
     (\<forall>a d b. fst (drv_write I a d b) = 0 \<longleftrightarrow> a \<in> A)"

lemma probe_fitted: "fitted I A \<Longrightarrow> fst (i2c_bus_probe I a s) = 0 \<longleftrightarrow> a \<in> A"
  unfolding fitted_def i2c_bus_probe_def Let_def by (auto simp: prod.case_eq_if)

lemma bus_write_fitted: "fitted I A \<Longrightarrow> d \<noteq> [] \<Longrightarrow> fst (i2c_bus_write I a d s) = 0 \<longleftrightarrow> a \<in> A"
  unfolding fitted_def i2c_bus_write_def Let_def by (auto simp: prod.case_eq_if)

lemma write_op_fitted:
  "fitted I A \<Longrightarrow> bh_io d \<Longrightarrow> fst (bh1750_write_op I op d s) = (if bh_addr d \<in> A then 0 else - 2)"
  using bus_write_fitted [of I A "[op]" "bh_addr d" s]
  by (auto simp: bh1750_write_op_def nxp_i2c_write_def prod.case_eq_if)

lemma set_mode_fitted:
  "fitted I A \<Longrightarrow> bh_io d \<Longrightarrow> fst (bh1750_set_mode I m d s) = (if bh_addr d \<in> A then 0 else - 2)"
  using write_op_fitted [of I A d]
  by (auto simp: bh1750_set_mode_def bh1750_power_on_def prod.case_eq_if)

lemma start_fitted:
  "fitted I A \<Longrightarrow> bh_io (lux_s1 l) \<Longrightarrow> fst (lux_start_s1 I l) = (if bh_addr (lux_s1 l) \<in> A then 0 else - 2)"
  "fitted I A \<Longrightarrow> bh_io (lux_s2 l) \<Longrightarrow> fst (lux_start_s2 I l) = (if bh_addr (lux_s2 l) \<in> A then 0 else - 2)"
  "lux_s2 (snd (lux_start_s1 I l)) = lux_s2 l"
  using set_mode_fitted [of I A "lux_s1 l" CONT_H "lux_bus l"] set_mode_fitted [of I A "lux_s2 l" CONT_H "lux_bus l"]
  by (simp_all add: lux_start_s1_def lux_start_s2_def prod.case_eq_if)

text \<open>C29: A single light sensor is never started.  With both sensors fitted the start-up succeeds; with
  none it fails; and with exactly one, at either address, it fails too, because the probe of each
  address decides about the device at the other one.\<close>

theorem lux_start_needs_both:
  assumes "i2c_ready I" "fitted I A"
  shows "fst (lux_hw_init I l) = (if BH_LOW \<in> A \<and> BH_HIGH \<in> A then 0 else - 2)"
proof -
  obtain p1 s1 where 1: "i2c_bus_probe I BH_HIGH (lux_bus l) = (p1, s1)" by force
  obtain p2 s2 where 2: "i2c_bus_probe I BH_LOW s1 = (p2, s2)" by force
  let ?l = "l\<lparr>lux_bus := s2, lux_watchdog := False, lux_s1 := snd (bh1750_init True BH_LOW (lux_s1 l)),
    lux_s2 := snd (bh1750_init True BH_HIGH (lux_s2 l))\<rparr>"
  have p: "(p1 = 0) = (BH_HIGH \<in> A)" "(p2 = 0) = (BH_LOW \<in> A)"
    using probe_fitted [OF assms(2), of BH_HIGH "lux_bus l"] probe_fitted [OF assms(2), of BH_LOW s1] 1 2 by simp_all
  obtain r1 l1 where 3: "lux_start_s1 I ?l = (r1, l1)" by force
  have r1: "r1 = (if BH_LOW \<in> A then 0 else - 2)" "lux_s2 l1 = lux_s2 ?l"
    using start_fitted(1) [OF assms(2), of ?l] start_fitted(3) [of I ?l] 3 by (simp_all add: bh1750_init_def)
  have r2: "fst (lux_start_s2 I x) = (if BH_HIGH \<in> A then 0 else - 2)" if "lux_s2 x = lux_s2 ?l" for x
    using start_fitted(2) [OF assms(2), of x] that by (simp add: bh1750_init_def)
  show ?thesis
    using assms(1) p r1 r2 [of ?l] r2 [of l1]
    by (auto simp: lux_hw_init_def bh1750_io_nxp_i2c_init_def i2c_bus_init_def 1 2 3 Let_def)
qed

definition demo_i2c :: "u8 set \<Rightarrow> unit i2c_api" where
  "demo_i2c A = \<lparr>i2c_ready = True, drv_write = \<lambda>a d b. (if a \<in> A then 0 else - EIO, b),
     drv_read = \<lambda>a n b. (if a \<in> A then 0 else - EIO, replicate n 0, b),
     drv_write_read = \<lambda>a t n b. (if a \<in> A then 0 else - EIO, replicate n 0, b),
     drv_probe = \<lambda>a b. (if a \<in> A then 0 else - EIO, b), pselid_latch = \<lambda>b. b\<rparr>"

definition demo_lux :: "unit lux" where
  "demo_lux = \<lparr>lux_s1 = bh_zero, lux_s2 = bh_zero, lux_running = True, lux_probing = False, lux_has_sample = False,
     lux_last = lux_zero, lux_cb = False, lux_given = [], lux_period = 500, lux_watchdog = True, lux_count = 0,
     lux_next = 0, lux_bus = \<lparr>i2c_selected = False, wires = ()\<rparr>\<rparr>"

lemma lux_start_needs_both_witness:
  "fst (lux_hw_init (demo_i2c {BH_LOW}) demo_lux) = - 2 \<and> fst (lux_hw_init (demo_i2c {BH_LOW, BH_HIGH}) demo_lux) = 0"
  using lux_start_needs_both [of "demo_i2c {BH_LOW}" "{BH_LOW}" demo_lux]
    lux_start_needs_both [of "demo_i2c {BH_LOW, BH_HIGH}" "{BH_LOW, BH_HIGH}" demo_lux]
  by (simp add: demo_i2c_def fitted_def)

end
