(* ===== verification/Amg.thy ===== *)
theory Amg
  imports I2c "HOL-Library.Signed_Division"
begin

text \<open>
  The 8x8 thermal sensor: the driver \<open>app/sensors/amg8833.c\<close> and the sampling task
  \<open>app/sensors/amg8833_task.c\<close>.  Temperatures are 16-bit words read with \<^const>\<open>sint\<close>.  The
  read chunk is the whole frame, as configured, so a frame is one transfer.  The delays and the
  grid printer, whose call is commented out, are left out.
\<close>

abbreviation (input) AMG_LOW :: u8 where "AMG_LOW \<equiv> 0x68"
abbreviation (input) AMG_HIGH :: u8 where "AMG_HIGH \<equiv> 0x69"

subsection \<open>Driver\<close>

record amg =
  amg_addr :: u8
  amg_fps :: u8
  pixels_q2 :: "i16 list"
  thermistor_q4 :: i16

definition amg_zero :: amg where
  "amg_zero = \<lparr>amg_addr = 0, amg_fps = 0, pixels_q2 = replicate 64 0, thermistor_q4 = 0\<rparr>"

definition wr_reg :: "'b i2c_api \<Rightarrow> u8 \<Rightarrow> u8 \<Rightarrow> u8 \<Rightarrow> 'b i2c \<Rightarrow> int \<times> 'b i2c" where
  "wr_reg I a reg v s = (case i2c_bus_write I a [reg, v] s of (rc, s) \<Rightarrow> (if rc = 0 then 0 else - 2, s))"

text \<open>A sequence of register writes that stops at the first error.\<close>

fun wr_regs :: "'b i2c_api \<Rightarrow> u8 \<Rightarrow> (u8 \<times> u8) list \<Rightarrow> 'b i2c \<Rightarrow> int \<times> 'b i2c" where
  "wr_regs I a [] s = (0, s)"
| "wr_regs I a ((reg, v) # ws) s = (case wr_reg I a reg v s of (rc, s) \<Rightarrow>
     if rc \<noteq> 0 then (rc, s) else wr_regs I a ws s)"

definition sign_extend_12 :: "u16 \<Rightarrow> i16" where
  "sign_extend_12 raw = (if raw AND 0x0800 \<noteq> 0 then raw OR 0xF000 else raw AND 0x0FFF)"

definition amg8833_init :: "'b i2c_api \<Rightarrow> u8 \<Rightarrow> amg \<Rightarrow> 'b i2c \<Rightarrow> int \<times> amg \<times> 'b i2c" where
  "amg8833_init I a d s =
     (if a \<noteq> AMG_LOW \<and> a \<noteq> AMG_HIGH then (- 1, d, s)
      else let d = amg_zero\<lparr>amg_addr := a, amg_fps := 0\<rparr> in
        if i2c_bus_init I \<noteq> 0 then (- 2, d, s)
        else case wr_regs I a [(0x00, 0x00), (0x01, 0x3F), (0x02, amg_fps d), (0x03, 0x00)] s of (rc, s) \<Rightarrow> (rc, d, s))"

definition amg8833_set_fps :: "'b i2c_api \<Rightarrow> u8 \<Rightarrow> amg \<Rightarrow> 'b i2c \<Rightarrow> int \<times> amg \<times> 'b i2c" where
  "amg8833_set_fps I fpsc d s =
     (if fpsc \<noteq> 1 \<and> fpsc \<noteq> 0 then (- 1, d, s)
      else case wr_reg I (amg_addr d) 0x02 fpsc s of (rc, s) \<Rightarrow>
        (rc, if rc = 0 then d\<lparr>amg_fps := fpsc\<rparr> else d, s))"

definition amg_pixel :: "u8 list \<Rightarrow> nat \<Rightarrow> i16" where
  "amg_pixel raw i = (let lo = ucast (raw ! (i * 2 + 0)); hi = ucast (raw ! (i * 2 + 1))
     in sign_extend_12 (push_bit 8 hi OR lo))"

definition amg8833_read_frame :: "'b i2c_api \<Rightarrow> amg \<Rightarrow> 'b i2c \<Rightarrow> int \<times> amg \<times> 'b i2c" where
  "amg8833_read_frame I d s = (case i2c_bus_write_read I (amg_addr d) [0x80] 128 s of (rc, raw, s) \<Rightarrow>
     if rc \<noteq> 0 then (- 2, d, s) else (0, d\<lparr>pixels_q2 := List.map (amg_pixel raw) [0..<64]\<rparr>, s))"

definition amg_thermistor :: "u8 list \<Rightarrow> i16" where
  "amg_thermistor raw = (let r = push_bit 8 (ucast (raw ! 1)) OR ucast (raw ! 0) :: u16
     in if r AND 0x0800 \<noteq> 0 then - (r AND 0x07FF) else r AND 0x07FF)"

definition amg8833_read_thermistor :: "'b i2c_api \<Rightarrow> amg \<Rightarrow> 'b i2c \<Rightarrow> int \<times> amg \<times> 'b i2c" where
  "amg8833_read_thermistor I d s = (case i2c_bus_write_read I (amg_addr d) [0x0E] 2 s of (rc, raw, s) \<Rightarrow>
     if rc \<noteq> 0 then (- 2, d, s) else (0, d\<lparr>thermistor_q4 := amg_thermistor raw\<rparr>, s))"

definition amg8833_pix_q2_to_c_x100 :: "i16 \<Rightarrow> i16" where
  "amg8833_pix_q2_to_c_x100 q = ucast (scast q * 25 :: u32)"

subsection \<open>The sampling task\<close>

record amg_sample =
  sa_pixels :: "i16 list"
  sa_therm :: i16
  sa_min :: i16
  sa_max :: i16
  sa_avg :: i16
  sa_err :: int
  sa_seq :: u16
  sa_time :: u32

definition sample_zero :: amg_sample where
  "sample_zero = \<lparr>sa_pixels = replicate 64 0, sa_therm = 0, sa_min = 0, sa_max = 0, sa_avg = 0,
     sa_err = 0, sa_seq = 0, sa_time = 0\<rparr>"

text \<open>The loop of \<open>compute_stats\<close>: the sum in 32 bits, the smallest and the largest pixel.\<close>

fun stats_loop :: "i16 list \<Rightarrow> u32 \<Rightarrow> i16 \<Rightarrow> i16 \<Rightarrow> u32 \<times> i16 \<times> i16" where
  "stats_loop [] sm mn mx = (sm, mn, mx)"
| "stats_loop (v # vs) sm mn mx = stats_loop vs (sm + scast v)
     (if sint v < sint mn then v else mn) (if sint mx < sint v then v else mx)"

definition compute_stats :: "amg_sample \<Rightarrow> amg_sample" where
  "compute_stats x = (case stats_loop (sa_pixels x) 0 0x7FFF 0x8000 of (sm, mn, mx) \<Rightarrow>
     x\<lparr>sa_min := mn, sa_max := mx, sa_avg := word_of_int (sint sm sdiv 64)\<rparr>)"

record 'b amg_task =
  at_dev :: amg
  at_running :: bool
  at_probing :: bool
  at_has_frame :: bool
  at_last :: amg_sample
  at_cb :: bool
  at_given :: "amg_sample list"
  at_period :: u32
  at_addr :: u8
  at_tid :: bool
  at_watchdog :: bool
  at_count :: u16
  at_next :: u32
  at_bus :: "'b i2c"

definition amg_watchdog_fn :: "'b amg_task \<Rightarrow> 'b amg_task" where
  "amg_watchdog_fn t = (if at_probing t \<and> at_tid t then t\<lparr>at_running := False\<rparr> else t)"

definition amg_publish :: "amg_sample \<Rightarrow> 'b amg_task \<Rightarrow> 'b amg_task" where
  "amg_publish x t = (let t = t\<lparr>at_last := x, at_has_frame := True\<rparr> in
     if at_cb t then t\<lparr>at_given := at_given t @ [x]\<rparr> else t)"

text \<open>The start of the task, up to its loop: whether it goes on.\<close>

definition amg_task_begin :: "'b i2c_api \<Rightarrow> u32 \<Rightarrow> 'b amg_task \<Rightarrow> bool \<times> 'b amg_task" where
  "amg_task_begin I now t =
     (case i2c_bus_probe I (at_addr t) (at_bus t) of (p, s) \<Rightarrow>
      case (if p = 0 then amg8833_init I (at_addr t) (at_dev t) s else (- 2, at_dev t, s)) of (rc, d, s) \<Rightarrow>
        let t = t\<lparr>at_bus := s, at_dev := d, at_probing := False, at_watchdog := False, at_count := 0, at_next := now\<rparr> in
        if p \<noteq> 0 \<or> rc \<noteq> 0 then (False, t\<lparr>at_running := False, at_tid := False\<rparr>) else (True, t))"

definition amg_sample_of :: "'b i2c_api \<Rightarrow> 'b amg_task \<Rightarrow> amg_sample \<times> 'b amg_task" where
  "amg_sample_of I t = (case amg8833_read_frame I (at_dev t) (at_bus t) of (rc, d, s) \<Rightarrow>
     if rc = 0 then
       let x = compute_stats (sample_zero\<lparr>sa_pixels := pixels_q2 d\<rparr>) in
       case amg8833_read_thermistor I d s of (_, d, s) \<Rightarrow>
         (x\<lparr>sa_therm := thermistor_q4 d, sa_err := 0\<rparr>, t\<lparr>at_dev := d, at_bus := s\<rparr>)
     else (sample_zero\<lparr>sa_err := rc\<rparr>, t\<lparr>at_dev := d, at_bus := s\<rparr>))"

definition amg_turn :: "'b i2c_api \<Rightarrow> u32 \<Rightarrow> u32 \<Rightarrow> 'b amg_task \<Rightarrow> 'b amg_task option" where
  "amg_turn I stamp now t =
     (if \<not> at_running t then None
      else case amg_sample_of I t of (x, t) \<Rightarrow>
        let t = t\<lparr>at_count := at_count t + 1\<rparr>;
            t = amg_publish (x\<lparr>sa_seq := at_count t, sa_time := stamp\<rparr>) t
        in Some (t\<lparr>at_next := next_wake (at_period t) (at_next t) now\<rparr>))"

definition amg_task_start :: "u8 \<Rightarrow> u32 \<Rightarrow> bool \<Rightarrow> bool \<Rightarrow> 'b amg_task \<Rightarrow> int \<times> 'b amg_task" where
  "amg_task_start a period cb created t =
     (if a \<noteq> AMG_LOW \<and> a \<noteq> AMG_HIGH then (- 1, t)
      else let period = (if period < 100 then 100 else period) in
        if at_running t then (0, t)
        else let t = t\<lparr>at_addr := a, at_cb := cb, at_period := period, at_running := True,
                       at_probing := False, at_tid := created\<rparr> in
          if \<not> created then (- 3, t\<lparr>at_running := False\<rparr>) else (0, t\<lparr>at_watchdog := True\<rparr>))"

definition amg_task_stop :: "'b amg_task \<Rightarrow> 'b amg_task" where
  "amg_task_stop t = t\<lparr>at_running := False\<rparr>"

definition amg_task_is_running :: "'b amg_task \<Rightarrow> bool" where
  "amg_task_is_running t = at_running t"

definition amg_task_get_last_frame :: "'b amg_task \<Rightarrow> amg_sample option" where
  "amg_task_get_last_frame t = (if at_has_frame t then Some (at_last t) else None)"

subsection \<open>Pixels\<close>

lemma sign_extend_12_bits: "sign_extend_12 r = signed_take_bit 11 r"
proof (rule bit_word_eqI)
  fix n assume "n < LENGTH(16)"
  then have "n \<in> {0, 1, 2, 3, 4, 5, 6, 7, 8, 9, 10, 11, 12, 13, 14, 15}" by (simp, presburger)
  moreover have "r AND 0x0800 \<noteq> 0 \<longleftrightarrow> bit r 11"
    using and_exp_eq_0_iff_not_bit [of r 11] by simp
  ultimately show "bit (sign_extend_12 r) n = bit (signed_take_bit 11 r) n"
    by (auto simp: sign_extend_12_def bit_simps min_def)
qed

lemma sint_sign_extend_12: "sint (sign_extend_12 r) = signed_take_bit 11 (uint r)"
  unfolding sign_extend_12_bits by transfer (simp add: signed_take_bit_signed_take_bit signed_take_bit_take_bit)

lemma sign_extend_12_bounds: "- 2048 \<le> sint (sign_extend_12 r)" "sint (sign_extend_12 r) < 2048"
  using signed_take_bit_int_greater_eq_minus_exp [of 11 "uint r"] signed_take_bit_int_less_exp [of 11 "uint r"]
  by (simp_all add: sint_sign_extend_12)

subsection \<open>Statistics\<close>

lemma sint16_bounds: "- 32768 \<le> sint (w :: i16)" "sint (w :: i16) \<le> 32767"
  using sint_ge [of w] sint_lt [of w] by simp_all

lemma sint_add_small:
  "- 2147483648 \<le> sint a + sint b \<Longrightarrow> sint a + sint b < 2147483648 \<Longrightarrow> sint (a + b :: u32) = sint a + sint b"
  by (simp add: sint_word_ariths signed_take_bit_int_eq_self)

lemma sint_scast_16_32: "sint (scast (w :: i16) :: u32) = sint w"
  by (simp add: signed_scast_eq signed_take_bit_int_eq_self sint16_bounds order.trans [OF _ sint16_bounds(1)] le_less_trans [OF sint16_bounds(2)])

lemma stats_loop_sum:
  assumes "stats_loop vs sm mn mx = (a, b, c)" "\<bar>sint sm\<bar> \<le> 32768 * int k" "k + length vs \<le> 64"
  shows "sint a = sint sm + (\<Sum>v\<leftarrow>vs. sint v)"
  using assms
proof (induction vs arbitrary: sm mn mx k)
  case (Cons v vs)
  have s: "sint (sm + scast v) = sint sm + sint v"
    using Cons.prems(2,3) sint16_bounds [of v] by (subst sint_add_small) (auto simp: sint_scast_16_32)
  have "sint a = sint (sm + scast v) + (\<Sum>v\<leftarrow>vs. sint v)"
    using Cons.prems sint16_bounds [of v]
    by (intro Cons.IH [where k = "Suc k"]) (auto simp: s)
  then show ?case by (simp add: s)
qed simp

lemma stats_loop_extremes:
  assumes "stats_loop vs sm mn mx = (a, b, c)"
  shows "sint b \<le> sint mn \<and> (\<forall>v \<in> set vs. sint b \<le> sint v) \<and> b \<in> insert mn (set vs) \<and>
    sint mx \<le> sint c \<and> (\<forall>v \<in> set vs. sint v \<le> sint c) \<and> c \<in> insert mx (set vs)"
  using assms by (induction vs sm mn mx rule: stats_loop.induct) (fastforce split: if_splits)+

lemma sum_list_between:
  "(\<And>v. v \<in> set vs \<Longrightarrow> m \<le> f v \<and> f v \<le> n) \<Longrightarrow>
   m * int (length vs) \<le> (\<Sum>v\<leftarrow>vs. f v) \<and> (\<Sum>v\<leftarrow>vs. f v) \<le> n * int (length vs)" for f :: "'a \<Rightarrow> int"
  by (induction vs) (auto simp: algebra_simps add_mono)

lemma sdiv_between: "m * 64 \<le> s \<Longrightarrow> s \<le> n * 64 \<Longrightarrow> m \<le> s sdiv 64 \<and> s sdiv 64 \<le> n" for s :: int
  by (cases "0 \<le> s") (auto simp: signed_divide_int_def sgn_if abs_if)

lemma compute_stats_spec:
  assumes "length (sa_pixels x) = 64"
  defines "y \<equiv> compute_stats x" and "ps \<equiv> sa_pixels x"
  shows "sint (sa_avg y) = (\<Sum>v\<leftarrow>ps. sint v) sdiv 64"
    "sa_min y \<in> set ps" "sa_max y \<in> set ps" "\<And>v. v \<in> set ps \<Longrightarrow> sint (sa_min y) \<le> sint v \<and> sint v \<le> sint (sa_max y)"
    "sint (sa_min y) \<le> sint (sa_avg y)" "sint (sa_avg y) \<le> sint (sa_max y)" "sa_pixels y = ps"
proof -
  obtain a b c where l: "stats_loop ps 0 0x7FFF 0x8000 = (a, b, c)" by (metis prod_cases3)
  have y: "sa_min y = b" "sa_max y = c" "sa_avg y = word_of_int (sint a sdiv 64)" "sa_pixels y = ps"
    using l by (simp_all add: y_def ps_def compute_stats_def)
  have a: "sint a = (\<Sum>v\<leftarrow>ps. sint v)"
    using stats_loop_sum [OF l, of 0] assms(1) by (simp add: ps_def)
  note e = stats_loop_extremes [OF l]
  have between: "\<And>v. v \<in> set ps \<Longrightarrow> sint b \<le> sint v \<and> sint v \<le> sint c" using e by blast
  have avg: "sint b \<le> sint a sdiv 64" "sint a sdiv 64 \<le> sint c"
    using sdiv_between [of "sint b" "sint a" "sint c"] sum_list_between [of ps "sint b" sint "sint c"] between assms(1)
    by (simp_all add: a ps_def)
  have fits: "sint (sa_avg y) = sint a sdiv 64"
    using avg sint16_bounds [of b] sint16_bounds [of c]
    by (simp add: y signed_of_int signed_take_bit_int_eq_self)
  show "sint (sa_avg y) = (\<Sum>v\<leftarrow>ps. sint v) sdiv 64" by (simp add: fits a)
  show "sa_pixels y = ps" "\<And>v. v \<in> set ps \<Longrightarrow> sint (sa_min y) \<le> sint v \<and> sint v \<le> sint (sa_max y)"
    using between by (simp_all add: y)
  show "sint (sa_min y) \<le> sint (sa_avg y)" "sint (sa_avg y) \<le> sint (sa_max y)" using avg unfolding fits y(1,2) by simp_all
  have p: "hd ps \<in> set ps" using assms(1) by (cases ps) (auto simp: ps_def)
  show "sa_min y \<in> set ps"
  proof (cases "b \<in> set ps")
    case False
    then have "b = 0x7FFF" using e by blast
    then have "hd ps = b" by (intro signed_word_eqI [where ?'a = int]) (use between [OF p] sint16_bounds [of "hd ps"] in simp)
    then show ?thesis using p by (simp add: y)
  qed (simp add: y)
  show "sa_max y \<in> set ps"
  proof (cases "c \<in> set ps")
    case False
    then have "c = 0x8000" using e by blast
    then have "hd ps = c" by (intro signed_word_eqI [where ?'a = int]) (use between [OF p] sint16_bounds [of "hd ps"] in simp)
    then show ?thesis using p by (simp add: y)
  qed (simp add: y)
qed

subsection \<open>A turn\<close>

text \<open>C30: A turn of the running task whose frame is read publishes a sample whose 64 pixels are the
  12-bit two's complement values of the register pairs, whose smallest and largest values are
  among the pixels and bound them, and whose average is the exact sum divided by 64 towards zero
  and lies between them; the sequence number advances and the next wake-up is in the future.\<close>

theorem amg_turn_sample:
  assumes run: "at_running t" and period: "0 < sint (at_period t)"
    and frame: "i2c_bus_write_read I (amg_addr (at_dev t)) [0x80] 128 (at_bus t) = (0, raw, s)"
  shows "\<exists>t' x. amg_turn I stamp now t = Some t' \<and> amg_task_get_last_frame t' = Some x \<and>
    length (sa_pixels x) = 64 \<and>
    (\<forall>i < 64. sint (sa_pixels x ! i) = signed_take_bit 11 (uint (le16 (raw ! (2 * i)) (raw ! (2 * i + 1))))) \<and>
    sa_min x \<in> set (sa_pixels x) \<and> sa_max x \<in> set (sa_pixels x) \<and>
    (\<forall>v \<in> set (sa_pixels x). sint (sa_min x) \<le> sint v \<and> sint v \<le> sint (sa_max x)) \<and>
    sint (sa_avg x) = (\<Sum>v\<leftarrow>sa_pixels x. sint v) sdiv 64 \<and>
    sint (sa_min x) \<le> sint (sa_avg x) \<and> sint (sa_avg x) \<le> sint (sa_max x) \<and>
    sa_err x = 0 \<and> sa_seq x = at_count t + 1 \<and> 0 < sint (at_next t' - now)"
proof -
  let ?d = "(at_dev t)\<lparr>pixels_q2 := List.map (amg_pixel raw) [0..<64]\<rparr>"
  let ?z = "sample_zero\<lparr>sa_pixels := pixels_q2 ?d\<rparr>"
  obtain rc d2 s2 where therm: "amg8833_read_thermistor I ?d s = (rc, d2, s2)" by (metis prod_cases3)
  define x where "x = (compute_stats ?z)\<lparr>sa_therm := thermistor_q4 d2, sa_err := 0,
    sa_seq := at_count t + 1, sa_time := stamp\<rparr>"
  obtain t' where t': "amg_turn I stamp now t = Some t'" "amg_task_get_last_frame t' = Some x"
      "at_next t' = next_wake (at_period t) (at_next t) now"
    using run frame therm
    by (simp add: amg_turn_def amg_sample_of_def amg8833_read_frame_def amg_publish_def
        amg_task_get_last_frame_def x_def Let_def)
  have px: "sint (amg_pixel raw i) = signed_take_bit 11 (uint (le16 (raw ! (2 * i)) (raw ! (2 * i + 1))))" for i
    by (simp add: amg_pixel_def sint_sign_extend_12 le16_def or.commute mult.commute Let_def)
  have len: "length (sa_pixels ?z) = 64" by simp
  note st = compute_stats_spec [OF len]
  have "sa_pixels x = List.map (amg_pixel raw) [0..<64]" using st(7) by (simp add: x_def)
  moreover have "0 < sint (at_next t' - now)" using next_wake_future [OF period] t'(3) by simp
  ultimately show ?thesis
    using t'(1,2) st px by (intro exI [of _ t'] exI [of _ x]) (simp add: x_def)
qed

definition demo_bus :: "unit i2c_api" where
  "demo_bus = \<lparr>i2c_ready = True, drv_write = \<lambda>a d b. (0, b), drv_read = \<lambda>a n b. (0, replicate n 0, b),
     drv_write_read = \<lambda>a t n b. (0, replicate n 0xFF, b), drv_probe = \<lambda>a b. (0, b), pselid_latch = \<lambda>b. b\<rparr>"

definition demo_amg :: "unit amg_task" where
  "demo_amg = \<lparr>at_dev = amg_zero, at_running = True, at_probing = False, at_has_frame = False, at_last = sample_zero,
     at_cb = False, at_given = [], at_period = 500, at_addr = AMG_HIGH, at_tid = True, at_watchdog = False,
     at_count = 7, at_next = 0, at_bus = \<lparr>i2c_selected = True, wires = ()\<rparr>\<rparr>"

text \<open>Every pixel register reads 0xFFFF, which is minus a quarter of a degree.\<close>

lemma amg_turn_sample_witness:
  "\<exists>t' x. amg_turn demo_bus 5 0 demo_amg = Some t' \<and> amg_task_get_last_frame t' = Some x \<and>
     sint (sa_pixels x ! 3) = - 1 \<and> sa_seq x = 8"
proof -
  have f: "i2c_bus_write_read demo_bus (amg_addr (at_dev demo_amg)) [0x80] 128 (at_bus demo_amg) =
      (0, replicate 128 0xFF, at_bus demo_amg)"
    by (simp add: i2c_bus_write_read_def i2c_bus_select_once_def i2c_bus_recover_on_err_def demo_bus_def demo_amg_def)
  have b: "signed_take_bit 11 (uint (le16 (0xFF :: u8) 0xFF)) = - 1"
    by (simp add: le16_def)
  obtain t' x where "amg_turn demo_bus 5 0 demo_amg = Some t'" "amg_task_get_last_frame t' = Some x"
      "\<forall>i < 64. sint (sa_pixels x ! i) = signed_take_bit 11 (uint (le16 (replicate 128 (0xFF :: u8) ! (2 * i)) (replicate 128 0xFF ! (2 * i + 1))))"
      "sa_seq x = at_count demo_amg + 1"
    using amg_turn_sample [OF _ _ f, of 5 0] by (simp add: demo_amg_def) blast
  then show ?thesis
    using b by (intro exI [of _ t'] exI [of _ x]) (simp add: demo_amg_def)
qed

end
