(* ===== verification/Mlx.thy ===== *)
theory Mlx
  imports I2c
begin

text \<open>
  The bus side of the 32x24 thermal sensor driver \<open>app/sensors/mlx90640.c\<close>: word transfers in chunks,
  verified writes, the control register, the EEPROM dump and the acquisition of a frame.  A read
  that fails leaves the words read so far in the caller's buffer, so a read answers them with its
  code.  The calibration arithmetic is in \<open>MlxCal\<close>.  Delays are left out.
\<close>

abbreviation (input) MLX_CHUNK :: nat where "MLX_CHUNK \<equiv> 256"
abbreviation (input) MLX_STATUS :: u16 where "MLX_STATUS \<equiv> 0x8000"
abbreviation (input) MLX_CONTROL1 :: u16 where "MLX_CONTROL1 \<equiv> 0x800D"
abbreviation (input) MLX_RAM :: u16 where "MLX_RAM \<equiv> 0x0400"
abbreviation (input) MLX_EE :: u16 where "MLX_EE \<equiv> 0x2400"

subsection \<open>Transport\<close>

definition be_word :: "u8 list \<Rightarrow> nat \<Rightarrow> u16" where
  "be_word d i = push_bit 8 (ucast (d ! (i * 2))) OR ucast (d ! (i * 2 + 1))"

definition be_bytes :: "u16 \<Rightarrow> u8 list" where
  "be_bytes w = [ucast (drop_bit 8 w), ucast (w AND 0xFF)]"

function mlx_read_loop ::
  "'b i2c_api \<Rightarrow> u8 \<Rightarrow> u16 \<Rightarrow> nat \<Rightarrow> u16 list \<Rightarrow> 'b i2c \<Rightarrow> int \<times> u16 list \<times> 'b i2c" where
  "mlx_read_loop I a start n out s =
     (if length out < n then
        let chunk = min (n - length out) MLX_CHUNK; addr = start + of_nat (length out)
        in case i2c_bus_write_read I a (be_bytes addr) (chunk * 2) s of (rc, rxb, s) \<Rightarrow>
          if rc \<noteq> 0 then (- 2, out, s)
          else mlx_read_loop I a start n (out @ List.map (be_word rxb) [0..<chunk]) s
      else (0, out, s))"
  by pat_completeness auto
termination
  by (relation "measure (\<lambda>(I, a, start, n, out, s). n - length out)") auto

declare mlx_read_loop.simps [simp del]

definition mlx_read :: "'b i2c_api \<Rightarrow> u8 \<Rightarrow> u16 \<Rightarrow> nat \<Rightarrow> 'b i2c \<Rightarrow> int \<times> u16 list \<times> 'b i2c" where
  "mlx_read I a start n = mlx_read_loop I a start n []"

definition mlx_write :: "'b i2c_api \<Rightarrow> u8 \<Rightarrow> u16 \<Rightarrow> u16 \<Rightarrow> 'b i2c \<Rightarrow> int \<times> 'b i2c" where
  "mlx_write I a addr v s = (case i2c_bus_write I a (be_bytes addr @ be_bytes v) s of (rc, s) \<Rightarrow>
     if rc \<noteq> 0 then (- 2, s)
     else case mlx_read I a addr 1 s of (rc, ws, s) \<Rightarrow>
       if rc \<noteq> 0 then (- 2, s) else if ws ! 0 \<noteq> v then (- 3, s) else (0, s))"

subsection \<open>Configuration\<close>

text \<open>The three setters read the control register, change a field and write it back.\<close>

definition mlx_control :: "'b i2c_api \<Rightarrow> u8 \<Rightarrow> (u16 \<Rightarrow> u16) \<Rightarrow> 'b i2c \<Rightarrow> int \<times> 'b i2c" where
  "mlx_control I a f s = (case mlx_read I a MLX_CONTROL1 1 s of (rc, ws, s) \<Rightarrow>
     if rc \<noteq> 0 then (rc, s) else mlx_write I a MLX_CONTROL1 (f (ws ! 0)) s)"

definition mlx90640_set_refresh_rate :: "'b i2c_api \<Rightarrow> u8 \<Rightarrow> u8 \<Rightarrow> 'b i2c \<Rightarrow> int \<times> 'b i2c" where
  "mlx90640_set_refresh_rate I a rr = mlx_control I a (\<lambda>c. (c AND 0xFC7F) OR push_bit 7 (ucast (rr AND 0x07)))"

definition mlx90640_set_resolution :: "'b i2c_api \<Rightarrow> u8 \<Rightarrow> u8 \<Rightarrow> 'b i2c \<Rightarrow> int \<times> 'b i2c" where
  "mlx90640_set_resolution I a res = mlx_control I a (\<lambda>c. (c AND 0xF3FF) OR push_bit 10 (ucast (res AND 0x03)))"

definition mlx90640_set_chess_mode :: "'b i2c_api \<Rightarrow> u8 \<Rightarrow> 'b i2c \<Rightarrow> int \<times> 'b i2c" where
  "mlx90640_set_chess_mode I a = mlx_control I a (\<lambda>c. c OR 0x1000)"

subsection \<open>Acquisition\<close>

text \<open>The EEPROM copy after a dump; the argument is the copy before it.\<close>

definition mlx90640_dump_ee :: "'b i2c_api \<Rightarrow> u8 \<Rightarrow> u16 list \<Rightarrow> 'b i2c \<Rightarrow> int \<times> u16 list \<times> 'b i2c" where
  "mlx90640_dump_ee I a ee s = (case mlx_read I a MLX_EE 832 s of (rc, ws, s) \<Rightarrow> (rc, blit 0 ws ee, s))"

text \<open>Waiting for the data-ready bit: at most \<open>left + 1\<close> polls.\<close>

fun mlx_wait :: "'b i2c_api \<Rightarrow> u8 \<Rightarrow> nat \<Rightarrow> 'b i2c \<Rightarrow> (int + u16) \<times> 'b i2c" where
  "mlx_wait I a left s = (case mlx_read I a MLX_STATUS 1 s of (rc, ws, s) \<Rightarrow>
     if rc \<noteq> 0 then (Inl rc, s)
     else if ws ! 0 AND 0x0008 \<noteq> 0 then (Inr (ws ! 0), s)
     else if left = 0 then (Inl (- 4), s) else mlx_wait I a (left - 1) s)"

declare mlx_wait.simps [simp del]

definition mlx90640_get_frame :: "'b i2c_api \<Rightarrow> u8 \<Rightarrow> u16 list \<Rightarrow> 'b i2c \<Rightarrow> int \<times> u16 list \<times> 'b i2c" where
  "mlx90640_get_frame I a frame s = (case mlx_wait I a 2000 s of
       (Inl rc, s) \<Rightarrow> (rc, frame, s)
     | (Inr status, s) \<Rightarrow>
       case mlx_write I a MLX_STATUS 0x0030 s of (rc, s) \<Rightarrow>
         if rc \<noteq> 0 then (rc, frame, s)
         else case mlx_read I a MLX_RAM 832 s of (rc, ws, s) \<Rightarrow>
           let frame = blit 0 ws frame in
           if rc \<noteq> 0 then (rc, frame, s)
           else case mlx_read I a MLX_CONTROL1 1 s of (rc, c, s) \<Rightarrow>
             if rc \<noteq> 0 then (rc, frame, s)
             else let frame = frame[832 := c ! 0, 833 := status AND 0x0001] in (uint (frame ! 833), frame, s))"

definition mlx90640_get_subpage :: "u16 list \<Rightarrow> int" where
  "mlx90640_get_subpage frame = uint (frame ! 833)"

subsection \<open>A sensor that answers\<close>

text \<open>What the data sheet promises of a sensor at address \<open>a\<close> with memory \<open>mem\<close>: a read of \<open>n\<close>
  words from an address answers them big-endian, a write of an address and a value stores it, an
  address answers a probe, and latching the bus changes nothing.\<close>

definition words_bytes :: "(u16 \<Rightarrow> u16) \<Rightarrow> u16 \<Rightarrow> nat \<Rightarrow> u8 list" where
  "words_bytes m start n = concat (List.map (\<lambda>i. be_bytes (m (start + of_nat i))) [0..<n])"

definition sensor_works :: "'b i2c_api \<Rightarrow> u8 \<Rightarrow> ('b \<Rightarrow> u16 \<Rightarrow> u16) \<Rightarrow> bool" where
  "sensor_works I a mem \<longleftrightarrow> i2c_ready I \<and> (\<forall>b. mem (pselid_latch I b) = mem b) \<and>
     (\<forall>b. \<exists>b'. drv_probe I a b = (0, b') \<and> mem b' = mem b) \<and>
     (\<forall>b r n. \<exists>b'. drv_write_read I a (be_bytes r) (n * 2) b = (0, words_bytes (mem b) r n, b') \<and> mem b' = mem b) \<and>
     (\<forall>b r v. \<exists>b'. drv_write I a (be_bytes r @ be_bytes v) b = (0, b') \<and> mem b' = (mem b)(r := v))"

definition words_at :: "(u16 \<Rightarrow> u16) \<Rightarrow> u16 \<Rightarrow> nat \<Rightarrow> u16 list" where
  "words_at m start n = List.map (\<lambda>i. m (start + of_nat i)) [0..<n]"

lemma length_words_at [simp]: "length (words_at m start n) = n"
  by (simp add: words_at_def)

lemma words_at_append: "words_at m start k @ words_at m (start + of_nat k) n = words_at m start (k + n)"
proof -
  have "[0..<k + n] = [0..<k] @ List.map (\<lambda>i. k + i) [0..<n]"
    using upt_add_eq_append [of 0 k n] map_add_upt [of k n] by (simp add: add.commute)
  then show ?thesis by (simp add: words_at_def o_def add.assoc)
qed

lemma be_word_bytes: "push_bit 8 (ucast (ucast (drop_bit 8 w) :: u8)) OR ucast (ucast (w AND 0xFF) :: u8) = (w :: u16)"
proof -
  have m: "(0xFF :: u16) = mask 8" by (simp add: mask_eq_exp_minus_1)
  show ?thesis unfolding m by (rule bit_word_eqI) (auto simp: bit_simps not_less)
qed

lemma nth_words_bytes:
  "i < n \<Longrightarrow> words_bytes m start n ! (i * 2) = ucast (drop_bit 8 (m (start + of_nat i)))"
  "i < n \<Longrightarrow> words_bytes m start n ! Suc (i * 2) = ucast (m (start + of_nat i) AND 0xFF)"
proof -
  have *: "i < n \<Longrightarrow> drop (i * 2) (words_bytes m start n) =
      be_bytes (m (start + of_nat i)) @ concat (List.map (\<lambda>i. be_bytes (m (start + of_nat i))) [Suc i..<n])" for i
  proof -
    assume "i < n"
    then have "[0..<n] = [0..<i] @ i # [Suc i..<n]"
      using upt_add_eq_append [of 0 i "n - i"] by (simp add: upt_conv_Cons)
    moreover have "length (concat (List.map (\<lambda>i. be_bytes (m (start + of_nat i))) [0..<i])) = i * 2"
      by (induction i) (simp_all add: be_bytes_def)
    ultimately show ?thesis by (simp add: words_bytes_def)
  qed
  have len: "length (words_bytes m start n) = n * 2"
    by (induction n) (simp_all add: words_bytes_def be_bytes_def)
  assume i: "i < n"
  have "words_bytes m start n ! (i * 2 + k) = drop (i * 2) (words_bytes m start n) ! k" for k
    using i len by (subst nth_drop) auto
  from this [of 0] this [of 1] show
    "words_bytes m start n ! (i * 2) = ucast (drop_bit 8 (m (start + of_nat i)))"
    "words_bytes m start n ! Suc (i * 2) = ucast (m (start + of_nat i) AND 0xFF)"
    by (simp_all add: * [OF i] be_bytes_def)
qed

lemma be_words: "List.map (be_word (words_bytes m start n)) [0..<n] = words_at m start n"
  by (auto simp: words_at_def be_word_def nth_words_bytes be_word_bytes)

lemma sensor_probe:
  assumes "sensor_works I a mem"
  obtains s' where "i2c_bus_probe I a s = (0, s')" "mem (wires s') = mem (wires s)"
proof -
  let ?s = "i2c_bus_select_once I s"
  have m: "mem (wires ?s) = mem (wires s)"
    using assms by (simp add: sensor_works_def i2c_bus_select_once_def i2c_bus_flexcomm_latch_def)
  obtain b' where "drv_probe I a (wires ?s) = (0, b')" "mem b' = mem (wires ?s)"
    using assms unfolding sensor_works_def by blast
  then show thesis by (intro that [of "?s\<lparr>wires := b'\<rparr>"]) (simp_all add: i2c_bus_probe_def Let_def m)
qed

lemma sensor_write_read:
  assumes "sensor_works I a mem" "0 < n"
  obtains s' where "i2c_bus_write_read I a (be_bytes r) (n * 2) s = (0, words_bytes (mem (wires s)) r n, s')"
    "mem (wires s') = mem (wires s)"
proof -
  let ?s = "i2c_bus_select_once I s"
  have m: "mem (wires ?s) = mem (wires s)"
    using assms(1) by (simp add: sensor_works_def i2c_bus_select_once_def i2c_bus_flexcomm_latch_def)
  obtain b' where "drv_write_read I a (be_bytes r) (n * 2) (wires ?s) = (0, words_bytes (mem (wires ?s)) r n, b')"
      "mem b' = mem (wires ?s)"
    using assms(1) unfolding sensor_works_def by blast
  moreover have "be_bytes r \<noteq> []" by (simp add: be_bytes_def)
  ultimately show thesis
    using assms(2) by (intro that [of "?s\<lparr>wires := b'\<rparr>"])
      (simp_all add: i2c_bus_write_read_def i2c_bus_recover_on_err_def Let_def m)
qed

lemma sensor_write:
  assumes "sensor_works I a mem"
  obtains s' where "i2c_bus_write I a (be_bytes r @ be_bytes v) s = (0, s')"
    "mem (wires s') = (mem (wires s))(r := v)"
proof -
  let ?s = "i2c_bus_select_once I s"
  have m: "mem (wires ?s) = mem (wires s)"
    using assms by (simp add: sensor_works_def i2c_bus_select_once_def i2c_bus_flexcomm_latch_def)
  obtain b' where "drv_write I a (be_bytes r @ be_bytes v) (wires ?s) = (0, b')" "mem b' = (mem (wires ?s))(r := v)"
    using assms unfolding sensor_works_def by blast
  moreover have "be_bytes r \<noteq> []" by (simp add: be_bytes_def)
  ultimately show thesis
    by (intro that [of "?s\<lparr>wires := b'\<rparr>"]) (simp_all add: i2c_bus_write_def i2c_bus_recover_on_err_def Let_def m)
qed

text \<open>Chunking does not show: any number of words is read as they are in the memory.\<close>

lemma mlx_read_loop_works:
  assumes "sensor_works I a mem"
  shows "out = words_at (mem (wires s)) start (length out) \<Longrightarrow> length out \<le> n \<Longrightarrow>
    \<exists>s'. mlx_read_loop I a start n out s = (0, words_at (mem (wires s)) start n, s') \<and> mem (wires s') = mem (wires s)"
proof (induction "n - length out" arbitrary: out s rule: less_induct)
  case less
  show ?case
  proof (cases "length out < n")
    case True
    let ?k = "min (n - length out) MLX_CHUNK"
    let ?ws = "words_at (mem (wires s)) (start + of_nat (length out)) ?k"
    have k: "0 < ?k" "length out + ?k \<le> n" using True by auto
    obtain s1 where s1: "i2c_bus_write_read I a (be_bytes (start + of_nat (length out))) (?k * 2) s =
        (0, words_bytes (mem (wires s)) (start + of_nat (length out)) ?k, s1)" "mem (wires s1) = mem (wires s)"
      by (rule sensor_write_read [OF assms k(1)])
    have out: "out @ ?ws = words_at (mem (wires s1)) start (length (out @ ?ws))"
      using less.prems(1) words_at_append [of "mem (wires s)" start "length out" ?k] by (simp add: s1(2))
    have "n - length (out @ ?ws) < n - length out" using k by simp
    from less.hyps [OF this out] k obtain s' where
      "mlx_read_loop I a start n (out @ ?ws) s1 = (0, words_at (mem (wires s1)) start n, s')"
      "mem (wires s') = mem (wires s1)" by auto
    then show ?thesis
      using True s1 by (subst mlx_read_loop.simps) (simp add: be_words Let_def)
  next
    case False
    then have "length out = n" using less.prems(2) by simp
    then show ?thesis using less.prems(1) by (subst mlx_read_loop.simps) simp
  qed
qed

lemma mlx_read_works:
  assumes "sensor_works I a mem"
  obtains s' where "mlx_read I a start n s = (0, words_at (mem (wires s)) start n, s')" "mem (wires s') = mem (wires s)"
  using mlx_read_loop_works [OF assms, of "[]" s start n] by (auto simp: mlx_read_def words_at_def)

end
