(* ===== verification/MlxCal.thy ===== *)
theory MlxCal
  imports Mlx
begin

text \<open>
  The calibration and temperature arithmetic of \<open>app/sensors/mlx90640.c\<close>.  The single-precision
  operations of the processor are the functions of \<open>fp\<close> over an unspecified type \<open>'f\<close>, one per
  operation of the source, without contraction; integers are \<^typ>\<open>int\<close> with the casts written out.
  The three rescaling loops may not end, so they are partial functions.
\<close>

subsection \<open>Arithmetic of the processor\<close>

record 'f fp =
  of_i :: "int \<Rightarrow> 'f"
  of_dec :: "int \<Rightarrow> int \<Rightarrow> 'f"
  f_add :: "'f \<Rightarrow> 'f \<Rightarrow> 'f"
  f_sub :: "'f \<Rightarrow> 'f \<Rightarrow> 'f"
  f_mul :: "'f \<Rightarrow> 'f \<Rightarrow> 'f"
  f_div :: "'f \<Rightarrow> 'f \<Rightarrow> 'f"
  f_less :: "'f \<Rightarrow> 'f \<Rightarrow> bool"
  f_abs :: "'f \<Rightarrow> 'f"
  f_ldexp :: "'f \<Rightarrow> int \<Rightarrow> 'f"
  f_sqrt :: "'f \<Rightarrow> 'f"
  f_trunc :: "'f \<Rightarrow> int"

text \<open>\<open>of_dec m e\<close> is the literal \<open>m * 10 ^ e\<close> rounded by the compiler, \<open>f_trunc\<close> the
  conversion to an integer.\<close>

definition pow2f :: "'f fp \<Rightarrow> int \<Rightarrow> 'f" where
  "pow2f F n = f_ldexp F (of_i F 1) n"

abbreviation (input) s16 :: "int \<Rightarrow> int" where "s16 \<equiv> signed_take_bit 15"
abbreviation (input) s8 :: "int \<Rightarrow> int" where "s8 \<equiv> signed_take_bit 7"

text \<open>\<open>(w & mask) >> k\<close>, and the sign correction \<open>if (v > lim) v -= full\<close> on integers and floats.\<close>

definition bit_field :: "u16 \<Rightarrow> u16 \<Rightarrow> nat \<Rightarrow> int" where
  "bit_field w m k = uint (drop_bit k (w AND m))"

definition signed_i :: "int \<Rightarrow> int \<Rightarrow> int \<Rightarrow> int" where
  "signed_i lim full v = (if v > lim then v - full else v)"

definition signed_f :: "'f fp \<Rightarrow> int \<Rightarrow> int \<Rightarrow> 'f \<Rightarrow> 'f" where
  "signed_f F lim full v = (if f_less F (of_i F lim) v then f_sub F v (of_i F full) else v)"

subsection \<open>Device data\<close>

record 'f mlx =
  mlx_addr :: u8
  kVdd :: int
  vdd25 :: int
  KvPTAT :: 'f
  KtPTAT :: 'f
  vPTAT25 :: int
  alphaPTAT :: 'f
  gainEE :: int
  tgc :: 'f
  cpKv :: 'f
  cpKta :: 'f
  resolutionEE :: int
  calibrationModeEE :: int
  KsTa :: 'f
  ksTo :: "'f list"
  ct :: "int list"
  alpha :: "int list"
  alphaScale :: u8
  offset :: "int list"
  kta :: "int list"
  ktaScale :: u8
  kv :: "int list"
  kvScale :: u8
  cpAlpha :: "'f list"
  cpOffset :: "int list"
  ilChessC :: "'f list"
  brokenPixels :: "int list"
  outlierPixels :: "int list"
  eeData :: "u16 list"
  frame :: "u16 list"
  To :: "'f list"

definition mlx_zero :: "'f fp \<Rightarrow> 'f mlx" where
  "mlx_zero F = (let z = of_i F 0 in
     \<lparr>mlx_addr = 0, kVdd = 0, vdd25 = 0, KvPTAT = z, KtPTAT = z, vPTAT25 = 0, alphaPTAT = z, gainEE = 0, tgc = z,
      cpKv = z, cpKta = z, resolutionEE = 0, calibrationModeEE = 0, KsTa = z, ksTo = replicate 5 z, ct = replicate 5 0,
      alpha = replicate 768 0, alphaScale = 0, offset = replicate 768 0, kta = replicate 768 0, ktaScale = 0,
      kv = replicate 768 0, kvScale = 0, cpAlpha = [z, z], cpOffset = [0, 0], ilChessC = [z, z, z],
      brokenPixels = replicate 5 0, outlierPixels = replicate 5 0, eeData = replicate 832 0, frame = replicate 834 0,
      To = replicate 768 z\<rparr>)"

abbreviation (input) ee :: "'f mlx \<Rightarrow> nat \<Rightarrow> u16" where "ee m i \<equiv> eeData m ! i"

subsection \<open>Scalar parameters\<close>

definition extract_vdd :: "'f mlx \<Rightarrow> 'f mlx" where
  "extract_vdd m = (let k = s16 (bit_field (ee m 51) 0xFF00 8); k = signed_i 127 256 k; k = s16 (k * 32);
       v = bit_field (ee m 51) 0x00FF 0; v = s16 ((v - 256) * 32 - 8192)
     in m\<lparr>kVdd := k, vdd25 := v\<rparr>)"

definition extract_ptat :: "'f fp \<Rightarrow> 'f mlx \<Rightarrow> 'f mlx" where
  "extract_ptat F m = (let kv = signed_f F 31 64 (of_i F (bit_field (ee m 50) 0xFC00 10)); kv = f_div F kv (of_i F 4096);
       kt = signed_f F 511 1024 (of_i F (bit_field (ee m 50) 0x03FF 0)); kt = f_div F kt (of_i F 8)
     in m\<lparr>vPTAT25 := uint (ee m 49),
          alphaPTAT := f_add F (f_div F (of_i F (bit_field (ee m 16) 0xF000 0)) (pow2f F 14)) (of_i F 8),
          KvPTAT := kv, KtPTAT := kt\<rparr>)"

definition extract_gain :: "'f mlx \<Rightarrow> 'f mlx" where
  "extract_gain m = m\<lparr>gainEE := sint (ee m 48)\<rparr>"

definition extract_tgc :: "'f fp \<Rightarrow> 'f mlx \<Rightarrow> 'f mlx" where
  "extract_tgc F m = m\<lparr>tgc := f_div F (signed_f F 127 256 (of_i F (bit_field (ee m 60) 0x00FF 0))) (of_i F 32)\<rparr>"

definition extract_resolution :: "'f mlx \<Rightarrow> 'f mlx" where
  "extract_resolution m = m\<lparr>resolutionEE := bit_field (ee m 56) 0x3000 12\<rparr>"

definition extract_ksta :: "'f fp \<Rightarrow> 'f mlx \<Rightarrow> 'f mlx" where
  "extract_ksta F m = m\<lparr>KsTa := f_div F (signed_f F 127 256 (of_i F (bit_field (ee m 60) 0xFF00 8))) (of_i F 8192)\<rparr>"

definition extract_ksto :: "'f fp \<Rightarrow> 'f mlx \<Rightarrow> 'f mlx" where
  "extract_ksto F m = (let step = bit_field (ee m 63) 0x3000 12 * 10;
       c2 = s16 (bit_field (ee m 63) 0x00F0 4 * step);
       c3 = s16 (c2 + bit_field (ee m 63) 0x0F00 8 * step);
       scale = of_i F (2 ^ nat (bit_field (ee m 63) 0x000F 0 + 8));
       k = (\<lambda>w mask sh. f_div F (signed_f F 127 256 (of_i F (bit_field w mask sh))) scale)
     in m\<lparr>ct := [- 40, 0, c2, c3, 400],
          ksTo := [k (ee m 61) 0x00FF 0, k (ee m 61) 0xFF00 8, k (ee m 62) 0x00FF 0, k (ee m 62) 0xFF00 8, of_dec F (- 2) (- 4)]\<rparr>)"

definition extract_cp :: "'f fp \<Rightarrow> 'f mlx \<Rightarrow> 'f mlx" where
  "extract_cp F m = (let aScale = bit_field (ee m 32) 0xF000 12 + 27;
       o0 = signed_i 511 1024 (bit_field (ee m 58) 0x03FF 0);
       o1 = signed_i 31 64 (bit_field (ee m 58) 0xFC00 10); o1 = s16 (o1 + o0);
       a0 = signed_f F 511 1024 (of_i F (bit_field (ee m 57) 0x03FF 0)); a0 = f_div F a0 (pow2f F aScale);
       a1 = signed_f F 31 64 (of_i F (bit_field (ee m 57) 0xFC00 10));
       a1 = f_mul F (f_add F (of_i F 1) (f_div F a1 (of_i F 128))) a0;
       kta = signed_f F 127 256 (of_i F (bit_field (ee m 59) 0x00FF 0));
       kv = signed_f F 127 256 (of_i F (bit_field (ee m 59) 0xFF00 8))
     in m\<lparr>cpKta := f_div F kta (pow2f F (bit_field (ee m 56) 0x00F0 4 + 8)),
          cpKv := f_div F kv (pow2f F (bit_field (ee m 56) 0x0F00 8)),
          cpAlpha := [a0, a1], cpOffset := [o0, o1]\<rparr>)"

subsection \<open>Pixel tables\<close>

text \<open>The signed nibbles of \<open>n\<close> words from \<open>base\<close>, four to a word, low nibble first.\<close>

definition nibble :: "u16 \<Rightarrow> nat \<Rightarrow> int" where
  "nibble w k = (if k = 0 then bit_field w 0x000F 0 else if k = 1 then bit_field w 0x00F0 4
     else if k = 2 then bit_field w 0x0F00 8 else bit_field w 0xF000 12)"

definition nibbles :: "'f mlx \<Rightarrow> nat \<Rightarrow> nat \<Rightarrow> int list" where
  "nibbles m base n = List.map (\<lambda>p. signed_i 7 16 (nibble (ee m (base + p div 4)) (p mod 4))) [0..<n * 4]"

text \<open>\<open>while (temp < lim) { temp *= 2.0f; scale++; }\<close>\<close>

partial_function (option) scale_up :: "'f fp \<Rightarrow> int \<Rightarrow> 'f \<Rightarrow> u8 \<Rightarrow> u8 option" where
  "scale_up F lim temp sc = (if f_less F temp (of_i F lim) then scale_up F lim (f_mul F temp (of_i F 2)) (sc + 1) else Some sc)"

text \<open>The largest entry, and the rounding away from zero into a signed byte.\<close>

fun largest :: "'f fp \<Rightarrow> 'f list \<Rightarrow> 'f \<Rightarrow> 'f" where
  "largest F [] t = t"
| "largest F (x # xs) t = largest F xs (if f_less F t x then x else t)"

definition round_s8 :: "'f fp \<Rightarrow> 'f \<Rightarrow> int" where
  "round_s8 F t = s8 (f_trunc F (if f_less F t (of_i F 0) then f_sub F t (of_dec F 5 (- 1)) else f_add F t (of_dec F 5 (- 1))))"

definition alpha_temp :: "'f fp \<Rightarrow> 'f mlx \<Rightarrow> nat \<Rightarrow> 'f" where
  "alpha_temp F m p = (let rem = nat (bit_field (ee m 32) 0x000F 0); col = nat (bit_field (ee m 32) 0x00F0 4);
       row = nat (bit_field (ee m 32) 0x0F00 8); aScale = bit_field (ee m 32) 0xF000 12 + 30;
       a = signed_f F 31 64 (of_i F (bit_field (ee m (64 + p)) 0x03F0 4));
       a = f_mul F a (of_i F (2 ^ rem));
       a = f_add F (of_i F (uint (ee m 33) + nibbles m 34 6 ! (p div 32) * 2 ^ row + nibbles m 40 8 ! (p mod 32) * 2 ^ col)) a;
       a = f_div F a (pow2f F aScale);
       a = f_sub F a (f_div F (f_mul F (tgc m) (f_add F (cpAlpha m ! 0) (cpAlpha m ! 1))) (of_i F 2))
     in f_div F (of_dec F 1 (- 6)) a)"

definition extract_alpha :: "'f fp \<Rightarrow> 'f mlx \<Rightarrow> 'f mlx option" where
  "extract_alpha F m = (let t = List.map (alpha_temp F m) [0..<768] in
     case scale_up F 32768 (largest F (tl t) (t ! 0)) 0 of None \<Rightarrow> None
     | Some sc \<Rightarrow> Some (m\<lparr>alpha := List.map (\<lambda>a. take_bit 16 (f_trunc F (f_add F (f_mul F a (pow2f F (uint sc))) (of_dec F 5 (- 1))))) t,
          alphaScale := sc\<rparr>))"

definition pixel_offset :: "'f mlx \<Rightarrow> nat \<Rightarrow> int" where
  "pixel_offset m p = (let rem = nat (bit_field (ee m 16) 0x000F 0); col = nat (bit_field (ee m 16) 0x00F0 4);
       row = nat (bit_field (ee m 16) 0x0F00 8);
       off = signed_i 31 64 (bit_field (ee m (64 + p)) 0xFC00 10) * 2 ^ rem
     in s16 (sint (ee m 17) + nibbles m 18 6 ! (p div 32) * 2 ^ row + nibbles m 24 8 ! (p mod 32) * 2 ^ col + off))"

definition extract_offset :: "'f mlx \<Rightarrow> 'f mlx" where
  "extract_offset m = m\<lparr>offset := List.map (pixel_offset m) [0..<768]\<rparr>"

definition split_of :: "nat \<Rightarrow> nat" where
  "split_of p = 2 * (p div 32 - (p div 64) * 2) + p mod 2"

definition kta_rc :: "'f mlx \<Rightarrow> int list" where
  "kta_rc m = [signed_i 127 256 (s8 (bit_field (ee m 54) 0xFF00 8)), signed_i 127 256 (s8 (bit_field (ee m 55) 0xFF00 8)),
     signed_i 127 256 (s8 (bit_field (ee m 54) 0x00FF 0)), signed_i 127 256 (s8 (bit_field (ee m 55) 0x00FF 0))]"

definition kta_temp :: "'f fp \<Rightarrow> 'f mlx \<Rightarrow> nat \<Rightarrow> 'f" where
  "kta_temp F m p = (let k = signed_f F 3 8 (of_i F (bit_field (ee m (64 + p)) 0x000E 1));
       k = f_mul F k (of_i F (2 ^ nat (bit_field (ee m 56) 0x000F 0)));
       k = f_add F (of_i F (kta_rc m ! split_of p)) k
     in f_div F k (pow2f F (bit_field (ee m 56) 0x00F0 4 + 8)))"

definition kv_t :: "'f mlx \<Rightarrow> int list" where
  "kv_t m = [signed_i 7 16 (s8 (bit_field (ee m 52) 0xF000 12)), signed_i 7 16 (s8 (bit_field (ee m 52) 0x00F0 4)),
     signed_i 7 16 (s8 (bit_field (ee m 52) 0x0F00 8)), signed_i 7 16 (s8 (bit_field (ee m 52) 0x000F 0))]"

definition kv_temp :: "'f fp \<Rightarrow> 'f mlx \<Rightarrow> nat \<Rightarrow> 'f" where
  "kv_temp F m p = f_div F (of_i F (kv_t m ! split_of p)) (pow2f F (bit_field (ee m 56) 0x0F00 8))"

text \<open>The common end of both: the scale that brings the largest magnitude to 64, and the rounded table.\<close>

definition scaled_table :: "'f fp \<Rightarrow> 'f list \<Rightarrow> (u8 \<times> int list) option" where
  "scaled_table F t = (case scale_up F 64 (largest F (List.map (f_abs F) (tl t)) (f_abs F (t ! 0))) 0 of None \<Rightarrow> None
     | Some sc \<Rightarrow> Some (sc, List.map (\<lambda>x. round_s8 F (f_mul F x (pow2f F (uint sc)))) t))"

definition extract_kta_pixel :: "'f fp \<Rightarrow> 'f mlx \<Rightarrow> 'f mlx option" where
  "extract_kta_pixel F m = map_option (\<lambda>(sc, t). m\<lparr>kta := t, ktaScale := sc\<rparr>) (scaled_table F (List.map (kta_temp F m) [0..<768]))"

definition extract_kv_pixel :: "'f fp \<Rightarrow> 'f mlx \<Rightarrow> 'f mlx option" where
  "extract_kv_pixel F m = map_option (\<lambda>(sc, t). m\<lparr>kv := t, kvScale := sc\<rparr>) (scaled_table F (List.map (kv_temp F m) [0..<768]))"

definition extract_cilc :: "'f fp \<Rightarrow> 'f mlx \<Rightarrow> 'f mlx" where
  "extract_cilc F m =
     m\<lparr>calibrationModeEE := take_bit 8 (bit_field (ee m 10) 0x0800 4) XOR 0x80,
       ilChessC := [f_div F (signed_f F 31 64 (of_i F (bit_field (ee m 53) 0x003F 0))) (of_i F 16),
                    f_div F (signed_f F 15 32 (of_i F (bit_field (ee m 53) 0x07C0 6))) (of_i F 2),
                    f_div F (signed_f F 15 32 (of_i F (bit_field (ee m 53) 0xF800 11))) (of_i F 8)]\<rparr>"

text \<open>The deviating pixels: the scan stops when either list has five entries.\<close>

fun deviating_loop :: "u16 list \<Rightarrow> nat \<Rightarrow> int list \<Rightarrow> int list \<Rightarrow> int list \<times> int list" where
  "deviating_loop [] pix br out = (br, out)"
| "deviating_loop (w # ws) pix br out = (if length br < 5 \<and> length out < 5 then
       if w = 0 then deviating_loop ws (Suc pix) (br @ [int pix]) out
       else if w AND 1 \<noteq> 0 then deviating_loop ws (Suc pix) br (out @ [int pix])
       else deviating_loop ws (Suc pix) br out
     else (br, out))"

definition extract_deviating :: "'f mlx \<Rightarrow> 'f mlx" where
  "extract_deviating m = (case deviating_loop (take 768 (drop 64 (eeData m))) 0 [] [] of (br, out) \<Rightarrow>
     m\<lparr>brokenPixels := br @ replicate (5 - length br) 0xFFFF, outlierPixels := out @ replicate (5 - length out) 0xFFFF\<rparr>)"

definition mlx90640_extract_parameters :: "'f fp \<Rightarrow> 'f mlx \<Rightarrow> 'f mlx option" where
  "mlx90640_extract_parameters F m =
     (let m = extract_cp F (extract_ksto F (extract_ksta F (extract_resolution (extract_tgc F (extract_gain (extract_ptat F (extract_vdd m)))))))
      in case extract_alpha F m of None \<Rightarrow> None
       | Some m \<Rightarrow> (case extract_kta_pixel F (extract_offset m) of None \<Rightarrow> None
         | Some m \<Rightarrow> (case extract_kv_pixel F m of None \<Rightarrow> None
           | Some m \<Rightarrow> Some (extract_deviating (extract_cilc F m)))))"

end
