(* ===== verification/MlxKv.thy ===== *)
theory MlxKv
  imports Complex_Main MlxCal
begin

text \<open>
  When the calibration of \<open>app/sensors/mlx90640.c\<close> returns: the laws of single-precision arithmetic
  the rescaling loops rely on, the loop \<^const>\<open>scale_up\<close>, and the table of voltage coefficients, whose
  extraction is exact and returns exactly when its calibration word is not zero.
\<close>

subsection \<open>Exactness\<close>

text \<open>The numbers a single-precision value can hold, subnormal and infinite ones aside, and what
  the standard promises of the operations: finite operands with a representable exact result give
  exactly it.  \<open>fin\<close> is being finite, \<open>val\<close> the number of a finite value.\<close>

definition single :: "rat \<Rightarrow> bool" where
  "single q \<longleftrightarrow> (\<exists>n j k. q = of_int n * 2 ^ j / 2 ^ k \<and> \<bar>n\<bar> < 2 ^ 24 \<and> j \<le> 100 \<and> k \<le> 100)"

definition ieee :: "'f fp \<Rightarrow> ('f \<Rightarrow> bool) \<Rightarrow> ('f \<Rightarrow> rat) \<Rightarrow> bool" where
  "ieee F fin val \<longleftrightarrow>
     (\<forall>n. \<bar>n\<bar> < 2 ^ 24 \<longrightarrow> fin (of_i F n) \<and> val (of_i F n) = of_int n) \<and>
     (fin (of_dec F 5 (- 1)) \<and> val (of_dec F 5 (- 1)) = 1 / 2) \<and>
     (\<forall>k \<le> 100. fin (f_ldexp F (of_i F 1) (int k)) \<and> val (f_ldexp F (of_i F 1) (int k)) = 2 ^ k) \<and>
     (\<forall>x y. fin x \<longrightarrow> fin y \<longrightarrow> single (val x + val y) \<longrightarrow> fin (f_add F x y) \<and> val (f_add F x y) = val x + val y) \<and>
     (\<forall>x y. fin x \<longrightarrow> fin y \<longrightarrow> single (val x - val y) \<longrightarrow> fin (f_sub F x y) \<and> val (f_sub F x y) = val x - val y) \<and>
     (\<forall>x y. fin x \<longrightarrow> fin y \<longrightarrow> single (val x * val y) \<longrightarrow> fin (f_mul F x y) \<and> val (f_mul F x y) = val x * val y) \<and>
     (\<forall>x y. fin x \<longrightarrow> fin y \<longrightarrow> val y \<noteq> 0 \<longrightarrow> single (val x / val y) \<longrightarrow>
        fin (f_div F x y) \<and> val (f_div F x y) = val x / val y) \<and>
     (\<forall>x y. fin x \<longrightarrow> fin y \<longrightarrow> f_less F x y = (val x < val y)) \<and>
     (\<forall>x. fin x \<longrightarrow> fin (f_abs F x) \<and> val (f_abs F x) = \<bar>val x\<bar>) \<and>
     (\<forall>x. fin x \<longrightarrow> f_trunc F x = (if 0 \<le> val x then \<lfloor>val x\<rfloor> else - \<lfloor>- val x\<rfloor>))"

lemma ieee_facts:
  assumes "ieee F fin val"
  shows "\<bar>n\<bar> < 2 ^ 24 \<Longrightarrow> fin (of_i F n) \<and> val (of_i F n) = of_int n"
    "fin (of_dec F 5 (- 1)) \<and> val (of_dec F 5 (- 1)) = 1 / 2"
    "k \<le> 100 \<Longrightarrow> fin (pow2f F (int k)) \<and> val (pow2f F (int k)) = 2 ^ k"
    "fin x \<Longrightarrow> fin y \<Longrightarrow> single (val x + val y) \<Longrightarrow> fin (f_add F x y) \<and> val (f_add F x y) = val x + val y"
    "fin x \<Longrightarrow> fin y \<Longrightarrow> single (val x - val y) \<Longrightarrow> fin (f_sub F x y) \<and> val (f_sub F x y) = val x - val y"
    "fin x \<Longrightarrow> fin y \<Longrightarrow> single (val x * val y) \<Longrightarrow> fin (f_mul F x y) \<and> val (f_mul F x y) = val x * val y"
    "fin x \<Longrightarrow> fin y \<Longrightarrow> val y \<noteq> 0 \<Longrightarrow> single (val x / val y) \<Longrightarrow>
       fin (f_div F x y) \<and> val (f_div F x y) = val x / val y"
    "fin x \<Longrightarrow> fin y \<Longrightarrow> f_less F x y = (val x < val y)"
    "fin x \<Longrightarrow> fin (f_abs F x) \<and> val (f_abs F x) = \<bar>val x\<bar>"
    "fin x \<Longrightarrow> f_trunc F x = (if 0 \<le> val x then \<lfloor>val x\<rfloor> else - \<lfloor>- val x\<rfloor>)"
proof -
  note l0 = assms [unfolded ieee_def, folded pow2f_def]
  note l1 = l0 [THEN conjunct2] and c1 = l0 [THEN conjunct1, rule_format]
  note l2 = l1 [THEN conjunct2] and c2 = l1 [THEN conjunct1]
  note l3 = l2 [THEN conjunct2] and c3 = l2 [THEN conjunct1, rule_format]
  note l4 = l3 [THEN conjunct2] and c4 = l3 [THEN conjunct1, rule_format]
  note l5 = l4 [THEN conjunct2] and c5 = l4 [THEN conjunct1, rule_format]
  note l6 = l5 [THEN conjunct2] and c6 = l5 [THEN conjunct1, rule_format]
  note l7 = l6 [THEN conjunct2] and c7 = l6 [THEN conjunct1, rule_format]
  note l8 = l7 [THEN conjunct2] and c8 = l7 [THEN conjunct1, rule_format]
  note c10 = l8 [THEN conjunct2, rule_format] and c9 = l8 [THEN conjunct1, rule_format]
  show "\<bar>n\<bar> < 2 ^ 24 \<Longrightarrow> fin (of_i F n) \<and> val (of_i F n) = of_int n" by (rule c1)
  show "fin (of_dec F 5 (- 1)) \<and> val (of_dec F 5 (- 1)) = 1 / 2" by (rule c2)
  show "k \<le> 100 \<Longrightarrow> fin (pow2f F (int k)) \<and> val (pow2f F (int k)) = 2 ^ k" by (rule c3)
  show "fin x \<Longrightarrow> fin y \<Longrightarrow> single (val x + val y) \<Longrightarrow> fin (f_add F x y) \<and> val (f_add F x y) = val x + val y" by (rule c4)
  show "fin x \<Longrightarrow> fin y \<Longrightarrow> single (val x - val y) \<Longrightarrow> fin (f_sub F x y) \<and> val (f_sub F x y) = val x - val y" by (rule c5)
  show "fin x \<Longrightarrow> fin y \<Longrightarrow> single (val x * val y) \<Longrightarrow> fin (f_mul F x y) \<and> val (f_mul F x y) = val x * val y" by (rule c6)
  show "fin x \<Longrightarrow> fin y \<Longrightarrow> val y \<noteq> 0 \<Longrightarrow> single (val x / val y) \<Longrightarrow>
       fin (f_div F x y) \<and> val (f_div F x y) = val x / val y" by (rule c7)
  show "fin x \<Longrightarrow> fin y \<Longrightarrow> f_less F x y = (val x < val y)" by (rule c8)
  show "fin x \<Longrightarrow> fin (f_abs F x) \<and> val (f_abs F x) = \<bar>val x\<bar>" by (rule c9)
  show "fin x \<Longrightarrow> f_trunc F x = (if 0 \<le> val x then \<lfloor>val x\<rfloor> else - \<lfloor>- val x\<rfloor>)" by (rule c10)
qed

lemma singleI: "q = of_int n * 2 ^ j / 2 ^ k \<Longrightarrow> \<bar>n\<bar> < 2 ^ 24 \<Longrightarrow> j \<le> 100 \<Longrightarrow> k \<le> 100 \<Longrightarrow> single q"
  unfolding single_def by blast

subsection \<open>The rescaling loop\<close>

text \<open>From zero the loop does not end; from a positive number it ends at the first power of two
  that brings it to 64.\<close>

lemma scale_up_zero:
  assumes L: "ieee F fin val" and t: "fin temp" "val temp = 0"
  shows "scale_up F 64 temp sc = None"
proof -
  have step: "fin (f_mul F t (of_i F 2)) \<and> val (f_mul F t (of_i F 2)) = 0" "f_less F t (of_i F 64)"
    if "fin t" "val t = 0" for t
  proof -
    have c: "fin (of_i F 2)" "val (of_i F 2) = 2" "fin (of_i F 64)" "val (of_i F 64) = 64"
      using ieee_facts(1) [OF L, of 2] ieee_facts(1) [OF L, of 64] by simp_all
    have "single 0" by (rule singleI [of _ 0 0 0]) simp_all
    then show "fin (f_mul F t (of_i F 2)) \<and> val (f_mul F t (of_i F 2)) = 0"
      using ieee_facts(6) [OF L, of t "of_i F 2"] c that by simp
    show "f_less F t (of_i F 64)" using ieee_facts(8) [OF L, of t "of_i F 64"] c that by simp
  qed
  have never: "F' = F \<longrightarrow> lim = 64 \<longrightarrow> fin t \<longrightarrow> val t = 0 \<longrightarrow> False" if "scale_up F' lim t sc = Some y" for F' lim t sc y
  proof (rule scale_up.raw_induct [of "\<lambda>F' lim t sc y. F' = F \<longrightarrow> lim = 64 \<longrightarrow> fin t \<longrightarrow> val t = 0 \<longrightarrow> False", OF _ that], goal_cases)
    case (1 loop F' lim t sc y)
    then show ?case using step [of t] by (auto split: if_splits)
  qed
  then show ?thesis using t by (cases "scale_up F 64 temp sc") auto
qed

lemma scale_up_positive:
  assumes L: "ieee F fin val" and a: "0 < a" "a < 2 ^ 24" and s: "s \<le> 90"
  shows "fin temp \<Longrightarrow> val temp = of_int a * 2 ^ n / 2 ^ s \<Longrightarrow> n \<le> s + 6 \<Longrightarrow>
    \<exists>k \<ge> n. k \<le> s + 6 \<and> scale_up F 64 temp sc = Some (sc + of_nat (k - n)) \<and> 64 \<le> of_int a * (2::rat) ^ k / 2 ^ s \<and>
      (k = n \<or> of_int a * (2::rat) ^ (k - 1) / 2 ^ s < 64)"
proof (induction "s + 6 - n" arbitrary: temp n sc)
  case 0
  then have n: "n = s + 6" by simp
  have v: "val temp = of_int a * 64" using 0 by (simp add: n power_add)
  have "\<not> f_less F temp (of_i F 64)"
    using ieee_facts(8) [OF L, of temp "of_i F 64"] ieee_facts(1) [OF L, of 64] 0(2) v a(1) by simp
  then show ?case using v n a(1) by (intro exI [of _ n]) (simp add: scale_up.simps [of F 64 temp] power_add)
next
  case (Suc x)
  have c: "fin (of_i F 2)" "val (of_i F 2) = 2" "fin (of_i F 64)" "val (of_i F 64) = 64"
    using ieee_facts(1) [OF L, of 2] ieee_facts(1) [OF L, of 64] by simp_all
  have less: "f_less F temp (of_i F 64) = (of_int a * (2::rat) ^ n / 2 ^ s < 64)"
    using ieee_facts(8) [OF L, of temp "of_i F 64"] c Suc.prems by simp
  show ?case
  proof (cases "of_int a * (2::rat) ^ n / 2 ^ s < 64")
    case True
    have "single (val temp * val (of_i F 2))"
      using a s Suc.prems(3) by (intro singleI [of _ a "Suc n" s]) (simp_all add: Suc.prems(2) c)
    then have m: "fin (f_mul F temp (of_i F 2))" "val (f_mul F temp (of_i F 2)) = of_int a * 2 ^ Suc n / 2 ^ s"
      using ieee_facts(6) [OF L Suc.prems(1) c(1)] Suc.prems(2) c(2) by simp_all
    have x: "x = s + 6 - Suc n" "Suc n \<le> s + 6" using Suc.hyps(2) by simp_all
    obtain k where k: "Suc n \<le> k" "k \<le> s + 6"
      "scale_up F 64 (f_mul F temp (of_i F 2)) (sc + 1) = Some (sc + 1 + of_nat (k - Suc n))"
      "64 \<le> of_int a * (2::rat) ^ k / 2 ^ s" "k = Suc n \<or> of_int a * (2::rat) ^ (k - 1) / 2 ^ s < 64"
      using Suc.hyps(1) [OF x(1) m x(2), of "sc + 1"] by blast
    have "sc + 1 + of_nat (k - Suc n) = sc + of_nat (k - n)"
      using k(1) by (simp add: Suc_diff_Suc [symmetric] Suc_le_eq)
    then show ?thesis
      using k True less by (intro exI [of _ k]) (auto simp: scale_up.simps [of F 64 temp])
  next
    case False
    then show ?thesis using less Suc.prems(3) by (intro exI [of _ n]) (auto simp: scale_up.simps [of F 64 temp])
  qed
qed

lemma largest_spec:
  assumes L: "ieee F fin val"
  shows "fin t \<Longrightarrow> (\<And>x. x \<in> set xs \<Longrightarrow> fin x) \<Longrightarrow>
    fin (largest F xs t) \<and> largest F xs t \<in> insert t (set xs) \<and> (\<forall>x \<in> insert t (set xs). val x \<le> val (largest F xs t))"
proof (induction xs arbitrary: t)
  case (Cons x xs)
  define u where "u = (if f_less F t x then x else t)"
  have u: "fin u" "val t \<le> val u" "val x \<le> val u" "u = x \<or> u = t"
    using Cons.prems ieee_facts(8) [OF L, of t x] by (auto simp: u_def)
  have "fin (largest F xs u) \<and> largest F xs u \<in> insert u (set xs) \<and> (\<forall>x \<in> insert u (set xs). val x \<le> val (largest F xs u))"
    using Cons.IH [OF u(1)] Cons.prems(2) by simp
  then show ?case using u by (force simp: u_def [symmetric])
qed simp

lemma round_s8_exact:
  assumes L: "ieee F fin val" and t: "fin t" "val t = of_int z" and z: "\<bar>z\<bar> < 128"
  shows "round_s8 F t = z"
proof -
  note h1 = ieee_facts(2) [OF L, THEN conjunct1] and h2 = ieee_facts(2) [OF L, THEN conjunct2]
  have zero: "fin (of_i F 0)" "val (of_i F 0) = 0" using ieee_facts(1) [OF L, of 0] by simp_all
  have neg: "f_less F t (of_i F 0) = (z < 0)" using ieee_facts(8) [OF L t(1) zero(1)] t(2) zero(2) by simp
  show ?thesis
  proof (cases "z < 0")
    case True
    have "single (val t - val (of_dec F 5 (- 1)))"
      using z by (intro singleI [of _ "2 * z - 1" 0 1]) (auto simp: t h2 field_simps)
    from ieee_facts(5) [OF L t(1) h1 this]
    have d: "fin (f_sub F t (of_dec F 5 (- 1)))" "val (f_sub F t (of_dec F 5 (- 1))) = of_int z - 1 / 2"
      by (simp_all add: t(2) h2)
    have "(of_int z - 1 / 2 :: rat) < 0" using True by (simp add: field_simps)
    moreover have "\<lfloor>- (of_int z - 1 / 2 :: rat)\<rfloor> = - z" by (rule floor_unique) (auto simp: field_simps)
    ultimately have "f_trunc F (f_sub F t (of_dec F 5 (- 1))) = z" using ieee_facts(10) [OF L d(1)] d(2) by simp
    then show ?thesis using True z neg by (simp add: round_s8_def signed_take_bit_int_eq_self)
  next
    case False
    have "single (val t + val (of_dec F 5 (- 1)))"
      using z by (intro singleI [of _ "2 * z + 1" 0 1]) (auto simp: t h2 field_simps)
    from ieee_facts(4) [OF L t(1) h1 this]
    have d: "fin (f_add F t (of_dec F 5 (- 1)))" "val (f_add F t (of_dec F 5 (- 1))) = of_int z + 1 / 2"
      by (simp_all add: t(2) h2)
    have "\<not> (of_int z + 1 / 2 :: rat) < 0" using False by (simp add: field_simps)
    moreover have "\<lfloor>(of_int z + 1 / 2 :: rat)\<rfloor> = z" by (rule floor_unique) (auto simp: field_simps)
    ultimately have "f_trunc F (f_add F t (of_dec F 5 (- 1))) = z" using ieee_facts(10) [OF L d(1)] d(2) by simp
    then show ?thesis using False z neg by (simp add: round_s8_def signed_take_bit_int_eq_self)
  qed
qed

subsection \<open>The table of voltage coefficients\<close>

lemma bit_field_bounds: "0 \<le> bit_field w m k" "bit_field w m k \<le> uint (drop_bit k m)"
proof -
  show "0 \<le> bit_field w m k" by (simp add: bit_field_def)
  have d: "uint (drop_bit k x) = uint x div 2 ^ k" for x :: u16
    using drop_bit_eq_div [of k "uint x"] take_bit_int_eq_self [of "uint x" 16] uint_lt2p [of x]
    by (simp add: unsigned_drop_bit_eq)
  have "uint (w AND m) \<le> uint m" by (simp add: uint_and)
  then show "bit_field w m k \<le> uint (drop_bit k m)"
    unfolding bit_field_def d by (rule zdiv_mono1) simp
qed

lemma bit_field_zero: "bit_field w m k = 0 \<Longrightarrow> bit m n \<Longrightarrow> k \<le> n \<Longrightarrow> \<not> bit w n"
proof
  assume a: "bit_field w m k = 0" "bit m n" "k \<le> n" "bit w n"
  then have "bit (drop_bit k (w AND m)) (n - k)" by (simp add: bit_simps)
  moreover have "drop_bit k (w AND m) = 0" using a(1) unfolding bit_field_def by (simp only: uint_0_iff)
  ultimately show False by simp
qed

lemma nibble_signed: "0 \<le> v \<Longrightarrow> v < 16 \<Longrightarrow> - 8 \<le> signed_i 7 16 (s8 v) \<and> signed_i 7 16 (s8 v) \<le> 7 \<and>
    (signed_i 7 16 (s8 v) = 0 \<longleftrightarrow> v = 0)"
  by (auto simp: signed_i_def signed_take_bit_int_eq_self)

lemma nibble_field:
  assumes "uint (drop_bit k n) = 15"
  shows "- 8 \<le> signed_i 7 16 (s8 (bit_field w n k))" "signed_i 7 16 (s8 (bit_field w n k)) \<le> 7"
    "signed_i 7 16 (s8 (bit_field w n k)) = 0 \<longleftrightarrow> bit_field w n k = 0"
  using nibble_signed [OF bit_field_bounds(1) [of w n k]] bit_field_bounds(2) [of w n k] assms by linarith+

lemma kv_t_bounds: "i < 4 \<Longrightarrow> - 8 \<le> kv_t m ! i \<and> kv_t m ! i \<le> 7"
proof -
  assume "i < 4"
  then have "i = 0 \<or> i = 1 \<or> i = 2 \<or> i = 3" by linarith
  then show ?thesis by (auto simp: kv_t_def nibble_field)
qed

lemma kv_t_zero: "(\<forall>i < 4. kv_t m ! i = 0) \<longleftrightarrow> ee m 52 = 0"
proof
  assume z: "\<forall>i < 4. kv_t m ! i = 0"
  have f: "bit_field (ee m 52) 0xF000 12 = 0" "bit_field (ee m 52) 0x00F0 4 = 0" "bit_field (ee m 52) 0x0F00 8 = 0" "bit_field (ee m 52) 0x000F 0 = 0"
    using z [rule_format, of 0] z [rule_format, of 1] z [rule_format, of 2] z [rule_format, of 3]
    by (simp_all add: kv_t_def nibble_field(3))
  show "ee m 52 = 0"
  proof (rule bit_word_eqI)
    fix n assume "n < LENGTH(16)"
    then have "n \<in> {0, 1, 2, 3, 4, 5, 6, 7, 8, 9, 10, 11, 12, 13, 14, 15}" by (simp, presburger)
    then have "\<not> bit (ee m 52) n"
      using bit_field_zero [OF f(1), of n] bit_field_zero [OF f(2), of n] bit_field_zero [OF f(3), of n] bit_field_zero [OF f(4), of n]
      by (auto simp: bit_simps)
    then show "bit (ee m 52) n = bit 0 n" by simp
  qed
next
  assume "ee m 52 = 0"
  then show "\<forall>i < 4. kv_t m ! i = 0"
    by (auto simp: kv_t_def bit_field_def signed_i_def less_Suc_eq numeral_eq_Suc)
qed

lemma split_of_lt: "split_of p < 4"
  unfolding split_of_def by (simp add: div_mult2_eq [of p 32 2, simplified])

lemma split_of_cover: "i < 4 \<Longrightarrow> \<exists>p < 768. split_of p = i"
proof -
  assume "i < 4"
  then have "i = 0 \<or> i = 1 \<or> i = 2 \<or> i = 3" by linarith
  then show ?thesis
    by (auto simp: split_of_def intro: exI [of _ 0] exI [of _ 1] exI [of _ 32] exI [of _ 33])
qed

lemma kv_temp_exact:
  fixes F :: "'f fp" and m :: "'f mlx"
  assumes L: "ieee F fin val"
  defines "s \<equiv> nat (bit_field (ee m 56) 0x0F00 8)"
  shows "s \<le> 15" "fin (kv_temp F m p) \<and> val (kv_temp F m p) = of_int (kv_t m ! split_of p) / 2 ^ s"
proof -
  have fb: "0 \<le> bit_field (ee m 56) 0x0F00 8" "bit_field (ee m 56) 0x0F00 8 \<le> 15"
    using bit_field_bounds [of "ee m 56" "0x0F00" 8] by simp_all
  then show s: "s \<le> 15" by (simp add: s_def)
  have si: "bit_field (ee m 56) 0x0F00 8 = int s" using fb by (simp add: s_def)
  note K = kv_t_bounds [OF split_of_lt, of m p]
  have "\<bar>kv_t m ! split_of p\<bar> < 2 ^ 24" using K by auto
  then have k: "fin (of_i F (kv_t m ! split_of p))" "val (of_i F (kv_t m ! split_of p)) = of_int (kv_t m ! split_of p)"
    using ieee_facts(1) [OF L, of "kv_t m ! split_of p"] by blast+
  have p: "fin (pow2f F (int s))" "val (pow2f F (int s)) = 2 ^ s" using ieee_facts(3) [OF L, of s] s by simp_all
  have "single (val (of_i F (kv_t m ! split_of p)) / val (pow2f F (int s)))"
    using K s by (intro singleI [of _ "kv_t m ! split_of p" 0 s]) (auto simp: k p)
  then show "fin (kv_temp F m p) \<and> val (kv_temp F m p) = of_int (kv_t m ! split_of p) / 2 ^ s"
    using ieee_facts(7) [OF L k(1) p(1)] k(2) p(2) by (simp add: kv_temp_def si)
qed


text \<open>A table of numbers \<open>K / 2 ^ s\<close> with small numerators: the loop does not end when all are zero,
  and otherwise the scaled entries are exact.\<close>

lemma table_max:
  assumes L: "ieee F fin val" and ts: "ts \<noteq> []"
    and x: "\<And>x. x \<in> set ts \<Longrightarrow> fin x \<and> val x = of_int (K x) / 2 ^ s"
  obtains q where "q \<in> set ts" "\<And>x. x \<in> set ts \<Longrightarrow> \<bar>K x\<bar> \<le> \<bar>K q\<bar>"
    "fin (largest F (List.map (f_abs F) (tl ts)) (f_abs F (ts ! 0)))"
    "val (largest F (List.map (f_abs F) (tl ts)) (f_abs F (ts ! 0))) = of_int \<bar>K q\<bar> / 2 ^ s"
proof -
  let ?g = "largest F (List.map (f_abs F) (tl ts)) (f_abs F (ts ! 0))"
  have ab: "fin (f_abs F x) \<and> val (f_abs F x) = of_int \<bar>K x\<bar> / 2 ^ s" if "x \<in> set ts" for x
    using ieee_facts(9) [OF L, of x] x [OF that] by simp
  have all: "insert (f_abs F (ts ! 0)) (set (List.map (f_abs F) (tl ts))) = f_abs F ` set ts"
    using ts by (cases ts) simp_all
  have "fin y" if "y \<in> insert (f_abs F (ts ! 0)) (set (List.map (f_abs F) (tl ts)))" for y
    using that ab unfolding all by blast
  then have "fin (f_abs F (ts ! 0))" "\<And>y. y \<in> set (List.map (f_abs F) (tl ts)) \<Longrightarrow> fin y" by blast+
  note spec = largest_spec [where t = "f_abs F (ts ! 0)" and xs = "List.map (f_abs F) (tl ts)", OF L this, unfolded all]
  have g: "fin ?g" "?g \<in> f_abs F ` set ts" "\<And>x. x \<in> set ts \<Longrightarrow> val (f_abs F x) \<le> val ?g"
    using spec by simp_all
  then obtain q where q: "q \<in> set ts" "?g = f_abs F q" by blast
  have "\<bar>K x\<bar> \<le> \<bar>K q\<bar>" if "x \<in> set ts" for x
  proof -
    have "(of_int \<bar>K x\<bar> :: rat) / 2 ^ s \<le> of_int \<bar>K q\<bar> / 2 ^ s"
      using g(3) [OF that] ab [OF that] ab [OF q(1)] q(2) by simp
    then have "(of_int \<bar>K x\<bar> :: rat) \<le> of_int \<bar>K q\<bar>" by (simp add: divide_le_cancel)
    then show ?thesis by (simp only: of_int_le_iff)
  qed
  then show thesis using that [OF q(1)] g(1) ab [OF q(1)] q(2) by simp
qed

lemma scaled_entry:
  assumes L: "ieee F fin val" and x: "fin x" "val x = of_int K / 2 ^ s" "\<bar>K\<bar> \<le> 8"
    and k: "s + 3 \<le> k" "k \<le> s + 6" "\<bar>K\<bar> * 2 ^ (k - s) < 128" "s \<le> 15"
  shows "round_s8 F (f_mul F x (pow2f F (int k))) = K * 2 ^ (k - s)"
proof -
  have p: "fin (pow2f F (int k))" "val (pow2f F (int k)) = 2 ^ k" using ieee_facts(3) [OF L, of k] k by simp_all
  have ks: "(2::rat) ^ k = 2 ^ (k - s) * 2 ^ s" using k(1) by (simp add: power_add [symmetric])
  have v: "val x * val (pow2f F (int k)) = of_int (K * 2 ^ (k - s))" by (simp add: x(2) p(2) ks)
  have "single (val x * val (pow2f F (int k)))"
    unfolding v using x(3) k by (intro singleI [of _ "K * 2 ^ (k - s)" 0 0]) (auto simp: abs_mult)
  from ieee_facts(6) [OF L x(1) p(1) this] show ?thesis
    unfolding v using k(3) by (intro round_s8_exact [OF L]) (simp_all add: abs_mult)
qed

lemma scale_bounds:
  assumes A: "0 < A" "A \<le> (8::int)" and k: "64 \<le> of_int A * (2::rat) ^ k / 2 ^ s"
    "k = 0 \<or> of_int A * (2::rat) ^ (k - 1) / 2 ^ s < 64"
  shows "s + 3 \<le> k" "A * 2 ^ (k - s) < 128"
proof -
  have "of_int 64 * (2::rat) ^ s \<le> of_int A * 2 ^ k" using k(1) by (simp add: field_simps)
  then have "of_int (64 * 2 ^ s) \<le> (of_int (A * 2 ^ k) :: rat)" by simp
  then have low: "64 * 2 ^ s \<le> A * 2 ^ k" by (simp only: of_int_le_iff)
  also have "\<dots> \<le> 8 * 2 ^ k" using A by simp
  finally have "(2::int) ^ (s + 3) \<le> 2 ^ k" by (simp add: power_add)
  then show ks: "s + 3 \<le> k" by (subst (asm) power_increasing_iff) simp_all
  then have "of_int A * (2::rat) ^ (k - 1) < 64 * 2 ^ s" using k(2) by (simp add: field_simps)
  then have "(of_int (A * 2 ^ (k - 1)) :: rat) < of_int (64 * 2 ^ s)" by simp
  then have "A * 2 ^ (k - 1) < 64 * 2 ^ s" by (simp only: of_int_less_iff)
  moreover obtain d where d: "k = Suc (d + s)" using ks that [of "k - s - 1"] by simp
  ultimately have "(A * 2 ^ d) * 2 ^ s < 64 * 2 ^ s" by (simp add: power_add mult.assoc)
  then have "A * 2 ^ d < 64" by (subst (asm) mult_less_cancel_right_pos) simp_all
  then show "A * 2 ^ (k - s) < 128" by (simp add: d Suc_diff_le)
qed

lemma scaled_table_exact:
  assumes L: "ieee F fin val" and ts: "ts \<noteq> []" and s: "s \<le> 15"
    and x: "\<And>x. x \<in> set ts \<Longrightarrow> fin x \<and> val x = of_int (K x) / 2 ^ s" "\<And>x. x \<in> set ts \<Longrightarrow> \<bar>K x\<bar> \<le> 8"
  shows "if \<forall>x \<in> set ts. K x = 0 then scaled_table F ts = None
    else \<exists>sc t. scaled_table F ts = Some (sc, t) \<and> length t = length ts \<and>
      (\<forall>i < length ts. t ! i * 2 ^ s = K (ts ! i) * 2 ^ unat sc)"
proof -
  let ?g = "largest F (List.map (f_abs F) (tl ts)) (f_abs F (ts ! 0))"
  obtain q where q: "q \<in> set ts" "\<And>x. x \<in> set ts \<Longrightarrow> \<bar>K x\<bar> \<le> \<bar>K q\<bar>"
    and g: "fin ?g" "val ?g = of_int \<bar>K q\<bar> / 2 ^ s"
    using table_max [OF L ts, of K s] x(1) by metis
  show ?thesis
  proof (cases "\<forall>x \<in> set ts. K x = 0")
    case True
    then have "val ?g = 0" using g(2) q(1) by simp
    from scale_up_zero [OF L g(1) this, of 0] True show ?thesis by (simp add: scaled_table_def)
  next
    case False
    then obtain r where "r \<in> set ts" "K r \<noteq> 0" by blast
    then have A: "0 < \<bar>K q\<bar>" "\<bar>K q\<bar> \<le> 8" "\<bar>K q\<bar> < 2 ^ 24" "s \<le> 90" using q(2) [of r] x(2) [OF q(1)] s by auto
    have v: "val ?g = of_int \<bar>K q\<bar> * 2 ^ 0 / 2 ^ s" using g(2) by simp
    obtain k where k: "k \<le> s + 6" "scale_up F 64 ?g 0 = Some (of_nat k)"
      "64 \<le> of_int \<bar>K q\<bar> * (2::rat) ^ k / 2 ^ s" "k = 0 \<or> of_int \<bar>K q\<bar> * (2::rat) ^ (k - 1) / 2 ^ s < 64"
      using scale_up_positive [OF L A(1,3,4) g(1) v, of 0] by auto
    note ks = scale_bounds [OF A(1,2) k(3,4)]
    have sc: "uint (of_nat k :: u8) = int k" "unat (of_nat k :: u8) = k"
      using k(1) s by (simp_all add: unat_of_nat uint_nat)
    let ?t = "List.map (\<lambda>x. round_s8 F (f_mul F x (pow2f F (int k)))) ts"
    have "?t ! i * 2 ^ s = K (ts ! i) * 2 ^ k" if i: "i < length ts" for i
    proof -
      have m: "ts ! i \<in> set ts" using i by simp
      have "\<bar>K (ts ! i)\<bar> * 2 ^ (k - s) \<le> \<bar>K q\<bar> * 2 ^ (k - s)" using q(2) [OF m] by simp
      then have "\<bar>K (ts ! i)\<bar> * 2 ^ (k - s) < 128" using ks(2) by linarith
      from scaled_entry [OF L _ _ x(2) [OF m] ks(1) k(1) this s] x(1) [OF m]
      show ?thesis using i ks(1) by (simp add: mult.assoc power_add [symmetric])
    qed
    then show ?thesis using False k(2) sc by (auto simp: scaled_table_def)
  qed
qed

lemma kv_pixel_outcome:
  fixes F :: "'f fp" and m :: "'f mlx"
  assumes L: "ieee F fin val"
  defines "s \<equiv> nat (bit_field (ee m 56) 0x0F00 8)"
  shows "ee m 52 = 0 \<Longrightarrow> extract_kv_pixel F m = None"
    "ee m 52 \<noteq> 0 \<Longrightarrow> \<exists>m'. extract_kv_pixel F m = Some m' \<and> length (kv m') = 768 \<and>
       (\<forall>p < 768. kv m' ! p * 2 ^ s = kv_t m ! split_of p * 2 ^ unat (kvScale m'))"
proof -
  let ?ts = "List.map (kv_temp F m) [0..<768]"
  define K where "K = (\<lambda>x. \<lfloor>val x * 2 ^ s\<rfloor>)"
  have s: "s \<le> 15" and kt: "\<And>p. fin (kv_temp F m p) \<and> val (kv_temp F m p) = of_int (kv_t m ! split_of p) / 2 ^ s"
    using kv_temp_exact [OF L, of m] by (simp_all add: s_def)
  have K: "K (kv_temp F m p) = kv_t m ! split_of p" for p using kt [of p] by (simp add: K_def)
  have x: "fin x \<and> val x = of_int (K x) / 2 ^ s" "\<bar>K x\<bar> \<le> 8" if mem: "x \<in> set ?ts" for x
  proof -
    obtain p where p: "x = kv_temp F m p" using mem unfolding list.set_map by blast
    show "fin x \<and> val x = of_int (K x) / 2 ^ s" using kt [of p] by (simp add: p K)
    show "\<bar>K x\<bar> \<le> 8" using kv_t_bounds [OF split_of_lt, of m p] by (auto simp: p K)
  qed
  have ne: "?ts \<noteq> []" by (simp add: upt_eq_Nil_conv del: upt_rec_numeral)
  note exact = scaled_table_exact [OF L ne s x]
  have zero: "(\<forall>x \<in> set ?ts. K x = 0) \<longleftrightarrow> ee m 52 = 0"
  proof -
    have "(\<forall>x \<in> set ?ts. K x = 0) \<longleftrightarrow> (\<forall>p < 768. kv_t m ! split_of p = 0)"
      unfolding list.set_map set_upt by (auto simp: K)
    also have "\<dots> \<longleftrightarrow> (\<forall>i < 4. kv_t m ! i = 0)" using split_of_cover split_of_lt by metis
    finally show ?thesis by (simp only: kv_t_zero)
  qed
  show "extract_kv_pixel F m = None" if "ee m 52 = 0"
    using exact zero that unfolding extract_kv_pixel_def by (simp only: if_True simp_thms option.map)
  assume "ee m 52 \<noteq> 0"
  then have "\<exists>sc t. scaled_table F ?ts = Some (sc, t) \<and> length t = length ?ts \<and>
      (\<forall>i < length ?ts. t ! i * 2 ^ s = K (?ts ! i) * 2 ^ unat sc)"
    using exact zero by (simp only: if_False simp_thms)
  then obtain sc t where t: "scaled_table F ?ts = Some (sc, t)" "length t = 768"
      "\<And>i. i < 768 \<Longrightarrow> t ! i * 2 ^ s = K (?ts ! i) * 2 ^ unat sc" by (auto simp del: upt_rec_numeral)
  then show "\<exists>m'. extract_kv_pixel F m = Some m' \<and> length (kv m') = 768 \<and>
       (\<forall>p < 768. kv m' ! p * 2 ^ s = kv_t m ! split_of p * 2 ^ unat (kvScale m'))"
    unfolding extract_kv_pixel_def t(1) by (simp add: K del: upt_rec_numeral)
qed

text \<open>No step of the extraction changes the EEPROM copy.\<close>

lemma extract_keeps_ee:
  "extract_alpha F m = Some m' \<Longrightarrow> eeData m' = eeData m"
  "extract_kta_pixel F m = Some m' \<Longrightarrow> eeData m' = eeData m"
  "eeData (extract_offset m) = eeData m"
  "eeData (extract_cp F (extract_ksto F (extract_ksta F (extract_resolution (extract_tgc F (extract_gain (extract_ptat F (extract_vdd m)))))))) =
     eeData m"
proof -
  show "extract_alpha F m = Some m' \<Longrightarrow> eeData m' = eeData m"
    unfolding extract_alpha_def Let_def by (auto split: option.splits simp del: upt_rec_numeral)
  show "extract_kta_pixel F m = Some m' \<Longrightarrow> eeData m' = eeData m"
    unfolding extract_kta_pixel_def by (auto split: option.splits simp del: upt_rec_numeral)
  show "eeData (extract_offset m) = eeData m" by (simp add: extract_offset_def del: upt_rec_numeral)
  show "eeData (extract_cp F (extract_ksto F (extract_ksta F (extract_resolution (extract_tgc F (extract_gain (extract_ptat F (extract_vdd m)))))))) =
     eeData m"
    by (simp add: extract_cp_def extract_ksto_def extract_ksta_def extract_resolution_def extract_tgc_def extract_gain_def
        extract_ptat_def extract_vdd_def Let_def)
qed

lemma extract_needs_kv:
  assumes "ieee F fin val" "ee m 52 = 0"
  shows "mlx90640_extract_parameters F m = None"
proof (rule ccontr)
  assume some: "mlx90640_extract_parameters F m \<noteq> None"
  let ?m = "extract_cp F (extract_ksto F (extract_ksta F (extract_resolution (extract_tgc F (extract_gain (extract_ptat F (extract_vdd m)))))))"
  obtain m1 m2 where 1: "extract_alpha F ?m = Some m1" and 2: "extract_kta_pixel F (extract_offset m1) = Some m2"
      and 3: "extract_kv_pixel F m2 \<noteq> None"
    using some by (auto simp: mlx90640_extract_parameters_def Let_def split: option.splits)
  have "eeData m2 = eeData m"
    using extract_keeps_ee(1) [OF 1] extract_keeps_ee(2) [OF 2] by (simp only: extract_keeps_ee(3,4))
  then show False using kv_pixel_outcome(1) [OF assms(1), of m2] assms(2) 3 by simp
qed

text \<open>C31: On single-precision arithmetic, the extraction of the voltage coefficients returns exactly when
  calibration word 52 is not zero: then every entry of the table is the exact calibration value at
  the scale chosen by the loop.  When the word is zero, as in an erased EEPROM, the rescaling loop
  doubles zero for ever, and the whole parameter extraction does not return.\<close>

theorem kv_returns_iff_calibrated:
  assumes "ieee F fin val"
  shows "(case extract_kv_pixel F m of None \<Rightarrow> ee m 52 = 0
      | Some m' \<Rightarrow> ee m 52 \<noteq> 0 \<and> (\<forall>p < 768. kv m' ! p * 2 ^ nat (bit_field (ee m 56) 0x0F00 8) =
          kv_t m ! split_of p * 2 ^ unat (kvScale m'))) \<and>
    (ee m 52 = 0 \<longrightarrow> mlx90640_extract_parameters F m = None)"
  using kv_pixel_outcome [OF assms, of m] extract_needs_kv [OF assms, of m] by (cases "ee m 52 = 0") auto

text \<open>Exact arithmetic on the rationals satisfies the laws.\<close>

definition exact_fp :: "rat fp" where
  "exact_fp = \<lparr>of_i = of_int, of_dec = \<lambda>m e. of_int m / 10 ^ nat (- e), f_add = (+), f_sub = (-), f_mul = (*), f_div = (/),
     f_less = (<), f_abs = abs, f_ldexp = \<lambda>x n. if 0 \<le> n then x * 2 ^ nat n else x / 2 ^ nat (- n), f_sqrt = id,
     f_trunc = \<lambda>x. if 0 \<le> x then \<lfloor>x\<rfloor> else - \<lfloor>- x\<rfloor>\<rparr>"

lemma ieee_exact: "ieee exact_fp (\<lambda>_. True) id"
  by (simp add: ieee_def exact_fp_def)

lemma kv_returns_iff_calibrated_witness:
  "extract_kv_pixel exact_fp (mlx_zero exact_fp) = None \<and>
   (\<exists>m'. extract_kv_pixel exact_fp (mlx_zero exact_fp \<lparr>eeData := (replicate 832 0)[52 := 0x1234]\<rparr>) = Some m')"
  using kv_returns_iff_calibrated [OF ieee_exact, of "mlx_zero exact_fp"]
    kv_returns_iff_calibrated [OF ieee_exact, of "mlx_zero exact_fp \<lparr>eeData := (replicate 832 0)[52 := 0x1234]\<rparr>"]
  by (auto simp: mlx_zero_def Let_def split: option.splits)

end
