(* ===== verification/MlxTask.thy ===== *)
theory MlxTask
  imports MlxKv
begin

text \<open>
  Object temperatures and the start-up of \<open>app/sensors/mlx90640.c\<close>, and the sampling task
  \<open>app/sensors/mlx90640_task.c\<close>.  Single precision is the parameter of \<open>MlxCal\<close>; the sum of the
  average is in double precision, the functions of \<open>dp\<close>.  A result of None is a call that does
  not return.  Delays and the grid printer, which is not called, are left out.
\<close>

subsection \<open>Supply voltage and ambient temperature\<close>

definition raw_f :: "'f fp \<Rightarrow> 'f mlx \<Rightarrow> nat \<Rightarrow> 'f" where
  "raw_f F m i = signed_f F 32767 65536 (of_i F (uint (frame m ! i)))"

definition mlx90640_get_vdd :: "'f fp \<Rightarrow> 'f mlx \<Rightarrow> 'f" where
  "mlx90640_get_vdd F m = (let v = raw_f F m 810;
       corr = f_div F (pow2f F (resolutionEE m)) (pow2f F (bit_field (frame m ! 832) 0x0C00 10))
     in f_add F (f_div F (f_sub F (f_mul F corr v) (of_i F (vdd25 m))) (of_i F (kVdd m))) (of_dec F 33 (- 1)))"

definition mlx90640_get_ta :: "'f fp \<Rightarrow> 'f mlx \<Rightarrow> 'f" where
  "mlx90640_get_ta F m = (let vdd = mlx90640_get_vdd F m; ptat = raw_f F m 800; art = raw_f F m 768;
       art = f_mul F (f_div F ptat (f_add F (f_mul F ptat (alphaPTAT m)) art)) (pow2f F 18);
       ta = f_sub F (f_div F art (f_add F (of_i F 1) (f_mul F (KvPTAT m) (f_sub F vdd (of_dec F 33 (- 1)))))) (of_i F (vPTAT25 m))
     in f_add F (f_div F ta (KtPTAT m)) (of_i F 25))"

subsection \<open>Object temperatures\<close>

definition il_pattern :: "nat \<Rightarrow> nat" where
  "il_pattern p = p div 32 - (p div 64) * 2"

definition conversion_pattern :: "nat \<Rightarrow> int" where
  "conversion_pattern p = (int ((p + 2) div 4) - int ((p + 3) div 4) + int ((p + 1) div 4) - int (p div 4)) * (1 - 2 * int (il_pattern p))"

definition readout_mode :: "'f mlx \<Rightarrow> int" where
  "readout_mode m = bit_field (frame m ! 832) 0x1000 5"

text \<open>The sub-page a pixel belongs to in a readout mode: interleaved rows or a chess board.\<close>

definition pixel_subpage :: "int \<Rightarrow> nat \<Rightarrow> nat" where
  "pixel_subpage mode p = (if mode = 0 then il_pattern p else il_pattern p XOR (p - (p div 2) * 2))"

text \<open>\<open>1 + a * (b - c)\<close>, the shape of the corrections.\<close>

definition corr :: "'f fp \<Rightarrow> 'f \<Rightarrow> 'f \<Rightarrow> 'f \<Rightarrow> 'f" where
  "corr F a b c = f_add F (of_i F 1) (f_mul F a (f_sub F b c))"

definition pow4 :: "'f fp \<Rightarrow> 'f \<Rightarrow> 'f" where
  "pow4 F t = (let t = f_add F t (of_dec F 27315 (- 2)); t = f_mul F t t in f_mul F t t)"

definition alpha_corr :: "'f fp \<Rightarrow> 'f mlx \<Rightarrow> 'f list" where
  "alpha_corr F m = (let one = of_i F 1;
       c2 = f_add F one (f_mul F (ksTo m ! 1) (of_i F (ct m ! 2)))
     in [f_div F one (f_add F one (f_mul F (ksTo m ! 0) (of_i F 40))), one, c2,
         f_mul F c2 (f_add F one (f_mul F (ksTo m ! 2) (of_i F (ct m ! 3 - ct m ! 2))))])"

text \<open>The compensation pixel of a sub-page.\<close>

definition ir_data_cp :: "'f fp \<Rightarrow> 'f mlx \<Rightarrow> 'f \<Rightarrow> 'f \<Rightarrow> 'f \<Rightarrow> 'f list" where
  "ir_data_cp F m gain ta vdd = (let c0 = f_mul F (raw_f F m 776) gain; c1 = f_mul F (raw_f F m 808) gain;
       ka = corr F (cpKta m) ta (of_i F 25); ko = corr F (cpKv m) vdd (of_dec F 33 (- 1));
       sub = (\<lambda>c o1. f_sub F c (f_mul F (f_mul F o1 ka) ko))
     in [sub c0 (of_i F (cpOffset m ! 0)),
         if readout_mode m = calibrationModeEE m then sub c1 (of_i F (cpOffset m ! 1))
         else sub c1 (f_add F (of_i F (cpOffset m ! 1)) (ilChessC m ! 0))])"

definition pixel_ir :: "'f fp \<Rightarrow> 'f mlx \<Rightarrow> 'f \<Rightarrow> 'f \<Rightarrow> 'f \<Rightarrow> 'f \<Rightarrow> nat \<Rightarrow> 'f" where
  "pixel_ir F m emissivity gain ta vdd p =
     (let ir = f_mul F (raw_f F m p) gain;
          ka = f_div F (of_i F (kta m ! p)) (pow2f F (uint (ktaScale m)));
          ko = f_div F (of_i F (kv m ! p)) (pow2f F (uint (kvScale m)));
          ir = f_sub F ir (f_mul F (f_mul F (of_i F (offset m ! p)) (corr F ka ta (of_i F 25))) (corr F ko vdd (of_dec F 33 (- 1))));
          ir = (if readout_mode m \<noteq> calibrationModeEE m
                then f_sub F (f_add F ir (f_mul F (ilChessC m ! 2) (of_i F (2 * int (il_pattern p) - 1))))
                  (f_mul F (ilChessC m ! 1) (of_i F (conversion_pattern p)))
                else ir);
          ir = f_sub F ir (f_mul F (tgc m) (ir_data_cp F m gain ta vdd ! unat (frame m ! 833)))
      in f_div F ir emissivity)"

text \<open>The temperature of one pixel.\<close>

definition pixel_to :: "'f fp \<Rightarrow> 'f \<Rightarrow> 'f \<Rightarrow> 'f mlx \<Rightarrow> nat \<Rightarrow> 'f" where
  "pixel_to F emissivity tr m p =
     (let vdd = mlx90640_get_vdd F m; ta = mlx90640_get_ta F m;
          ta4 = pow4 F ta; tr4 = pow4 F tr; taTr = f_sub F tr4 (f_div F (f_sub F tr4 ta4) emissivity);
          gain = f_div F (of_i F (gainEE m)) (raw_f F m 778);
          ir = pixel_ir F m emissivity gain ta vdd p;
          a = f_div F (f_mul F (of_dec F 1 (- 6)) (pow2f F (uint (alphaScale m)))) (of_i F (alpha m ! p));
          a = f_mul F a (corr F (KsTa m) ta (of_i F 25));
          kelvin = of_dec F 27315 (- 2);
          sx = f_mul F (f_mul F (f_mul F a a) a) (f_add F ir (f_mul F a taTr));
          sx = f_mul F (f_sqrt F (f_sqrt F sx)) (ksTo m ! 1);
          den = f_add F (f_mul F a (f_sub F (of_i F 1) (f_mul F (ksTo m ! 1) kelvin))) sx;
          t = f_sub F (f_sqrt F (f_sqrt F (f_add F (f_div F ir den) taTr))) kelvin;
          range = (if f_less F t (of_i F (ct m ! 1)) then 0 else if f_less F t (of_i F (ct m ! 2)) then 1
            else if f_less F t (of_i F (ct m ! 3)) then 2 else 3);
          den = f_mul F (f_mul F a (alpha_corr F m ! range)) (corr F (ksTo m ! range) t (of_i F (ct m ! range)))
      in f_sub F (f_sqrt F (f_sqrt F (f_add F (f_div F ir den) taTr))) kelvin)"

definition mlx90640_calculate_to :: "'f fp \<Rightarrow> 'f \<Rightarrow> 'f \<Rightarrow> 'f mlx \<Rightarrow> 'f mlx" where
  "mlx90640_calculate_to F emissivity tr m = m\<lparr>To := List.map (\<lambda>p.
       if int (pixel_subpage (readout_mode m) p) \<noteq> uint (frame m ! 833) then To m ! p
       else pixel_to F emissivity tr m p) [0..<768]\<rparr>"

subsection \<open>Start-up\<close>

definition mlx90640_init :: "'f fp \<Rightarrow> 'b i2c_api \<Rightarrow> u8 \<Rightarrow> u8 \<Rightarrow> 'f mlx \<Rightarrow> 'b i2c \<Rightarrow> (int \<times> 'f mlx \<times> 'b i2c) option" where
  "mlx90640_init F I a rr m s =
     (if rr > 7 then Some (- 1, m, s)
      else let m = (mlx_zero F)\<lparr>mlx_addr := a\<rparr> in
        if i2c_bus_init I \<noteq> 0 then Some (- 2, m, s)
        else case i2c_bus_probe I a s of (p, s) \<Rightarrow>
          if p \<noteq> 0 then Some (- 2, m, s)
          else case mlx90640_set_refresh_rate I a rr s of (rc, s) \<Rightarrow>
            if rc \<noteq> 0 then Some (rc, m, s)
            else case mlx90640_set_chess_mode I a s of (rc, s) \<Rightarrow>
              if rc \<noteq> 0 then Some (rc, m, s)
              else case mlx90640_dump_ee I a (eeData m) s of (rc, e, s) \<Rightarrow>
                let m = m\<lparr>eeData := e\<rparr> in
                if rc \<noteq> 0 then Some (rc, m, s)
                else map_option (\<lambda>m. (0, m, s)) (mlx90640_extract_parameters F m))"

subsection \<open>The sampling task\<close>

record ('f, 'd) dp =
  d_of_i :: "int \<Rightarrow> 'd"
  d_of_f :: "'f \<Rightarrow> 'd"
  d_add :: "'d \<Rightarrow> 'd \<Rightarrow> 'd"
  d_div :: "'d \<Rightarrow> 'd \<Rightarrow> 'd"
  f_of_d :: "'d \<Rightarrow> 'f"

record 'f mlx_sample =
  ms_to :: "'f list"
  ms_ta :: 'f
  ms_min :: 'f
  ms_max :: 'f
  ms_avg :: 'f
  ms_err :: int
  ms_seq :: u16
  ms_time :: u32

fun mlx_stats_loop :: "'f fp \<Rightarrow> ('f, 'd) dp \<Rightarrow> 'f list \<Rightarrow> 'd \<Rightarrow> 'f \<Rightarrow> 'f \<Rightarrow> 'd \<times> 'f \<times> 'f" where
  "mlx_stats_loop F D [] sm mn mx = (sm, mn, mx)"
| "mlx_stats_loop F D (v # vs) sm mn mx = mlx_stats_loop F D vs (d_add D sm (d_of_f D v))
     (if f_less F v mn then v else mn) (if f_less F mx v then v else mx)"

definition mlx_compute_stats :: "'f fp \<Rightarrow> ('f, 'd) dp \<Rightarrow> 'f mlx_sample \<Rightarrow> 'f mlx_sample" where
  "mlx_compute_stats F D x =
     (case mlx_stats_loop F D (ms_to x) (d_of_i D 0) (ms_to x ! 0) (ms_to x ! 0) of (sm, mn, mx) \<Rightarrow>
       x\<lparr>ms_min := mn, ms_max := mx, ms_avg := f_of_d D (d_div D sm (d_of_i D 768))\<rparr>)"

record ('f, 'b) mlx_task =
  mt_dev :: "'f mlx"
  mt_running :: bool
  mt_has_frame :: bool
  mt_last :: "'f mlx_sample"
  mt_cb :: bool
  mt_given :: "'f mlx_sample list"
  mt_period :: u32
  mt_addr :: u8
  mt_rr :: u8
  mt_tid :: bool
  mt_count :: u16
  mt_next :: u32
  mt_bus :: "'b i2c"

definition mlx_publish :: "'f fp \<Rightarrow> ('f, 'd) dp \<Rightarrow> int \<Rightarrow> u16 \<Rightarrow> u32 \<Rightarrow> ('f, 'b) mlx_task \<Rightarrow> ('f, 'b) mlx_task" where
  "mlx_publish F D err sq stamp t =
     (let x = (if err = 0 then mlx_compute_stats F D ((mt_last t)\<lparr>ms_to := To (mt_dev t), ms_ta := mlx90640_get_ta F (mt_dev t)\<rparr>)
               else mt_last t);
          x = x\<lparr>ms_err := err, ms_seq := sq, ms_time := stamp\<rparr>;
          t = t\<lparr>mt_last := x, mt_has_frame := err = 0 \<or> mt_has_frame t\<rparr>
      in if mt_cb t then t\<lparr>mt_given := mt_given t @ [x]\<rparr> else t)"

text \<open>The start of the task, up to its loop: whether it goes on.\<close>

definition mlx_task_begin :: "'f fp \<Rightarrow> 'b i2c_api \<Rightarrow> u32 \<Rightarrow> ('f, 'b) mlx_task \<Rightarrow> (bool \<times> ('f, 'b) mlx_task) option" where
  "mlx_task_begin F I now t =
     (case i2c_bus_probe I (mt_addr t) (mt_bus t) of (p, s) \<Rightarrow>
      map_option (\<lambda>(rc, m, s).
        let t = t\<lparr>mt_bus := s, mt_dev := m, mt_count := 0\<rparr> in
        if p \<noteq> 0 \<or> rc \<noteq> 0 then (False, t\<lparr>mt_running := False, mt_tid := False\<rparr>) else (True, t\<lparr>mt_next := now\<rparr>))
      (if p = 0 then mlx90640_init F I (mt_addr t) (mt_rr t) (mt_dev t) s else Some (- 2, mt_dev t, s)))"

text \<open>The two sub-pages of an image; the list holds the running flag as read before each.  The
  answer is the error code of the turn.\<close>

fun mlx_subpages :: "'f fp \<Rightarrow> 'b i2c_api \<Rightarrow> bool list \<Rightarrow> ('f, 'b) mlx_task \<Rightarrow> int \<times> ('f, 'b) mlx_task" where
  "mlx_subpages F I [] t = (0, t)"
| "mlx_subpages F I (go # gos) t = (if \<not> go then (0, t)
     else case mlx90640_get_frame I (mlx_addr (mt_dev t)) (frame (mt_dev t)) (mt_bus t) of (r, f, s) \<Rightarrow>
       let m = (mt_dev t)\<lparr>frame := f\<rparr>; t = t\<lparr>mt_bus := s, mt_dev := m\<rparr> in
       if r < 0 then (r, t)
       else mlx_subpages F I gos (t\<lparr>mt_dev := mlx90640_calculate_to F (of_dec F 95 (- 2))
              (f_sub F (mlx90640_get_ta F m) (of_i F 8)) m\<rparr>))"

definition mlx_turn :: "'f fp \<Rightarrow> ('f, 'd) dp \<Rightarrow> 'b i2c_api \<Rightarrow> bool \<Rightarrow> bool \<Rightarrow> u32 \<Rightarrow> u32 \<Rightarrow>
    ('f, 'b) mlx_task \<Rightarrow> ('f, 'b) mlx_task option" where
  "mlx_turn F D I go1 go2 stamp now t =
     (if \<not> mt_running t then None
      else case mlx_subpages F I [go1, go2] t of (err, t) \<Rightarrow>
        let t = t\<lparr>mt_count := mt_count t + 1\<rparr>; t = mlx_publish F D err (mt_count t) stamp t
        in Some (t\<lparr>mt_next := next_wake (mt_period t) (mt_next t) now\<rparr>))"

definition mlx_task_start :: "u8 \<Rightarrow> u8 \<Rightarrow> u32 \<Rightarrow> bool \<Rightarrow> bool \<Rightarrow> ('f, 'b) mlx_task \<Rightarrow> int \<times> ('f, 'b) mlx_task" where
  "mlx_task_start a rr period cb created t =
     (if rr > 7 then (- 1, t)
      else let period = (if period < 250 then 250 else period) in
        if mt_running t then (0, t)
        else let t = t\<lparr>mt_addr := a, mt_rr := rr, mt_cb := cb, mt_period := period, mt_has_frame := False,
                       mt_running := True, mt_tid := created\<rparr> in
          if \<not> created then (- 3, t\<lparr>mt_running := False\<rparr>) else (0, t))"

definition mlx_task_stop :: "('f, 'b) mlx_task \<Rightarrow> ('f, 'b) mlx_task" where
  "mlx_task_stop t = t\<lparr>mt_running := False\<rparr>"

definition mlx_task_is_running :: "('f, 'b) mlx_task \<Rightarrow> bool" where
  "mlx_task_is_running t = mt_running t"

definition mlx_task_get_last_frame :: "('f, 'b) mlx_task \<Rightarrow> 'f mlx_sample option" where
  "mlx_task_get_last_frame t = (if mt_has_frame t then Some (mt_last t) else None)"

subsection \<open>Starting a sensor that answers\<close>

lemma mlx_write_works:
  assumes "sensor_works I a mem"
  obtains s' where "mlx_write I a r v s = (0, s')" "mem (wires s') = (mem (wires s))(r := v)"
proof -
  obtain s1 where w: "i2c_bus_write I a (be_bytes r @ be_bytes v) s = (0, s1)" "mem (wires s1) = (mem (wires s))(r := v)"
    by (rule sensor_write [OF assms])
  obtain s2 where r: "mlx_read I a r 1 s1 = (0, words_at (mem (wires s1)) r 1, s2)" "mem (wires s2) = mem (wires s1)"
    by (rule mlx_read_works [OF assms])
  have "words_at (mem (wires s1)) r 1 ! 0 = v" by (simp add: words_at_def w(2))
  then show thesis using w r by (intro that [of s2]) (simp_all add: mlx_write_def)
qed

lemma mlx_control_works:
  assumes "sensor_works I a mem"
  obtains s' where "mlx_control I a f s = (0, s')"
    "mem (wires s') = (mem (wires s))(MLX_CONTROL1 := f (mem (wires s) MLX_CONTROL1))"
proof -
  obtain s1 where r: "mlx_read I a MLX_CONTROL1 1 s = (0, words_at (mem (wires s)) MLX_CONTROL1 1, s1)"
      "mem (wires s1) = mem (wires s)"
    by (rule mlx_read_works [OF assms])
  obtain s2 where w: "mlx_write I a MLX_CONTROL1 (f (mem (wires s) MLX_CONTROL1)) s1 = (0, s2)"
      "mem (wires s2) = (mem (wires s1))(MLX_CONTROL1 := f (mem (wires s) MLX_CONTROL1))"
    by (rule mlx_write_works [OF assms])
  have "words_at (mem (wires s)) MLX_CONTROL1 1 ! 0 = mem (wires s) MLX_CONTROL1" by (simp add: words_at_def)
  then show thesis using r w by (intro that [of s2]) (simp_all add: mlx_control_def)
qed

text \<open>The control register after the start: the refresh rate in bits 7 to 9, the chess bit, the rest kept.\<close>

definition started_control :: "u8 \<Rightarrow> u16 \<Rightarrow> u16" where
  "started_control rr c = ((c AND 0xFC7F) OR push_bit 7 (ucast (rr AND 0x07))) OR 0x1000"

text \<open>Starting a sensor that answers, at a valid refresh rate, sets the refresh rate and the chess
  pattern in the control register and changes no other word of the sensor; all 832 words of the
  EEPROM, read in four chunks, are the copy the calibration is extracted from; and the start
  succeeds exactly when that extraction returns.\<close>

theorem mlx_init_configures:
  assumes "sensor_works I a mem" "rr \<le> 7"
  shows "\<exists>s'. mem (wires s') = (mem (wires s))(MLX_CONTROL1 := started_control rr (mem (wires s) MLX_CONTROL1)) \<and>
    mlx90640_init F I a rr m s = map_option (\<lambda>m. (0, m, s'))
      (mlx90640_extract_parameters F ((mlx_zero F)\<lparr>mlx_addr := a, eeData := words_at (mem (wires s')) MLX_EE 832\<rparr>))"
proof -
  have ready: "i2c_bus_init I = 0" using assms(1) by (simp add: sensor_works_def i2c_bus_init_def)
  obtain s1 where p: "i2c_bus_probe I a s = (0, s1)" "mem (wires s1) = mem (wires s)"
    by (rule sensor_probe [OF assms(1)])
  obtain s2 where r: "mlx90640_set_refresh_rate I a rr s1 = (0, s2)" "mem (wires s2) = (mem (wires s1))(MLX_CONTROL1 :=
      (mem (wires s1) MLX_CONTROL1 AND 0xFC7F) OR push_bit 7 (ucast (rr AND 0x07)))"
    unfolding mlx90640_set_refresh_rate_def by (rule mlx_control_works [OF assms(1)])
  obtain s3 where c: "mlx90640_set_chess_mode I a s2 = (0, s3)"
      "mem (wires s3) = (mem (wires s2))(MLX_CONTROL1 := mem (wires s2) MLX_CONTROL1 OR 0x1000)"
    unfolding mlx90640_set_chess_mode_def by (rule mlx_control_works [OF assms(1)])
  obtain s4 where e: "mlx_read I a MLX_EE 832 s3 = (0, words_at (mem (wires s3)) MLX_EE 832, s4)"
      "mem (wires s4) = mem (wires s3)"
    by (rule mlx_read_works [OF assms(1)])
  have d: "mlx90640_dump_ee I a (eeData ((mlx_zero F)\<lparr>mlx_addr := a\<rparr>)) s3 = (0, words_at (mem (wires s4)) MLX_EE 832, s4)"
    by (simp add: mlx90640_dump_ee_def e blit_def mlx_zero_def Let_def)
  have "mem (wires s4) = (mem (wires s))(MLX_CONTROL1 := started_control rr (mem (wires s) MLX_CONTROL1))"
    by (simp add: e(2) c(2) r(2) p(2) started_control_def)
  moreover have "mlx90640_init F I a rr m s = map_option (\<lambda>m. (0, m, s4))
      (mlx90640_extract_parameters F ((mlx_zero F)\<lparr>mlx_addr := a, eeData := words_at (mem (wires s4)) MLX_EE 832\<rparr>))"
    using assms(2) d by (simp add: mlx90640_init_def ready p(1) r(1) c(1) Let_def not_less [symmetric])
  ultimately show ?thesis by blast
qed

definition demo_sensor :: "(u16 \<Rightarrow> u16) i2c_api" where
  "demo_sensor = \<lparr>i2c_ready = True, drv_write = \<lambda>a d f. (0, f(be_word d 0 := be_word d 1)),
     drv_read = \<lambda>a n f. (0, replicate n 0, f),
     drv_write_read = \<lambda>a t n f. (0, words_bytes f (be_word t 0) (n div 2), f), drv_probe = \<lambda>a f. (0, f),
     pselid_latch = \<lambda>f. f\<rparr>"

lemma demo_sensor_works: "sensor_works demo_sensor a (\<lambda>f. f)"
proof -
  have m: "(0xFF :: u16) = mask 8" by (simp add: mask_eq_exp_minus_1)
  have w: "be_word (be_bytes r @ d) 0 = r" "be_word (be_bytes r @ be_bytes v) 1 = v" for r v d
    unfolding be_word_def be_bytes_def m using be_word_bytes [of r] be_word_bytes [of v] by (simp_all add: m)
  show ?thesis using w(1) [of _ "[]"] w by (simp add: sensor_works_def demo_sensor_def)
qed

lemma mlx_init_configures_witness:
  "mlx90640_init exact_fp demo_sensor 0x33 3 (mlx_zero exact_fp) \<lparr>i2c_selected = False, wires = \<lambda>r. 0\<rparr> = None"
proof -
  obtain s' where s': "wires s' = (\<lambda>r. 0)(MLX_CONTROL1 := started_control 3 0)" and
    i: "mlx90640_init exact_fp demo_sensor 0x33 3 (mlx_zero exact_fp) \<lparr>i2c_selected = False, wires = \<lambda>r. 0\<rparr> =
      map_option (\<lambda>m. (0, m, s')) (mlx90640_extract_parameters exact_fp
        ((mlx_zero exact_fp)\<lparr>mlx_addr := 0x33, eeData := words_at (wires s') MLX_EE 832\<rparr>))"
    using mlx_init_configures [OF demo_sensor_works [of "0x33"], of 3 "\<lparr>i2c_selected = False, wires = \<lambda>r. 0\<rparr>" exact_fp "mlx_zero exact_fp"]
    by auto
  have "words_at (wires s') MLX_EE 832 ! 52 = 0" by (simp add: words_at_def s' del: upt_rec_numeral)
  then show ?thesis
    using i extract_needs_kv [OF ieee_exact] by simp
qed

subsection \<open>An image\<close>

lemma pixel_subpage_01: "pixel_subpage mode p = 0 \<or> pixel_subpage mode p = 1"
proof -
  have 1: "il_pattern p = 0 \<or> il_pattern p = 1"
    unfolding il_pattern_def by (simp add: div_mult2_eq [of p 32 2, simplified]) presburger
  have 2: "p - (p div 2) * 2 = 0 \<or> p - (p div 2) * 2 = 1" by presburger
  show ?thesis using 1 2 by (auto simp: pixel_subpage_def)
qed

text \<open>The temperature of a pixel does not depend on the temperatures stored so far.\<close>

lemma To_fields:
  "kVdd (m\<lparr>To := x\<rparr>) = kVdd m" "vdd25 (m\<lparr>To := x\<rparr>) = vdd25 m"
  "KvPTAT (m\<lparr>To := x\<rparr>) = KvPTAT m" "KtPTAT (m\<lparr>To := x\<rparr>) = KtPTAT m"
  "vPTAT25 (m\<lparr>To := x\<rparr>) = vPTAT25 m" "alphaPTAT (m\<lparr>To := x\<rparr>) = alphaPTAT m"
  "gainEE (m\<lparr>To := x\<rparr>) = gainEE m" "tgc (m\<lparr>To := x\<rparr>) = tgc m"
  "cpKv (m\<lparr>To := x\<rparr>) = cpKv m" "cpKta (m\<lparr>To := x\<rparr>) = cpKta m"
  "resolutionEE (m\<lparr>To := x\<rparr>) = resolutionEE m"
  "calibrationModeEE (m\<lparr>To := x\<rparr>) = calibrationModeEE m" "KsTa (m\<lparr>To := x\<rparr>) = KsTa m"
  "ksTo (m\<lparr>To := x\<rparr>) = ksTo m" "ct (m\<lparr>To := x\<rparr>) = ct m"
  "alpha (m\<lparr>To := x\<rparr>) = alpha m" "alphaScale (m\<lparr>To := x\<rparr>) = alphaScale m"
  "offset (m\<lparr>To := x\<rparr>) = offset m" "kta (m\<lparr>To := x\<rparr>) = kta m"
  "ktaScale (m\<lparr>To := x\<rparr>) = ktaScale m" "kv (m\<lparr>To := x\<rparr>) = kv m"
  "kvScale (m\<lparr>To := x\<rparr>) = kvScale m" "cpAlpha (m\<lparr>To := x\<rparr>) = cpAlpha m"
  "cpOffset (m\<lparr>To := x\<rparr>) = cpOffset m" "ilChessC (m\<lparr>To := x\<rparr>) = ilChessC m"
  "frame (m\<lparr>To := x\<rparr>) = frame m"
  by simp_all

lemma To_temps:
  "raw_f F (m\<lparr>To := x\<rparr>) = raw_f F m" "readout_mode (m\<lparr>To := x\<rparr>) = readout_mode m"
  "alpha_corr F (m\<lparr>To := x\<rparr>) = alpha_corr F m" "mlx90640_get_vdd F (m\<lparr>To := x\<rparr>) = mlx90640_get_vdd F m"
  "mlx90640_get_ta F (m\<lparr>To := x\<rparr>) = mlx90640_get_ta F m"
  unfolding raw_f_def [abs_def] readout_mode_def alpha_corr_def mlx90640_get_ta_def mlx90640_get_vdd_def To_fields
  by (rule refl)+

lemma pixel_to_To: "pixel_to F e tr (m\<lparr>To := x\<rparr>) = pixel_to F e tr m"
  unfolding pixel_to_def [abs_def] pixel_ir_def ir_data_cp_def To_temps To_fields by (rule refl)

lemma mlx_read_code: "mlx_read I a start n s = (rc, ws, s') \<Longrightarrow> rc = 0 \<or> rc = - 2"
proof -
  have "fst (mlx_read_loop I a start n out s) = 0 \<or> fst (mlx_read_loop I a start n out s) = - 2" for out
  proof (induction I a start n out s rule: mlx_read_loop.induct)
    case (1 I a start n out s)
    then show ?case by (subst (1 2) mlx_read_loop.simps) (auto simp: Let_def split: prod.split)
  qed
  then show "mlx_read I a start n s = (rc, ws, s') \<Longrightarrow> rc = 0 \<or> rc = - 2" by (metis fst_conv mlx_read_def)
qed

lemma mlx_write_code: "mlx_write I a r v s = (rc, s') \<Longrightarrow> rc = 0 \<or> rc < 0"
  by (auto simp: mlx_write_def split: prod.splits if_splits)

lemma mlx_wait_code: "mlx_wait I a left s = (Inl rc, s') \<Longrightarrow> rc < 0"
proof (induction I a left s rule: mlx_wait.induct)
  case (1 I a left s)
  obtain c ws s1 where r: "mlx_read I a MLX_STATUS 1 s = (c, ws, s1)" by (metis prod_cases3)
  show ?case
    using 1(2) 1(1) [OF r [symmetric] refl] mlx_read_code [OF r] r
    by (subst (asm) mlx_wait.simps) (auto split: if_splits)
qed

lemma get_frame_subpage:
  assumes "mlx90640_get_frame I a f s = (r, f', s')" "0 \<le> r"
  shows "uint (f' ! 833) = r"
proof -
  obtain w s1 where w: "mlx_wait I a 2000 s = (w, s1)" by force
  show ?thesis
  proof (cases w)
    case (Inl rc)
    then show ?thesis using assms w mlx_wait_code [of I a 2000 s rc s1] by (simp add: mlx90640_get_frame_def)
  next
    case (Inr st)
    obtain rc s2 where v: "mlx_write I a MLX_STATUS 0x0030 s1 = (rc, s2)" by force
    obtain rc2 ws s3 where ram: "mlx_read I a MLX_RAM 832 s2 = (rc2, ws, s3)" by (metis prod_cases3)
    obtain rc3 c s4 where ctl: "mlx_read I a MLX_CONTROL1 1 s3 = (rc3, c, s4)" by (metis prod_cases3)
    show ?thesis
      using assms w Inr v ram ctl mlx_write_code [OF v] mlx_read_code [OF ram] mlx_read_code [OF ctl]
      by (auto simp: mlx90640_get_frame_def Let_def split: if_splits)
  qed
qed

text \<open>The temperatures after both sub-pages.\<close>

definition turn_pixel :: "'f fp \<Rightarrow> 'f mlx \<Rightarrow> u16 list \<Rightarrow> nat \<Rightarrow> 'f" where
  "turn_pixel F d f p = pixel_to F (of_dec F 95 (- 2))
     (f_sub F (mlx90640_get_ta F (d\<lparr>frame := f\<rparr>)) (of_i F 8)) (d\<lparr>frame := f\<rparr>) p"

lemma calculate_nth:
  "p < 768 \<Longrightarrow> To (mlx90640_calculate_to F e tr m) ! p =
    (if int (pixel_subpage (readout_mode m) p) \<noteq> uint (frame m ! 833) then To m ! p else pixel_to F e tr m p)"
  "length (To (mlx90640_calculate_to F e tr m)) = 768"
  "mlx90640_calculate_to F e tr m = m\<lparr>To := To (mlx90640_calculate_to F e tr m)\<rparr>"
  by (simp_all add: mlx90640_calculate_to_def del: upt_rec_numeral)

lemma subpages_image:
  assumes f1: "mlx90640_get_frame I (mlx_addr (mt_dev t)) (frame (mt_dev t)) (mt_bus t) = (r1, fr1, s1)" "0 \<le> r1"
    and f2: "mlx90640_get_frame I (mlx_addr (mt_dev t)) fr1 s1 = (r2, fr2, s2)" "0 \<le> r2"
    and sub: "{r1, r2} = {0, 1}" and mode: "fr1 ! 832 AND 0x1000 = fr2 ! 832 AND 0x1000"
  obtains x where "mlx_subpages F I [True, True] t = (0, t\<lparr>mt_bus := s2, mt_dev := (mt_dev t)\<lparr>frame := fr2, To := x\<rparr>\<rparr>)"
    "length x = 768" "\<And>p. p < 768 \<Longrightarrow> x ! p = turn_pixel F (mt_dev t)
       (if int (pixel_subpage (bit_field (fr1 ! 832) 0x1000 5) p) = r1 then fr1 else fr2) p"
proof -
  let ?e = "of_dec F 95 (- 2)" and ?d = "mt_dev t"
  let ?tr = "\<lambda>f. f_sub F (mlx90640_get_ta F (?d\<lparr>frame := f\<rparr>)) (of_i F 8)"
  define x1 where "x1 = To (mlx90640_calculate_to F ?e (?tr fr1) (?d\<lparr>frame := fr1\<rparr>))"
  define x2 where "x2 = To (mlx90640_calculate_to F ?e (?tr fr2) (?d\<lparr>frame := fr2, To := x1\<rparr>))"
  have c1: "mlx90640_calculate_to F ?e (?tr fr1) (?d\<lparr>frame := fr1\<rparr>) = ?d\<lparr>frame := fr1, To := x1\<rparr>"
    unfolding x1_def by (rule calculate_nth(3))
  have c2: "mlx90640_calculate_to F ?e (?tr fr2) (?d\<lparr>frame := fr2, To := x1\<rparr>) = ?d\<lparr>frame := fr2, To := x2\<rparr>"
    unfolding x2_def using calculate_nth(3) [of F ?e "?tr fr2" "?d\<lparr>frame := fr2, To := x1\<rparr>"] by simp
  have sw: "?d\<lparr>To := x1, frame := fr2\<rparr> = ?d\<lparr>frame := fr2, To := x1\<rparr>" by simp
  have ta: "mlx90640_get_ta F (?d\<lparr>frame := fr2, To := x1\<rparr>) = mlx90640_get_ta F (?d\<lparr>frame := fr2\<rparr>)" by (rule To_temps(5))
  have run: "mlx_subpages F I [True, True] t = (0, t\<lparr>mt_bus := s2, mt_dev := ?d\<lparr>frame := fr2, To := x2\<rparr>\<rparr>)"
    using f1 f2 by (simp add: c1 ta [folded sw] c2 [folded sw] Let_def)
  have n: "uint (fr1 ! 833) = r1" "uint (fr2 ! 833) = r2"
    using get_frame_subpage [OF f1] get_frame_subpage [OF f2] by simp_all
  have m: "readout_mode (?d\<lparr>frame := fr1\<rparr>) = bit_field (fr1 ! 832) 0x1000 5"
      "readout_mode (?d\<lparr>frame := fr2, To := x1\<rparr>) = bit_field (fr1 ! 832) 0x1000 5"
    using mode by (simp_all add: readout_mode_def bit_field_def)
  have px: "x2 ! p = turn_pixel F ?d (if int (pixel_subpage (bit_field (fr1 ! 832) 0x1000 5) p) = r1 then fr1 else fr2) p" if p: "p < 768" for p
  proof -
    have 1: "x1 ! p = (if int (pixel_subpage (bit_field (fr1 ! 832) 0x1000 5) p) \<noteq> r1 then To ?d ! p else turn_pixel F ?d fr1 p)"
      unfolding x1_def calculate_nth(1) [OF p] m by (simp add: n turn_pixel_def)
    have 2: "x2 ! p = (if int (pixel_subpage (bit_field (fr1 ! 832) 0x1000 5) p) \<noteq> r2 then x1 ! p else turn_pixel F ?d fr2 p)"
      unfolding x2_def calculate_nth(1) [OF p] m by (simp add: n pixel_to_To turn_pixel_def)
    show ?thesis
      using 1 2 sub pixel_subpage_01 [of "bit_field (fr1 ! 832) 0x1000 5" p] by (auto simp: doubleton_eq_iff)
  qed
  have "length x2 = 768" unfolding x2_def by (rule calculate_nth(2))
  then show thesis using that [OF run _ px] by blast
qed

text \<open>C32: A turn of the running task whose two acquisitions deliver the two sub-pages, in either order and
  in one readout mode, publishes an image without error in which every one of the 768 pixels is the
  temperature computed from the sub-page that measured it, and none is left from an earlier image.\<close>

theorem mlx_turn_image:
  assumes run: "mt_running t"
    and f1: "mlx90640_get_frame I (mlx_addr (mt_dev t)) (frame (mt_dev t)) (mt_bus t) = (r1, fr1, s1)" "0 \<le> r1"
    and f2: "mlx90640_get_frame I (mlx_addr (mt_dev t)) fr1 s1 = (r2, fr2, s2)" "0 \<le> r2"
    and sub: "{r1, r2} = {0, 1}" and mode: "fr1 ! 832 AND 0x1000 = fr2 ! 832 AND 0x1000"
  shows "\<exists>t' x. mlx_turn F D I True True stamp now t = Some t' \<and> mlx_task_get_last_frame t' = Some x \<and>
    ms_err x = 0 \<and> ms_seq x = mt_count t + 1 \<and> length (ms_to x) = 768 \<and>
    (\<forall>p < 768. ms_to x ! p = turn_pixel F (mt_dev t)
       (if int (pixel_subpage (bit_field (fr1 ! 832) 0x1000 5) p) = r1 then fr1 else fr2) p)"
proof -
  obtain y where y: "mlx_subpages F I [True, True] t = (0, t\<lparr>mt_bus := s2, mt_dev := (mt_dev t)\<lparr>frame := fr2, To := y\<rparr>\<rparr>)"
    "length y = 768" "\<And>p. p < 768 \<Longrightarrow> y ! p = turn_pixel F (mt_dev t)
       (if int (pixel_subpage (bit_field (fr1 ! 832) 0x1000 5) p) = r1 then fr1 else fr2) p"
    using subpages_image [where F = F, OF f1 f2 sub mode] by blast
  have to: "ms_to (mlx_compute_stats F D x) = ms_to x" for x
    by (simp add: mlx_compute_stats_def split: prod.split)
  show ?thesis
    using run y by (simp add: mlx_turn_def mlx_publish_def mlx_task_get_last_frame_def to Let_def del: mlx_subpages.simps)
qed

text \<open>A sensor that delivers sub-page 0 and then sub-page 1: its wires count the single-word reads, three to
  a frame; the image words read zero.\<close>

definition demo_word :: "nat \<Rightarrow> u16" where
  "demo_word k = (if k = 0 then 0x0008 else if k = 3 then 0x0009 else if k = 2 \<or> k = 5 then 0x1000 else 0x0030)"

definition demo_imager :: "nat i2c_api" where
  "demo_imager = \<lparr>i2c_ready = True, drv_write = \<lambda>a d k. (0, k), drv_read = \<lambda>a n k. (0, replicate n 0, k),
     drv_write_read = \<lambda>a t n k. if n = 2 then (0, be_bytes (demo_word k), Suc k) else (0, replicate n 0, k),
     drv_probe = \<lambda>a k. (0, k), pselid_latch = \<lambda>k. k\<rparr>"

abbreviation (input) at_read :: "nat \<Rightarrow> nat i2c" where "at_read k \<equiv> \<lparr>i2c_selected = True, wires = k\<rparr>"

lemma demo_bus_write_read:
  "0 < n \<Longrightarrow> i2c_bus_write_read demo_imager a (be_bytes r) n (at_read k) =
     (if n = 2 then (0, be_bytes (demo_word k), at_read (Suc k)) else (0, replicate n 0, at_read k))"
  by (simp add: i2c_bus_write_read_def i2c_bus_select_once_def i2c_bus_recover_on_err_def demo_imager_def be_bytes_def)

lemma be_word_be_bytes: "be_word (be_bytes r) 0 = r"
proof -
  have m: "(0xFF :: u16) = mask 8" by (simp add: mask_eq_exp_minus_1)
  show ?thesis unfolding be_word_def be_bytes_def m using be_word_bytes [of r] by (simp add: m)
qed

lemma demo_read_word: "mlx_read demo_imager a r 1 (at_read k) = (0, [demo_word k], at_read (Suc k))"
  unfolding mlx_read_def
  by (subst mlx_read_loop.simps, subst mlx_read_loop.simps) (simp add: demo_bus_write_read be_word_be_bytes)

lemma be_word_zeros: "List.map (be_word (replicate (c * 2) 0)) [0..<c] = replicate c 0"
  by (rule nth_equalityI) (simp_all add: be_word_def)

lemma demo_read_chunk:
  assumes "length out < n" "c = min (n - length out) 256" "c \<noteq> 1"
  shows "mlx_read_loop demo_imager a r n out (at_read k) = mlx_read_loop demo_imager a r n (out @ replicate c 0) (at_read k)"
  using assms by (subst mlx_read_loop.simps) (simp add: demo_bus_write_read be_word_zeros Let_def del: upt_rec_numeral)

lemma demo_read_ram: "mlx_read demo_imager a r 832 (at_read k) = (0, replicate 832 0, at_read k)"
proof -
  have "mlx_read_loop demo_imager a r 832 [] (at_read k) =
      mlx_read_loop demo_imager a r 832 (((([] @ replicate 256 0) @ replicate 256 0) @ replicate 256 0) @ replicate 64 0) (at_read k)"
    by (subst demo_read_chunk [where c = 256], simp, simp, simp, subst demo_read_chunk [where c = 256], simp, simp, simp,
        subst demo_read_chunk [where c = 256], simp, simp, simp, subst demo_read_chunk [where c = 64], simp, simp, simp, rule refl)
  also have "\<dots> = (0, replicate 832 0, at_read k)"
    by (subst mlx_read_loop.simps) (simp add: replicate_add [symmetric])
  finally show ?thesis by (simp only: mlx_read_def)
qed

lemma demo_frame:
  assumes "length f = 834" "demo_word k AND 8 \<noteq> 0" "demo_word (Suc k) = 0x0030"
  shows "mlx90640_get_frame demo_imager a f (at_read k) =
    (uint (demo_word k AND 1), (replicate 832 0 @ drop 832 f)[832 := demo_word (Suc (Suc k)), 833 := demo_word k AND 1], at_read (Suc (Suc (Suc k))))"
proof -
  have w: "mlx_write demo_imager a MLX_STATUS 0x0030 (at_read (Suc k)) = (0, at_read (Suc (Suc k)))"
    using demo_read_word [of a MLX_STATUS "Suc k"] assms(3)
    by (simp add: mlx_write_def i2c_bus_write_def i2c_bus_select_once_def i2c_bus_recover_on_err_def demo_imager_def be_bytes_def)
  have "mlx_wait demo_imager a 2000 (at_read k) = (Inr (demo_word k), at_read (Suc k))"
    using demo_read_word [of a MLX_STATUS k] assms(2) by (subst mlx_wait.simps) simp
  then show ?thesis
    using w demo_read_ram [of a MLX_RAM "Suc (Suc k)"] demo_read_word [of a MLX_CONTROL1 "Suc (Suc k)"] assms(1)
    by (simp add: mlx90640_get_frame_def blit_def Let_def)
qed

definition demo_mlx_task :: "(rat, nat) mlx_task" where
  "demo_mlx_task = \<lparr>mt_dev = mlx_zero exact_fp, mt_running = True, mt_has_frame = False,
     mt_last = \<lparr>ms_to = [], ms_ta = 0, ms_min = 0, ms_max = 0, ms_avg = 0, ms_err = 0, ms_seq = 0, ms_time = 0\<rparr>, mt_cb = False,
     mt_given = [], mt_period = 500, mt_addr = 0x33, mt_rr = 3, mt_tid = True, mt_count = 4, mt_next = 0, mt_bus = at_read 0\<rparr>"

definition exact_dp :: "(rat, rat) dp" where
  "exact_dp = \<lparr>d_of_i = of_int, d_of_f = id, d_add = (+), d_div = (/), f_of_d = id\<rparr>"

lemma mlx_turn_image_witness:
  "\<exists>t' x. mlx_turn exact_fp exact_dp demo_imager True True 0 0 demo_mlx_task = Some t' \<and>
     mlx_task_get_last_frame t' = Some x \<and> ms_err x = 0 \<and> ms_seq x = 5 \<and> length (ms_to x) = 768"
proof -
  let ?f1 = "(replicate 832 0 @ drop 832 (frame (mlx_zero exact_fp)))[832 := demo_word 2, 833 := demo_word 0 AND 1]"
  let ?f2 = "(replicate 832 0 @ drop 832 ?f1)[832 := demo_word 5, 833 := demo_word 3 AND 1]"
  have len: "length (frame (mlx_zero exact_fp)) = 834" "length ?f1 = 834"
    by (simp_all add: mlx_zero_def Let_def)
  have 1: "mlx90640_get_frame demo_imager (mlx_addr (mt_dev demo_mlx_task)) (frame (mt_dev demo_mlx_task)) (mt_bus demo_mlx_task) =
      (0, ?f1, at_read 3)"
    using demo_frame [OF len(1), of 0] by (simp add: demo_mlx_task_def demo_word_def)
  have 2: "mlx90640_get_frame demo_imager (mlx_addr (mt_dev demo_mlx_task)) ?f1 (at_read 3) = (1, ?f2, at_read 6)"
    using demo_frame [OF len(2), of 3] by (simp add: demo_word_def)
  have "?f1 ! 832 AND 0x1000 = ?f2 ! 832 AND 0x1000"
    using len by (simp add: demo_word_def nth_append)
  moreover have "mt_running demo_mlx_task" "mt_count demo_mlx_task + 1 = 5" by (simp_all add: demo_mlx_task_def)
  ultimately show ?thesis
    using mlx_turn_image [OF _ 1 _ 2, of exact_fp exact_dp 0 0] by auto
qed

end
