(* ===== verification/Radar.thy ===== *)
theory Radar
  imports Prelude
begin

text \<open>
  The radar UART \<open>app/radar/app_radar_zephyr.c\<close>.  The asynchronous UART driver is the kernel's:
  its events are arguments, the calls made to it are logged in \<open>ra_calls\<close>, and its return codes
  are arguments.  A receive event carries the bytes at its offset.
\<close>

datatype uart_event = RX_RDY "u8 list" | RX_BUF_REQUEST | RX_BUF_RELEASED | RX_DISABLED | OTHER_EVENT

datatype uart_call = Callback_set | Rx_enable nat | Rx_buf_rsp nat | Rx_disable | Uart_tx "u8 list"

record radar =
  ra_uart :: bool
  ra_cb :: bool
  ra_running :: bool
  ra_rx_seen :: bool
  ra_buf_idx :: nat
  ra_calls :: "uart_call list"
  ra_given :: "u8 list list"

definition radar_boot :: radar where
  "radar_boot = \<lparr>ra_uart = False, ra_cb = False, ra_running = False, ra_rx_seen = False, ra_buf_idx = 0,
     ra_calls = [], ra_given = []\<rparr>"

abbreviation (input) RX_BUF_COUNT :: nat where "RX_BUF_COUNT \<equiv> 2"

definition log_call :: "uart_call \<Rightarrow> radar \<Rightarrow> radar" where
  "log_call c r = r\<lparr>ra_calls := ra_calls r @ [c]\<rparr>"

fun uart_async_cb :: "uart_event \<Rightarrow> radar \<Rightarrow> radar" where
  "uart_async_cb (RX_RDY d) r = (let r = r\<lparr>ra_rx_seen := True\<rparr> in
     if ra_cb r \<and> d \<noteq> [] then r\<lparr>ra_given := ra_given r @ [d]\<rparr> else r)"
| "uart_async_cb RX_BUF_REQUEST r = (let r = r\<lparr>ra_buf_idx := (ra_buf_idx r + 1) mod RX_BUF_COUNT\<rparr>
     in log_call (Rx_buf_rsp (ra_buf_idx r)) r)"
| "uart_async_cb RX_BUF_RELEASED r = r"
| "uart_async_cb RX_DISABLED r = (if ra_running r then
       let r = r\<lparr>ra_buf_idx := (ra_buf_idx r + 1) mod RX_BUF_COUNT\<rparr> in log_call (Rx_enable (ra_buf_idx r)) r
     else r)"
| "uart_async_cb OTHER_EVENT r = r"

definition app_radar_start :: "bool \<Rightarrow> bool \<Rightarrow> int \<Rightarrow> int \<Rightarrow> radar \<Rightarrow> int \<times> radar" where
  "app_radar_start ready cb set_rc en_rc r =
     (let r = r\<lparr>ra_uart := True\<rparr> in
      if \<not> ready then (- ENODEV, r)
      else let r = log_call Callback_set (r\<lparr>ra_cb := cb\<rparr>) in
        if set_rc \<noteq> 0 then (set_rc, r)
        else let r = log_call (Rx_enable 0) (r\<lparr>ra_buf_idx := 0\<rparr>) in
          if en_rc \<noteq> 0 then (en_rc, r) else (0, r\<lparr>ra_rx_seen := False, ra_running := True\<rparr>))"

definition app_radar_stop :: "radar \<Rightarrow> radar" where
  "app_radar_stop r = (if ra_running r \<and> ra_uart r then log_call Rx_disable (r\<lparr>ra_running := False\<rparr>) else r)"

definition app_radar_is_running :: "radar \<Rightarrow> bool" where
  "app_radar_is_running r = ra_running r"

text \<open>A null pointer is None.\<close>

definition app_radar_send :: "u8 list option \<Rightarrow> int \<Rightarrow> radar \<Rightarrow> int \<times> radar" where
  "app_radar_send d tx_rc r = (if \<not> ra_running r \<or> \<not> ra_uart r then (- ENODEV, r)
     else case d of None \<Rightarrow> (- EINVAL, r)
       | Some d \<Rightarrow> if d = [] then (- EINVAL, r) else (tx_rc, log_call (Uart_tx d) r))"

subsection \<open>Double buffering\<close>

text \<open>What happens after a start: an event, a stop or a send.\<close>

datatype radar_act = Event uart_event | Stop_op | Send_op "u8 list option" int

fun radar_op :: "radar_act \<Rightarrow> radar \<Rightarrow> radar" where
  "radar_op (Event e) r = uart_async_cb e r"
| "radar_op Stop_op r = app_radar_stop r"
| "radar_op (Send_op d rc) r = snd (app_radar_send d rc r)"

text \<open>The buffers handed to the driver, in order, and the bytes of the receive events.\<close>

fun offered_by :: "uart_call \<Rightarrow> nat list" where
  "offered_by (Rx_enable i) = [i]"
| "offered_by (Rx_buf_rsp i) = [i]"
| "offered_by _ = []"

definition offered :: "uart_call list \<Rightarrow> nat list" where
  "offered cs = concat (List.map offered_by cs)"

fun received_by :: "radar_act \<Rightarrow> u8 list list" where
  "received_by (Event (RX_RDY d)) = (if d = [] then [] else [d])"
| "received_by _ = []"

lemma offered_append [simp]: "offered [] = []" "offered (cs @ ds) = offered cs @ offered ds" "offered [c] = offered_by c"
  by (simp_all add: offered_def)

text \<open>From a state whose last buffer is the current index, the buffers handed over alternate.\<close>

definition alternating :: "nat \<Rightarrow> nat list \<Rightarrow> bool" where
  "alternating i xs \<longleftrightarrow> xs = List.map (\<lambda>k. (i + Suc k) mod 2) [0..<length xs]"

lemma alternating_simps: "alternating i []" "alternating i (x # xs) \<longleftrightarrow> x = Suc i mod 2 \<and> alternating x xs"
proof -
  show "alternating i []" by (simp add: alternating_def)
  have "[0..<length (x # xs)] = 0 # List.map Suc [0..<length xs]"
    by (metis length_Cons map_Suc_upt upt_conv_Cons zero_less_Suc)
  then have "alternating i (x # xs) \<longleftrightarrow>
      x # xs = Suc i mod 2 # List.map (\<lambda>k. (i + Suc (Suc k)) mod 2) [0..<length xs]"
    unfolding alternating_def by (simp only: list.map list.map_comp o_def add_Suc_right plus_nat.add_0 add_0_right)
  moreover have "(Suc i mod 2 + Suc k) mod 2 = (i + Suc (Suc k)) mod 2" for k
    using mod_add_left_eq [of "Suc i" 2 "Suc k"] by (simp only: add_Suc add_Suc_right)
  ultimately show "alternating i (x # xs) \<longleftrightarrow> x = Suc i mod 2 \<and> alternating x xs"
    by (auto simp: alternating_def)
qed

lemma radar_op_calls:
  "\<exists>cs. ra_calls (radar_op x r) = ra_calls r @ cs \<and>
    (offered cs = [] \<and> ra_buf_idx (radar_op x r) = ra_buf_idx r \<or>
     offered cs = [Suc (ra_buf_idx r) mod 2] \<and> ra_buf_idx (radar_op x r) = Suc (ra_buf_idx r) mod 2)"
proof (cases x)
  case (Event e)
  then show ?thesis by (cases e) (auto simp: log_call_def Let_def)
next
  case (Send_op d rc)
  then show ?thesis by (cases d) (auto simp: app_radar_send_def log_call_def)
qed (auto simp: app_radar_stop_def log_call_def)

lemma radar_op_given:
  "ra_given (radar_op x r) = ra_given r @ (if ra_cb r then received_by x else []) \<and> ra_cb (radar_op x r) = ra_cb r"
proof (cases x)
  case (Event e)
  then show ?thesis by (cases e) (auto simp: log_call_def Let_def)
next
  case (Send_op d rc)
  then show ?thesis by (cases d) (auto simp: app_radar_send_def log_call_def)
qed (auto simp: app_radar_stop_def log_call_def)

lemma radar_run_calls:
  "\<exists>cs. ra_calls (fold radar_op xs r) = ra_calls r @ cs \<and> alternating (ra_buf_idx r) (offered cs)"
proof (induction xs arbitrary: r)
  case (Cons x xs)
  obtain cs where 1: "ra_calls (radar_op x r) = ra_calls r @ cs"
      "offered cs = [] \<and> ra_buf_idx (radar_op x r) = ra_buf_idx r \<or>
       offered cs = [Suc (ra_buf_idx r) mod 2] \<and> ra_buf_idx (radar_op x r) = Suc (ra_buf_idx r) mod 2"
    using radar_op_calls by blast
  obtain ds where "ra_calls (fold radar_op xs (radar_op x r)) = ra_calls (radar_op x r) @ ds"
      "alternating (ra_buf_idx (radar_op x r)) (offered ds)"
    using Cons.IH by blast
  then show ?case using 1 by (intro exI [of _ "cs @ ds"]) (auto simp: alternating_simps)
qed (simp add: alternating_simps offered_def)

lemma radar_run_given:
  "ra_given (fold radar_op xs r) = ra_given r @ (if ra_cb r then concat (List.map received_by xs) else [])"
  by (induction xs arbitrary: r) (simp_all add: radar_op_given)

text \<open>C33: After a successful start with a callback, whatever events arrive and whatever is sent or
  stopped in between, the two buffers are handed to the driver strictly in turn, starting with the
  first, so the driver never gets the buffer it is filling; and the callback gets exactly the
  received chunks in order.\<close>

theorem radar_buffers_alternate:
  assumes "app_radar_start True True 0 0 r = (rc, r1)"
  shows "rc = 0 \<and> ra_running r1 \<and>
    (\<exists>cs. ra_calls (fold radar_op xs r1) = ra_calls r @ cs \<and>
       offered cs = List.map (\<lambda>k. k mod 2) [0..<length (offered cs)]) \<and>
    ra_given (fold radar_op xs r1) = ra_given r @ concat (List.map received_by xs)"
proof -
  have r1: "rc = 0" "ra_running r1" "ra_buf_idx r1 = 0" "ra_cb r1" "ra_given r1 = ra_given r"
      "ra_calls r1 = ra_calls r @ [Callback_set, Rx_enable 0]"
    using assms by (auto simp: app_radar_start_def log_call_def Let_def)
  obtain cs where cs: "ra_calls (fold radar_op xs r1) = ra_calls r1 @ cs" "alternating 0 (offered cs)"
    using radar_run_calls [of xs r1] r1(3) by auto
  have "alternating 1 (offered ([Callback_set, Rx_enable 0] @ cs))"
    using cs(2) by (simp add: alternating_simps offered_def)
  then have "offered ([Callback_set, Rx_enable 0] @ cs) =
      List.map (\<lambda>k. k mod 2) [0..<length (offered ([Callback_set, Rx_enable 0] @ cs))]"
    unfolding alternating_def by (simp only: add_Suc_right plus_nat.add_0 One_nat_def add_Suc mod2_Suc_Suc)
  then show ?thesis
    using r1 cs(1) radar_run_given [of xs r1] by (auto intro!: exI [of _ "[Callback_set, Rx_enable 0] @ cs"])
qed

lemma radar_buffers_alternate_witness:
  "\<exists>cs. ra_calls (fold radar_op [Event RX_BUF_REQUEST, Event (RX_RDY [1, 2]), Stop_op]
       (snd (app_radar_start True True 0 0 radar_boot))) = cs \<and>
     offered cs = List.map (\<lambda>k. k mod 2) [0..<length (offered cs)]"
  using radar_buffers_alternate [of radar_boot "fst (app_radar_start True True 0 0 radar_boot)"
      "snd (app_radar_start True True 0 0 radar_boot)" "[Event RX_BUF_REQUEST, Event (RX_RDY [1, 2]), Stop_op]"]
  by (simp add: radar_boot_def)

end
