(* ===== verification/AppBoot.thy ===== *)
theory AppBoot
  imports AppFlow AppIr Lux Amg MlxTask Radar
begin

text \<open>
  The start of \<open>app_main_task\<close> up to its loop, and the callbacks of \<open>app_main_zephyr.c\<close> that belong to the
  board rather than to a flow: the hexadecimal dump of the radar bytes and the Bluetooth connection
  callbacks.  The board puts the sensors, the receivers and the radar beside the application.
\<close>

record ('v, 'n, 'e, 'f, 'b) board =
  bd_app :: "('v, 'n, 'e) app"
  bd_lux :: "'b lux"
  bd_amg :: "'b amg_task"
  bd_mlx :: "('f, 'b) mlx_task"
  bd_rx :: ir_rx
  bd_frames :: ir_app
  bd_radar :: radar
  bd_bt :: bool
  bd_adv :: nat

text \<open>The build options, and what the kernel and the drivers answer during the start.\<close>

datatype thermal = THERMAL_AMG8833 | THERMAL_MLX90640 | THERMAL_NONE

record boot_answers =
  an_led_ready :: bool
  an_led_rc :: int
  an_lux_thread :: bool
  an_thermal_thread :: bool
  an_rotary :: rot_answers
  an_rx :: rx_hw
  an_now :: u32
  an_uart :: bool
  an_uart_cb :: int
  an_uart_en :: int
  an_uart_tx :: int
  an_bt :: int

subsection \<open>Start-up\<close>

definition start_sensors :: "bool \<Rightarrow> thermal \<Rightarrow> boot_answers \<Rightarrow> ('v, 'n, 'e, 'f, 'b) board \<Rightarrow> ('v, 'n, 'e, 'f, 'b) board" where
  "start_sensors enabled th an b =
     (if \<not> enabled then b
      else let b = b\<lparr>bd_lux := snd (lux_task_start 500 False (an_lux_thread an) (bd_lux b))\<rparr> in
        (case th of
           THERMAL_AMG8833 \<Rightarrow> b\<lparr>bd_amg := snd (amg_task_start 0x69 500 False (an_thermal_thread an) (bd_amg b))\<rparr>
         | THERMAL_MLX90640 \<Rightarrow> b\<lparr>bd_mlx := snd (mlx_task_start 0x33 3 500 False (an_thermal_thread an) (bd_mlx b))\<rparr>
         | THERMAL_NONE \<Rightarrow> b))"

definition start_inputs :: "boot_answers \<Rightarrow> ('v, 'n, 'e, 'f, 'b) board \<Rightarrow> ('v, 'n, 'e, 'f, 'b) board" where
  "start_inputs an b =
     (let b = b\<lparr>bd_app := (bd_app b)\<lparr>a_rot := snd (rotary_enc_init (an_rotary an) (a_rot (bd_app b)))\<rparr>\<rparr>
      in case ir_rx_init (an_rx an) (an_now an) (ir_rx_set_callback True (bd_rx b)) of (rc, r) \<Rightarrow>
        b\<lparr>bd_rx := (if rc = 0 then snd (ir_rx_start (an_rx an) (an_now an) r) else r)\<rparr>)"

definition start_radar :: "boot_answers \<Rightarrow> ('v, 'n, 'e, 'f, 'b) board \<Rightarrow> ('v, 'n, 'e, 'f, 'b) board" where
  "start_radar an b =
     (case app_radar_start (an_uart an) True (an_uart_cb an) (an_uart_en an) (bd_radar b) of (rc, r) \<Rightarrow>
        b\<lparr>bd_radar := (if rc \<noteq> 0 then r
           else snd (app_radar_send (Some (str ''START'' @ [13, 10])) (an_uart_tx an) r))\<rparr>)"

text \<open>Whether the task goes on to its loop.\<close>

definition app_main_begin ::
  "bool \<Rightarrow> thermal \<Rightarrow> boot_answers \<Rightarrow> ('v, 'n, 'e, 'f, 'b) board \<Rightarrow> bool \<times> ('v, 'n, 'e, 'f, 'b) board" where
  "app_main_begin enabled th an b =
     (if \<not> an_led_ready an then (False, b)
      else if an_led_rc an < 0 then (False, b)
      else let b = start_radar an (start_inputs an (start_sensors enabled th an b))
        in (True, b\<lparr>bd_bt := (an_bt an = 0)\<rparr>))"

subsection \<open>Callbacks\<close>

definition on_bt_ready ::
  "'v nvs_api \<Rightarrow> tx_hw \<Rightarrow> gpio_answers \<Rightarrow> bool \<Rightarrow> int \<Rightarrow> int \<Rightarrow> bool \<Rightarrow> ('v, 'n, 'e, 'f, 'b) board \<Rightarrow> ('v, 'n, 'e, 'f, 'b) board" where
  "on_bt_ready N H g apa err adv iface b =
     b\<lparr>bd_app := bt_ready_cb N H g apa err adv iface (bd_app b), bd_adv := bd_adv b + (if err = 0 then 1 else 0)\<rparr>"

text \<open>\<open>bd_adv\<close> counts the requests to advertise.  A new connection is only logged.\<close>

definition ble_connected_cb :: "u8 \<Rightarrow> ('v, 'n, 'e, 'f, 'b) board \<Rightarrow> ('v, 'n, 'e, 'f, 'b) board" where
  "ble_connected_cb err b = b"

definition ble_disconnected_cb :: "u8 \<Rightarrow> ('v, 'n, 'e, 'f, 'b) board \<Rightarrow> ('v, 'n, 'e, 'f, 'b) board" where
  "ble_disconnected_cb reason b = b\<lparr>bd_adv := bd_adv b + 1\<rparr>"

subsection \<open>The radar dump\<close>

text \<open>\<open>%02X\<close> of a byte.\<close>

definition hexchar :: "u8 \<Rightarrow> u8" where
  "hexchar d = (if d < 10 then 48 + d else 55 + d)"

definition hex2 :: "u8 \<Rightarrow> cstr" where
  "hex2 b = [hexchar (drop_bit 4 b), hexchar (b AND 0x0F)]"

text \<open>\<open>snprintk (buf + pos, 256 - pos, \<dots>)\<close> of a text: the content of the buffer up to its terminator
  afterwards.  A position beyond the buffer makes the size wrap and is None.\<close>

abbreviation (input) HEX_BUF :: nat where "HEX_BUF \<equiv> 256"

definition snprintk_at :: "nat \<Rightarrow> cstr \<Rightarrow> cstr \<Rightarrow> cstr option" where
  "snprintk_at pos txt buf = (if HEX_BUF < pos then None
     else if pos = HEX_BUF then Some buf else Some (take pos buf @ take (HEX_BUF - 1 - pos) txt))"

fun dump_loop :: "u8 list \<Rightarrow> nat \<Rightarrow> cstr \<Rightarrow> (nat \<times> cstr) option" where
  "dump_loop [] pos buf = Some (pos, buf)"
| "dump_loop (b # bs) pos buf = (case snprintk_at pos (32 # hex2 b) buf of None \<Rightarrow> None
     | Some buf \<Rightarrow> dump_loop bs (pos + 3) buf)"

datatype dump = Too_short | Line cstr | Overflow

definition radar_rx_cb :: "u8 list \<Rightarrow> dump" where
  "radar_rx_cb data =
     (if length data < 5 then Too_short
      else let head = str ''RADAR['' @ dec (length data mod 2 ^ 32) @ str '']:'';
               n = min (length data) 64
        in case dump_loop (take n data) (length head) (take (HEX_BUF - 1) head) of
             None \<Rightarrow> Overflow
           | Some (pos, buf) \<Rightarrow>
               if n < length data
               then (case snprintk_at pos (str '' ...'') buf of None \<Rightarrow> Overflow | Some buf \<Rightarrow> Line buf)
               else Line buf)"

lemma length_digits_le: "n < 10 ^ k \<Longrightarrow> 0 < k \<Longrightarrow> length (digits n) \<le> k"
proof (induction n arbitrary: k rule: digits.induct)
  case (1 n)
  show ?case
  proof (cases "n < 10")
    case True
    then show ?thesis using "1.prems" by (subst digits.simps) simp
  next
    case False
    then obtain j where k: "k = Suc j" "0 < j" using "1.prems" by (cases k; cases "k - 1") auto
    have "n div 10 < 10 ^ j" using "1.prems"(1) by (simp add: k(1) less_mult_imp_div_less mult.commute)
    with "1.IH" [OF False this k(2)] False show ?thesis by (subst digits.simps) (simp add: k(1))
  qed
qed

lemma length_dec_le: "n < 2 ^ 32 \<Longrightarrow> length (dec n) \<le> 10"
  using length_digits_le [of n 10] by (simp add: dec_digits)

lemma dump_loop_exact:
  "length buf + 3 * length bs < HEX_BUF \<Longrightarrow>
    dump_loop bs (length buf) buf =
      Some (length buf + 3 * length bs, buf @ concat (map (\<lambda>b. 32 # hex2 b) bs))"
proof (induction bs arbitrary: buf)
  case (Cons b bs)
  have "snprintk_at (length buf) (32 # hex2 b) buf = Some (buf @ 32 # hex2 b)"
    using Cons.prems by (simp add: snprintk_at_def hex2_def)
  moreover have l: "length (buf @ 32 # hex2 b) = length buf + 3" by (simp add: hex2_def)
  moreover have "length (buf @ 32 # hex2 b) + 3 * length bs < HEX_BUF" unfolding l using Cons.prems by simp
  note Cons.IH [OF this, unfolded l]
  ultimately show ?case by simp
qed simp

text \<open>The radar dump neither overflows nor truncates its buffer.  For a block of at least five bytes the
  line is the block's length, then its first 64 bytes in hexadecimal, then dots exactly when there
  were more; it fits the 256 bytes of the buffer with its terminator.\<close>

theorem radar_line_exact:
  assumes "5 \<le> length data" "length data < 2 ^ 32"
  shows "\<exists>line. radar_rx_cb data = Line line \<and> length line < 256 \<and>
    line = str ''RADAR['' @ dec (length data) @ str '']:'' @ concat (map (\<lambda>b. 32 # hex2 b) (take 64 data)) @
      (if 64 < length data then str '' ...'' else [])"
proof -
  let ?h = "str ''RADAR['' @ dec (length data) @ str '']:''"
  let ?n = "min (length data) 64"
  let ?d = "concat (map (\<lambda>b. 32 # hex2 b) (take ?n data))"
  have h: "length ?h \<le> 18" using length_dec_le [OF assms(2)] by simp
  have n: "?n \<le> 64" by simp
  have q: "length ?h + 3 * ?n + 5 < HEX_BUF" using h n by linarith
  have t: "take (HEX_BUF - 1) ?h = ?h" by (rule take_all) (use h in linarith)
  have l: "dump_loop (take ?n data) (length ?h) ?h = Some (length ?h + 3 * ?n, ?h @ ?d)"
    using dump_loop_exact [of ?h "take ?n data"] h by simp
  have m: "length data mod 2 ^ 32 = length data" using assms(2) by simp
  have ld: "length ?d = 3 * ?n" by (simp add: length_concat o_def hex2_def sum_list_triv)
  have s: "snprintk_at (length ?h + 3 * ?n) (str '' ...'') (?h @ ?d) = Some (?h @ ?d @ str '' ...'')"
  proof -
    have "length (?h @ ?d) = length ?h + 3 * ?n" using ld by simp
    then have "take (length ?h + 3 * ?n) (?h @ ?d) = ?h @ ?d" by (intro take_all) simp
    then show ?thesis using q unfolding snprintk_at_def by simp
  qed
  have r: "radar_rx_cb data = Line (?h @ ?d @ (if 64 < length data then str '' ...'' else []))"
    using assms(1) unfolding radar_rx_cb_def Let_def m t l option.case prod.case
    by (cases "64 < length data") (simp_all only: s option.case, simp_all)
  show ?thesis
    by (intro exI conjI, rule r) (use h ld q in \<open>auto simp: min_def\<close>)
qed

lemma radar_line_exact_witness:
  "radar_rx_cb [1, 2, 3, 4, 0xAB] = Line (str ''RADAR[5]: 01 02 03 04 AB'')"
proof -
  obtain line where l: "radar_rx_cb [1, 2, 3, 4, 0xAB] = Line line"
      "line = str ''RADAR['' @ dec (length [1 :: u8, 2, 3, 4, 0xAB]) @ str '']:'' @
        concat (map (\<lambda>b. 32 # hex2 b) (take 64 [1, 2, 3, 4, 0xAB])) @ (if 64 < length [1 :: u8, 2, 3, 4, 0xAB] then str '' ...'' else [])"
    using radar_line_exact [of "[1, 2, 3, 4, 0xAB]"] by auto
  have "dec (length [1 :: u8, 2, 3, 4, 0xAB]) = str ''5''" by (subst dec.simps) (simp add: dchar_def c8_def)
  then show ?thesis using l by (simp add: hex2_def hexchar_def c8_def)
qed

text \<open>The dump determines the bytes.\<close>

lemma hexchar_digit:
  assumes "d < 16"
  shows "digit_val 16 (hexchar d) = Some (unat d)"
proof -
  have d: "unat d < 16" using assms by (simp add: word_less_nat_alt)
  then have u: "unat (48 + d) = 48 + unat d" "unat (55 + d) = 55 + unat d" by (simp_all add: unat_word_ariths)
  then show ?thesis
    using d by (simp add: hexchar_def digit_val_def word_le_nat_alt word_less_nat_alt Let_def)
qed

lemma hex2_reads:
  "map (digit_val 16) (hex2 b) = [Some (unat b div 16), Some (unat b mod 16)]"
proof -
  have lo: "b AND 0x0F = take_bit 4 b" by (simp add: take_bit_eq_mask mask_numeral)
  have lt: "unat b < 256" using unsigned_less [of b] by simp
  have u: "unat (drop_bit 4 b) = unat b div 16" "unat (take_bit 4 b) = unat b mod 16"
    using lt by (simp_all add: unsigned_drop_bit_eq unsigned_take_bit_eq drop_bit_eq_div [where 'a = nat] take_bit_eq_mod [where 'a = nat])
  have "drop_bit 4 b < 16" "take_bit 4 b < 16" using lt by (simp_all add: word_less_nat_alt u)
  then show ?thesis by (simp add: hex2_def hexchar_digit lo u)
qed

subsection \<open>What the start leaves running\<close>

definition unstarted :: "('v, 'n, 'e, 'f, 'b) board \<Rightarrow> bool" where
  "unstarted b \<longleftrightarrow> \<not> lux_running (bd_lux b) \<and> \<not> at_running (bd_amg b) \<and> \<not> mt_running (bd_mlx b) \<and>
     \<not> rx_inited (bd_rx b) \<and> \<not> rx_active (bd_rx b) \<and> \<not> ra_running (bd_radar b) \<and> \<not> bd_bt b \<and>
     \<not> r_isr_a (a_rot (bd_app b)) \<and> \<not> r_isr_b (a_rot (bd_app b)) \<and> \<not> r_polling (a_rot (bd_app b))"

text \<open>The answers about the two contacts of the encoder up to the first callback, and the second one's.\<close>

definition contacts_answer :: "rot_answers \<Rightarrow> bool" where
  "contacts_answer g \<longleftrightarrow> ra_ready g \<and> ra_conf_a g = 0 \<and> ra_conf_b g = 0 \<and> ra_int_a g = 0 \<and> ra_int_b g = 0 \<and> ra_add_a g = 0"

definition button_answers :: "rot_answers \<Rightarrow> bool" where
  "button_answers g \<longleftrightarrow> ra_sw_ready g \<and> ra_conf_sw g = 0"

definition receiver_answers :: "rx_hw \<Rightarrow> bool" where
  "receiver_answers hw \<longleftrightarrow> rx_hw.gpio_ready hw \<and> configure_rc hw = 0 \<and> add_callback_rc hw = 0 \<and> interrupt_rc hw = 0"

definition uart_answers :: "boot_answers \<Rightarrow> bool" where
  "uart_answers an \<longleftrightarrow> an_uart an \<and> an_uart_cb an = 0 \<and> an_uart_en an = 0"

lemma start_sensors_sel:
  assumes "unstarted b"
  shows "lux_running (bd_lux (start_sensors en th an b)) \<longleftrightarrow> en \<and> an_lux_thread an"
    "at_running (bd_amg (start_sensors en th an b)) \<longleftrightarrow> en \<and> th = THERMAL_AMG8833 \<and> an_thermal_thread an"
    "mt_running (bd_mlx (start_sensors en th an b)) \<longleftrightarrow> en \<and> th = THERMAL_MLX90640 \<and> an_thermal_thread an"
    "bd_rx (start_sensors en th an b) = bd_rx b" "bd_radar (start_sensors en th an b) = bd_radar b"
    "bd_app (start_sensors en th an b) = bd_app b"
  using assms by (auto simp: start_sensors_def unstarted_def lux_task_start_def amg_task_start_def mlx_task_start_def
      Let_def split: thermal.split)

lemma start_inputs_sel:
  "bd_lux (start_inputs an b) = bd_lux b" "bd_amg (start_inputs an b) = bd_amg b" "bd_mlx (start_inputs an b) = bd_mlx b"
  "bd_radar (start_inputs an b) = bd_radar b"
  "\<not> rx_inited (bd_rx b) \<Longrightarrow> \<not> rx_active (bd_rx b) \<Longrightarrow>
     ir_rx_is_active (bd_rx (start_inputs an b)) \<longleftrightarrow> receiver_answers (an_rx an)"
  "\<not> rx_inited (bd_rx b) \<Longrightarrow> rx_cb (bd_rx (start_inputs an b))"
  by (auto simp: start_inputs_def receiver_answers_def ir_rx_init_def ir_rx_start_def ir_rx_set_callback_def
      ir_rx_is_active_def Let_def split: prod.splits if_splits)

lemma start_rotary_sel:
  assumes "unstarted b"
  shows "r_isr_a (a_rot (bd_app (start_inputs an b))) \<longleftrightarrow> contacts_answer (an_rotary an)"
    "r_isr_b (a_rot (bd_app (start_inputs an b))) \<longleftrightarrow> contacts_answer (an_rotary an) \<and> ra_add_b (an_rotary an) = 0"
    "r_polling (a_rot (bd_app (start_inputs an b))) \<longleftrightarrow>
       contacts_answer (an_rotary an) \<and> ra_add_b (an_rotary an) = 0 \<and> button_answers (an_rotary an)"
proof -
  have "bd_app (start_inputs an b) = (bd_app b)\<lparr>a_rot := snd (rotary_enc_init (an_rotary an) (a_rot (bd_app b)))\<rparr>"
    by (simp add: start_inputs_def Let_def split: prod.split)
  moreover have "\<not> r_isr_a (a_rot (bd_app b))" "\<not> r_isr_b (a_rot (bd_app b))" "\<not> r_polling (a_rot (bd_app b))"
    using assms by (simp_all add: unstarted_def)
  ultimately show "r_isr_a (a_rot (bd_app (start_inputs an b))) \<longleftrightarrow> contacts_answer (an_rotary an)"
    "r_isr_b (a_rot (bd_app (start_inputs an b))) \<longleftrightarrow> contacts_answer (an_rotary an) \<and> ra_add_b (an_rotary an) = 0"
    "r_polling (a_rot (bd_app (start_inputs an b))) \<longleftrightarrow>
       contacts_answer (an_rotary an) \<and> ra_add_b (an_rotary an) = 0 \<and> button_answers (an_rotary an)"
    by (simp_all add: rotary_enc_init_def rotary_init_sw_def contacts_answer_def button_answers_def Let_def)
qed

lemma start_radar_sel:
  "bd_lux (start_radar an b) = bd_lux b" "bd_amg (start_radar an b) = bd_amg b" "bd_mlx (start_radar an b) = bd_mlx b"
  "bd_rx (start_radar an b) = bd_rx b" "bd_app (start_radar an b) = bd_app b"
  "\<not> ra_running (bd_radar b) \<Longrightarrow> app_radar_is_running (bd_radar (start_radar an b)) \<longleftrightarrow> uart_answers an"
  "uart_answers an \<Longrightarrow> ra_calls (bd_radar (start_radar an b)) =
     ra_calls (bd_radar b) @ [Callback_set, Rx_enable 0, Uart_tx (str ''START'' @ [13, 10])]"
  by (auto simp: start_radar_def uart_answers_def app_radar_start_def app_radar_send_def app_radar_is_running_def
      log_call_def Let_def split: prod.splits if_splits)


definition demo_answers :: boot_answers where
  "demo_answers = \<lparr>an_led_ready = True, an_led_rc = 0, an_lux_thread = False, an_thermal_thread = True,
     an_rotary = \<lparr>ra_ready = True, ra_conf_a = 0, ra_conf_b = 0, ra_level_a = 0, ra_level_b = 0, ra_int_a = 0,
       ra_int_b = 0, ra_add_a = 0, ra_add_b = 0, ra_sw_ready = False, ra_conf_sw = 0\<rparr>,
     an_rx = demo_hw, an_now = 0, an_uart = True, an_uart_cb = 0, an_uart_en = 0, an_uart_tx = 0, an_bt = - 5\<rparr>"

definition demo_board :: "(nat \<Rightarrow> u8 list option, u8 list, u8 list, rat, unit) board" where
  "demo_board = \<lparr>bd_app = demo_app, bd_lux = demo_lux\<lparr>lux_running := False\<rparr>, bd_amg = demo_amg\<lparr>at_running := False\<rparr>,
     bd_mlx = \<lparr>mt_dev = mlx_zero exact_fp, mt_running = False, mt_has_frame = False, mt_last = mt_last demo_mlx_task,
       mt_cb = False, mt_given = [], mt_period = 0, mt_addr = 0, mt_rr = 0, mt_tid = False, mt_count = 0, mt_next = 0,
       mt_bus = \<lparr>i2c_selected = False, wires = ()\<rparr>\<rparr>, bd_rx = ir_rx_zero, bd_frames = ir_app_boot,
     bd_radar = radar_boot, bd_bt = False, bd_adv = 0\<rparr>"


end
