(* ===== verification/Audio.thy ===== *)
theory Audio
  imports I2c
begin

text \<open>
  The audio codec: the register driver \<open>app/audio/es8388.c\<close> and the player
  \<open>app/audio/audio_player.c\<close>, which sets the codec up from a work item and then only mutes it and
  sets its volume.  Times are left out.
\<close>

abbreviation (input) ES8388_DACCONTROL3 :: u8 where "ES8388_DACCONTROL3 \<equiv> 0x19"
abbreviation (input) ES8388_LOUT1VOL :: u8 where "ES8388_LOUT1VOL \<equiv> 0x2E"
abbreviation (input) ES8388_ROUT1VOL :: u8 where "ES8388_ROUT1VOL \<equiv> 0x2F"
abbreviation (input) ENOTSUP :: int where "ENOTSUP \<equiv> 134"

subsection \<open>Codec driver\<close>

definition es8388_write_reg :: "'b i2c_api \<Rightarrow> u8 \<Rightarrow> u8 \<Rightarrow> u8 \<Rightarrow> 'b i2c \<Rightarrow> int \<times> 'b i2c" where
  "es8388_write_reg I a reg v s = i2c_bus_write I a [reg, v] s"

definition es8388_read_reg :: "'b i2c_api \<Rightarrow> u8 \<Rightarrow> u8 \<Rightarrow> 'b i2c \<Rightarrow> int \<times> u8 list \<times> 'b i2c" where
  "es8388_read_reg I a reg s = i2c_bus_write_read I a [reg] 1 s"

text \<open>The sequence of \<open>WR\<close> lines of the initialisation; each stops it on an error.\<close>

definition es8388_table :: "u8 \<Rightarrow> (u8 \<times> u8) list" where
  "es8388_table out_vol =
     [(0x00, 0x80), (0x00, 0x06), (0x01, 0x1C), (0x02, 0x00), (0x03, 0xFF), (0x08, 0x00), (0x17, 0x18), (0x18, 0x02),
      (0x1A, 0x00), (0x1B, 0x00), (0x26, 0x00), (0x27, 0x90), (0x2A, 0x90), (0x2B, 0xA0),
      (ES8388_LOUT1VOL, out_vol), (ES8388_ROUT1VOL, out_vol), (0x04, 0x3C), (ES8388_DACCONTROL3, 0x00)]"

fun es8388_writes :: "'b i2c_api \<Rightarrow> u8 \<Rightarrow> (u8 \<times> u8) list \<Rightarrow> 'b i2c \<Rightarrow> int \<times> 'b i2c" where
  "es8388_writes I a [] s = (0, s)"
| "es8388_writes I a ((reg, v) # ws) s = (case es8388_write_reg I a reg v s of (rc, s) \<Rightarrow>
     if rc \<noteq> 0 then (rc, s) else es8388_writes I a ws s)"

text \<open>The driver keeps the address it is given; it answers it with the code.\<close>

definition es8388_init :: "'b i2c_api \<Rightarrow> u8 \<Rightarrow> u8 \<Rightarrow> u8 \<Rightarrow> 'b i2c \<Rightarrow> int \<times> u8 \<times> 'b i2c" where
  "es8388_init I i2c_addr out_vol addr s =
     (if i2c_bus_init I \<noteq> 0 then (i2c_bus_init I, addr, s)
      else case es8388_writes I i2c_addr (es8388_table out_vol) s of (rc, s) \<Rightarrow> (rc, i2c_addr, s))"

definition es8388_set_volume :: "'b i2c_api \<Rightarrow> u8 \<Rightarrow> u8 \<Rightarrow> 'b i2c \<Rightarrow> int \<times> 'b i2c" where
  "es8388_set_volume I a vol s = (case es8388_write_reg I a ES8388_LOUT1VOL vol s of (rc, s) \<Rightarrow>
     if rc = 0 then es8388_write_reg I a ES8388_ROUT1VOL vol s else (rc, s))"

definition es8388_set_mute :: "'b i2c_api \<Rightarrow> u8 \<Rightarrow> bool \<Rightarrow> 'b i2c \<Rightarrow> int \<times> 'b i2c" where
  "es8388_set_mute I a mute s = (case es8388_read_reg I a ES8388_DACCONTROL3 s of (rc, d, s) \<Rightarrow>
     if rc \<noteq> 0 then (rc, s)
     else let v = d ! 0; v = (if mute then v OR 0x04 else v AND NOT 0x04)
          in es8388_write_reg I a ES8388_DACCONTROL3 v s)"

subsection \<open>Player\<close>

datatype audio_state = AUDIO_IDLE | AUDIO_READY | AUDIO_CONNECTED | AUDIO_PLAYING | AUDIO_PAUSED | AUDIO_ERROR

record 'b audio =
  es_addr :: u8
  au_state :: audio_state
  au_cb :: bool
  au_told :: "audio_state list"
  au_inited :: bool
  au_vol :: u8
  au_work :: bool
  au_bus :: "'b i2c"

definition set_audio_state :: "audio_state \<Rightarrow> 'b audio \<Rightarrow> 'b audio" where
  "set_audio_state st p = (let p = p\<lparr>au_state := st\<rparr> in if au_cb p then p\<lparr>au_told := au_told p @ [st]\<rparr> else p)"

definition es8388_init_work_fn :: "'b i2c_api \<Rightarrow> 'b audio \<Rightarrow> 'b audio" where
  "es8388_init_work_fn I p =
     (case es8388_init I 0x10 (au_vol p) (es_addr p) (au_bus p) of (rc, a, s) \<Rightarrow>
        let p = p\<lparr>es_addr := a, au_bus := s, au_work := False\<rparr> in
        if rc = 0 then set_audio_state AUDIO_READY (p\<lparr>au_inited := True\<rparr>) else set_audio_state AUDIO_ERROR p)"

definition audio_player_init :: "(bool \<times> u8) option \<Rightarrow> 'b audio \<Rightarrow> int \<times> 'b audio" where
  "audio_player_init cfg p = (case cfg of None \<Rightarrow> (- EINVAL, p)
     | Some (cb, vol) \<Rightarrow> (0, p\<lparr>au_cb := cb, au_vol := vol, au_inited := False, au_work := True\<rparr>))"

definition audio_player_start :: int where "audio_player_start = 0"

definition audio_player_pause :: "'b i2c_api \<Rightarrow> 'b audio \<Rightarrow> int \<times> 'b audio" where
  "audio_player_pause I p = (if \<not> au_inited p then (- EAGAIN, p)
     else case es8388_set_mute I (es_addr p) True (au_bus p) of (_, s) \<Rightarrow>
       (0, set_audio_state AUDIO_PAUSED (p\<lparr>au_bus := s\<rparr>)))"

definition audio_player_resume :: "'b i2c_api \<Rightarrow> 'b audio \<Rightarrow> int \<times> 'b audio" where
  "audio_player_resume I p = (if \<not> au_inited p then (- EAGAIN, p)
     else case es8388_set_mute I (es_addr p) False (au_bus p) of (_, s) \<Rightarrow>
       (0, set_audio_state AUDIO_PLAYING (p\<lparr>au_bus := s\<rparr>)))"

definition audio_player_set_volume :: "'b i2c_api \<Rightarrow> u8 \<Rightarrow> 'b audio \<Rightarrow> int \<times> 'b audio" where
  "audio_player_set_volume I vol p = (if \<not> au_inited p then (- EAGAIN, p)
     else let p = p\<lparr>au_vol := vol\<rparr> in
       case es8388_set_volume I (es_addr p) vol (au_bus p) of (rc, s) \<Rightarrow> (rc, p\<lparr>au_bus := s\<rparr>))"

definition audio_player_write_pcm :: int where "audio_player_write_pcm = - ENOTSUP"

definition audio_player_get_state :: "'b audio \<Rightarrow> audio_state" where
  "audio_player_get_state p = au_state p"

subsection \<open>The codec as a register file\<close>

text \<open>What the data sheet promises of a codec that answers at address \<open>a\<close>: a two-byte write sets a
  register, a write of the index followed by a read answers it, and latching the bus changes
  nothing.\<close>

definition codec_works :: "'b i2c_api \<Rightarrow> u8 \<Rightarrow> ('b \<Rightarrow> u8 \<Rightarrow> u8) \<Rightarrow> bool" where
  "codec_works I a regs \<longleftrightarrow> i2c_ready I \<and> (\<forall>b. regs (pselid_latch I b) = regs b) \<and>
     (\<forall>b r v. \<exists>b'. drv_write I a [r, v] b = (0, b') \<and> regs b' = (regs b)(r := v)) \<and>
     (\<forall>b r. \<exists>b'. drv_write_read I a [r] 1 b = (0, [regs b r], b') \<and> regs b' = regs b)"

lemma select_once_regs: "codec_works I a regs \<Longrightarrow> regs (wires (i2c_bus_select_once I s)) = regs (wires s)"
  by (simp add: codec_works_def i2c_bus_select_once_def i2c_bus_flexcomm_latch_def)

lemma write_reg_works:
  assumes "codec_works I a regs"
  obtains s' where "es8388_write_reg I a r v s = (0, s')" "regs (wires s') = (regs (wires s))(r := v)"
proof -
  obtain b' where "drv_write I a [r, v] (wires (i2c_bus_select_once I s)) = (0, b')"
      "regs b' = (regs (wires (i2c_bus_select_once I s)))(r := v)"
    using assms unfolding codec_works_def by blast
  then show thesis
    by (intro that [of "i2c_bus_select_once I s\<lparr>wires := b'\<rparr>"]) (simp_all add: es8388_write_reg_def i2c_bus_write_def i2c_bus_recover_on_err_def Let_def
        select_once_regs [OF assms])
qed

lemma read_reg_works:
  assumes "codec_works I a regs"
  obtains s' where "es8388_read_reg I a r s = (0, [regs (wires s) r], s')" "regs (wires s') = regs (wires s)"
proof -
  obtain b' where "drv_write_read I a [r] 1 (wires (i2c_bus_select_once I s)) =
        (0, [regs (wires (i2c_bus_select_once I s)) r], b')"
      "regs b' = regs (wires (i2c_bus_select_once I s))"
    using assms unfolding codec_works_def by blast
  then show thesis
    by (intro that [of "i2c_bus_select_once I s\<lparr>wires := b'\<rparr>"]) (simp_all add: es8388_read_reg_def i2c_bus_write_read_def i2c_bus_recover_on_err_def Let_def
        select_once_regs [OF assms])
qed

text \<open>The registers after a sequence of writes.\<close>

definition written :: "(u8 \<times> u8) list \<Rightarrow> (u8 \<Rightarrow> u8) \<Rightarrow> u8 \<Rightarrow> u8" where
  "written ws f = fold (\<lambda>(r, v) f. f(r := v)) ws f"

lemma written_simps [simp]: "written [] f = f" "written ((r, v) # ws) f = written ws (f(r := v))"
  by (simp_all add: written_def)

lemma writes_works:
  assumes "codec_works I a regs"
  shows "\<exists>s'. es8388_writes I a ws s = (0, s') \<and> regs (wires s') = written ws (regs (wires s))"
proof (induction ws arbitrary: s)
  case (Cons w ws)
  obtain r v where w: "w = (r, v)" by force
  obtain s1 where "es8388_write_reg I a r v s = (0, s1)" "regs (wires s1) = (regs (wires s))(r := v)"
    by (rule write_reg_works [OF assms])
  then show ?case using Cons.IH [of s1] by (auto simp del: fun_upd_apply simp: w)
qed simp

lemma set_mute_works:
  assumes "codec_works I a regs"
  shows "\<exists>s'. es8388_set_mute I a m s = (0, s') \<and> regs (wires s') =
    (let v = regs (wires s) ES8388_DACCONTROL3 in (regs (wires s))(ES8388_DACCONTROL3 := if m then v OR 4 else v AND NOT 4))"
proof -
  obtain s1 where r: "es8388_read_reg I a ES8388_DACCONTROL3 s = (0, [regs (wires s) ES8388_DACCONTROL3], s1)"
      "regs (wires s1) = regs (wires s)"
    by (rule read_reg_works [OF assms])
  obtain s2 where "es8388_write_reg I a ES8388_DACCONTROL3
        (let v = regs (wires s) ES8388_DACCONTROL3 in if m then v OR 4 else v AND NOT 4) s1 = (0, s2)"
      "regs (wires s2) = (regs (wires s1))(ES8388_DACCONTROL3 :=
        (let v = regs (wires s) ES8388_DACCONTROL3 in if m then v OR 4 else v AND NOT 4))"
    by (rule write_reg_works [OF assms])
  then show ?thesis using r by (cases m) (simp_all add: es8388_set_mute_def Let_def)
qed

lemma player_steps:
  fixes p :: "'b audio" and vol :: u8
  assumes works: "codec_works I 0x10 regs"
  defines "p1 \<equiv> es8388_init_work_fn I p"
  defines "p2 \<equiv> snd (audio_player_pause I p1)"
  defines "p3 \<equiv> snd (audio_player_resume I p2)"
  defines "p4 \<equiv> snd (audio_player_set_volume I vol p3)"
  defines "R \<equiv> \<lambda>p. regs (wires (au_bus p))"
  shows "au_state p1 = AUDIO_READY \<and> R p1 = written (es8388_table (au_vol p)) (R p) \<and>
    au_state p2 = AUDIO_PAUSED \<and> R p2 = (R p1)(ES8388_DACCONTROL3 := 4) \<and>
    au_state p3 = AUDIO_PLAYING \<and> R p3 = R p1 \<and>
    R p4 = (R p3)(ES8388_LOUT1VOL := vol, ES8388_ROUT1VOL := vol) \<and> au_vol p4 = vol"
proof -
  have ready: "i2c_bus_init I = 0" using works by (simp add: codec_works_def i2c_bus_init_def)
  obtain s1 where i: "es8388_writes I 0x10 (es8388_table (au_vol p)) (au_bus p) = (0, s1)"
      "regs (wires s1) = written (es8388_table (au_vol p)) (R p)"
    using writes_works [OF works] unfolding R_def by blast
  have p1: "au_inited p1" "es_addr p1 = 0x10" "au_bus p1 = s1" "au_state p1 = AUDIO_READY"
    by (simp_all add: p1_def es8388_init_work_fn_def es8388_init_def ready i(1) set_audio_state_def Let_def)
  have unmuted: "R p1 ES8388_DACCONTROL3 = 0" unfolding R_def p1 i(2) by (simp add: written_def es8388_table_def)
  obtain s2 where m: "es8388_set_mute I 0x10 True s1 = (0, s2)" "regs (wires s2) = (R p1)(ES8388_DACCONTROL3 := 4)"
    using set_mute_works [OF works, of True s1] unmuted by (auto simp: R_def p1)
  have p2: "au_inited p2" "es_addr p2 = 0x10" "au_bus p2 = s2" "au_state p2 = AUDIO_PAUSED"
    by (simp_all add: p2_def audio_player_pause_def p1 m(1) set_audio_state_def Let_def)
  obtain s3 where u: "es8388_set_mute I 0x10 False s2 = (0, s3)" "regs (wires s3) = (R p1)(ES8388_DACCONTROL3 := 0)"
    using set_mute_works [OF works, of False s2] m(2) by auto
  have p3: "au_inited p3" "es_addr p3 = 0x10" "au_bus p3 = s3" "au_state p3 = AUDIO_PLAYING"
    by (simp_all add: p3_def audio_player_resume_def p2 u(1) set_audio_state_def Let_def)
  obtain s4 where l: "es8388_write_reg I 0x10 ES8388_LOUT1VOL vol s3 = (0, s4)"
      "regs (wires s4) = (regs (wires s3))(ES8388_LOUT1VOL := vol)"
    by (rule write_reg_works [OF works])
  obtain s5 where r: "es8388_write_reg I 0x10 ES8388_ROUT1VOL vol s4 = (0, s5)"
      "regs (wires s5) = (regs (wires s4))(ES8388_ROUT1VOL := vol)"
    by (rule write_reg_works [OF works])
  have p4: "au_bus p4 = s5" "au_vol p4 = vol"
    by (simp_all add: p4_def audio_player_set_volume_def es8388_set_volume_def p3 l(1) r(1))
  have "R p3 = R p1" using u(2) unmuted by (auto simp: R_def p3)
  then show ?thesis
    using i(2) m(2) l(2) r(2) p1 p2 p3 p4 by (simp add: R_def)
qed

text \<open>On a codec that works, the work item leaves every register of the table with the last value
  written to it and the player ready; a pause then sets exactly the mute bit, the following
  resume brings back the registers as they were, and a volume reaches both channels.\<close>

theorem player_controls_codec:
  assumes "codec_works I 0x10 regs"
  shows "let p1 = es8388_init_work_fn I p; p2 = snd (audio_player_pause I p1);
      p3 = snd (audio_player_resume I p2); p4 = snd (audio_player_set_volume I vol p3);
      R = (\<lambda>p. regs (wires (au_bus p))) in
    au_state p1 = AUDIO_READY \<and> R p1 = written (es8388_table (au_vol p)) (R p) \<and>
    au_state p2 = AUDIO_PAUSED \<and> R p2 = (R p1)(ES8388_DACCONTROL3 := 4) \<and>
    au_state p3 = AUDIO_PLAYING \<and> R p3 = R p1 \<and>
    R p4 = (R p3)(ES8388_LOUT1VOL := vol, ES8388_ROUT1VOL := vol) \<and> au_vol p4 = vol"
  unfolding Let_def by (rule player_steps [OF assms])

definition demo_codec :: "(u8 \<Rightarrow> u8) i2c_api" where
  "demo_codec = \<lparr>i2c_ready = True, drv_write = \<lambda>a d f. (0, f(d ! 0 := d ! 1)), drv_read = \<lambda>a n f. (0, replicate n 0, f),
     drv_write_read = \<lambda>a t n f. (0, [f (t ! 0)], f), drv_probe = \<lambda>a f. (0, f), pselid_latch = \<lambda>f. f\<rparr>"

definition demo_audio :: "(u8 \<Rightarrow> u8) audio" where
  "demo_audio = \<lparr>es_addr = 0, au_state = AUDIO_IDLE, au_cb = False, au_told = [], au_inited = False, au_vol = 0x10,
     au_work = True, au_bus = \<lparr>i2c_selected = False, wires = \<lambda>r. 0xFF\<rparr>\<rparr>"

lemma player_controls_codec_witness:
  "wires (au_bus (snd (audio_player_pause demo_codec (es8388_init_work_fn demo_codec demo_audio)))) 0x19 = 4"
  using player_controls_codec [of demo_codec "\<lambda>f. f" demo_audio 0]
  by (simp add: codec_works_def demo_codec_def Let_def)

end
