(* ===== verification/Bus.thy ===== *)
theory Bus
  imports Lux Amg MlxTask Audio
begin

text \<open>
  The users of the I2C bus together.  A user's operation is the start or a whole turn of its task, or an
  operation of the audio player; a step of the bus is one of these or a single transfer by anyone.
  The lock makes a transfer atomic and tasks interleave between transfers, so the single transfers
  cover every interleaving; the other steps say that the modelled tasks use the bus in no other
  way.  What a user owes the bus is the locale \<open>bus_user\<close>, interpreted for each of the four.
\<close>

inductive lux_act :: "'b i2c_api \<Rightarrow> 'b lux \<Rightarrow> 'b lux \<Rightarrow> bool" for I where
  lux_begin: "lux_act I l (lux_task_begin I now l)"
| lux_turn: "lux_turn I stamp now l = Some l' \<Longrightarrow> lux_act I l l'"

inductive amg_act :: "'b i2c_api \<Rightarrow> 'b amg_task \<Rightarrow> 'b amg_task \<Rightarrow> bool" for I where
  amg_begin: "amg_act I t (snd (amg_task_begin I now t))"
| amg_turn: "amg_turn I stamp now t = Some t' \<Longrightarrow> amg_act I t t'"

inductive mlx_act :: "'b i2c_api \<Rightarrow> 'f fp \<Rightarrow> ('f, 'd) dp \<Rightarrow> ('f, 'b) mlx_task \<Rightarrow> ('f, 'b) mlx_task \<Rightarrow> bool" for I F D where
  mlx_begin: "mlx_task_begin F I now t = Some (go, t') \<Longrightarrow> mlx_act I F D t t'"
| mlx_turn: "mlx_turn F D I go1 go2 stamp now t = Some t' \<Longrightarrow> mlx_act I F D t t'"

inductive audio_act :: "'b i2c_api \<Rightarrow> 'b audio \<Rightarrow> 'b audio \<Rightarrow> bool" for I where
  audio_init: "audio_act I p (es8388_init_work_fn I p)"
| audio_pause: "audio_act I p (snd (audio_player_pause I p))"
| audio_resume: "audio_act I p (snd (audio_player_resume I p))"
| audio_volume: "audio_act I p (snd (audio_player_set_volume I vol p))"

inductive bus_step :: "'b i2c_api \<Rightarrow> 'f fp \<Rightarrow> ('f, 'd) dp \<Rightarrow> 'b i2c \<Rightarrow> 'b i2c \<Rightarrow> bool" for I F D where
  by_lux: "rtranclp (lux_act I) l l' \<Longrightarrow> bus_step I F D (lux_bus l) (lux_bus l')"
| by_amg: "rtranclp (amg_act I) t t' \<Longrightarrow> bus_step I F D (at_bus t) (at_bus t')"
| by_mlx: "rtranclp (mlx_act I F D) m m' \<Longrightarrow> bus_step I F D (mt_bus m) (mt_bus m')"
| by_audio: "rtranclp (audio_act I) p p' \<Longrightarrow> bus_step I F D (au_bus p) (au_bus p')"
| one_write: "bus_step I F D s (snd (i2c_bus_write I a d s))"
| one_read: "bus_step I F D s (snd (snd (i2c_bus_read I a n s)))"
| one_write_read: "bus_step I F D s (snd (snd (i2c_bus_write_read I a d n s)))"
| one_probe: "bus_step I F D s (snd (i2c_bus_probe I a s))"

text \<open>What a user of the bus owes: an operation touches the bus by accesses alone.  Then so does any run
  of it.\<close>

locale bus_user =
  fixes I :: "'b i2c_api" and bus_of :: "'s \<Rightarrow> 'b i2c" and act :: "'s \<Rightarrow> 's \<Rightarrow> bool"
  assumes accesses: "act s s' \<Longrightarrow> uses I (bus_of s) (bus_of s')"
begin

lemma run_uses: "rtranclp act s s' \<Longrightarrow> uses I (bus_of s) (bus_of s')"
  by (induction rule: rtranclp_induct) (auto intro: uses_trans accesses)

end

subsection \<open>Every operation is a run of accesses\<close>

lemma lux_driver_uses:
  shows "uses I s0 s \<Longrightarrow> bh1750_write_op I op d s = (rc, s') \<Longrightarrow> uses I s0 s'"
    "uses I s0 s \<Longrightarrow> bh1750_set_mode I m d s = (rc, d', s') \<Longrightarrow> uses I s0 s'"
    "uses I s0 s \<Longrightarrow> bh1750_read_lux_x100 I d s = (r, d', s') \<Longrightarrow> uses I s0 s'"
proof -
  have w: "uses I s0 s \<Longrightarrow> bh1750_write_op I op d s = (rc, s') \<Longrightarrow> uses I s0 s'" for op d s rc s'
    by (auto simp: bh1750_write_op_def nxp_i2c_write_def split: if_splits prod.splits intro: bus_rules(1))
  have r: "uses I s0 s \<Longrightarrow> nxp_i2c_read I a n s = (rc, e, s') \<Longrightarrow> uses I s0 s'" for a n s rc e s'
    by (auto simp: nxp_i2c_read_def split: if_splits prod.splits intro: bus_rules(2))
  show "uses I s0 s \<Longrightarrow> bh1750_write_op I op d s = (rc, s') \<Longrightarrow> uses I s0 s'" by (rule w)
  show "uses I s0 s \<Longrightarrow> bh1750_set_mode I m d s = (rc, d', s') \<Longrightarrow> uses I s0 s'"
    by (auto simp: bh1750_set_mode_def bh1750_power_on_def split: if_splits prod.splits intro: w)
  show "uses I s0 s \<Longrightarrow> bh1750_read_lux_x100 I d s = (r, d', s') \<Longrightarrow> uses I s0 s'"
    by (auto simp: bh1750_read_lux_x100_def bh1750_read_raw_def split: if_splits prod.splits intro: w r)
qed

lemma lux_uses:
  shows "uses I s0 (lux_bus l) \<Longrightarrow> uses I s0 (lux_bus (lux_task_begin I now l))"
    "uses I s0 (lux_bus l) \<Longrightarrow> lux_turn I stamp now l = Some l' \<Longrightarrow> uses I s0 (lux_bus l')"
proof -
  have st: "uses I s0 (lux_bus l) \<Longrightarrow> lux_start_s1 I l = (rc, l') \<Longrightarrow> uses I s0 (lux_bus l')"
      "uses I s0 (lux_bus l) \<Longrightarrow> lux_start_s2 I l = (rc, l') \<Longrightarrow> uses I s0 (lux_bus l')" for l rc l'
    by (auto simp: lux_start_s1_def lux_start_s2_def split: prod.splits intro: lux_driver_uses(2))
  have i: "uses I s0 (lux_bus l) \<Longrightarrow> lux_hw_init I l = (rc, l') \<Longrightarrow> uses I s0 (lux_bus l')" for l rc l'
  proof -
    assume ok: "uses I s0 (lux_bus l)" and h: "lux_hw_init I l = (rc, l')"
    obtain p1 s1 where 1: "i2c_bus_probe I BH_HIGH (lux_bus l) = (p1, s1)" by force
    obtain p2 s2 where 2: "i2c_bus_probe I BH_LOW s1 = (p2, s2)" by force
    have e: "uses I s0 s2" using bus_rules(4) [OF ok 1] bus_rules(4) [OF _ 2] by blast
    let ?l = "l\<lparr>lux_bus := s2, lux_watchdog := False, lux_s1 := snd (bh1750_init True BH_LOW (lux_s1 l)),
      lux_s2 := snd (bh1750_init True BH_HIGH (lux_s2 l))\<rparr>"
    obtain r3 l3 where 3: "lux_start_s1 I ?l = (r3, l3)" by force
    have e3: "uses I s0 (lux_bus l3)" using st(1) [OF _ 3] e by simp
    show ?thesis
      using h ok e e3 st(2) [of ?l] st(2) [OF e3] by (auto simp: lux_hw_init_def 1 2 3 Let_def split: if_splits)
  qed
  show "uses I s0 (lux_bus l) \<Longrightarrow> uses I s0 (lux_bus (lux_task_begin I now l))"
    using i [of "l\<lparr>lux_probing := True\<rparr>"] by (auto simp: lux_task_begin_def split: prod.split)
  show "uses I s0 (lux_bus l) \<Longrightarrow> lux_turn I stamp now l = Some l' \<Longrightarrow> uses I s0 (lux_bus l')"
    by (auto simp: lux_turn_def lux_publish_def Let_def split: if_splits prod.splits intro: lux_driver_uses(3))
qed

lemma amg_driver_uses:
  shows "uses I s0 s \<Longrightarrow> amg8833_init I a d s = (rc, d', s') \<Longrightarrow> uses I s0 s'"
    "uses I s0 s \<Longrightarrow> amg8833_read_frame I d s = (rc, d', s') \<Longrightarrow> uses I s0 s'"
    "uses I s0 s \<Longrightarrow> amg8833_read_thermistor I d s = (rc, d', s') \<Longrightarrow> uses I s0 s'"
proof -
  have w: "uses I s0 s \<Longrightarrow> wr_regs I a ws s = (rc, s') \<Longrightarrow> uses I s0 s'" for ws s rc s'
    by (induction ws arbitrary: s)
       (auto simp: wr_reg_def split: if_splits prod.splits, (blast intro: bus_rules(1))+)
  show "uses I s0 s \<Longrightarrow> amg8833_init I a d s = (rc, d', s') \<Longrightarrow> uses I s0 s'"
    by (auto simp: amg8833_init_def Let_def simp del: wr_regs.simps split: if_splits prod.splits intro: w)
  show "uses I s0 s \<Longrightarrow> amg8833_read_frame I d s = (rc, d', s') \<Longrightarrow> uses I s0 s'"
    by (auto simp: amg8833_read_frame_def split: if_splits prod.splits simp del: upt_rec_numeral intro: bus_rules(3))
  show "uses I s0 s \<Longrightarrow> amg8833_read_thermistor I d s = (rc, d', s') \<Longrightarrow> uses I s0 s'"
    by (auto simp: amg8833_read_thermistor_def split: if_splits prod.splits intro: bus_rules(3))
qed

lemma amg_uses:
  shows "uses I s0 (at_bus t) \<Longrightarrow> uses I s0 (at_bus (snd (amg_task_begin I now t)))"
    "uses I s0 (at_bus t) \<Longrightarrow> amg_turn I stamp now t = Some t' \<Longrightarrow> uses I s0 (at_bus t')"
proof -
  show "uses I s0 (at_bus t) \<Longrightarrow> uses I s0 (at_bus (snd (amg_task_begin I now t)))"
    by (auto simp: amg_task_begin_def Let_def split: if_splits prod.splits
        intro: bus_rules(4) amg_driver_uses(1) [OF bus_rules(4)])
  have s: "uses I s0 (at_bus t) \<Longrightarrow> amg_sample_of I t = (x, t') \<Longrightarrow> uses I s0 (at_bus t')" for x t'
    by (auto simp: amg_sample_of_def Let_def split: if_splits prod.splits
        intro: amg_driver_uses(2,3))
  show "uses I s0 (at_bus t) \<Longrightarrow> amg_turn I stamp now t = Some t' \<Longrightarrow> uses I s0 (at_bus t')"
    using s by (auto simp: amg_turn_def amg_publish_def Let_def split: if_splits prod.splits)
qed

lemma mlx_bus_uses:
  shows "uses I s0 s \<Longrightarrow> mlx_read I a start n s = (rc, ws, s') \<Longrightarrow> uses I s0 s'"
    "uses I s0 s \<Longrightarrow> mlx_write I a r v s = (rc, s') \<Longrightarrow> uses I s0 s'"
    "uses I s0 s \<Longrightarrow> mlx_control I a f s = (rc, s') \<Longrightarrow> uses I s0 s'"
    "uses I s0 s \<Longrightarrow> mlx_wait I a left s = (w, s') \<Longrightarrow> uses I s0 s'"
proof -
  have r: "uses I s0 s \<Longrightarrow> mlx_read I a start n s = (rc, ws, s') \<Longrightarrow> uses I s0 s'" for a start n s rc ws s'
  proof -
    have "uses I s0 s \<Longrightarrow> mlx_read_loop I a start n out s = (rc, ws, s') \<Longrightarrow> uses I s0 s'" for out
    proof (induction "n - length out" arbitrary: out s rule: less_induct)
      case less
      show ?case
      proof (cases "length out < n")
        case True
        let ?k = "min (n - length out) MLX_CHUNK"
        obtain c d s1 where t: "i2c_bus_write_read I a (be_bytes (start + of_nat (length out))) (?k * 2) s = (c, d, s1)"
          by (metis prod_cases3)
        have e: "uses I s0 s1" by (rule bus_rules(3) [OF less.prems(1) t])
        have "n - length (out @ List.map (be_word d) [0..<?k]) < n - length out" using True by simp
        from less.hyps [OF this e] show ?thesis
          using less.prems(2) t e True by (subst (asm) mlx_read_loop.simps) (auto simp: Let_def split: if_splits)
      next
        case False
        then show ?thesis using less.prems by (subst (asm) mlx_read_loop.simps) simp
      qed
    qed
    then show "uses I s0 s \<Longrightarrow> mlx_read I a start n s = (rc, ws, s') \<Longrightarrow> uses I s0 s'"
      by (simp add: mlx_read_def)
  qed
  then show "uses I s0 s \<Longrightarrow> mlx_read I a start n s = (rc, ws, s') \<Longrightarrow> uses I s0 s'" .
  have w: "uses I s0 s \<Longrightarrow> mlx_write I a r v s = (rc, s') \<Longrightarrow> uses I s0 s'" for a r v s rc s'
    by (auto simp: mlx_write_def split: if_splits prod.splits intro: bus_rules(1) r)
  then show "uses I s0 s \<Longrightarrow> mlx_write I a r v s = (rc, s') \<Longrightarrow> uses I s0 s'" .
  show "uses I s0 s \<Longrightarrow> mlx_control I a f s = (rc, s') \<Longrightarrow> uses I s0 s'"
    by (auto simp: mlx_control_def split: if_splits prod.splits intro: w r)
  show "uses I s0 s \<Longrightarrow> mlx_wait I a left s = (w, s') \<Longrightarrow> uses I s0 s'"
  proof (induction left arbitrary: s)
    case 0
    then show ?case by (subst (asm) mlx_wait.simps) (auto split: if_splits prod.splits intro: r)
  next
    case (Suc left)
    obtain c ws s1 where t: "mlx_read I a MLX_STATUS 1 s = (c, ws, s1)" by (metis prod_cases3)
    show ?case
      using Suc.prems t r [OF Suc.prems(1) t] Suc.IH [of s1]
      by (subst (asm) mlx_wait.simps) (auto split: if_splits)
  qed
qed

lemma mlx_driver_uses:
  shows "uses I s0 s \<Longrightarrow> mlx90640_get_frame I a f s = (rc, f', s') \<Longrightarrow> uses I s0 s'"
    "uses I s0 s \<Longrightarrow> mlx90640_init F I a rr m s = Some (rc, m', s') \<Longrightarrow> uses I s0 s'"
proof -
  note b = mlx_bus_uses
  show "uses I s0 s \<Longrightarrow> mlx90640_get_frame I a f s = (rc, f', s') \<Longrightarrow> uses I s0 s'"
  proof -
    assume ok: "uses I s0 s" and g: "mlx90640_get_frame I a f s = (rc, f', s')"
    obtain w s1 where w: "mlx_wait I a 2000 s = (w, s1)" by force
    obtain c2 s2 where v: "mlx_write I a MLX_STATUS 0x0030 s1 = (c2, s2)" by force
    obtain c3 ws s3 where ram: "mlx_read I a MLX_RAM 832 s2 = (c3, ws, s3)" by (metis prod_cases3)
    obtain c4 c s4 where ctl: "mlx_read I a MLX_CONTROL1 1 s3 = (c4, c, s4)" by (metis prod_cases3)
    have e: "uses I s0 s1" "uses I s0 s2" "uses I s0 s3" "uses I s0 s4"
      using b(4) [OF ok w] b(2) [OF _ v] b(1) [OF _ ram] b(1) [OF _ ctl] by blast+
    show ?thesis using g e w v ram ctl
      by (cases w) (simp_all add: mlx90640_get_frame_def Let_def split: if_splits)
  qed
  have i: "uses I s0 s \<Longrightarrow> i2c_bus_probe I a s = (p, s') \<Longrightarrow> uses I s0 s'" for p s s' by (rule bus_rules(4))
  show "uses I s0 s \<Longrightarrow> mlx90640_init F I a rr m s = Some (rc, m', s') \<Longrightarrow> uses I s0 s'"
  proof -
    assume ok: "uses I s0 s" and g: "mlx90640_init F I a rr m s = Some (rc, m', s')"
    obtain p s1 where p: "i2c_bus_probe I a s = (p, s1)" by force
    obtain c2 s2 where r: "mlx90640_set_refresh_rate I a rr s1 = (c2, s2)" by force
    obtain c3 s3 where c: "mlx90640_set_chess_mode I a s2 = (c3, s3)" by force
    obtain c4 ws s4 where d: "mlx_read I a MLX_EE 832 s3 = (c4, ws, s4)" by (metis prod_cases3)
    have e: "uses I s0 s1" "uses I s0 s2" "uses I s0 s3" "uses I s0 s4"
      using i [OF ok p] b(3) [OF _ r [unfolded mlx90640_set_refresh_rate_def]] b(3) [OF _ c [unfolded mlx90640_set_chess_mode_def]]
        b(1) [OF _ d] by blast+
    show ?thesis using g ok e p r c d
      by (auto simp: mlx90640_init_def mlx90640_dump_ee_def Let_def split: if_splits)
  qed
qed

lemma mlx_uses:
  shows "uses I s0 (mt_bus t) \<Longrightarrow> mlx_task_begin F I now t = Some (go, t') \<Longrightarrow> uses I s0 (mt_bus t')"
    "uses I s0 (mt_bus t) \<Longrightarrow> mlx_turn F D I go1 go2 stamp now t = Some t' \<Longrightarrow> uses I s0 (mt_bus t')"
proof -
  show "uses I s0 (mt_bus t) \<Longrightarrow> mlx_task_begin F I now t = Some (go, t') \<Longrightarrow> uses I s0 (mt_bus t')"
    by (auto simp: mlx_task_begin_def Let_def split: if_splits prod.splits
        intro: bus_rules(4) mlx_driver_uses(2) [OF bus_rules(4)])
  have sub: "uses I s0 (mt_bus t) \<Longrightarrow> mlx_subpages F I gos t = (err, t') \<Longrightarrow> uses I s0 (mt_bus t')" for gos t err t'
  proof (induction gos arbitrary: t)
    case (Cons go gos)
    obtain r f s where g: "mlx90640_get_frame I (mlx_addr (mt_dev t)) (frame (mt_dev t)) (mt_bus t) = (r, f, s)" by (metis prod_cases3)
    have e: "uses I s0 s" by (rule mlx_driver_uses(1) [OF Cons.prems(1) g])
    show ?case
      using Cons.prems e Cons.IH [of "t\<lparr>mt_bus := s, mt_dev := x\<rparr>" for x] by (auto simp: g Let_def split: if_splits)
  qed simp
  have pub: "mt_bus (mlx_publish F D err sq stamp t) = mt_bus t" for err sq t by (simp add: mlx_publish_def Let_def)
  show "uses I s0 (mt_bus t) \<Longrightarrow> mlx_turn F D I go1 go2 stamp now t = Some t' \<Longrightarrow> uses I s0 (mt_bus t')"
    by (auto simp: mlx_turn_def Let_def pub simp del: mlx_subpages.simps split: if_splits prod.splits intro: sub)
qed

lemma audio_uses:
  assumes ok: "uses I s0 (au_bus p)"
  shows "uses I s0 (au_bus (es8388_init_work_fn I p))" "uses I s0 (au_bus (snd (audio_player_pause I p)))"
    "uses I s0 (au_bus (snd (audio_player_resume I p)))" "uses I s0 (au_bus (snd (audio_player_set_volume I vol p)))"
proof -
  have w: "uses I s0 s \<Longrightarrow> es8388_write_reg I a r v s = (rc, s') \<Longrightarrow> uses I s0 s'" for a r v s rc s'
    unfolding es8388_write_reg_def by (rule bus_rules(1))
  have ws: "uses I s0 s \<Longrightarrow> es8388_writes I a ws s = (rc, s') \<Longrightarrow> uses I s0 s'" for a ws s rc s'
    by (induction ws arbitrary: s) (auto split: if_splits prod.splits, (blast intro: w)+)
  have m: "uses I s0 s \<Longrightarrow> es8388_set_mute I a mu s = (rc, s') \<Longrightarrow> uses I s0 s'" for a mu s rc s'
    by (auto simp: es8388_set_mute_def es8388_read_reg_def Let_def split: if_splits prod.splits intro: w bus_rules(3))
  have st: "au_bus (set_audio_state x q) = au_bus q" for x q by (simp add: set_audio_state_def Let_def)
  show "uses I s0 (au_bus (es8388_init_work_fn I p))"
    using ok by (auto simp: es8388_init_work_fn_def es8388_init_def st Let_def simp del: es8388_writes.simps split: prod.splits if_splits intro: ws)
  show "uses I s0 (au_bus (snd (audio_player_pause I p)))" "uses I s0 (au_bus (snd (audio_player_resume I p)))"
    using ok by (auto simp: audio_player_pause_def audio_player_resume_def st split: prod.splits intro: m)
  show "uses I s0 (au_bus (snd (audio_player_set_volume I vol p)))"
    using ok by (auto simp: audio_player_set_volume_def es8388_set_volume_def Let_def split: prod.splits if_splits intro: w)
qed

interpretation lux_user: bus_user I lux_bus "lux_act I" for I
  by unfold_locales (erule lux_act.cases, auto intro: lux_uses [OF uses_refl])

interpretation amg_user: bus_user I at_bus "amg_act I" for I
  by unfold_locales (erule amg_act.cases, auto intro: amg_uses [OF uses_refl])

interpretation mlx_user: bus_user I mt_bus "mlx_act I F D" for I F D
  by unfold_locales (erule mlx_act.cases, auto intro: mlx_uses [OF uses_refl])

interpretation audio_user: bus_user I au_bus "audio_act I" for I
  by unfold_locales (erule audio_act.cases, auto intro: audio_uses [OF uses_refl])

lemma one_use:
  "uses I s (snd (i2c_bus_write I a d s))" "uses I s (snd (snd (i2c_bus_read I a n s)))"
  "uses I s (snd (snd (i2c_bus_write_read I a d n s)))" "uses I s (snd (i2c_bus_probe I a s))"
  by (metis bus_rules(1) uses_refl prod.collapse, metis bus_rules(2) uses_refl prod.collapse,
      metis bus_rules(3) uses_refl prod.collapse, metis bus_rules(4) uses_refl prod.collapse)

lemma bus_step_uses: "bus_step I F D s s' \<Longrightarrow> uses I s s'"
  by (erule bus_step.cases)
     (auto intro: lux_user.run_uses amg_user.run_uses mlx_user.run_uses audio_user.run_uses one_use)


text \<open>An engine that a failed transfer kills and that answers nothing when it is dead: the wires hold
  whether it is live, and address 0x23 does not answer.\<close>

definition demo_engine :: "bool i2c_api" where
  "demo_engine = \<lparr>i2c_ready = True, drv_write = \<lambda>a d b. if a = 0x23 \<or> \<not> b then (- EIO, False) else (0, True),
     drv_read = \<lambda>a n b. (if b then 0 else - EIO, replicate n 0, b),
     drv_write_read = \<lambda>a t n b. (if b then 0 else - EIO, replicate n 0, b),
     drv_probe = \<lambda>a b. if a = 0x23 \<or> \<not> b then (- EIO, False) else (0, True), pselid_latch = \<lambda>b. True\<rparr>"


end
