(* ===== verification/BleCentral.thy ===== *)
theory BleCentral
  imports Prelude
begin

text \<open>
  The Bluetooth central \<open>ble/gatt_client/ble_central.c\<close>: scanning for the sensor board, connecting,
  discovering its service in three stages, subscribing, and starting over when the link drops.  The
  Bluetooth host is the kernel's: its callbacks are operations, the calls made to it are logged with the
  answer they got, and an advertisement arrives as the list of its structures (type and bytes), the
  form in which \<open>bt_data_parse\<close> hands it over.  Connection objects and addresses are numbers.
\<close>

abbreviation (input) EALREADY :: int where "EALREADY \<equiv> 120"

datatype central_evt = EVT_SCANNING | EVT_CONNECTED | EVT_SUBSCRIBED | EVT_DISCONNECTED | EVT_ERROR

datatype uuid = UUID_SENSOR_SVC | UUID_SENSOR_DATA | UUID_CCC

datatype disc_type = DISCOVER_PRIMARY | DISCOVER_CHARACTERISTIC | DISCOVER_DESCRIPTOR

text \<open>The discovery parameters; a zeroed structure has no UUID.\<close>

record discover =
  d_uuid :: "uuid option"
  d_start :: u16
  d_end :: u16
  d_type :: disc_type

definition discover_zero :: discover where
  "discover_zero = \<lparr>d_uuid = None, d_start = 0, d_end = 0, d_type = DISCOVER_PRIMARY\<rparr>"

datatype host_call = Scan_start int | Scan_stop | Conn_create nat int | Discover nat discover int
  | Subscribe nat u16 u16 int | Disconnect nat | Unref nat | Cb_register

record central =
  cn_conn :: "nat option"
  cn_disc :: discover
  cn_value_handle :: u16
  cn_ccc_handle :: u16
  cn_evt_cb :: bool
  cn_rx_cb :: bool
  cn_running :: bool
  cn_subscribed :: bool
  cn_calls :: "host_call list"
  cn_evts :: "central_evt list"
  cn_rx :: "u8 list list"

definition central_boot :: central where
  "central_boot = \<lparr>cn_conn = None, cn_disc = discover_zero, cn_value_handle = 0, cn_ccc_handle = 0, cn_evt_cb = False,
     cn_rx_cb = False, cn_running = False, cn_subscribed = False, cn_calls = [], cn_evts = [], cn_rx = []\<rparr>"

definition cn_call :: "host_call \<Rightarrow> central \<Rightarrow> central" where
  "cn_call q c = c\<lparr>cn_calls := cn_calls c @ [q]\<rparr>"

definition cn_emit :: "central_evt \<Rightarrow> central \<Rightarrow> central" where
  "cn_emit e c = (if cn_evt_cb c then c\<lparr>cn_evts := cn_evts c @ [e]\<rparr> else c)"

subsection \<open>Operations and callbacks\<close>

definition start_scan :: "int \<Rightarrow> central \<Rightarrow> int \<times> central" where
  "start_scan rc c = (let c = cn_call (Scan_start rc) c in
     if rc \<noteq> 0 then (rc, cn_emit EVT_ERROR c) else (0, cn_emit EVT_SCANNING c))"

text \<open>None is a removed subscription.\<close>

definition notify_func :: "u8 list option \<Rightarrow> central \<Rightarrow> central" where
  "notify_func data c = (case data of None \<Rightarrow> c\<lparr>cn_subscribed := False\<rparr>
     | Some d \<Rightarrow> if cn_rx_cb c then c\<lparr>cn_rx := cn_rx c @ [d]\<rparr> else c)"

text \<open>A discovered attribute: its handle and, of a characteristic, its value handle.  \<open>drc\<close> and \<open>src\<close> are the
  answers to a further discovery and to the subscription.  None: the parameters hold no UUID and
  the comparison reads a null pointer.\<close>

definition discover_func :: "int \<Rightarrow> int \<Rightarrow> nat \<Rightarrow> (u16 \<times> u16) option \<Rightarrow> central \<Rightarrow> central option" where
  "discover_func drc src conn attr c =
     (case attr of None \<Rightarrow> Some (c\<lparr>cn_disc := discover_zero\<rparr>)
      | Some (handle, value) \<Rightarrow>
        (case d_uuid (cn_disc c) of None \<Rightarrow> None
         | Some UUID_SENSOR_SVC \<Rightarrow>
             let d = (cn_disc c)\<lparr>d_uuid := Some UUID_SENSOR_DATA, d_start := handle + 1, d_type := DISCOVER_CHARACTERISTIC\<rparr>
             in Some (cn_call (Discover conn d drc) (c\<lparr>cn_disc := d\<rparr>))
         | Some UUID_SENSOR_DATA \<Rightarrow>
             let d = (cn_disc c)\<lparr>d_uuid := Some UUID_CCC, d_start := handle + 2, d_type := DISCOVER_DESCRIPTOR\<rparr>
             in Some (cn_call (Discover conn d drc) (c\<lparr>cn_value_handle := value, cn_disc := d\<rparr>))
         | Some UUID_CCC \<Rightarrow>
             let c = c\<lparr>cn_ccc_handle := handle\<rparr>; c = cn_call (Subscribe conn (cn_value_handle c) handle src) c in
             Some (if src \<noteq> 0 \<and> src \<noteq> - EALREADY then cn_emit EVT_ERROR c
                   else cn_emit EVT_SUBSCRIBED (c\<lparr>cn_subscribed := True\<rparr>))))"

definition begin_discovery :: "int \<Rightarrow> nat \<Rightarrow> central \<Rightarrow> central" where
  "begin_discovery drc conn c =
     (let d = \<lparr>d_uuid = Some UUID_SENSOR_SVC, d_start = 0x0001, d_end = 0xFFFF, d_type = DISCOVER_PRIMARY\<rparr>
      in cn_call (Discover conn d drc) (c\<lparr>cn_disc := d\<rparr>))"

text \<open>The service identifier in the order of the air, and its search in an advertised list.\<close>

definition sensor_svc :: "u8 list" where
  "sensor_svc = [0x01, 0, 0, 0, 0, 0, 0, 0x80, 0, 0x40, 0x00, 0xE3, 0x62, 0x75, 0x63, 0x5A]"

fun lists_uuid :: "u8 list \<Rightarrow> nat \<Rightarrow> bool" where
  "lists_uuid data 0 = False"
| "lists_uuid data (Suc n) = (if take 16 data = sensor_svc then True else lists_uuid (drop 16 data) n)"

text \<open>\<open>crc\<close> and \<open>new\<close> are the answer and the object of the connection request, \<open>rc\<close> the answer of a scan.  The
  boolean says whether parsing goes on.\<close>

definition eir_found :: "int \<Rightarrow> nat \<Rightarrow> int \<Rightarrow> nat \<Rightarrow> u8 \<times> u8 list \<Rightarrow> central \<Rightarrow> bool \<times> central" where
  "eir_found crc new rc addr ad c =
     (if fst ad \<noteq> 0x07 \<and> fst ad \<noteq> 0x06 then (True, c)
      else if length (snd ad) mod 16 \<noteq> 0 then (True, c)
      else if \<not> lists_uuid (snd ad) (length (snd ad) div 16) then (True, c)
      else let c = cn_call (Conn_create addr crc) (cn_call Scan_stop c) in
        (False, if crc \<noteq> 0 then snd (start_scan rc c) else c\<lparr>cn_conn := Some new\<rparr>))"

fun parse_adv :: "int \<Rightarrow> nat \<Rightarrow> int \<Rightarrow> nat \<Rightarrow> (u8 \<times> u8 list) list \<Rightarrow> central \<Rightarrow> central" where
  "parse_adv crc new rc addr [] c = c"
| "parse_adv crc new rc addr (ad # ads) c = (case eir_found crc new rc addr ad c of (on, c) \<Rightarrow>
     if on then parse_adv crc new rc addr ads c else c)"

definition scan_cb :: "int \<Rightarrow> nat \<Rightarrow> int \<Rightarrow> nat \<Rightarrow> u8 \<Rightarrow> (u8 \<times> u8 list) list \<Rightarrow> central \<Rightarrow> central" where
  "scan_cb crc new rc addr ty ads c = (if ty \<noteq> 0x00 \<and> ty \<noteq> 0x01 then c else parse_adv crc new rc addr ads c)"

definition connected_cb :: "int \<Rightarrow> int \<Rightarrow> nat \<Rightarrow> u8 \<Rightarrow> central \<Rightarrow> central" where
  "connected_cb rc drc conn err c =
     (if cn_conn c \<noteq> Some conn then c
      else if err \<noteq> 0 then
        let c = cn_emit EVT_ERROR ((cn_call (Unref conn) c)\<lparr>cn_conn := None\<rparr>)
        in if cn_running c then snd (start_scan rc c) else c
      else begin_discovery drc conn (cn_emit EVT_CONNECTED c))"

definition disconnected_cb :: "int \<Rightarrow> nat \<Rightarrow> central \<Rightarrow> central" where
  "disconnected_cb rc conn c =
     (if cn_conn c \<noteq> Some conn then c
      else let c = cn_emit EVT_DISCONNECTED ((cn_call (Unref conn) c)\<lparr>cn_conn := None, cn_subscribed := False\<rparr>)
        in if cn_running c then snd (start_scan rc c) else c)"

definition app_central_start :: "int \<Rightarrow> bool \<Rightarrow> bool \<Rightarrow> central \<Rightarrow> int \<times> central" where
  "app_central_start rc evt rx c =
     (if cn_running c then (0, c)
      else start_scan rc (cn_call Cb_register (c\<lparr>cn_evt_cb := evt, cn_rx_cb := rx, cn_running := True\<rparr>)))"

definition app_central_stop :: "central \<Rightarrow> central" where
  "app_central_stop c = (let c = cn_call Scan_stop (c\<lparr>cn_running := False\<rparr>) in
     case cn_conn c of None \<Rightarrow> c | Some k \<Rightarrow> cn_call (Disconnect k) c)"

definition app_central_is_connected :: "central \<Rightarrow> bool" where
  "app_central_is_connected c \<longleftrightarrow> cn_conn c \<noteq> None \<and> cn_subscribed c"

named_theorems central_defs \<open>the operations of the central\<close>

lemmas [central_defs] = start_scan_def notify_func_def discover_func_def begin_discovery_def eir_found_def scan_cb_def
  connected_cb_def disconnected_cb_def app_central_start_def app_central_stop_def cn_call_def cn_emit_def Let_def

subsection \<open>The host\<close>

text \<open>What the log says: whether a scan is running, and the last subscription.\<close>

fun scan_step :: "host_call \<Rightarrow> bool \<Rightarrow> bool" where
  "scan_step (Scan_start rc) s = (rc = 0 \<or> s)"
| "scan_step Scan_stop s = False"
| "scan_step _ s = s"

fun subscribe_step :: "host_call \<Rightarrow> (nat \<times> u16 \<times> u16) option \<Rightarrow> (nat \<times> u16 \<times> u16) option" where
  "subscribe_step (Subscribe k v h rc) s = Some (k, v, h)"
| "subscribe_step _ s = s"

fun await_step :: "host_call \<Rightarrow> nat set \<Rightarrow> nat set" where
  "await_step (Discover k d rc) s = (if rc = 0 then insert k s else s)"
| "await_step _ s = s"

definition scanning :: "host_call list \<Rightarrow> bool" where
  "scanning qs = fold scan_step qs False"

definition last_subscribe :: "host_call list \<Rightarrow> (nat \<times> u16 \<times> u16) option" where
  "last_subscribe qs = fold subscribe_step qs None"

definition awaited :: "host_call list \<Rightarrow> nat set \<Rightarrow> nat set" where
  "awaited qs p = fold await_step qs p"

lemma log_append [simp]:
  "scanning (qs @ rs) = fold scan_step rs (scanning qs)"
  "last_subscribe (qs @ rs) = fold subscribe_step rs (last_subscribe qs)"
  "scanning [] = False" "last_subscribe [] = None"
  by (simp_all add: scanning_def last_subscribe_def)

text \<open>The runs the host allows: \<open>up\<close> holds the connections reported up, \<open>w\<close> those whose discovery is awaited.
  A report of an advertiser comes only while a scan runs, a connection is reported up once and
  down afterwards, and a discovery is answered once, on its connection, while that is up.  A start
  and a stop come at any time; \<open>g\<close> says that no start so far began to scan while a connection was
  held, which only a stop shortly before it makes possible.\<close>

definition new_calls :: "central \<Rightarrow> central \<Rightarrow> host_call list" where
  "new_calls c c' = drop (length (cn_calls c)) (cn_calls c')"

inductive central_run :: "central \<Rightarrow> nat set \<Rightarrow> nat set \<Rightarrow> bool \<Rightarrow> bool" where
  boot: "central_run central_boot {} {} True"
| adv: "central_run c up w g \<Longrightarrow> scanning (cn_calls c) \<Longrightarrow> k \<notin> up \<Longrightarrow>
    central_run (scan_cb crc k rc addr ty ads c) up w g"
| connected: "central_run c up w g \<Longrightarrow> k \<notin> up \<Longrightarrow>
    central_run (connected_cb rc drc k err c) (if err = 0 then insert k up else up)
      (awaited (new_calls c (connected_cb rc drc k err c)) w) g"
| disconnected: "central_run c up w g \<Longrightarrow> k \<in> up \<Longrightarrow> central_run (disconnected_cb rc k c) (up - {k}) (w - {k}) g"
| discovered: "central_run c up w g \<Longrightarrow> k \<in> w \<Longrightarrow> discover_func drc src k attr c = Some c' \<Longrightarrow>
    central_run c' up (awaited (new_calls c c') (w - {k})) g"
| notified: "central_run c up w g \<Longrightarrow> central_run (notify_func data c) up w g"
| start: "central_run c up w g \<Longrightarrow>
    central_run (snd (app_central_start rc evt rx c)) up w (g \<and> (cn_running c \<or> cn_conn c = None))"
| stop: "central_run c up w g \<Longrightarrow> central_run (app_central_stop c) up w g"

text \<open>What always holds, and what holds while \<open>g\<close> does.\<close>

definition central_base :: "central \<Rightarrow> nat set \<Rightarrow> nat set \<Rightarrow> bool" where
  "central_base c up w \<longleftrightarrow> w \<subseteq> up \<and> (scanning (cn_calls c) \<longrightarrow> cn_running c) \<and>
     (cn_subscribed c \<longrightarrow> (\<exists>k v. last_subscribe (cn_calls c) = Some (k, v, cn_ccc_handle c)))"

definition central_inv :: "central \<Rightarrow> nat set \<Rightarrow> nat set \<Rightarrow> bool" where
  "central_inv c up w \<longleftrightarrow>
     (\<forall>k \<in> w. w = {k} \<and> cn_conn c = Some k \<and> k \<in> up \<and> d_uuid (cn_disc c) \<noteq> None \<and> \<not> cn_subscribed c) \<and>
     (cn_subscribed c \<longrightarrow> (\<exists>k \<in> up. cn_conn c = Some k \<and>
        last_subscribe (cn_calls c) = Some (k, cn_value_handle c, cn_ccc_handle c))) \<and>
     (scanning (cn_calls c) \<longrightarrow> cn_conn c = None)"

lemma parse_adv_cases:
  "parse_adv crc k rc addr ads c = c \<or>
   parse_adv crc k rc addr ads c = (let c = cn_call (Conn_create addr crc) (cn_call Scan_stop c) in
     if crc \<noteq> 0 then snd (start_scan rc c) else c\<lparr>cn_conn := Some k\<rparr>)"
proof (induction ads)
  case (Cons ad ads)
  have "eir_found crc k rc addr ad c = (True, c) \<or>
      eir_found crc k rc addr ad c = (False, let c = cn_call (Conn_create addr crc) (cn_call Scan_stop c) in
         if crc \<noteq> 0 then snd (start_scan rc c) else c\<lparr>cn_conn := Some k\<rparr>)"
    by (simp add: eir_found_def Let_def)
  then show ?case using Cons.IH by auto
qed simp

lemma central_inv_adv:
  assumes "central_inv c up w" "scanning (cn_calls c)"
  shows "central_inv (scan_cb crc k rc addr ty ads c) up w"
proof -
  have c: "cn_conn c = None" "w = {}" "\<not> cn_subscribed c" using assms by (auto simp: central_inv_def)
  show ?thesis
    using assms(1) c parse_adv_cases [of crc k rc addr ads c]
    by (auto simp: scan_cb_def central_inv_def start_scan_def cn_call_def cn_emit_def Let_def split: if_splits)
qed

lemma central_inv_connected:
  assumes "central_inv c up w" "k \<notin> up"
  shows "central_inv (connected_cb rc drc k err c) (if err = 0 then insert k up else up)
      (awaited (new_calls c (connected_cb rc drc k err c)) w)"
proof (cases "cn_conn c = Some k")
  case True
  then have c: "w = {}" "\<not> cn_subscribed c" "\<not> scanning (cn_calls c)" using assms by (auto simp: central_inv_def)
  show ?thesis
    using True c by (simp add: central_inv_def central_defs new_calls_def awaited_def)
next
  case False
  then have "connected_cb rc drc k err c = c" by (simp add: connected_cb_def)
  then show ?thesis using assms by (auto simp: central_inv_def new_calls_def awaited_def)
qed

lemma central_inv_disconnected:
  "central_inv c up w \<Longrightarrow> k \<in> up \<Longrightarrow> central_inv (disconnected_cb rc k c) (up - {k}) (w - {k})"
  by (cases "w = {}") (auto simp: central_inv_def central_defs)

lemma central_inv_discovered:
  assumes "central_inv c up w" "k \<in> w" "discover_func drc src k attr c = Some c'"
  shows "central_inv c' up (awaited (new_calls c c') (w - {k}))"
proof -
  have "w = {k}" using assms(1,2) by (auto simp: central_inv_def)
  then show ?thesis using assms
    by (auto simp: central_inv_def central_defs new_calls_def awaited_def split: option.splits uuid.splits if_splits)
qed

lemma central_inv_rest:
  "central_inv c up w \<Longrightarrow> central_inv (notify_func data c) up w"
  "central_inv c up w \<Longrightarrow> cn_running c \<or> cn_conn c = None \<Longrightarrow> central_inv (snd (app_central_start rc evt rx c)) up w"
  "central_inv c up w \<Longrightarrow> central_inv (app_central_stop c) up w"
  by (auto simp: central_inv_def central_defs split: option.split)

lemma central_run_inv: "central_run c up w g \<Longrightarrow> g \<longrightarrow> central_inv c up w"
proof (induction rule: central_run.induct)
  case boot
  then show ?case by (simp add: central_inv_def central_boot_def)
qed (auto simp: central_inv_adv central_inv_connected central_inv_disconnected central_inv_discovered central_inv_rest)

lemma central_base_adv:
  "central_base c up w \<Longrightarrow> scanning (cn_calls c) \<Longrightarrow> central_base (scan_cb crc k rc addr ty ads c) up w"
  using parse_adv_cases [of crc k rc addr ads c]
  by (auto simp: scan_cb_def central_base_def start_scan_def cn_call_def cn_emit_def Let_def split: if_splits)

lemma discover_sel:
  assumes "discover_func drc src k attr c = Some c'"
  shows "cn_running c' = cn_running c" "scanning (cn_calls c') = scanning (cn_calls c)"
    "awaited (new_calls c c') w \<subseteq> insert k w"
    "cn_subscribed c' \<Longrightarrow> (\<exists>k v. last_subscribe (cn_calls c') = Some (k, v, cn_ccc_handle c')) \<or>
       cn_subscribed c \<and> last_subscribe (cn_calls c') = last_subscribe (cn_calls c) \<and> cn_ccc_handle c' = cn_ccc_handle c"
  using assms
  by (cases attr; cases "d_uuid (cn_disc c)"; cases "the (d_uuid (cn_disc c))";
      auto simp: central_defs new_calls_def awaited_def split: if_splits)+

lemma central_base_discovered:
  assumes "central_base c up w" "k \<in> w" "discover_func drc src k attr c = Some c'"
  shows "central_base c' up (awaited (new_calls c c') (w - {k}))"
proof -
  note d = discover_sel [OF assms(3)]
  have "awaited (new_calls c c') (w - {k}) \<subseteq> up" using d(3) [of "w - {k}"] assms(1,2) by (auto simp: central_base_def)
  moreover have "cn_subscribed c' \<longrightarrow> (\<exists>k v. last_subscribe (cn_calls c') = Some (k, v, cn_ccc_handle c'))"
    using d(4) assms(1) by (auto simp: central_base_def)
  ultimately show ?thesis using d(1,2) assms(1) by (simp add: central_base_def)
qed

lemma central_run_base: "central_run c up w g \<Longrightarrow> central_base c up w"
proof (induction rule: central_run.induct)
  case (connected c up w g k rc drc err)
  then show ?case by (auto simp: central_base_def central_defs new_calls_def awaited_def)
next
  case (discovered c up w g k drc src attr c')
  then show ?case by (blast intro: central_base_discovered)
next
  case (adv c up w g k crc rc addr ty ads)
  then show ?case by (blast intro: central_base_adv)
qed (auto simp: central_base_def central_defs central_boot_def split: option.splits)

text \<open>C37: In every run the host allows, starts and stops at any time included, the central scans only while
  it runs, and every discovery that is awaited is on a link that is up.  As long as no start began
  to scan while a link was still held, which takes a stop and a start before the old link is
  reported down, also: the central is connected only to a sensor that is up and whose data handles
  were the last subscription; it scans only while it holds no link; and an awaited discovery is on
  the held link and never finds zeroed parameters, so no answer reads a null identifier.\<close>

theorem central_reach_inv:
  assumes "central_run c up w g"
  shows "(scanning (cn_calls c) \<longrightarrow> cn_running c) \<and> w \<subseteq> up \<and>
    (g \<longrightarrow> (app_central_is_connected c \<longrightarrow> (\<exists>k \<in> up. cn_conn c = Some k \<and>
        last_subscribe (cn_calls c) = Some (k, cn_value_handle c, cn_ccc_handle c))) \<and>
      (scanning (cn_calls c) \<longrightarrow> cn_conn c = None) \<and>
      (k \<in> w \<longrightarrow> cn_conn c = Some k \<and> discover_func drc src k attr c \<noteq> None))"
  using central_run_inv [OF assms] central_run_base [OF assms]
  by (auto simp: central_base_def central_inv_def app_central_is_connected_def discover_func_def Let_def
      split: option.split uuid.split)

subsection \<open>Hunting for the sensor\<close>

text \<open>An advertisement names the sensor when one of its complete or partial lists of long identifiers
  has the service's at a multiple of 16.\<close>

definition names_one :: "u8 \<times> u8 list \<Rightarrow> bool" where
  "names_one ad \<longleftrightarrow> (fst ad = 0x06 \<or> fst ad = 0x07) \<and> length (snd ad) mod 16 = 0 \<and>
     (\<exists>i < length (snd ad) div 16. take 16 (drop (16 * i) (snd ad)) = sensor_svc)"

definition names_sensor :: "(u8 \<times> u8 list) list \<Rightarrow> bool" where
  "names_sensor ads \<longleftrightarrow> list_ex names_one ads"

lemma lists_uuid_iff: "lists_uuid data n \<longleftrightarrow> (\<exists>i < n. take 16 (drop (16 * i) data) = sensor_svc)"
proof (induction n arbitrary: data)
  case (Suc n)
  have "(\<exists>i < Suc n. take 16 (drop (16 * i) data) = sensor_svc) \<longleftrightarrow>
      take 16 data = sensor_svc \<or> (\<exists>i < n. take 16 (drop (16 * Suc i) data) = sensor_svc)"
    by (auto simp: less_Suc_eq_0_disj)
  then show ?case by (simp add: Suc.IH add.commute)
qed simp

lemma parse_adv_names:
  "parse_adv crc k rc addr ads c = (if names_sensor ads
     then let c = cn_call (Conn_create addr crc) (cn_call Scan_stop c) in
       if crc \<noteq> 0 then snd (start_scan rc c) else c\<lparr>cn_conn := Some k\<rparr>
     else c)"
proof (induction ads)
  case (Cons ad ads)
  have "eir_found crc k rc addr ad c = (if names_one ad
     then (False, let c = cn_call (Conn_create addr crc) (cn_call Scan_stop c) in
       if crc \<noteq> 0 then snd (start_scan rc c) else c\<lparr>cn_conn := Some k\<rparr>)
     else (True, c))"
    by (auto simp: names_one_def eir_found_def lists_uuid_iff Let_def)
  then show ?case using Cons.IH by (simp add: names_sensor_def)
qed (simp add: names_sensor_def)

text \<open>What can come of an advertisement: it is another device's; the connection request is refused; the
  connection fails; or the sensor is reached.  Then the first discovery request is answered
  (\<open>drc\<close>), a number of discovery answers follow, each an attribute or that there is none, with the
  answer to the next request, the subscription is answered (\<open>src\<close>), blocks arrive if it was accepted,
  and the link drops, or is still there.  \<open>rc\<close> is the answer to the scan request that follows.\<close>

type_synonym disc_answer = "int \<times> (u16 \<times> u16) option"

datatype encounter = Other_device "(u8 \<times> u8 list) list" | Refused "(u8 \<times> u8 list) list" int int
  | Failed "(u8 \<times> u8 list) list" nat u8 int
  | Reached "(u8 \<times> u8 list) list" nat int "disc_answer list" int "u8 list list" "int option"

text \<open>Discovery answers come one for each request that was accepted, and an answer of nothing is the last.\<close>

fun talk_ok :: "nat \<Rightarrow> int \<Rightarrow> disc_answer list \<Rightarrow> bool" where
  "talk_ok n drc [] \<longleftrightarrow> True"
| "talk_ok 0 drc (x # xs) \<longleftrightarrow> False"
| "talk_ok (Suc n) drc ((drc', a) # xs) \<longleftrightarrow> drc = 0 \<and> (case a of None \<Rightarrow> xs = [] | Some _ \<Rightarrow> talk_ok n drc' xs)"

text \<open>The handles of the value and of the descriptor, when all three attributes were found.\<close>

fun found :: "disc_answer list \<Rightarrow> (u16 \<times> u16) option" where
  "found [(_, Some svc), (_, Some chr), (_, Some ccc)] = Some (snd chr, fst ccc)"
| "found _ = None"

definition accepted :: "disc_answer list \<Rightarrow> int \<Rightarrow> bool" where
  "accepted as src \<longleftrightarrow> found as \<noteq> None \<and> (src = 0 \<or> src = - EALREADY)"

fun encounter_ok :: "encounter \<Rightarrow> bool" where
  "encounter_ok (Other_device ads) \<longleftrightarrow> \<not> names_sensor ads"
| "encounter_ok (Refused ads crc rc) \<longleftrightarrow> names_sensor ads \<and> crc \<noteq> 0"
| "encounter_ok (Failed ads k err rc) \<longleftrightarrow> names_sensor ads \<and> err \<noteq> 0"
| "encounter_ok (Reached ads k drc as src blocks end) \<longleftrightarrow>
     names_sensor ads \<and> talk_ok 3 drc as \<and> (blocks \<noteq> [] \<longrightarrow> accepted as src)"

fun discover_all :: "nat \<Rightarrow> int \<Rightarrow> disc_answer list \<Rightarrow> central \<Rightarrow> central option" where
  "discover_all k src [] c = Some c"
| "discover_all k src ((drc, a) # xs) c = Option.bind (discover_func drc src k a c) (discover_all k src xs)"

fun play :: "encounter \<Rightarrow> central \<Rightarrow> central option" where
  "play (Other_device ads) c = Some (scan_cb 0 0 0 0 0 ads c)"
| "play (Refused ads crc rc) c = Some (scan_cb crc 0 rc 0 0 ads c)"
| "play (Failed ads k err rc) c = Some (connected_cb rc 0 k err (scan_cb 0 k 0 0 0 ads c))"
| "play (Reached ads k drc as src blocks end) c =
     map_option (\<lambda>c. case end of None \<Rightarrow> c | Some rc \<Rightarrow> disconnected_cb rc k c)
       (map_option (fold (\<lambda>d. notify_func (Some d)) blocks)
         (discover_all k src as (connected_cb 0 drc k 0 (scan_cb 0 k 0 0 0 ads c))))"

fun play_all :: "encounter list \<Rightarrow> central \<Rightarrow> central option" where
  "play_all [] c = Some c"
| "play_all (x # xs) c = Option.bind (play x c) (play_all xs)"

text \<open>What the central is left doing: it scans, it holds a link, or it is stranded, running without either.\<close>

datatype situation = Hunting | Holding nat bool | Stranded

definition after_scan :: "int \<Rightarrow> situation" where
  "after_scan rc = (if rc = 0 then Hunting else Stranded)"

fun leads_to :: "encounter \<Rightarrow> situation" where
  "leads_to (Other_device ads) = Hunting"
| "leads_to (Refused ads crc rc) = after_scan rc"
| "leads_to (Failed ads k err rc) = after_scan rc"
| "leads_to (Reached ads k drc as src blocks end) =
     (case end of None \<Rightarrow> Holding k (accepted as src) | Some rc \<Rightarrow> after_scan rc)"

fun is_in :: "situation \<Rightarrow> central \<Rightarrow> bool" where
  "is_in Hunting c \<longleftrightarrow> cn_conn c = None \<and> \<not> cn_subscribed c \<and> scanning (cn_calls c)"
| "is_in (Holding k sub) c \<longleftrightarrow> cn_conn c = Some k \<and> cn_subscribed c = sub \<and> \<not> scanning (cn_calls c)"
| "is_in Stranded c \<longleftrightarrow> cn_conn c = None \<and> \<not> cn_subscribed c \<and> \<not> scanning (cn_calls c)"

definition scan_told :: "int \<Rightarrow> central_evt" where
  "scan_told rc = (if rc = 0 then EVT_SCANNING else EVT_ERROR)"

fun told :: "encounter \<Rightarrow> central_evt list" where
  "told (Other_device ads) = []"
| "told (Refused ads crc rc) = [scan_told rc]"
| "told (Failed ads k err rc) = [EVT_ERROR, scan_told rc]"
| "told (Reached ads k drc as src blocks end) = EVT_CONNECTED #
     (if found as = None then [] else if accepted as src then [EVT_SUBSCRIBED] else [EVT_ERROR]) @
     (case end of None \<Rightarrow> [] | Some rc \<Rightarrow> [EVT_DISCONNECTED, scan_told rc])"

fun blocks_of :: "encounter \<Rightarrow> u8 list list" where
  "blocks_of (Reached ads k drc as src blocks end) = blocks"
| "blocks_of _ = []"

text \<open>The calls that matter here: a subscription, and a link hung up by the central.\<close>

fun link_call :: "host_call \<Rightarrow> bool" where
  "link_call (Subscribe k v h rc) = True"
| "link_call (Disconnect k) = True"
| "link_call _ = False"

fun link_calls_of :: "encounter \<Rightarrow> host_call list" where
  "link_calls_of (Reached ads k drc as src blocks end) =
     (case found as of None \<Rightarrow> [] | Some (v, h) \<Rightarrow> [Subscribe k v h src])"
| "link_calls_of _ = []"

definition at_work :: "central \<Rightarrow> bool" where
  "at_work c \<longleftrightarrow> cn_running c \<and> cn_evt_cb c \<and> cn_rx_cb c"

lemma notify_run:
  "cn_rx_cb c \<Longrightarrow> fold (\<lambda>d. notify_func (Some d)) ds c = c\<lparr>cn_rx := cn_rx c @ ds\<rparr>"
  by (induction ds arbitrary: c) (simp_all add: notify_func_def)

text \<open>The link as far as the discovery and the subscription took it.\<close>

definition linked :: "central \<Rightarrow> nat \<Rightarrow> disc_answer list \<Rightarrow> int \<Rightarrow> central \<Rightarrow> bool" where
  "linked c k as src d \<longleftrightarrow> at_work d \<and> cn_conn d = Some k \<and> cn_subscribed d = accepted as src \<and> \<not> scanning (cn_calls d) \<and>
     cn_evts d = cn_evts c @ EVT_CONNECTED #
       (if found as = None then [] else if accepted as src then [EVT_SUBSCRIBED] else [EVT_ERROR]) \<and>
     cn_rx d = cn_rx c \<and>
     filter link_call (cn_calls d) = filter link_call (cn_calls c) @
       (case found as of None \<Rightarrow> [] | Some (v, h) \<Rightarrow> [Subscribe k v h src])"

lemma sensor_reached:
  assumes "at_work c" "is_in Hunting c" "names_sensor ads" "talk_ok 3 drc as"
  shows "\<exists>d. discover_all k src as (connected_cb 0 drc k 0 (scan_cb 0 k 0 0 0 ads c)) = Some d \<and> linked c k as src d"
proof -
  let ?c = "connected_cb 0 drc k 0 (scan_cb 0 k 0 0 0 ads c)"
  have c: "at_work ?c" "cn_conn ?c = Some k" "\<not> cn_subscribed ?c" "\<not> scanning (cn_calls ?c)"
    "cn_evts ?c = cn_evts c @ [EVT_CONNECTED]" "cn_rx ?c = cn_rx c" "filter link_call (cn_calls ?c) = filter link_call (cn_calls c)"
    "d_uuid (cn_disc ?c) = Some UUID_SENSOR_SVC"
    using assms(1-3) by (simp_all add: at_work_def scan_cb_def parse_adv_names central_defs)
  have three: "3 = Suc (Suc (Suc 0))" by simp
  consider "as = []" | r where "as = [(r, None)]" | r s where "as = [(r, Some s)]" | r s r2 where "as = [(r, Some s), (r2, None)]"
    | r s r2 t where "as = [(r, Some s), (r2, Some t)]" | r s r2 t r3 where "as = [(r, Some s), (r2, Some t), (r3, None)]"
    | r s r2 t r3 u where "as = [(r, Some s), (r2, Some t), (r3, Some u)]"
    using assms(4) unfolding three
    by (cases as; cases "tl as"; cases "tl (tl as)"; cases "tl (tl (tl as))") (force split: option.splits)+
  then show ?thesis
    using c by cases (auto simp: linked_def at_work_def accepted_def discover_func_def cn_call_def cn_emit_def Let_def)
qed

lemma link_dropped:
  assumes "linked c k as src d" "x = Reached ads k drc as src blocks end"
    and "e = (case end of None \<Rightarrow> d\<lparr>cn_rx := cn_rx d @ blocks\<rparr> | Some rc \<Rightarrow> disconnected_cb rc k (d\<lparr>cn_rx := cn_rx d @ blocks\<rparr>))"
  shows "at_work e \<and> is_in (leads_to x) e \<and> cn_evts e = cn_evts c @ told x \<and> cn_rx e = cn_rx c @ blocks_of x \<and>
    filter link_call (cn_calls e) = filter link_call (cn_calls c) @ link_calls_of x"
  using assms by (cases "end") (auto simp: linked_def at_work_def after_scan_def scan_told_def central_defs)

lemma play_leads:
  assumes "at_work c" "is_in Hunting c" "encounter_ok x"
  shows "\<exists>c'. play x c = Some c' \<and> at_work c' \<and> is_in (leads_to x) c' \<and> cn_evts c' = cn_evts c @ told x \<and>
    cn_rx c' = cn_rx c @ blocks_of x \<and> filter link_call (cn_calls c') = filter link_call (cn_calls c) @ link_calls_of x"
proof (cases x)
  case (Reached ads k drc as src blocks "end")
  obtain d where d: "discover_all k src as (connected_cb 0 drc k 0 (scan_cb 0 k 0 0 0 ads c)) = Some d" "linked c k as src d"
    using sensor_reached [OF assms(1,2), of ads drc as k src] assms(3) Reached by auto
  have "fold (\<lambda>d. notify_func (Some d)) blocks d = d\<lparr>cn_rx := cn_rx d @ blocks\<rparr>"
    using d(2) by (intro notify_run) (simp add: linked_def at_work_def)
  then have "play x c = Some (case end of None \<Rightarrow> d\<lparr>cn_rx := cn_rx d @ blocks\<rparr>
      | Some rc \<Rightarrow> disconnected_cb rc k (d\<lparr>cn_rx := cn_rx d @ blocks\<rparr>))"
    using d(1) by (simp add: Reached)
  then show ?thesis using link_dropped [OF d(2) Reached refl] by blast
qed (use assms in \<open>simp_all add: at_work_def after_scan_def scan_told_def scan_cb_def parse_adv_names central_defs\<close>)

text \<open>C36: What the central does with whatever it meets.  From a successful start on it meets advertisers in
  any number, all but perhaps the last ending with a scan request that the host accepts.  It ignores
  other devices.  After a refused or failed connection and after a dropped link it asks for a scan
  at once, so it scans again exactly when that request is accepted; when it is refused the central
  is stranded, running but neither scanning nor connected, and a further start does nothing.  A link
  on which the discovery is refused, finds nothing or gets no answer, or on which the subscription
  is refused, is held in silence, without a scan, until the peer drops it: the central never
  hangs up.  When all three attributes are found it subscribes exactly to the value handle and the
  descriptor it discovered, reports how that ended, and hands over exactly the blocks the
  sensor sent, in order.\<close>

theorem central_hunts:
  assumes "\<not> cn_running c" "cn_conn c = None" "\<not> cn_subscribed c" "app_central_start 0 True True c = (rc, c1)"
    and "list_all encounter_ok xs" "list_all (\<lambda>x. leads_to x = Hunting) (butlast xs)"
  shows "rc = 0 \<and> (\<exists>c'. play_all xs c1 = Some c' \<and> is_in (if xs = [] then Hunting else leads_to (last xs)) c' \<and>
    cn_evts c' = cn_evts c @ EVT_SCANNING # concat (List.map told xs) \<and>
    cn_rx c' = cn_rx c @ concat (List.map blocks_of xs) \<and>
    filter link_call (cn_calls c') = filter link_call (cn_calls c) @ concat (List.map link_calls_of xs) \<and>
    app_central_start src evt rx c' = (0, c'))"
proof -
  have 1: "rc = 0" "at_work c1" "is_in Hunting c1" "cn_evts c1 = cn_evts c @ [EVT_SCANNING]" "cn_rx c1 = cn_rx c"
      "filter link_call (cn_calls c1) = filter link_call (cn_calls c)"
    using assms(1-4) by (auto simp: app_central_start_def start_scan_def cn_call_def cn_emit_def at_work_def Let_def)
  have "at_work d \<Longrightarrow> is_in Hunting d \<Longrightarrow> \<exists>c'. play_all xs d = Some c' \<and> at_work c' \<and>
      is_in (if xs = [] then Hunting else leads_to (last xs)) c' \<and> cn_evts c' = cn_evts d @ concat (List.map told xs) \<and>
      cn_rx c' = cn_rx d @ concat (List.map blocks_of xs) \<and>
      filter link_call (cn_calls c') = filter link_call (cn_calls d) @ concat (List.map link_calls_of xs)" for d
    using assms(5,6)
  proof (induction xs arbitrary: d)
    case (Cons x xs)
    obtain e where e: "play x d = Some e" "at_work e" "is_in (leads_to x) e" "cn_evts e = cn_evts d @ told x"
        "cn_rx e = cn_rx d @ blocks_of x" "filter link_call (cn_calls e) = filter link_call (cn_calls d) @ link_calls_of x"
      using play_leads [of d x] Cons.prems by auto
    show ?case
    proof (cases "xs = []")
      case True
      then show ?thesis using e by simp
    next
      case False
      then have "leads_to x = Hunting" using Cons.prems(4) by simp
      then show ?thesis using Cons.IH [OF e(2)] Cons.prems(3,4) e False by auto
    qed
  qed simp
  from this [OF 1(2,3)] obtain c' where c': "play_all xs c1 = Some c'" "at_work c'"
      "is_in (if xs = [] then Hunting else leads_to (last xs)) c'" "cn_evts c' = cn_evts c1 @ concat (List.map told xs)"
      "cn_rx c' = cn_rx c1 @ concat (List.map blocks_of xs)"
      "filter link_call (cn_calls c') = filter link_call (cn_calls c1) @ concat (List.map link_calls_of xs)" by blast
  have "app_central_start src evt rx c' = (0, c')" using c'(2) by (simp add: at_work_def app_central_start_def)
  then show ?thesis using c' 1(1,4-6) by (intro conjI exI [of _ c']) simp_all
qed

subsection \<open>What it does not recover from\<close>

text \<open>A start whose scan is refused leaves the running flag set: the next start answers success and
  does nothing.\<close>

lemma failed_start_sticks:
  assumes "\<not> cn_running c" "rc \<noteq> 0" "app_central_start rc evt rx c = (r, c1)"
  shows "r = rc \<and> app_central_start rc2 evt2 rx2 c1 = (0, c1)"
  using assms by (auto simp: app_central_start_def start_scan_def cn_call_def cn_emit_def Let_def)

text \<open>A sensor without the attributes is neither reported nor disconnected.\<close>

lemma no_match_is_silent:
  "discover_func drc src k None c = Some (c\<lparr>cn_disc := discover_zero\<rparr>)"
  by (simp add: discover_func_def)

text \<open>A stop and a start before the old link is reported down let the next sensor overwrite the held
  connection: the old one is never released, and the central says it is connected while the new
  link is not even up and the subscription was the old one's.\<close>

lemma restart_overwrites:
  assumes "cn_conn c = Some k" "cn_subscribed c" "names_sensor ads" "k2 \<noteq> k"
    and "c2 = disconnected_cb rc k (scan_cb 0 k2 rc addr 0 ads (snd (app_central_start 0 evt rx (app_central_stop c))))"
  shows "app_central_is_connected c2 \<and> cn_conn c2 = Some k2 \<and> last_subscribe (cn_calls c2) = last_subscribe (cn_calls c) \<and>
    count_list (cn_calls c2) (Unref k) = count_list (cn_calls c) (Unref k)"
  unfolding assms(5)
  using assms(1-4) by (simp add: app_central_is_connected_def scan_cb_def parse_adv_names central_defs)

text \<open>Such a run is one the host allows.\<close>

lemma restart_allowed:
  assumes "central_run c up w g" "cn_conn c = Some k" "k \<in> up" "k2 \<notin> up"
  shows "central_run (disconnected_cb rc k (scan_cb 0 k2 rc addr 0 ads (snd (app_central_start 0 evt rx (app_central_stop c)))))
    (up - {k}) (w - {k}) False"
proof -
  let ?d = "snd (app_central_start 0 evt rx (app_central_stop c))"
  have "\<not> cn_running (app_central_stop c)" "cn_conn (app_central_stop c) = Some k"
    using assms(2) by (simp_all add: central_defs)
  then have d: "central_run ?d up w False"
    using central_run.start [OF central_run.stop [OF assms(1)], of 0 evt rx] by simp
  have "scanning (cn_calls ?d)" using assms(2) by (simp add: central_defs)
  from central_run.disconnected [OF central_run.adv [OF d this assms(4)] assms(3)] show ?thesis .
qed

lemma central_hunts_witness:
  "\<exists>c'. play_all [Other_device [(1, [6])], Failed [(7, sensor_svc)] 1 62 0,
      Reached [(7, sensor_svc)] 2 0 [(0, Some (16, 0)), (0, Some (17, 18)), (0, Some (19, 0))] 0 [[5]] (Some 0),
      Reached [(7, sensor_svc)] 3 0 [(0, None)] 0 [] (Some (- 5))]
      (snd (app_central_start 0 True True central_boot)) = Some c' \<and> is_in Stranded c' \<and> cn_rx c' = [[5]] \<and>
    app_central_start 0 True True c' = (0, c')"
proof -
  let ?xs = "[Other_device [(1, [6])], Failed [(7, sensor_svc)] 1 62 0,
      Reached [(7, sensor_svc)] 2 0 [(0, Some (16, 0)), (0, Some (17, 18)), (0, Some (19, 0))] 0 [[5]] (Some 0),
      Reached [(7, sensor_svc)] 3 0 [(0, None)] 0 [] (Some (- 5))]"
  obtain rc c1 where s: "app_central_start 0 True True central_boot = (rc, c1)" by force
  have "names_sensor [(7, sensor_svc)]" "\<not> names_sensor [(1, [6])]"
    by (simp_all add: names_sensor_def names_one_def sensor_svc_def)
  then have "list_all encounter_ok ?xs" by (simp add: accepted_def numeral_3_eq_3)
  moreover have "list_all (\<lambda>x. leads_to x = Hunting) (butlast ?xs)" by (simp add: after_scan_def)
  moreover have "\<not> cn_running central_boot" "cn_conn central_boot = None" "\<not> cn_subscribed central_boot" "cn_rx central_boot = []"
    by (simp_all add: central_boot_def)
  moreover have "leads_to (last ?xs) = Stranded" by (simp add: after_scan_def)
  ultimately obtain c' where "play_all ?xs c1 = Some c'" "is_in Stranded c'" "cn_rx c' = [] @ concat (List.map blocks_of ?xs)"
    "app_central_start 0 True True c' = (0, c')"
    using central_hunts [OF _ _ _ s, of ?xs 0 True True] by auto
  then show ?thesis unfolding s snd_conv by (intro exI [of _ c']) (simp del: play_all.simps)
qed

lemma central_reach_inv_witness:
  "\<exists>c. app_central_is_connected c \<and> cn_conn c = Some 2 \<and> last_subscribe (cn_calls c) = Some (2, 18, 19)"
proof -
  let ?ads = "[(7, sensor_svc)]"
  have n: "names_sensor ?ads" by (simp add: names_sensor_def names_one_def sensor_svc_def)
  define c1 where "c1 = snd (app_central_start 0 True True central_boot)"
  define c2 where "c2 = scan_cb 0 2 0 0 0 ?ads c1"
  define c3 where "c3 = connected_cb 0 0 2 0 c2"
  have 1: "central_run c1 {} {} True" unfolding c1_def
    using central_run.start [OF central_run.boot, of 0 True True] by (simp add: central_boot_def)
  have "scanning (cn_calls c1)" by (simp add: c1_def central_defs central_boot_def scanning_def)
  then have 2: "central_run c2 {} {} True" unfolding c2_def by (intro central_run.adv [OF 1]) simp_all
  have 3: "central_run c3 {2} {2} True"
    using central_run.connected [OF 2, of 2 0 0 0]
    by (simp add: c3_def c2_def c1_def scan_cb_def parse_adv_names n central_defs new_calls_def awaited_def central_boot_def)
  obtain c4 where d4: "discover_func 0 0 2 (Some (16, 0)) c3 = Some c4" and u4: "d_uuid (cn_disc c4) = Some UUID_SENSOR_DATA"
    "awaited (new_calls c3 c4) {} = {2}" "cn_conn c4 = Some 2"
    by (simp add: c3_def c2_def c1_def scan_cb_def parse_adv_names n central_defs new_calls_def awaited_def central_boot_def)
  have 4: "central_run c4 {2} {2} True" using central_run.discovered [OF 3 _ d4] u4(2) by simp
  obtain c5 where d5: "discover_func 0 0 2 (Some (17, 18)) c4 = Some c5" and u5: "d_uuid (cn_disc c5) = Some UUID_CCC"
    "awaited (new_calls c4 c5) {} = {2}" "cn_conn c5 = Some 2" "cn_value_handle c5 = 18"
    using u4 by (simp add: discover_func_def cn_call_def new_calls_def awaited_def Let_def)
  have 5: "central_run c5 {2} {2} True" using central_run.discovered [OF 4 _ d5] u5(2) by simp
  obtain c6 where d6: "discover_func 0 0 2 (Some (19, 0)) c5 = Some c6"
    and u6: "cn_conn c6 = Some 2" "cn_subscribed c6" "cn_value_handle c6 = 18" "cn_ccc_handle c6 = 19"
    using u5 by (simp add: discover_func_def cn_call_def cn_emit_def Let_def)
  from central_reach_inv [OF central_run.discovered [OF 5 _ d6]] u6 show ?thesis
    by (auto simp: app_central_is_connected_def)
qed

end
