(* ===== verification/LedSpi.thy ===== *)
theory LedSpi
  imports Led
begin

unbundle bit_operations_syntax

text \<open>
  The other strip driver, \<open>app/leds/sk6812.c\<close> over \<open>app/leds/sk6812_io_nxp_spi.c\<close>: eight SK6812 pixels whose
  bits are bytes on an SPI bus.  The SPI driver, its DMA engine and the mutex are the SDK's and the
  kernel's: \<open>spi_api\<close> holds their answers and the build option.  The buffers clocked out are logged.  The
  functions carry a suffix, since the driver of the build exports the same names.
\<close>

abbreviation (input) APP_LED_COUNT :: nat where "APP_LED_COUNT \<equiv> 8"
abbreviation (input) SPI_BIT_ZERO :: u8 where "SPI_BIT_ZERO \<equiv> 0xC0"
abbreviation (input) SPI_BIT_ONE :: u8 where "SPI_BIT_ONE \<equiv> 0xF0"
abbreviation (input) LED_RESET_BYTES :: nat where "LED_RESET_BYTES \<equiv> 80"

record spi_api =
  spi_use_dma :: bool
  spi_master_ok :: bool
  spi_handle_ok :: bool
  spi_accepts :: "u8 list \<Rightarrow> bool"
  spi_done :: "u8 list \<Rightarrow> bool"
  spi_lock :: int

record spi_led =
  sl_pixels :: "sk6812_color list"
  sl_brightness :: u8
  sl_inited :: bool
  sl_io_inited :: bool
  sl_sent :: "u8 list list"
  sl_aborted :: nat

definition spi_led_boot :: spi_led where
  "spi_led_boot = \<lparr>sl_pixels = replicate APP_LED_COUNT COLOR_OFF, sl_brightness = 0xFF, sl_inited = False,
     sl_io_inited = False, sl_sent = [], sl_aborted = 0\<rparr>"

subsection \<open>The SPI side\<close>

definition sk6812_io_nxp_spi_init :: "spi_api \<Rightarrow> spi_led \<Rightarrow> int \<times> spi_led" where
  "sk6812_io_nxp_spi_init A s =
     (if sl_io_inited s then (0, s)
      else if \<not> spi_master_ok A then (- 1, s)
      else if spi_use_dma A \<and> \<not> spi_handle_ok A then (- 3, s)
      else (0, s\<lparr>sl_io_inited := True\<rparr>))"

definition sk6812_io_nxp_spi_send_blocking :: "spi_api \<Rightarrow> u8 list option \<Rightarrow> spi_led \<Rightarrow> int \<times> spi_led" where
  "sk6812_io_nxp_spi_send_blocking A buf s =
     (case buf of None \<Rightarrow> (- 1, s) | Some d \<Rightarrow>
      if d = [] then (- 1, s)
      else case (if sl_io_inited s then (0, s) else sk6812_io_nxp_spi_init A s) of (rc, s) \<Rightarrow>
        if rc \<noteq> 0 then (- 2, s)
        else if \<not> spi_accepts A d then (- 3, s)
        else let s = s\<lparr>sl_sent := sl_sent s @ [d]\<rparr> in
          if spi_use_dma A \<and> \<not> spi_done A d then (- 4, s\<lparr>sl_aborted := sl_aborted s + 1\<rparr>) else (0, s))"

subsection \<open>Encoding\<close>

definition scale8 :: "u8 \<Rightarrow> u8 \<Rightarrow> u8" where
  "scale8 v s = (if s = 0xFF then v else ucast ((ucast v * ucast s + 128) div 255 :: u32))"

definition encode_byte :: "u8 \<Rightarrow> u8 list" where
  "encode_byte v = map (\<lambda>i. if drop_bit i v AND 1 \<noteq> 0 then SPI_BIT_ONE else SPI_BIT_ZERO) (rev [0..<8])"

definition encode_pixel :: "u8 \<Rightarrow> sk6812_color \<Rightarrow> u8 list" where
  "encode_pixel br c = encode_byte (scale8 (ch_g c) br) @ encode_byte (scale8 (ch_r c) br) @
     encode_byte (scale8 (ch_b c) br) @ encode_byte (scale8 (ch_w c) br)"

definition tx_buffer :: "spi_led \<Rightarrow> u8 list" where
  "tx_buffer s = concat (map (encode_pixel (sl_brightness s)) (take APP_LED_COUNT (sl_pixels s))) @ replicate LED_RESET_BYTES 0"

subsection \<open>Operations\<close>

definition sk6812_refresh_spi :: "spi_api \<Rightarrow> spi_led \<Rightarrow> int \<times> spi_led" where
  "sk6812_refresh_spi A s =
     (if \<not> sl_inited s then (- 1, s)
      else if spi_lock A \<noteq> 0 then (- 2, s)
      else sk6812_io_nxp_spi_send_blocking A (Some (tx_buffer s)) s)"

definition sk6812_init_spi :: "spi_api \<Rightarrow> spi_led \<Rightarrow> int \<times> spi_led" where
  "sk6812_init_spi A s =
     (if sl_inited s then sk6812_refresh_spi A (s\<lparr>sl_pixels := replicate APP_LED_COUNT COLOR_OFF\<rparr>)
      else case sk6812_io_nxp_spi_init A s of (rc, s) \<Rightarrow>
        if rc \<noteq> 0 then (- 2, s)
        else sk6812_refresh_spi A (s\<lparr>sl_pixels := replicate APP_LED_COUNT COLOR_OFF, sl_inited := True\<rparr>))"

definition sk6812_count_spi :: "spi_led \<Rightarrow> nat" where
  "sk6812_count_spi s = APP_LED_COUNT"

definition sk6812_set_pixel_spi :: "nat \<Rightarrow> sk6812_color \<Rightarrow> spi_led \<Rightarrow> int \<times> spi_led" where
  "sk6812_set_pixel_spi i c s = (if APP_LED_COUNT \<le> i then (- 1, s) else (0, s\<lparr>sl_pixels := (sl_pixels s)[i := c]\<rparr>))"

definition sk6812_fill_spi :: "sk6812_color \<Rightarrow> spi_led \<Rightarrow> int \<times> spi_led" where
  "sk6812_fill_spi c s = (0, s\<lparr>sl_pixels := fill_loop c APP_LED_COUNT (sl_pixels s)\<rparr>)"

definition scale_pct :: "sk6812_color \<Rightarrow> u8 \<Rightarrow> sk6812_color" where
  "scale_pct c pct = map_channels (pct_scale (if 100 < pct then 100 else pct)) c"

definition sk6812_fill_scaled_spi :: "sk6812_color \<Rightarrow> u8 \<Rightarrow> spi_led \<Rightarrow> int \<times> spi_led" where
  "sk6812_fill_scaled_spi c pct s = sk6812_fill_spi (scale_pct c pct) s"

definition sk6812_set_pixel_scaled_spi :: "nat \<Rightarrow> sk6812_color \<Rightarrow> u8 \<Rightarrow> spi_led \<Rightarrow> int \<times> spi_led" where
  "sk6812_set_pixel_scaled_spi i c pct s = sk6812_set_pixel_spi i (scale_pct c pct) s"

definition sk6812_clear_spi :: "spi_api \<Rightarrow> spi_led \<Rightarrow> int \<times> spi_led" where
  "sk6812_clear_spi A s = sk6812_refresh_spi A (snd (sk6812_fill_spi COLOR_OFF s))"

definition sk6812_set_brightness_spi :: "u8 \<Rightarrow> spi_led \<Rightarrow> spi_led" where
  "sk6812_set_brightness_spi sc s = s\<lparr>sl_brightness := sc\<rparr>"

definition sk6812_get_brightness_spi :: "spi_led \<Rightarrow> u8" where
  "sk6812_get_brightness_spi s = sl_brightness s"

subsection \<open>The scaler\<close>

lemma unat_scale8: "unat (scale8 v s) = (if s = 0xFF then unat v else (unat v * unat s + 128) div 255)"
proof (cases "s = 0xFF")
  case False
  have a: "unat v < 2 ^ LENGTH(8)" "unat s < 2 ^ LENGTH(8)" by (rule unsigned_less)+
  have "unat v * unat s \<le> 255 * 255" by (rule mult_mono) (use a in simp_all)
  then have "unat (ucast v * ucast s + 128 :: u32) = unat v * unat s + 128"
    using a by (simp add: unat_word_ariths unsigned_ucast_eq take_bit_eq_mod)
  moreover have "(unat v * unat s + 128) div 255 < 256"
    using \<open>unat v * unat s \<le> 255 * 255\<close> by simp
  ultimately show ?thesis
    using False by (simp add: scale8_def unsigned_ucast_eq unat_div_distrib take_bit_eq_mod)
qed (simp add: scale8_def)

text \<open>The product over 255 is rounded up from a remainder of 127 on: at most 126 of 255 are lost and at
  most 128 added, so a remainder of 127 goes to the further of the two steps.  Full brightness
  changes nothing.\<close>

lemma scale8_close:
  "- 126 \<le> 255 * int (unat (scale8 v s)) - int (unat v) * int (unat s)"
  "255 * int (unat (scale8 v s)) - int (unat v) * int (unat s) \<le> 128"
proof -
  let ?n = "int (unat v) * int (unat s)"
  have "int (unat (scale8 v s)) = (?n + 128) div 255" if "s \<noteq> 0xFF"
    using that by (simp add: unat_scale8 zdiv_int)
  then show "- 126 \<le> 255 * int (unat (scale8 v s)) - ?n" "255 * int (unat (scale8 v s)) - ?n \<le> 128"
    using mult_div_mod_eq [of 255 "?n + 128"] pos_mod_bound [of 255 "?n + 128"] pos_mod_sign [of 255 "?n + 128"]
    by (cases "s = 0xFF"; simp add: unat_scale8; linarith)+
qed

subsection \<open>What the strip sees\<close>

lemma length_encode_byte [simp]: "length (encode_byte v) = 8"
  by (simp add: encode_byte_def)

lemma encode_byte_bits: "map (\<lambda>b. b = SPI_BIT_ONE) (encode_byte v) = send_byte v"
proof -
  have "(drop_bit i v AND 1 \<noteq> 0) = (drop_bit i v AND 1 = 1)" for i
    by (simp add: and_one_eq odd_iff_mod_2_eq_one)
  then show ?thesis by (simp add: encode_byte_def send_byte_def del: upt_rec_numeral)
qed

lemma encode_byte_codes: "set (encode_byte v) \<subseteq> {SPI_BIT_ZERO, SPI_BIT_ONE}"
  by (auto simp: encode_byte_def)

definition dimmed :: "u8 \<Rightarrow> sk6812_color \<Rightarrow> u8 list" where
  "dimmed br c = [scale8 (ch_g c) br, scale8 (ch_r c) br, scale8 (ch_b c) br, scale8 (ch_w c) br]"

lemma encode_pixel_bytes: "encode_pixel br c = concat (map encode_byte (dimmed br c))"
  by (simp add: encode_pixel_def dimmed_def)

lemma encode_frame_bytes: "concat (map (encode_pixel br) cs) = concat (map encode_byte (concat (map (dimmed br) cs)))"
  by (induction cs) (simp_all add: encode_pixel_bytes)

lemma length_dimmed: "length (concat (map (dimmed br) cs)) = 4 * length cs"
  by (induction cs) (simp_all add: dimmed_def)

lemma encoded_length: "length (concat (map encode_byte bs)) = 8 * length bs"
  by (induction bs) simp_all

lemma encoded_bits: "map (\<lambda>b. b = SPI_BIT_ONE) (concat (map encode_byte bs)) = concat (map send_byte bs)"
  by (induction bs) (simp_all add: encode_byte_bits)

text \<open>C39: A refresh shows the pixels.  With a working bus it sends one buffer: 256 bytes that are only the two
  bit codes, which a strip reading each as a bit latches as the green, red, blue and white of the
  eight pixels in order, then 80 bytes of silence.  Every latched channel is the stored one at
  full brightness and otherwise the product of the two plus 128, divided by 255 and cut: never
  more than 126/255 of a step below the exact quotient nor more than 128/255 above it, so a
  remainder of 127 is rounded up, away from the nearer step.  The pin driver of the build, which
  divides by 256, loses a step at full brightness.\<close>

theorem spi_refresh_shows:
  assumes "sl_inited s" "sl_io_inited s" "length (sl_pixels s) = 8" "spi_lock A = 0" "\<forall>d. spi_accepts A d \<and> spi_done A d"
  shows "\<exists>d. sk6812_refresh_spi A s = (0, s\<lparr>sl_sent := sl_sent s @ [d @ replicate 80 0]\<rparr>) \<and> length d = 256 \<and>
    set d \<subseteq> {0xC0, 0xF0} \<and>
    latch 32 (map (\<lambda>b. b = 0xF0) d) = concat (map (dimmed (sl_brightness s)) (sl_pixels s)) \<and>
    (\<forall>v. unat (scale8 v (sl_brightness s)) = (if sl_brightness s = 0xFF then unat v
        else (unat v * unat (sl_brightness s) + 128) div 255) \<and>
      - 126 \<le> 255 * int (unat (scale8 v (sl_brightness s))) - int (unat v) * int (unat (sl_brightness s)) \<and>
      255 * int (unat (scale8 v (sl_brightness s))) - int (unat v) * int (unat (sl_brightness s)) \<le> 128) \<and>
    scale8 127 1 = 1 \<and> scale8 v 0xFF = v \<and> (v \<noteq> 0 \<longrightarrow> unat (apply_brightness 0xFF v) = unat v - 1)"
proof -
  let ?b = "concat (map (dimmed (sl_brightness s)) (sl_pixels s))"
  let ?d = "concat (map encode_byte ?b)"
  have t: "tx_buffer s = ?d @ replicate 80 0"
    using assms(3) by (simp add: tx_buffer_def encode_frame_bytes)
  have l: "length ?b = 32" using assms(3) by (simp add: length_dimmed)
  have "sk6812_refresh_spi A s = (0, s\<lparr>sl_sent := sl_sent s @ [?d @ replicate 80 0]\<rparr>)"
    using assms by (simp add: sk6812_refresh_spi_def sk6812_io_nxp_spi_send_blocking_def t Let_def)
  moreover have "length ?d = 256" using l by (simp only: encoded_length)
  moreover have "set ?d \<subseteq> {0xC0, 0xF0}" using encode_byte_codes by auto
  moreover have "latch 32 (map (\<lambda>b. b = 0xF0) ?d) = ?b" using latch_bytes [of ?b] unfolding encoded_bits l .
  moreover have "v \<noteq> 0 \<longrightarrow> unat (apply_brightness 0xFF v) = unat v - 1"
  proof
    assume "v \<noteq> 0"
    then have "0 < unat v" "unat v < 256" using unsigned_less [of v] by (simp_all add: unat_gt_0)
    then show "unat (apply_brightness 0xFF v) = unat v - 1"
      unfolding unat_apply_brightness by simp
  qed
  moreover have "scale8 127 1 = 1" "scale8 v 0xFF = v" by (simp_all add: scale8_def)
  ultimately show ?thesis by (intro exI [of _ ?d] conjI allI unat_scale8 scale8_close) simp_all
qed

definition demo_spi :: spi_api where
  "demo_spi = \<lparr>spi_use_dma = True, spi_master_ok = True, spi_handle_ok = True, spi_accepts = \<lambda>d. True, spi_done = \<lambda>d. True, spi_lock = 0\<rparr>"

lemma replicate_eq_Cons: "replicate 8 x = [x, x, x, x, x, x, x, x]"
  by (simp add: numeral_eq_Suc)

lemma spi_refresh_shows_witness:
  "\<exists>s d. sk6812_init_spi demo_spi spi_led_boot = (0, s) \<and> sk6812_refresh_spi demo_spi (snd (sk6812_set_pixel_spi 0 (RGBW 1 2 3 4) s)) =
      (0, s\<lparr>sl_pixels := (sl_pixels s)[0 := RGBW 1 2 3 4], sl_sent := sl_sent s @ [d @ replicate 80 0]\<rparr>) \<and>
    take 4 (latch 32 (map (\<lambda>b. b = 0xF0) d)) = [2, 1, 3, 4]"
proof -
  obtain s where s: "sk6812_init_spi demo_spi spi_led_boot = (0, s)" "sl_inited s" "sl_io_inited s" "sl_brightness s = 0xFF"
      "sl_pixels s = replicate 8 COLOR_OFF"
    by (simp add: sk6812_init_spi_def sk6812_refresh_spi_def sk6812_io_nxp_spi_init_def sk6812_io_nxp_spi_send_blocking_def
        tx_buffer_def spi_led_boot_def demo_spi_def Let_def)
  let ?s = "snd (sk6812_set_pixel_spi 0 (RGBW 1 2 3 4) s)"
  have q: "?s = s\<lparr>sl_pixels := (sl_pixels s)[0 := RGBW 1 2 3 4]\<rparr>" by (simp add: sk6812_set_pixel_spi_def)
  obtain d where d: "sk6812_refresh_spi demo_spi ?s = (0, ?s\<lparr>sl_sent := sl_sent ?s @ [d @ replicate 80 0]\<rparr>)"
      "latch 32 (map (\<lambda>b. b = 0xF0) d) = concat (map (dimmed (sl_brightness ?s)) (sl_pixels ?s))"
    using spi_refresh_shows [of ?s demo_spi 0] s by (auto simp: q demo_spi_def)
  have "take 4 (concat (map (dimmed (sl_brightness ?s)) (sl_pixels ?s))) = [2, 1, 3, 4]"
    unfolding q by (simp add: s(4,5) replicate_eq_Cons dimmed_def scale8_def RGBW_def)
  then show ?thesis using s(1) d by (intro exI [of _ s] exI [of _ d]) (simp add: q)
qed

end
