(* ===== verification/IrTxCt.thy ===== *)
theory IrTxCt
  imports IrTx
begin

text \<open>
  The other infrared back end, \<open>app/ir/ir_tx_nxp_ctimer.c\<close>, which the build leaves out: a timer interrupt steps
  through the marks and spaces and switches the function of the pin.  The vendor's drivers are not in the
  repository, so the model gives their calls no meaning: it logs which calls are made, in order and with
  the values passed.  \<open>ct_real\<close> is the build option for the hardware; without it, the default, a send
  only signals.  In particular \<open>Setup_match\<close> carries the integer that the code passes, where the
  vendor's function takes a pointer to a configuration, and \<open>Pin_mux False\<close> is the selection of the
  plain GPIO function: the file never configures that GPIO, so nothing is said of its level.
\<close>

datatype ct_phase = PHASE_IDLE | PHASE_MARK | PHASE_SPACE

datatype sdk_call = Sct_init | Sct_pwm u32 u32 | Sct_start | Sct_deinit
  | Ctimer_init u32 | Ctimer_deinit | Register_callback | Irq_on | Irq_off
  | Timer_reset | Timer_start | Timer_stop | Setup_match u32 | Pin_mux bool

record ctimer_tx =
  ct_phase :: ct_phase
  ct_idx :: nat
  ct_count :: nat
  ct_syms :: "ir_symbol list"
  ct_done :: bool
  ct_inited :: bool
  ct_hz :: u32
  ct_calls :: "sdk_call list"

definition ctimer_boot :: ctimer_tx where
  "ctimer_boot = \<lparr>ct_phase = PHASE_IDLE, ct_idx = 0, ct_count = 0, ct_syms = [], ct_done = False, ct_inited = False,
     ct_hz = 38000, ct_calls = []\<rparr>"

subsection \<open>Pin, timer and carrier\<close>

text \<open>A call that the build for the hardware makes, and the stub does not.\<close>

definition sdk :: "bool \<Rightarrow> sdk_call list \<Rightarrow> ctimer_tx \<Rightarrow> ctimer_tx" where
  "sdk real cs t = (if real then t\<lparr>ct_calls := ct_calls t @ cs\<rparr> else t)"

text \<open>\<open>carrier_on\<close> and \<open>carrier_off\<close>.\<close>

definition pin_to :: "bool \<Rightarrow> bool \<Rightarrow> ctimer_tx \<Rightarrow> ctimer_tx" where
  "pin_to real on t = sdk real [Pin_mux on] t"

text \<open>The interrupt, which reads the count \<open>now\<close> of the timer.\<close>

definition ctimer_match_cb :: "u32 \<Rightarrow> ctimer_tx \<Rightarrow> ctimer_tx" where
  "ctimer_match_cb now t =
     (if ct_phase t = PHASE_MARK then
        (sdk True [Setup_match (now + ucast (space_us (ct_syms t ! ct_idx t)))] (pin_to True False t))\<lparr>ct_phase := PHASE_SPACE\<rparr>
      else
        let t = t\<lparr>ct_idx := ct_idx t + 1\<rparr> in
        if ct_count t \<le> ct_idx t
        then (pin_to True False (sdk True [Timer_stop] t))\<lparr>ct_phase := PHASE_IDLE, ct_done := True\<rparr>
        else (sdk True [Setup_match (now + ucast (mark_us (ct_syms t ! ct_idx t)))] (pin_to True True t))\<lparr>ct_phase := PHASE_MARK\<rparr>)"

text \<open>\<open>sct\<close> and \<open>pwm\<close>: the SDK accepted the timer and the signal.  \<open>clk\<close> is the bus clock.\<close>

definition carrier_init :: "bool \<Rightarrow> bool \<Rightarrow> bool \<Rightarrow> u32 \<Rightarrow> u32 \<Rightarrow> ctimer_tx \<Rightarrow> int \<times> ctimer_tx" where
  "carrier_init real sct pwm clk hz t =
     (let t = sdk real [Sct_init] t in
      if real \<and> \<not> sct then (- 1, t)
      else let t = sdk real [Sct_pwm hz clk] t in
        if real \<and> \<not> pwm then (- 2, t) else (0, (sdk real [Sct_start] t)\<lparr>ct_hz := hz\<rparr>))"

subsection \<open>Operations\<close>

definition ct_init :: "bool \<Rightarrow> bool \<Rightarrow> bool \<Rightarrow> u32 \<Rightarrow> ctimer_tx \<Rightarrow> int \<times> ctimer_tx" where
  "ct_init real sct pwm clk t =
     (if ct_inited t then (0, t)
      else case carrier_init real sct pwm clk 38000 (t\<lparr>ct_done := False\<rparr>) of (rc, t) \<Rightarrow>
        if rc \<noteq> 0 then (- 2, t)
        else let t = sdk real [Ctimer_init (clk div 1000000 - 1), Setup_match 0xFFFFFFFF, Register_callback, Irq_on] t
          in (0, (pin_to real False t)\<lparr>ct_phase := PHASE_IDLE, ct_inited := True\<rparr>))"

definition ct_deinit :: "bool \<Rightarrow> ctimer_tx \<Rightarrow> ctimer_tx" where
  "ct_deinit real t = (if ct_inited t then sdk real [Irq_off, Ctimer_deinit, Sct_deinit] t else t)\<lparr>ct_inited := False\<rparr>"

definition ct_is_ready :: "ctimer_tx \<Rightarrow> bool" where
  "ct_is_ready t = ct_inited t"

definition ct_set_carrier_hz :: "bool \<Rightarrow> bool \<Rightarrow> bool \<Rightarrow> u32 \<Rightarrow> u32 \<Rightarrow> ctimer_tx \<Rightarrow> int \<times> ctimer_tx" where
  "ct_set_carrier_hz real sct pwm clk hz t =
     (if hz < 25000 \<or> 60000 < hz then (- 1, t) else if \<not> ct_inited t then (- 2, t) else carrier_init real sct pwm clk hz t)"

definition ct_get_carrier_hz :: "ctimer_tx \<Rightarrow> u32" where
  "ct_get_carrier_hz t = ct_hz t"

text \<open>Arming the sequencer.\<close>

definition ct_arm :: "bool \<Rightarrow> ir_symbol list \<Rightarrow> ctimer_tx \<Rightarrow> ctimer_tx" where
  "ct_arm real ss t =
     (let t = t\<lparr>ct_done := False, ct_syms := ss, ct_count := length ss, ct_idx := 0, ct_phase := PHASE_MARK\<rparr>
      in if real then sdk True [Timer_start] (pin_to True True (sdk True [Timer_reset, Setup_match (ucast (mark_us (hd ss)))] t))
         else t\<lparr>ct_done := True\<rparr>)"

text \<open>The interrupts that arrive before the wait ends, by the counts they read.\<close>

fun ct_interrupts :: "u32 list \<Rightarrow> ctimer_tx \<Rightarrow> ctimer_tx" where
  "ct_interrupts [] t = t"
| "ct_interrupts (n # ns) t = (if ct_done t then t else ct_interrupts ns (ctimer_match_cb n t))"

definition ct_send_symbols :: "bool \<Rightarrow> u32 list \<Rightarrow> ir_symbol list option \<Rightarrow> ctimer_tx \<Rightarrow> int \<times> ctimer_tx" where
  "ct_send_symbols real nows syms t =
     (if \<not> ct_inited t then (- 1, t)
      else case syms of None \<Rightarrow> (- 2, t) | Some ss \<Rightarrow>
      if ss = [] then (- 2, t)
      else if IR_TX_MAX_SYMBOLS < length ss then (- 3, t)
      else let t = ct_arm real ss t; t = (if real then ct_interrupts nows t else t)
        in if ct_done t then (0, t\<lparr>ct_done := False\<rparr>)
           else (- 5, if real then (pin_to True False (sdk True [Timer_stop] t))\<lparr>ct_phase := PHASE_IDLE\<rparr> else t))"

subsection \<open>The calls of a frame\<close>

text \<open>What the interrupts of a frame ask of the drivers.\<close>

fun frame_calls :: "u32 list \<Rightarrow> ir_symbol list \<Rightarrow> sdk_call list" where
  "frame_calls (n # m # ns) (s # ss) = [Pin_mux False, Setup_match (n + ucast (space_us s))] @
     (case ss of [] \<Rightarrow> [Timer_stop, Pin_mux False]
      | s2 # _ \<Rightarrow> [Pin_mux True, Setup_match (m + ucast (mark_us s2))] @ frame_calls ns ss)"
| "frame_calls _ _ = []"

definition in_mark :: "nat \<Rightarrow> ctimer_tx \<Rightarrow> bool" where
  "in_mark i t \<longleftrightarrow> ct_phase t = PHASE_MARK \<and> ct_idx t = i \<and> i < length (ct_syms t) \<and> ct_count t = length (ct_syms t) \<and> \<not> ct_done t"

lemma interrupts_run:
  "in_mark i t \<Longrightarrow> length nows = 2 * (length (ct_syms t) - i) \<Longrightarrow>
   ct_interrupts nows t = t\<lparr>ct_phase := PHASE_IDLE, ct_idx := length (ct_syms t), ct_done := True,
     ct_calls := ct_calls t @ frame_calls nows (drop i (ct_syms t))\<rparr>"
proof (induction "length (ct_syms t) - i" arbitrary: i t nows)
  case 0
  then show ?case by (simp add: in_mark_def)
next
  case (Suc k)
  have i: "i < length (ct_syms t)" using Suc.prems(1) by (simp add: in_mark_def)
  obtain n m ns where ns: "nows = n # m # ns"
    using Suc.prems(2) i by (cases nows; cases "tl nows") auto
  have d: "drop i (ct_syms t) = ct_syms t ! i # drop (Suc i) (ct_syms t)" using i by (rule Cons_nth_drop_Suc [symmetric])
  let ?t = "ctimer_match_cb m (ctimer_match_cb n t)"
  have run: "ct_interrupts nows t = ct_interrupts ns ?t"
    using Suc.prems(1) by (simp add: ns in_mark_def ctimer_match_cb_def pin_to_def sdk_def)
  show ?case
  proof (cases "Suc i < length (ct_syms t)")
    case True
    have t: "?t = t\<lparr>ct_idx := Suc i, ct_calls := ct_calls t @ [Pin_mux False, Setup_match (n + ucast (space_us (ct_syms t ! i))),
        Pin_mux True, Setup_match (m + ucast (mark_us (ct_syms t ! Suc i)))]\<rparr>"
      using Suc.prems(1) True by (simp add: in_mark_def ctimer_match_cb_def pin_to_def sdk_def)
    have e: "drop (Suc i) (ct_syms t) = ct_syms t ! Suc i # drop (Suc (Suc i)) (ct_syms t)"
      using True by (rule Cons_nth_drop_Suc [symmetric])
    have "in_mark (Suc i) ?t" using Suc.prems(1) True by (simp add: t in_mark_def)
    moreover have "k = length (ct_syms ?t) - Suc i" "length ns = 2 * (length (ct_syms ?t) - Suc i)"
      using Suc.hyps(2) Suc.prems(2) by (simp_all add: t ns)
    ultimately show ?thesis unfolding run by (subst Suc.hyps(1)) (auto simp: t d e ns)
  next
    case False
    then have l: "length (ct_syms t) = Suc i" using i by simp
    then have "ns = []" using Suc.prems(2) by (simp add: ns)
    then show ?thesis
      using Suc.prems(1) l unfolding run by (simp add: d ns in_mark_def ctimer_match_cb_def pin_to_def sdk_def)
  qed
qed

lemma armed: "ss \<noteq> [] \<Longrightarrow> in_mark 0 (ct_arm True ss t)"
  by (cases ss) (simp_all add: in_mark_def ct_arm_def pin_to_def sdk_def)

text \<open>With two interrupts for every symbol a send answers 0, with the sequencer idle; the stub leaves it in the
  phase of a mark.\<close>

lemma ct_send_full:
  assumes "ct_inited t" "ss \<noteq> []" "length ss \<le> IR_TX_MAX_SYMBOLS" "length nows = 2 * length ss"
  shows "\<exists>t'. ct_send_symbols True nows (Some ss) t = (0, t') \<and> ct_phase t' = PHASE_IDLE \<and>
    ct_calls t' = ct_calls t @ [Timer_reset, Setup_match (ucast (mark_us (hd ss))), Pin_mux True, Timer_start] @ frame_calls nows ss"
proof -
  have a: "in_mark 0 (ct_arm True ss t)" "ct_syms (ct_arm True ss t) = ss"
    using armed [OF assms(2)] by (simp_all add: ct_arm_def pin_to_def sdk_def)
  then show ?thesis
    using interrupts_run [OF a(1), of nows] assms by (simp add: ct_send_symbols_def) (simp add: ct_arm_def pin_to_def sdk_def)
qed

lemma ct_send_stub:
  assumes "ct_inited t" "ss \<noteq> []" "length ss \<le> IR_TX_MAX_SYMBOLS"
  shows "\<exists>t'. ct_send_symbols False nows (Some ss) t = (0, t') \<and> ct_phase t' = PHASE_MARK \<and> ct_calls t' = ct_calls t"
  using assms by (simp add: ct_send_symbols_def ct_arm_def)

end
