(* ===== verification/LuxFloat.thy ===== *)
theory LuxFloat
  imports Lux MlxKv
begin

text \<open>
  \<open>bh1750_read_lux\<close> of \<open>app/sensors/bh1750.c\<close>: the reading in floating point, over the operations of
  single precision.  Nothing in the firmware calls it; it is set against the integer reading.
\<close>

definition lux_scale :: "'f fp \<Rightarrow> bh_mode \<Rightarrow> 'f" where
  "lux_scale F m = (if m = CONT_H2 \<or> m = ONE_H2 then of_dec F 24 (- 1) else of_dec F 12 (- 1))"

definition bh1750_read_lux :: "'f fp \<Rightarrow> 'b i2c_api \<Rightarrow> bh1750 \<Rightarrow> 'b i2c \<Rightarrow> (int + 'f) \<times> bh1750 \<times> 'b i2c" where
  "bh1750_read_lux F I d s = (case bh1750_read_raw I d s of (r, d, s) \<Rightarrow>
     (map_sum id (\<lambda>raw. f_div F (of_i F (int (unat raw))) (lux_scale F (bh_mode_of d))) r, d, s))"

lemma exact_lux:
  "\<lfloor>100 * f_div exact_fp (of_i exact_fp (int (unat raw))) (lux_scale exact_fp m)\<rfloor> = int (unat (lux_x100 m raw))"
proof -
  define k :: int where "k = (if m = CONT_H2 \<or> m = ONE_H2 then 24 else 12)"
  have "f_div exact_fp (of_i exact_fp (int (unat raw))) (lux_scale exact_fp m) = of_int (int (unat raw)) / (of_int k / 10)"
    by (simp add: exact_fp_def lux_scale_def k_def)
  then have "100 * f_div exact_fp (of_i exact_fp (int (unat raw))) (lux_scale exact_fp m) = of_int (int (unat raw) * 1000) / of_int k"
    by simp
  then have "\<lfloor>100 * f_div exact_fp (of_i exact_fp (int (unat raw))) (lux_scale exact_fp m)\<rfloor> = int (unat raw) * 1000 div k"
    by (simp only: floor_divide_of_int_eq)
  then show ?thesis by (simp add: unat_lux_x100 k_def zdiv_int)
qed

text \<open>Both readings use the bus alike and fail alike, and with exact arithmetic the integer one is the
  hundredfold of the other, rounded down.\<close>

lemma lux_readings_agree:
  assumes "bh1750_read_lux exact_fp I d s = (r, d', s')" "bh1750_read_lux_x100 I d s = (r2, d2, s2)"
  shows "d2 = d' \<and> s2 = s' \<and>
    (case r of Inl e \<Rightarrow> r2 = Inl e | Inr x \<Rightarrow> \<exists>n. r2 = Inr n \<and> int (unat n) = \<lfloor>100 * x\<rfloor>)"
proof -
  obtain q d1 s1 where raw: "bh1750_read_raw I d s = (q, d1, s1)" by (metis prod_cases3)
  show ?thesis
    using assms exact_lux [of _ "bh_mode_of d1"] by (cases q) (auto simp: bh1750_read_lux_def bh1750_read_lux_x100_def raw)
qed

end
