(* ===== verification/MatterThread.thy ===== *)
theory MatterThread
  imports Matter CText
begin

text \<open>
  The Thread start-up of \<open>app/matter/matter_hub_core.c\<close>, compiled when OpenThread and its automatic start
  are configured.  OpenThread is the SDK's: its answers are arguments, and \<open>th_runs\<close> counts the calls of
  \<open>openthread_run\<close>.  A role is the SDK's number; the role changes are only logged, and \<open>th_log\<close> is that log.
\<close>

definition ot_role_str :: "nat \<Rightarrow> cstr" where
  "ot_role_str role = (if role = 0 then str ''disabled'' else if role = 1 then str ''detached''
     else if role = 2 then str ''child'' else if role = 3 then str ''router''
     else if role = 4 then str ''leader'' else str ''unknown'')"

record thread_net =
  th_callback :: bool
  th_up :: bool
  th_runs :: nat
  th_log :: "cstr list"

definition thread_boot :: thread_net where
  "thread_boot = \<lparr>th_callback = False, th_up = False, th_runs = 0, th_log = []\<rparr>"

text \<open>\<open>OT_CHANGED_THREAD_ROLE\<close> is bit 2 of the flags; None is a missing instance.\<close>

definition ot_state_changed :: "u32 \<Rightarrow> nat option \<Rightarrow> thread_net \<Rightarrow> thread_net" where
  "ot_state_changed flags role t = (if flags AND 0x04 \<noteq> 0
     then (case role of None \<Rightarrow> t | Some r \<Rightarrow> t\<lparr>th_log := th_log t @ [ot_role_str r]\<rparr>) else t)"

definition thread_start :: "int \<Rightarrow> int \<Rightarrow> thread_net \<Rightarrow> thread_net" where
  "thread_start reg run t =
     (let t = (if reg = 0 then t\<lparr>th_callback := True\<rparr> else t); t = t\<lparr>th_runs := th_runs t + 1\<rparr>
      in if run \<noteq> 0 then t else t\<lparr>th_up := True\<rparr>)"

text \<open>\<open>matter_hub_init\<close> with its last step; \<open>auto\<close> is the build option.\<close>

definition hub_thread_init ::
  "'v nvs_api \<Rightarrow> bool \<Rightarrow> int \<Rightarrow> int \<Rightarrow> 'v hub \<times> thread_net \<Rightarrow> int \<times> 'v hub \<times> thread_net" where
  "hub_thread_init N auto reg run ht = (case ht of (h, t) \<Rightarrow>
     if s_inited h then (0, h, t)
     else case matter_hub_init N h of (rc, h) \<Rightarrow>
       (rc, h, if rc = 0 \<and> auto then thread_start reg run t else t))"

lemma hub_init_flag:
  "matter_hub_init N h = (rc, h') \<Longrightarrow> \<not> s_inited h \<Longrightarrow> s_inited h' \<longleftrightarrow> rc = 0"
  by (auto simp: matter_hub_init_def persist_prefs_def Let_def split: prod.splits if_splits)

fun hub_inits :: "'v nvs_api \<Rightarrow> bool \<Rightarrow> (int \<times> int) list \<Rightarrow> 'v hub \<times> thread_net \<Rightarrow> 'v hub \<times> thread_net" where
  "hub_inits N auto [] ht = ht"
| "hub_inits N auto ((reg, run) # xs) ht = hub_inits N auto xs (snd (hub_thread_init N auto reg run ht))"

text \<open>However often the hub is initialised, OpenThread is run at most once, and exactly when an
  initialisation has succeeded; when that run fails it is never tried again.\<close>

lemma thread_runs_once:
  assumes "th_runs t = of_bool (auto \<and> s_inited h)" "hub_inits N auto xs (h, t) = (h', t')"
  shows "th_runs t' = of_bool (auto \<and> s_inited h')"
  using assms
proof (induction xs arbitrary: h t)
  case (Cons x xs)
  obtain reg run where x: "x = (reg, run)" by force
  obtain rc h1 t1 where s: "hub_thread_init N auto reg run (h, t) = (rc, h1, t1)" by (metis prod_cases3)
  have "th_runs t1 = of_bool (auto \<and> s_inited h1)"
    using s Cons.prems(1) hub_init_flag [of N h]
    by (auto simp: hub_thread_init_def thread_start_def Let_def split: prod.splits if_splits)
  then show ?case using Cons.IH Cons.prems(2) by (simp add: x s)
qed simp

end
