(* ===== verification/TcpUpdate.thy ===== *)
theory TcpUpdate
  imports AppFlow
begin

text \<open>
  An update requested over TCP, from the bytes the client's socket returns to the committed slot:
  the receive loop of \<open>app_tcp_client.c\<close>, the command of \<open>tcp_rx_cb\<close>, the start and the task of
  \<open>app_ota_http.c\<close> and the front-end \<open>app_ota.c\<close>.
\<close>

subsection \<open>The client's thread and the download's thread in the application\<close>

text \<open>The client hands every block it receives to \<open>tcp_rx_cb\<close>.\<close>

definition with_tcp :: "'e flash_api \<Rightarrow> bool \<Rightarrow> (tcp_client \<Rightarrow> tcp_client option) \<Rightarrow>
    ('v, 'n, 'e) app \<Rightarrow> ('v, 'n, 'e) app option" where
  "with_tcp E created f a = map_option (\<lambda>c. fold (tcp_rx_cb E created) (drop (length (c_rx (a_tcp a))) (c_rx c))
     (a\<lparr>a_tcp := c\<rparr>)) (f (a_tcp a))"

definition run_download :: "'n net_api \<Rightarrow> 'e flash_api \<Rightarrow> ('v, 'n, 'e) app \<Rightarrow> ('v, 'n, 'e) app option" where
  "run_download N E a = map_option (\<lambda>h. a\<lparr>a_http := h\<rparr>) (http_task N E (a_http a))"

text \<open>A download may start afresh: the front-end is not set up yet, or it holds no half-received image.\<close>

definition fresh_start :: "('e \<Rightarrow> u8 list) \<Rightarrow> ('n, 'e) http \<Rightarrow> bool" where
  "fresh_start c h \<longleftrightarrow> ota_inv (ota h) \<and> (s_ota_core_inited h \<longrightarrow> session_inv c (ota h) \<and> resume_point (ota h) = 0)"

lemma core_started:
  assumes "fresh_start c h" "flash_laws E c"
  obtains h' where "start_core E h = (OTA_OK, h')" "ota_ok E c (ota h')" "resume_point (ota h') = 0"
    "net h' = net h" "hdrbuf h' = hdrbuf h" "s_running h' = s_running h"
proof (cases "s_ota_core_inited h")
  case True
  then show ?thesis using assms that by (auto simp: fresh_start_def start_core_def ota_ok_def)
next
  case False
  obtain o' where i: "app_ota_init E False (ota h) = (OTA_OK, o')" by (simp add: app_ota_init_def Let_def)
  have "session_inv c o'" "st o' = zero_status"
    using i assms init_refines [of "ota h" c E False] by (auto simp: fresh_start_def app_ota_init_def Let_def)
  then show ?thesis using that [of "h\<lparr>ota := o', s_ota_core_inited := True\<rparr>"] False i assms(2)
    by (simp add: start_core_def ota_ok_def resume_point_def app_ota_get_status_def zero_status_def)
qed

text \<open>A block \<open>OTA:<url>\<close>, with or without \<open> --commit\<close> and with any line ends behind it, starts the
  download of exactly that URL; nothing else of the application changes.\<close>

lemma tcp_ota_starts:
  assumes "plain_url url" "\<forall>c \<in> set tail. ota_trailing c" "parse_url (Some url) = Inr u"
    and "\<not> s_running (a_http a)" "start_core E (a_http a) = (OTA_OK, h)"
  shows "tcp_rx_cb E True (str ''OTA:'' @ url @ (if auto then str '' --commit'' else []) @ tail) a =
    a\<lparr>a_http := h\<lparr>s_image_url := url, s_has_header_url := False, s_header_url := [], s_auto_commit := auto,
      s_running := True, s_state := RESOLVING\<rparr>\<rparr>"
proof -
  have l: "length url \<le> 240" using assms(1) by (simp add: plain_url_def)
  show ?thesis
    using assms(3-5) l unfolding tcp_rx_cb_def ota_command_parses [OF assms(1,2)]
    by (simp add: app_ota_http_is_running_def app_ota_http_start_def start_urls_def Let_def)
qed

subsection \<open>Property\<close>

text \<open>C1: A firmware update over TCP works from the socket to the slot.  The client's task, in its
  receive loop, gets a block \<open>OTA:<url>\<close> with a well-formed URL that fits, with or without
  \<open> --commit\<close>, any line ends behind it; no download is running and none is half done.  When the
  server then answers 200 with a Content-Length and that many bytes, in whatever pieces, and the
  flash works and is large enough, the download thread runs to DONE: with \<open>--commit\<close> the slot
  starts with exactly the body, the upgrade is marked and the reboot scheduled, without it the
  front-end holds exactly the body and waits for a commit.  The client keeps receiving.\<close>

theorem tcp_update_commits:
  assumes "i < length (c_tasks (a_tcp a))" "c_tasks (a_tcp a) ! i = TRecv s" "c_cb (a_tcp a)"
    and "d = str ''OTA:'' @ url @ (if auto then str '' --commit'' else []) @ tail" "length d \<le> 512"
    and "plain_url url" "\<forall>c \<in> set tail. ota_trailing c" "parse_url (Some url) = Inr u"
    and "\<not> s_running (a_http a)" "fresh_start c (a_http a)" "length (hdrbuf (a_http a)) = 1024"
    and "serves N src" "flash_works E c n" "inet_pton N (host u)"
    and "src (net (a_http a)) = ok_head 200 n @ body @ rest" "length body = unat n" "n \<noteq> 0"
  shows "\<exists>a1 a2. with_tcp E True (c_step (CTask i (ERecv d))) a = Some a1 \<and> run_download N E a1 = Some a2 \<and>
    c_tasks (a_tcp a2) = c_tasks (a_tcp a) \<and> c_rx (a_tcp a2) = c_rx (a_tcp a) @ [d] \<and>
    s_image_url (a_http a1) = url \<and> s_state (a_http a2) = DONE \<and> \<not> s_running (a_http a2) \<and>
    (if auto then state (st (ota (a_http a2))) = OTA_COMMITTED \<and>
       take (length body) (c (Ota.env (ota (a_http a2)))) = body \<and> reboot_scheduled (ota (a_http a2))
     else session_inv c (ota (a_http a2)) \<and> session_of c (ota (a_http a2)) = Receiving n body)"
proof -
  let ?c = "(a_tcp a)\<lparr>c_rx := c_rx (a_tcp a) @ [d], c_tasks := (c_tasks (a_tcp a))[i := TRecv s]\<rparr>"
  have ne: "d \<noteq> []" using assms(4) by simp
  have t: "(c_tasks (a_tcp a))[i := TRecv s] = c_tasks (a_tcp a)"
    using assms(2) by (metis list_update_id)
  have 1: "c_step (CTask i (ERecv d)) (a_tcp a) = Some ?c"
    using assms(1-3,5) ne by simp
  have F: "flash_laws E c" using assms(13) by (simp add: flash_works_def)
  obtain h where h: "start_core E (a_http a) = (OTA_OK, h)" "ota_ok E c (ota h)" "resume_point (ota h) = 0"
    "net h = net (a_http a)" "hdrbuf h = hdrbuf (a_http a)"
    using core_started [OF assms(10) F] by metis
  let ?h = "h\<lparr>s_image_url := url, s_has_header_url := False, s_header_url := [], s_auto_commit := auto,
      s_running := True, s_state := RESOLVING\<rparr>"
  have 2: "with_tcp E True (c_step (CTask i (ERecv d))) a = Some (a\<lparr>a_tcp := ?c, a_http := ?h\<rparr>)"
    using tcp_ota_starts [OF assms(6-8), of "a\<lparr>a_tcp := ?c\<rparr>" E h auto] assms(9) h(1) 1
    by (simp add: with_tcp_def assms(4))
  have u: "length url \<le> 240" using assms(6) by (simp add: plain_url_def)
  obtain h' where "http_task N E ?h = Some h'" "s_state h' = DONE" "\<not> s_running h'"
    "if auto then state (st (ota h')) = OTA_COMMITTED \<and> take (length body) (c (Ota.env (ota h'))) = body \<and>
       reboot_scheduled (ota h')
     else session_inv c (ota h') \<and> session_of c (ota h') = Receiving n body"
    using download_ends [OF assms(12,13), of ?h u body rest] h assms(8,11,14-17) u by auto
  then show ?thesis using 2 t by (simp add: run_download_def)
qed

text \<open>An application that listens to its server, and a download that can start.\<close>

definition listening_app :: "u8 list \<Rightarrow> (nat \<Rightarrow> u8 list option, u8 list, u8 list) app" where
  "listening_app n = demo_app\<lparr>a_tcp := tcp_client_boot\<lparr>c_running := True, c_connected := True, c_sock := 3, c_cb := True,
     c_tasks := [TRecv 3]\<rparr>, a_http := (demo_task n)\<lparr>s_running := False\<rparr>\<rparr>"

lemma tcp_update_commits_witness:
  "\<exists>a1 a2. with_tcp demo_flash True (c_step (CTask 0 (ERecv (str ''OTA:http://10.0.0.1/a --commit'' @ [13, 10]))))
      (listening_app (ok_head 200 2 @ [7, 8] @ [9])) = Some a1 \<and>
    run_download demo_net demo_flash a1 = Some a2 \<and> s_state (a_http a2) = DONE \<and>
    take 2 (Ota.env (ota (a_http a2))) = [7, 8]"
proof -
  let ?a = "listening_app (ok_head 200 2 @ [7, 8] @ [9])"
  have S: "serves demo_net (\<lambda>n. n)"
    unfolding serves_def using demo_net_live by (auto simp: demo_net_def)
  have F: "flash_works demo_flash (\<lambda>e. e) 2"
    unfolding flash_works_def using demo_flash_laws by (auto simp: demo_flash_def flash_writes_ok_def)
  have O: "fresh_start (\<lambda>e. e) (a_http ?a)"
    using demo_started_ok
    by (simp add: fresh_start_def listening_app_def demo_task_def demo_http_def resume_point_def app_ota_get_status_def
        demo_defs ota_ok_def session_inv_def)
  have C: "0 < length (c_tasks (a_tcp ?a))" "c_tasks (a_tcp ?a) ! 0 = TRecv 3" "c_cb (a_tcp ?a)"
    "\<not> s_running (a_http ?a)" "length (hdrbuf (a_http ?a)) = 1024" "net (a_http ?a) = ok_head 200 2 @ [7, 8] @ [9]"
    by (simp_all add: listening_app_def demo_task_def demo_http_def)
  have D: "str ''OTA:http://10.0.0.1/a --commit'' @ [13, 10] =
      str ''OTA:'' @ str ''http://10.0.0.1/a'' @ (if True then str '' --commit'' else []) @ [13, 10]"
    "length (str ''OTA:http://10.0.0.1/a --commit'' @ [13, 10 :: u8]) \<le> 512"
    "length [7, 8 :: u8] = unat (2 :: u32)" "(2 :: u32) \<noteq> 0"
    by simp_all
  have u: "plain_url (str ''http://10.0.0.1/a'')" by (simp add: plain_url_def ota_trailing_def c8_def)
  have t: "\<forall>c \<in> set [13, 10]. ota_trailing c" by (simp add: ota_trailing_def)
  have U: "parse_url (Some (str ''http://10.0.0.1/a'')) = Inr \<lparr>host = str ''10.0.0.1'', path = str ''/a'', port = 80\<rparr>"
    by (simp add: parse_url_def split_authority_def starts_def Let_def c8_def)
  have P: "inet_pton demo_net (host \<lparr>host = str ''10.0.0.1'', path = str ''/a'', port = 80\<rparr>)"
    by (simp add: demo_net_def)
  from tcp_update_commits [OF C(1-3) D(1,2) u t U C(4) O C(5) S F P C(6) D(3,4)]
  show ?thesis by (auto simp: numeral_2_eq_2)
qed

end
