(* ===== verification/ProvHistory.thy ===== *)
theory ProvHistory
  imports Prov
begin

text \<open>
  Provisioning over time: any sequence of accesses of the phone and restarts of the device, with a
  flash that may refuse any write, any erase and any mount.  The abstract machine is the notebook
  a phone could keep from the answers and notifications alone.  Two answers leave it in doubt,
  because the code hides a failure behind them: the IDLE of a reset, whose erase may have failed,
  and a restart, whose mount may have failed; there the notebook keeps both possibilities.
\<close>

subsection \<open>The service as one operation\<close>

datatype prov_char = ChSsid | ChPass | ChSec | ChHost | ChPort | ChCommit

fun prov_write :: "'v nvs_api \<Rightarrow> prov_char \<Rightarrow> nat \<Rightarrow> u8 list \<Rightarrow> 'v prov \<Rightarrow> write_result \<times> 'v prov" where
  "prov_write N ChSsid = write_ssid"
| "prov_write N ChPass = write_pass"
| "prov_write N ChSec = write_sec"
| "prov_write N ChHost = write_host"
| "prov_write N ChPort = write_port"
| "prov_write N ChCommit = write_commit N"

datatype prov_op = OpWrite prov_char nat "u8 list" | OpRestart bool

text \<open>The answer to an access and the states notified during it.\<close>

type_synonym prov_answer = "write_result \<times> u8 list"

definition prov_restart :: "'v nvs_api \<Rightarrow> bool \<Rightarrow> 'v prov \<Rightarrow> 'v prov" where
  "prov_restart N cb p = snd (app_prov_init N cb
     (p\<lparr>staging := zero_nvram, p_state := PROV_IDLE, p_cb := False, pflash := nvs_reboot (pflash p)\<rparr>))"

fun prov_exec :: "'v nvs_api \<Rightarrow> prov_op \<Rightarrow> 'v prov \<Rightarrow> prov_answer \<times> 'v prov" where
  "prov_exec N (OpWrite ch off b) p =
     (case prov_write N ch off b p of (r, p') \<Rightarrow> ((r, drop (length (p_notified p)) (p_notified p')), p'))"
| "prov_exec N (OpRestart cb) p = ((Inr 0, []), prov_restart N cb p)"

fun prov_run :: "'v nvs_api \<Rightarrow> prov_op list \<Rightarrow> 'v prov \<Rightarrow> prov_answer list \<times> 'v prov" where
  "prov_run N [] p = ([], p)"
| "prov_run N (x # xs) p = (case prov_exec N x p of (a, p) \<Rightarrow> map_prod (Cons a) id (prov_run N xs p))"

subsection \<open>The notebook of the phone\<close>

text \<open>What the phone takes to be staged and to be stored.\<close>

type_synonym belief = "app_nvram_data \<times> app_nvram_data option"

fun note_field :: "prov_char \<Rightarrow> u8 list \<Rightarrow> app_nvram_data \<Rightarrow> app_nvram_data" where
  "note_field ChSsid b d = d\<lparr>ssid := field 32 b\<rparr>"
| "note_field ChPass b d = d\<lparr>password := field 64 b\<rparr>"
| "note_field ChSec b d = d\<lparr>security := field 16 b\<rparr>"
| "note_field ChHost b d = d\<lparr>host_ip := field 64 b\<rparr>"
| "note_field ChPort b d = d\<lparr>nport := le16 (b ! 0) (b ! 1)\<rparr>"
| "note_field ChCommit b d = d"

text \<open>What a restart stages.\<close>

definition reloaded :: "app_nvram_data option \<Rightarrow> app_nvram_data" where
  "reloaded held = (case held of None \<Rightarrow> zero_nvram | Some d \<Rightarrow> d)"

text \<open>An accepted field is staged; COMMITTED means the staged record is stored; IDLE and a restart are
  taken at their word by a trusting phone, a careful one also keeps the case that the flash has
  failed.\<close>

fun noted :: "bool \<Rightarrow> prov_op \<Rightarrow> prov_answer \<Rightarrow> belief \<Rightarrow> belief list" where
  "noted careful (OpWrite ch off b) (Inl e, ns) w = [w]"
| "noted careful (OpWrite ch off b) (Inr k, ns) (d, st) =
     (if ch \<noteq> ChCommit then [(note_field ch b d, st)]
      else if ns = [PROV_COMMITTED] then [(d, Some ((terminated d)\<lparr>npad := 0\<rparr>))]
      else if ns = [PROV_IDLE] then (zero_nvram, None) # (if careful then [(zero_nvram, st)] else [])
      else [(d, st)])"
| "noted careful (OpRestart cb) a (d, st) = (reloaded st, st) # (if careful then [(zero_nvram, st)] else [])"

fun notes_of :: "bool \<Rightarrow> prov_op list \<Rightarrow> prov_answer list \<Rightarrow> belief \<Rightarrow> belief list" where
  "notes_of careful (x # xs) (a # as) w = concat (map (notes_of careful xs as) (noted careful x a w))"
| "notes_of careful _ _ w = [w]"

text \<open>The answers after which nothing is in doubt.\<close>

definition plain_talk :: "prov_op list \<Rightarrow> prov_answer list \<Rightarrow> bool" where
  "plain_talk ops as \<longleftrightarrow> list_all (\<lambda>x. case x of OpWrite _ _ _ \<Rightarrow> True | OpRestart _ \<Rightarrow> False) ops \<and>
     list_all (\<lambda>a. snd a \<noteq> [PROV_IDLE]) as"

subsection \<open>The flash\<close>

text \<open>The laws of the store; besides, reading nothing leaves the buffer alone, and a delete that fails
  leaves the entry or removes it.\<close>

definition flash_laws :: "'v nvs_api \<Rightarrow> ('v \<Rightarrow> nat \<Rightarrow> u8 list option) \<Rightarrow> bool" where
  "flash_laws N entry \<longleftrightarrow> nvs_laws N entry \<and> (\<forall>i n v. entry v i = None \<longrightarrow> snd (nvs_read N i n v) = []) \<and>
     (\<forall>i v. entry (snd (nvs_delete N i v)) = entry v \<or> entry (snd (nvs_delete N i v)) = (entry v)(i := None))"

text \<open>A flash that always mounts and always erases.\<close>

definition flash_serves :: "'v nvs_api \<Rightarrow> bool" where
  "flash_serves N \<longleftrightarrow> (\<forall>i v. fst (nvs_delete N i v) = 0 \<or> fst (nvs_delete N i v) = - ENOENT) \<and>
     (\<forall>v. storage_ready N v) \<and> (\<forall>off v. fst (page_info N off v) = 0) \<and>
     (\<forall>off sz k v. fst (nvs_mount N off sz k v) = 0)"

text \<open>The store, mounted or not, holds a record of the right length or none.\<close>

definition store_ok :: "('v \<Rightarrow> nat \<Rightarrow> u8 list option) \<Rightarrow> 'v nvs \<Rightarrow> bool" where
  "store_ok entry s \<longleftrightarrow> (\<forall>b. entry (nv s) 1 = Some b \<longrightarrow> length b = 184)"

lemma serves_mounts: "flash_serves N \<Longrightarrow> \<exists>f'. app_nvs_init N f = (0, f')"
  by (cases "page_info N (partition_off N) (nv f)")
     (auto simp: flash_serves_def app_nvs_init_def Let_def split: prod.split dest: spec, (metis fst_conv)+)

lemma opened:
  assumes "flash_laws N entry" "store_ok entry s" "app_nvs_init N s = (rc, s1)"
  shows "store_ok entry s1" "creds_held entry s1 = creds_held entry s" "rc = 0 \<Longrightarrow> creds_good entry N s1"
  using assms nvs_init_keeps [of N entry s rc s1] nvs_init_mounts [of N s s1]
  by (auto simp: flash_laws_def store_ok_def creds_held_def creds_good_def)

lemma good_store: "creds_good entry N s \<Longrightarrow> store_ok entry s"
  by (simp add: creds_good_def store_ok_def)

lemma creds_unsaved:
  assumes "creds_good entry N s" "app_nvram_save N d s = (rc, s')" "rc \<noteq> NVRAM_OK"
  shows "creds_good entry N s' \<and> creds_held entry s' = creds_held entry s"
proof -
  obtain k v where w: "nvs_write N 1 (nvram_bytes ((terminated d)\<lparr>npad := 0\<rparr>)) (nv s) = (k, v)" by force
  have m: "mounted s" "nvs_laws N entry" using assms(1) by (simp_all add: creds_good_def)
  have "k < 0" "s' = s\<lparr>nv := v\<rparr>"
    using assms(2,3) w m(1) by (auto simp: app_nvram_save_def nvs_init_again split: if_splits)
  then show ?thesis using nvs_write_fail [OF m(2) w] assms(1) by (simp add: creds_good_def creds_held_def)
qed

lemma save_after_init: "app_nvs_init N f = (0, f1) \<Longrightarrow> app_nvram_save N d f = app_nvram_save N d f1"
  by (simp add: app_nvram_save_def nvs_init_again nvs_init_mounts)

lemma save_cases:
  assumes "flash_laws N entry" "store_ok entry s" "nvram_shape d" "app_nvram_save N d s = (rc, s')"
  shows "store_ok entry s' \<and>
    creds_held entry s' = (if rc = NVRAM_OK then Some ((terminated d)\<lparr>npad := 0\<rparr>) else creds_held entry s)"
proof -
  obtain k s1 where i: "app_nvs_init N s = (k, s1)" by force
  note o1 = opened [OF assms(1,2) i]
  show ?thesis
  proof (cases "k = 0")
    case True
    then have sv: "app_nvram_save N d s1 = (rc, s')" using assms(4) save_after_init i by metis
    show ?thesis using creds_saved [OF o1(3) assms(3), of s'] creds_unsaved [OF o1(3) sv] True sv o1(2)
      by (auto intro: good_store)
  qed (use assms(4) i o1 in \<open>auto simp: app_nvram_save_def\<close>)
qed

lemma reset_cases:
  assumes "flash_laws N entry" "store_ok entry s" "app_nvram_reset N s = (rc, s')"
  shows "store_ok entry s'" "creds_held entry s' = None \<or> creds_held entry s' = creds_held entry s"
    "flash_serves N \<Longrightarrow> creds_held entry s' = None"
proof -
  obtain k s1 where i: "app_nvs_init N s = (k, s1)" by force
  obtain q v where d: "nvs_delete N 1 (nv s1) = (q, v)" by force
  note o1 = opened [OF assms(1,2) i]
  have e: "entry v = entry (nv s1) \<or> entry v = (entry (nv s1))(1 := None)"
    using assms(1) d unfolding flash_laws_def by (metis snd_conv)
  show "store_ok entry s'" "creds_held entry s' = None \<or> creds_held entry s' = creds_held entry s"
    using assms(3) i d o1(1,2) e by (auto simp: app_nvram_reset_def store_ok_def creds_held_def split: if_splits)
  assume S: "flash_serves N"
  then have "k = 0" "q = 0 \<or> q = - ENOENT"
    using serves_mounts [OF S, of s] i d unfolding flash_serves_def by (auto, metis fst_conv)
  moreover have "nvs_laws N entry" using assms(1) by (simp add: flash_laws_def)
  ultimately show "creds_held entry s' = None"
    using assms(3) i d nvs_delete_law [of N entry 1 "nv s1" q v] by (auto simp: app_nvram_reset_def creds_held_def)
qed

text \<open>A load reads back what is held, or nothing.\<close>

lemma load_held:
  assumes "flash_laws N entry" "creds_good entry N f"
  shows "\<exists>rc. app_nvram_load N zero_nvram f = (rc, reloaded (creds_held entry f), f)"
proof (cases "creds_held entry f")
  case (Some d)
  then show ?thesis using creds_loaded [OF assms(2) Some, of zero_nvram] by (simp add: reloaded_def)
next
  case None
  obtain r b where r: "nvs_read N 1 184 (nv f) = (r, b)" by force
  have "entry (nv f) 1 = None" using None by (simp add: creds_held_def)
  then have "b = []" "r = - ENOENT"
    using assms r nvs_read_law(2) [of N entry "nv f" 1 184] by (auto simp: flash_laws_def) (metis snd_conv)
  then have "app_nvram_load N zero_nvram f = (NVRAM_NO_RECORD, zero_nvram, f)"
    using r assms(2) by (simp add: app_nvram_load_def creds_good_def nvs_init_again Let_def overlay_def nvram_of_nvram_bytes)
  then show ?thesis using None by (simp add: reloaded_def)
qed

lemma load_cases:
  assumes "flash_laws N entry" "store_ok entry s" "app_nvram_load N zero_nvram s = (rc, d, s')"
  shows "store_ok entry s'" "creds_held entry s' = creds_held entry s"
    "d = reloaded (creds_held entry s) \<or> d = zero_nvram" "flash_serves N \<Longrightarrow> d = reloaded (creds_held entry s)"
proof -
  obtain k s1 where i: "app_nvs_init N s = (k, s1)" by force
  note o1 = opened [OF assms(1,2) i]
  have "(k \<noteq> 0 \<longrightarrow> d = zero_nvram \<and> s' = s1) \<and> (k = 0 \<longrightarrow> d = reloaded (creds_held entry s) \<and> s' = s1)"
    using assms(3) i load_held [OF assms(1) o1(3)] load_after_init [of N s s1 zero_nvram] o1(2)
    by (auto simp: app_nvram_load_def)
  then show "store_ok entry s'" "creds_held entry s' = creds_held entry s"
    "d = reloaded (creds_held entry s) \<or> d = zero_nvram" "flash_serves N \<Longrightarrow> d = reloaded (creds_held entry s)"
    using o1 i serves_mounts [of N s] by auto
qed

subsection \<open>The refinement\<close>

text \<open>What the device has staged and stored.\<close>

definition held_by :: "('v \<Rightarrow> nat \<Rightarrow> u8 list option) \<Rightarrow> 'v prov \<Rightarrow> belief" where
  "held_by entry p = (staging p, creds_held entry (pflash p))"

definition prov_ok :: "('v \<Rightarrow> nat \<Rightarrow> u8 list option) \<Rightarrow> 'v prov \<Rightarrow> bool" where
  "prov_ok entry p \<longleftrightarrow> store_ok entry (pflash p) \<and> nvram_shape (staging p)"

lemma field_accepted: "write_string_field m off b = Inr x \<Longrightarrow> x = field m b"
  by (auto simp: write_string_field_def field_def blit_def simp del: replicate_Suc split: if_splits)

lemma exec_noted:
  assumes "flash_laws N entry" "prov_ok entry p" "prov_exec N x p = (a, p')"
    and "careful \<or> flash_serves N"
  shows "prov_ok entry p' \<and> held_by entry p' \<in> set (noted careful x a (held_by entry p))"
proof (cases x)
  case (OpRestart cb)
  obtain rc d f where l: "app_nvram_load N zero_nvram (nvs_reboot (pflash p)) = (rc, d, f)" by (metis prod_cases3)
  have "store_ok entry (nvs_reboot (pflash p))" using assms(2) by (simp add: prov_ok_def store_ok_def)
  note c = load_cases [OF assms(1) this l] load_shape [OF zero_shape l]
  have h: "creds_held entry (nvs_reboot (pflash p)) = creds_held entry (pflash p)" by (simp add: creds_held_def)
  have "p' = p\<lparr>p_cb := cb, p_state := PROV_IDLE, staging := d, pflash := f\<rparr>"
    using assms(3) l OpRestart by (simp add: prov_restart_def app_prov_init_def)
  then show ?thesis using assms(4) c h OpRestart by (auto simp: prov_ok_def held_by_def)
next
  case (OpWrite ch off b)
  obtain r where w: "prov_write N ch off b p = (r, p')" "a = (r, drop (length (p_notified p)) (p_notified p'))"
    using assms(3) OpWrite by (auto split: prod.splits)
  show ?thesis
  proof (cases "ch = ChCommit")
    case False
    have f: "y = field m c \<and> length (field m c) = Suc m" if "write_string_field m off c = Inr y" for m c y
      using field_accepted [OF that] field_length [OF that] by simp
    show ?thesis using assms(2) w OpWrite False
      by (cases ch) (auto simp: prov_ok_def held_by_def write_ssid_def write_pass_def write_sec_def write_host_def write_port_def
          stage_def nvram_shape_def dest!: f split: sum.splits if_splits)
  next
    case True
    obtain rc g where sv: "app_nvram_save N (staging p) (pflash p) = (rc, g)" by force
    obtain rr e where rs: "app_nvram_reset N (pflash p) = (rr, e)" by force
    have A: "store_ok entry (pflash p)" "nvram_shape (staging p)" using assms(2) by (simp_all add: prov_ok_def)
    note S = save_cases [OF assms(1) A sv] reset_cases [OF assms(1) A(1) rs]
    show ?thesis using assms(2,4) w OpWrite True sv rs S
      by (cases "rc = NVRAM_OK")
         (auto simp: prov_ok_def held_by_def write_commit_def app_prov_set_state_def Let_def split: if_splits)
  qed
qed

lemma run_noted:
  "flash_laws N entry \<Longrightarrow> prov_ok entry p \<Longrightarrow> prov_run N ops p = (as, p') \<Longrightarrow> careful \<or> flash_serves N \<Longrightarrow>
   prov_ok entry p' \<and> held_by entry p' \<in> set (notes_of careful ops as (held_by entry p))"
proof (induction ops arbitrary: p as)
  case (Cons x xs)
  obtain a p1 where x: "prov_exec N x p = (a, p1)" by (cases "prov_exec N x p")
  obtain as1 where r: "prov_run N xs p1 = (as1, p')" "as = a # as1" using Cons.prems(3) x by (cases "prov_run N xs p1") auto
  note e = exec_noted [OF Cons.prems(1,2) x Cons.prems(4)]
  show ?case using Cons.IH [OF Cons.prems(1) _ r(1) Cons.prems(4)] e r(2) by auto
qed simp

text \<open>A trusting phone has one belief, and so has a careful one while nothing is in doubt.\<close>

lemma trusting_one: "length (notes_of False ops as w) = 1"
proof (induction "False" ops as w rule: notes_of.induct)
  case (1 x xs a as w)
  have "length (noted False x a w) = 1" by (cases "(False, x, a, w)" rule: noted.cases) auto
  then obtain w1 where "noted False x a w = [w1]" by (auto simp: length_Suc_conv)
  then show ?case using 1 by simp
qed auto

lemma plain_one: "plain_talk ops as \<Longrightarrow> length (notes_of careful ops as w) = 1"
proof (induction careful ops as w rule: notes_of.induct)
  case (1 careful x xs a as w)
  have "length (noted careful x a w) = 1" using "1.prems"
    by (cases "(careful, x, a, w)" rule: noted.cases) (auto simp: plain_talk_def)
  then obtain w1 where "noted careful x a w = [w1]" by (auto simp: length_Suc_conv)
  then show ?case using 1 by (simp add: plain_talk_def)
qed auto

lemma the_one: "x \<in> set ws \<Longrightarrow> length ws = 1 \<Longrightarrow> ws = [x]"
  by (auto simp: length_Suc_conv)

subsection \<open>Properties\<close>

text \<open>C7: What a phone can know of the store.  Over any sequence of writes to the six characteristics,
  right or wrong, and of restarts, with a flash that may refuse any write, any erase and any mount:
  what is staged and what is stored on the device is among the beliefs of a careful phone, which
  keeps both cases after the IDLE of a reset (the code ignores a failed erase) and after a restart
  (it ignores a failed mount); a start that mounts the flash loads exactly what is stored.  While
  no reset is answered and no restart happens the phone has one belief and it is exact; and with a
  flash that always mounts and erases so has the trusting phone, over any sequence.\<close>

theorem phone_knows_store:
  assumes "flash_laws N entry" "creds_good entry N (pflash p)" "nvram_shape (staging p)" "prov_run N ops p = (as, p')"
  shows "held_by entry p' \<in> set (notes_of True ops as (held_by entry p)) \<and>
    (plain_talk ops as \<longrightarrow> notes_of True ops as (held_by entry p) = [held_by entry p']) \<and>
    (flash_serves N \<longrightarrow> notes_of False ops as (held_by entry p) = [held_by entry p']) \<and>
    (\<forall>f. app_nvs_init N (nvs_reboot (pflash p')) = (0, f) \<longrightarrow>
      (case snd (held_by entry p') of
         None \<Rightarrow> fst (app_nvram_load N out (nvs_reboot (pflash p'))) = NVRAM_NO_RECORD
       | Some d \<Rightarrow> app_nvram_load N out (nvs_reboot (pflash p')) = (NVRAM_OK, d, f)))"
proof -
  have p: "prov_ok entry p" using assms(2,3) by (simp add: prov_ok_def good_store)
  note R = run_noted [OF assms(1) p assms(4)]
  have ok: "store_ok entry (nvs_reboot (pflash p'))" using R [of True] by (simp add: prov_ok_def store_ok_def)
  have h: "creds_held entry (nvs_reboot (pflash p')) = creds_held entry (pflash p')" by (simp add: creds_held_def)
  have "case creds_held entry (pflash p') of
      None \<Rightarrow> fst (app_nvram_load N out (nvs_reboot (pflash p'))) = NVRAM_NO_RECORD
    | Some d \<Rightarrow> app_nvram_load N out (nvs_reboot (pflash p')) = (NVRAM_OK, d, f)"
    if i: "app_nvs_init N (nvs_reboot (pflash p')) = (0, f)" for f
    using opened [OF assms(1) ok i] h creds_nothing [of entry N f out] creds_loaded [of entry N f _ out]
      load_after_init [OF i, of out] by (simp split: option.split)
  then show ?thesis
    using R [of True] R [of False] the_one [OF _ plain_one, of "held_by entry p'" True ops as]
      the_one [OF _ trusting_one, of "held_by entry p'" ops as] by (simp add: held_by_def)
qed

text \<open>A flash that cannot erase.\<close>

definition stuck_nvs :: "(nat \<Rightarrow> u8 list option) nvs_api" where
  "stuck_nvs = demo_nvs\<lparr>nvs_delete := (\<lambda>i v. (- EIO, v))\<rparr>"

lemma stuck_laws: "flash_laws stuck_nvs (\<lambda>v. v)"
  using demo_nvs_laws by (auto simp: flash_laws_def nvs_laws_def stuck_nvs_def demo_nvs_def)

text \<open>A phone that resets such a device: the record that was stored is one of its two beliefs, and the
  one that is true.\<close>

lemma phone_knows_store_witness:
  "\<exists>d as p p'. prov_run stuck_nvs [OpWrite ChCommit 0 [0xFF]] p = (as, p') \<and> as = [(Inr 1, [PROV_IDLE])] \<and>
    held_by (\<lambda>v. v) p' = (zero_nvram, Some d) \<and>
    held_by (\<lambda>v. v) p' \<in> set (notes_of True [OpWrite ChCommit 0 [0xFF]] as (zero_nvram, Some d)) \<and>
    fst (app_nvram_load stuck_nvs zero_nvram (nvs_reboot (pflash p'))) = NVRAM_OK"
proof -
  let ?p = "demo_prov\<lparr>pflash := demo_store\<lparr>nv := [1 \<mapsto> replicate 184 0]\<rparr>\<rparr>"
  let ?d = "terminated (nvram_of_bytes (replicate 184 0))"
  have g: "creds_good (\<lambda>v. v) stuck_nvs (pflash ?p)" "nvram_shape (staging ?p)"
    using stuck_laws by (simp_all add: creds_good_def demo_store_def flash_laws_def demo_prov_def)
  obtain as p' where r: "prov_run stuck_nvs [OpWrite ChCommit 0 [0xFF]] ?p = (as, p')" by force
  have h: "held_by (\<lambda>v. v) ?p = (zero_nvram, Some ?d)"
    by (simp add: held_by_def creds_held_def demo_prov_def demo_store_def)
  have k: "as = [(Inr 1, [PROV_IDLE])]" "held_by (\<lambda>v. v) p' = (zero_nvram, Some ?d)"
    using r by (auto simp: write_commit_def app_nvram_reset_def app_nvs_init_def app_prov_set_state_def held_by_def creds_held_def
        demo_prov_def demo_store_def stuck_nvs_def)
  obtain f where i: "app_nvs_init stuck_nvs (nvs_reboot (pflash p')) = (0, f)"
    by (simp add: app_nvs_init_def nvs_reboot_def stuck_nvs_def demo_nvs_def)
  have "held_by (\<lambda>v. v) p' \<in> set (notes_of True [OpWrite ChCommit 0 [0xFF]] as (zero_nvram, Some ?d))"
    "fst (app_nvram_load stuck_nvs zero_nvram (nvs_reboot (pflash p'))) = NVRAM_OK"
    using phone_knows_store [OF stuck_laws g r, of zero_nvram] i k(2) unfolding h by simp_all
  then show ?thesis using r k by blast
qed

text \<open>Whatever the store, a delete that fails is announced as a reset.\<close>

lemma failed_reset_announced:
  assumes "creds_good entry N (pflash p)" "nvs_delete N 1 (nv (pflash p)) = (- EIO, nv (pflash p))"
  shows "\<exists>p'. prov_exec N (OpWrite ChCommit 0 [0xFF]) p = ((Inr 1, [PROV_IDLE]), p') \<and>
    creds_held entry (pflash p') = creds_held entry (pflash p)"
  using assms by (simp add: write_commit_def app_nvram_reset_def creds_good_def nvs_init_again app_prov_set_state_def creds_held_def)

end
