(* ===== verification/System.thy ===== *)
theory System
  imports TcpUpdate ProvHistory
begin

text \<open>
  The whole application as one transition system: every entry point of \<open>app_main_zephyr.c\<close> and of the
  components it owns, from the Bluetooth characteristics to the work queue, the network stack, the
  threads and the turn of the main loop, in any order.  The invariant of the components and of what
  passes between them, and what a lost Wi-Fi link means for the device, are proved over it.
\<close>

subsection \<open>Credentials on their way\<close>

text \<open>A record that is complete: it passes the check of the code and its arrays end in a terminator.\<close>

definition valid_creds :: "app_nvram_data \<Rightarrow> bool" where
  "valid_creds d \<longleftrightarrow> nvram_shape d \<and> app_nvram_is_valid d \<and> terminated d = d"

definition good_cfg :: "app_nvram_data \<Rightarrow> bool" where
  "good_cfg d \<longleftrightarrow> d = zero_nvram \<or> valid_creds d"

lemma cut_string:
  assumes "0 \<in> set b" "length b = Suc m"
  shows "cstring (b[m := 0]) = cstring b"
proof -
  obtain xs ys where b: "b = xs @ 0 # ys" "0 \<notin> set xs" using split_list_first [OF assms(1)] by blast
  have l: "length xs \<le> m" using assms(2) by (simp add: b(1))
  obtain zs where "(0 # ys)[m - length xs := 0] = 0 # zs" by (cases "m - length xs") auto
  then have "b[m := 0] = xs @ 0 # zs" using l by (simp add: b(1) list_update_append)
  moreover have "cstring (xs @ 0 # us) = xs" for us using b(2) by (auto simp: cstring_def takeWhile_append)
  ultimately show ?thesis by (simp add: b(1))
qed

lemma cut_within:
  assumes "str_nonempty_within b m" "length b = Suc m"
  shows "str_nonempty_within (b[m := 0]) m" "cstring (b[m := 0]) = cstring b"
proof -
  show c: "cstring (b[m := 0]) = cstring b" by (rule cut_string [OF valid_string_ends [OF assms] assms(2)])
  then show "str_nonempty_within (b[m := 0]) m" using assms by (simp add: str_nonempty_within_def)
qed

lemma cut_security:
  assumes "security_allowed b" "length b = 17"
  shows "cstring (b[16 := 0]) = cstring b"
proof (rule cut_string)
  show "0 \<in> set b"
  proof (rule ccontr)
    assume "0 \<notin> set b"
    then have "cstring b = b" by (auto simp: cstring_def takeWhile_eq_all_conv)
    then show False using assms by (auto simp: security_allowed_def)
  qed
  show "length b = Suc 16" using assms(2) by simp
qed

lemma valid_terminated:
  assumes "nvram_shape d" "app_nvram_is_valid d"
  shows "valid_creds ((terminated d)\<lparr>npad := 0\<rparr>)"
proof -
  have l: "length (ssid d) = Suc 32" "length (host_ip d) = Suc 64" "length (password d) = Suc 64" "length (security d) = 17"
    using assms(1) by (simp_all add: nvram_shape_def)
  have v: "str_nonempty_within (ssid d) 32" "str_nonempty_within (host_ip d) 64" "security_allowed (security d)"
    "cstring (security d) = str ''OPEN'' \<or> str_nonempty_within (password d) 64" "nport d \<noteq> 0"
    using assms(2) by (auto simp: app_nvram_is_valid_def split: if_splits)
  have s: "cstring ((security d)[16 := 0]) = cstring (security d)" by (rule cut_security [OF v(3) l(4)])
  then have "security_allowed ((security d)[16 := 0])" using v(3) by (simp add: security_allowed_def)
  then have "app_nvram_is_valid ((terminated d)\<lparr>npad := 0\<rparr>)"
    using v cut_within(1) [OF v(1) l(1)] cut_within(1) [OF v(2) l(2)] cut_within(1) [of "password d" 64] l s
    by (auto simp: app_nvram_is_valid_def terminated_def)
  then show ?thesis using assms(1) by (simp add: valid_creds_def terminated_pad)
qed

text \<open>What the flash holds: complete credentials or none, preferences that may be kept or none.\<close>

definition stored_ok :: "('v \<Rightarrow> nat \<Rightarrow> u8 list option) \<Rightarrow> 'v nvs \<Rightarrow> bool" where
  "stored_ok entry f \<longleftrightarrow>
     (\<forall>b. entry (nv f) 1 = Some b \<longrightarrow> length b = 184 \<and> valid_creds (nvram_of_bytes b)) \<and>
     (\<forall>b. entry (nv f) 2 = Some b \<longrightarrow> length b = 160 \<and> keepable (prefs_of_bytes b))"

text \<open>A read of nothing leaves the caller's buffer as it was.\<close>

definition nvs_quiet :: "'v nvs_api \<Rightarrow> ('v \<Rightarrow> nat \<Rightarrow> u8 list option) \<Rightarrow> bool" where
  "nvs_quiet N entry \<longleftrightarrow> nvs_laws N entry \<and> (\<forall>i n v. entry v i = None \<longrightarrow> snd (nvs_read N i n v) = []) \<and>
     (\<forall>i v rc v'. nvs_delete N i v = (rc, v') \<longrightarrow> rc \<noteq> 0 \<longrightarrow> rc \<noteq> - ENOENT \<longrightarrow> entry v' = entry v)"

lemma load_good:
  assumes "nvs_quiet N entry" "stored_ok entry f" "good_cfg out" "app_nvram_load N out f = (rc, d, f')"
  shows "good_cfg d \<and> (rc = NVRAM_OK \<longrightarrow> valid_creds d) \<and> entry (nv f') = entry (nv f)"
proof -
  have L: "nvs_laws N entry" using assms(1) by (simp add: nvs_quiet_def)
  obtain r1 f1 where i: "app_nvs_init N f = (r1, f1)" by force
  have e: "entry (nv f1) = entry (nv f)" by (rule nvs_init_keeps [OF L i])
  obtain r2 b where r: "nvs_read N 1 184 (nv f1) = (r2, b)" by force
  have sh: "nvram_shape out" using assms(3) by (auto simp: good_cfg_def valid_creds_def)
  show ?thesis
  proof (cases "entry (nv f1) 1")
    case None
    then have "r2 = - ENOENT" "b = []"
      using nvs_read_law(2) [OF L None, of 184] assms(1) r by (auto simp: nvs_quiet_def) (metis snd_conv)
    then show ?thesis using assms(3,4) i r e sh
      by (auto simp: app_nvram_load_def Let_def overlay_def nvram_of_nvram_bytes split: if_splits)
  next
    case (Some x)
    then have x: "length x = 184" "valid_creds (nvram_of_bytes x)" using assms(2) e by (auto simp: stored_ok_def)
    then have "r2 = 184" "b = x" using nvs_read_law(1) [OF L Some, of 184] r by auto
    moreover have "overlay (take 184 x) out = nvram_of_bytes x" "terminated (nvram_of_bytes x) = nvram_of_bytes x"
      using x by (simp_all add: overlay_def nvram_of_bytes_def nth_append valid_creds_def)
    ultimately show ?thesis using assms(3,4) i r e x
      by (auto simp: app_nvram_load_def Let_def good_cfg_def split: if_splits)
  qed
qed

lemma save_stored:
  assumes "nvs_laws N entry" "stored_ok entry f" "nvram_shape d" "app_nvram_is_valid d" "app_nvram_save N d f = (rc, f')"
  shows "stored_ok entry f'"
proof -
  let ?d = "(terminated d)\<lparr>npad := 0\<rparr>"
  obtain r1 f1 where i: "app_nvs_init N f = (r1, f1)" by force
  have e: "entry (nv f1) = entry (nv f)" by (rule nvs_init_keeps [OF assms(1) i])
  obtain r2 v where w: "nvs_write N 1 (nvram_bytes ?d) (nv f1) = (r2, v)" by force
  have "nvram_shape ?d" "valid_creds ?d" using assms(3) valid_terminated [OF assms(3,4)] by simp_all
  then have b: "length (nvram_bytes ?d) = 184" "valid_creds (nvram_of_bytes (nvram_bytes ?d))"
    by (simp_all add: length_nvram_bytes nvram_of_nvram_bytes)
  have "entry v = entry (nv f1) \<or> entry v = (entry (nv f1))(1 \<mapsto> nvram_bytes ?d)"
    using nvs_write_fail [OF assms(1) w] nvs_write_law [OF assms(1) w] by linarith
  then show ?thesis using assms(2,5) i e w b
    by (auto simp: app_nvram_save_def stored_ok_def split: if_splits)
qed

lemma reset_stored:
  assumes "nvs_quiet N entry" "stored_ok entry f" "app_nvram_reset N f = (rc, f')"
  shows "stored_ok entry f'"
proof -
  have L: "nvs_laws N entry" using assms(1) by (simp add: nvs_quiet_def)
  obtain r1 f1 where i: "app_nvs_init N f = (r1, f1)" by force
  have e: "entry (nv f1) = entry (nv f)" by (rule nvs_init_keeps [OF L i])
  obtain r2 v where d: "nvs_delete N 1 (nv f1) = (r2, v)" by force
  have "entry v = entry (nv f1) \<or> entry v = (entry (nv f1))(1 := None)"
    using nvs_delete_law [OF L d] assms(1) d unfolding nvs_quiet_def by blast
  then show ?thesis using assms(2,3) i e d
    by (auto simp: app_nvram_reset_def stored_ok_def split: if_splits)
qed

subsection \<open>The steps\<close>

record ('v, 'n, 'e) world =
  wd_nvs :: "'v nvs_api"
  wd_flash :: "'e flash_api"
  wd_net :: "'n net_api"
  wd_tx :: tx_hw

text \<open>A label names the entry point, what comes in, and what the kernel and the network stack answer.  A download
  is one step; the \<open>ota stop\<close> of the shell or of the phone, which only clears the flag the task polls, is
  among what \<open>poll_running\<close> may find during it.\<close>

datatype sys_label =
    BtReady gpio_answers bool int int bool
  | ProvWrite prov_char nat "u8 list"
  | MatterWrite nat "u8 list"
  | MatterCcc u16
  | MatterRead
  | IrWrite "u8 list" nat
  | IrRead
  | LedWrite nat "u8 list"
  | LedRead
  | CtrlWrite nat "u8 list"
  | WifiEv bool wifi_label
  | TcpEv bool nat c_event
  | ConnectWork
  | ResetWork int
  | ShellStart bool "cstr list"
  | Download
  | RotaryEdge int int
  | RotarySwitch int
  | LedTick
  | Turn bool u32

text \<open>The connect and the disconnect of the Wi-Fi manager are calls of the application, not entry points.\<close>

fun stack_event :: "wifi_label \<Rightarrow> bool" where
  "stack_event (WConnect d) \<longleftrightarrow> False"
| "stack_event (WDisconnect rc) \<longleftrightarrow> False"
| "stack_event _ \<longleftrightarrow> True"

fun sys_step :: "('v, 'n, 'e) world \<Rightarrow> sys_label \<Rightarrow> ('v, 'n, 'e) app \<Rightarrow> ('v, 'n, 'e) app option" where
  "sys_step W (BtReady g apa err adv iface) a =
     (if a_ble_ready a then None else Some (bt_ready_cb (wd_nvs W) (wd_tx W) g apa err adv iface a))"
| "sys_step W (ProvWrite ch off b) a = Some (snd (with_prov (prov_write (wd_nvs W) ch off b) a))"
| "sys_step W (MatterWrite off b) a = Some (snd (with_matter (matter_write_cmd (wd_nvs W) off b) a))"
| "sys_step W (MatterCcc v) a = Some (a\<lparr>a_matter := matter_ccc_changed v (a_matter a)\<rparr>)"
| "sys_step W MatterRead a = Some (a\<lparr>a_matter := snd (matter_read_status (a_matter a))\<rparr>)"
| "sys_step W (IrWrite b off) a = Some (a\<lparr>a_ir := snd (ir_write_cmd (wd_tx W) b off (a_ir a))\<rparr>)"
| "sys_step W IrRead a = Some (a\<lparr>a_ir := snd (ir_read_status (a_ir a))\<rparr>)"
| "sys_step W (LedWrite off b) a = Some (a\<lparr>a_led := snd (led_write_cmd off b (a_led a))\<rparr>)"
| "sys_step W LedRead a = Some (a\<lparr>a_led := snd (led_read_status (a_led a))\<rparr>)"
| "sys_step W (CtrlWrite off b) a = Some (a\<lparr>a_ctrl := snd (ctrl_write_cmd (Some ctrl_cb) off b (a_ctrl a))\<rparr>)"
| "sys_step W (WifiEv created l) a =
     (if a_ble_ready a \<and> stack_event l then with_wifi created (w_step l) a else None)"
| "sys_step W (TcpEv created i e) a = with_tcp (wd_flash W) created (c_step (CTask i e)) a"
| "sys_step W ConnectWork a =
     (if a_connect_pending a then Some (prov_connect_work_fn (wd_nvs W) (a\<lparr>a_connect_pending := False\<rparr>)) else None)"
| "sys_step W (ResetWork rc) a =
     (if a_reset_pending a then Some (prov_reset_work_fn rc (a\<lparr>a_reset_pending := False\<rparr>)) else None)"
| "sys_step W (ShellStart created argv) a = Some (a\<lparr>a_http := snd (cmd_ota_start (wd_flash W) created argv (a_http a))\<rparr>)"
| "sys_step W Download a = (if s_running (a_http a) then run_download (wd_net W) (wd_flash W) a else None)"
| "sys_step W (RotaryEdge x y) a = Some (a\<lparr>a_rot := rotary_isr x y (a_rot a)\<rparr>)"
| "sys_step W (RotarySwitch level) a = Some (a\<lparr>a_rot := rotary_sw_poll_fn level (a_rot a)\<rparr>)"
| "sys_step W LedTick a = Some (a\<lparr>a_led := (a_led a)\<lparr>led_task := tick_fn (led_task (a_led a))\<rparr>\<rparr>)"
| "sys_step W (Turn toggled up) a = main_turn (wd_tx W) toggled up a"

fun sys_run :: "('v, 'n, 'e) world \<Rightarrow> sys_label list \<Rightarrow> ('v, 'n, 'e) app \<Rightarrow> ('v, 'n, 'e) app option" where
  "sys_run W [] a = Some a"
| "sys_run W (l # ls) a = Option.bind (sys_step W l a) (sys_run W ls)"

text \<open>The statics at power-on; the flash file system is not mounted yet.\<close>

definition power_on :: "'v nvs \<Rightarrow> ('n, 'e) http \<Rightarrow> ('v, 'n, 'e) app" where
  "power_on f h = \<lparr>a_ble_ready = False, a_nvram_cfg = zero_nvram, a_prov_applied = False, a_connect_pending = False,
     a_reset_pending = False, a_wifi = wifi_boot, a_tcp = tcp_client_boot,
     a_prov = \<lparr>staging = zero_nvram, p_state = 0, p_cb = False, p_evts = [], p_notified = [], pflash = nvs_reboot f\<rparr>,
     a_matter = \<lparr>hub = hub_boot f, s_packed = [], m_notified = []\<rparr>, a_http = h,
     a_ir = \<lparr>irs_ac = aircon_boot, irs_status = \<lparr>aircon_powered = 0, aircon_temp_c = 0, status_carrier = 0\<rparr>,
       irs_notified = []\<rparr>,
     a_led = \<lparr>led_task = led_boot, led_cached = \<lparr>st_pattern = 0, st_color = COLOR_OFF, st_brightness = 0, st_count = 0\<rparr>,
       manual_hold = 0, led_notes = []\<rparr>,
     a_ctrl = \<lparr>resp_state = 0, ctrl_notes = [], ctrl_seen = []\<rparr>, a_status = \<lparr>st_last = [], st_notes = []\<rparr>,
     a_rot = rotary_boot, a_last_rot = 0, a_last_sw = 0\<rparr>"

subsection \<open>The invariant\<close>

text \<open>A connect request names a network of 1 to 32 bytes and carries a key exactly when it is protected.\<close>

fun req_ok :: "wifi_req \<Rightarrow> bool" where
  "req_ok (ReqConnect sd band sec psk) \<longleftrightarrow> sd \<noteq> [] \<and> length sd \<le> 32 \<and>
     (case psk of None \<Rightarrow> sec = SEC_NONE | Some k \<Rightarrow> sec \<noteq> SEC_NONE \<and> k \<noteq> [] \<and> length k \<le> 64)"
| "req_ok _ \<longleftrightarrow> True"

definition sys_inv :: "('v \<Rightarrow> nat \<Rightarrow> u8 list option) \<Rightarrow> ('v, 'n, 'e) app \<Rightarrow> bool" where
  "sys_inv entry a \<longleftrightarrow>
     stored_ok entry (pflash (a_prov a)) \<and> nvram_shape (staging (a_prov a)) \<and> p_state (a_prov a) \<le> 4 \<and>
     good_cfg (a_nvram_cfg a) \<and> good_cfg (w_retry_cfg (a_wifi a)) \<and> good_cfg (c_cfg (a_tcp a)) \<and>
     list_all req_ok (w_reqs (a_wifi a)) \<and> wifi_inv (a_wifi a) \<and> client_inv (a_tcp a) \<and>
     hub_inv entry ((hub (a_matter a))\<lparr>flash := pflash (a_prov a)\<rparr>) \<and> ac_inv (irs_ac (a_ir a)) \<and>
     strip_inv (l_strip (led_task (a_led a))) \<and> ota_inv (ota (a_http a)) \<and>
     (s_ota_core_inited (a_http a) \<or> s_running (a_http a) \<longrightarrow> inited (ota (a_http a))) \<and>
     (\<not> a_ble_ready a \<longrightarrow> w_evts (a_wifi a) = [])"

lemmas sys_parts = sys_inv_def stored_ok_def

lemma string_within: "str_nonempty_within b m \<Longrightarrow> length b = Suc m \<Longrightarrow> cstring b \<noteq> [] \<and> length (cstring b) \<le> m"
  by (auto simp: str_nonempty_within_def Let_def)

lemma request_ok:
  assumes "good_cfg d" "connect_security d = Some (sec, psk)"
  shows "req_ok (ReqConnect (cstring (ssid d)) band sec psk)"
proof -
  have "d \<noteq> zero_nvram" using assms(2) by (auto simp: connect_security_def zero_nvram_def cstring_def)
  then have v: "nvram_shape d" "app_nvram_is_valid d" using assms(1) by (auto simp: good_cfg_def valid_creds_def)
  then have l: "length (ssid d) = Suc 32" "length (password d) = Suc 64" by (simp_all add: nvram_shape_def)
  have p: "cstring (security d) \<noteq> str ''OPEN'' \<Longrightarrow> str_nonempty_within (password d) 64"
    and n: "str_nonempty_within (ssid d) 32" using v(2) by (auto simp: app_nvram_is_valid_def split: if_splits)
  show ?thesis using assms(2) string_within [OF n l(1)] string_within [OF p l(2)]
    by (auto simp: connect_security_def split: if_splits)
qed

lemma wifi_step_requests:
  assumes "w_step l w = Some w'" "stack_event l" "good_cfg (w_retry_cfg w)" "list_all req_ok (w_reqs w)"
  shows "w_retry_cfg w' = w_retry_cfg w \<and> list_all req_ok (w_reqs w')"
  using assms
proof (induction l w rule: w_step.induct)
  case (3 rc w)
  then show ?case
    by (cases "connect_security (w_retry_cfg w)") (auto simp: wifi_defs Let_def dest: request_ok split: if_splits)
next
  case (7 e w)
  then show ?case by (cases e) (auto simp: wifi_defs Let_def split: if_splits option.splits)
qed (auto simp: wifi_defs Let_def split: if_splits)

lemma tcp_stop_keeps: "client_inv c \<Longrightarrow> client_inv (app_tcp_client_stop c)" "c_cfg (app_tcp_client_stop c) = c_cfg c"
  using client_inv_step [of CStopFlag c] client_inv_step [of CStopClose "stop_flag c"]
  by (simp_all add: app_tcp_client_stop_def stop_close_def stop_flag_def)

lemma tcp_start_keeps:
  "client_inv c \<Longrightarrow> client_inv (snd (app_tcp_client_start (Some d) cb created c))"
  "c_cfg (snd (app_tcp_client_start (Some d) cb created c)) \<in> {c_cfg c, d}"
  using client_inv_step [of "CStart d cb created" c]
  by (simp_all add: app_tcp_client_start_def Let_def)

lemma wifi_call_keeps:
  "wifi_inv w \<Longrightarrow> wifi_inv (snd (app_wifi_connect (Some d) w))"
  "w_retry_cfg (snd (app_wifi_connect (Some d) w)) \<in> {w_retry_cfg w, d}"
  "w_reqs (snd (app_wifi_connect (Some d) w)) = w_reqs w"
  "w_evts (snd (app_wifi_connect (Some d) w)) = w_evts w" "w_evts (snd (app_wifi_disconnect rc w)) = w_evts w"
  "wifi_inv w \<Longrightarrow> wifi_inv (snd (app_wifi_disconnect rc w))"
  "w_retry_cfg (snd (app_wifi_disconnect rc w)) = w_retry_cfg w"
  "list_all req_ok (w_reqs w) \<Longrightarrow> list_all req_ok (w_reqs (snd (app_wifi_disconnect rc w)))"
  using wifi_inv_step [of "WConnect d" w] wifi_inv_step [of "WDisconnect rc" w]
  by (simp_all add: app_wifi_connect_def app_wifi_disconnect_def wifi_defs Let_def)

lemma wifi_cb_inv: "sys_inv entry a \<Longrightarrow> sys_inv entry (wifi_cb created e a)"
proof (cases e)
  case WIFI_READY
  then show "sys_inv entry a \<Longrightarrow> ?thesis"
    using wifi_call_keeps(1-4) [where w = "a_wifi a" and d = "a_nvram_cfg a"] by (auto simp: sys_inv_def)
next
  case WIFI_CONNECTED
  then show "sys_inv entry a \<Longrightarrow> ?thesis"
    using tcp_start_keeps [where c = "a_tcp a" and d = "a_nvram_cfg a" and cb = True and created = created] by (auto simp: sys_inv_def)
next
  case WIFI_DISCONNECTED
  then show "sys_inv entry a \<Longrightarrow> ?thesis" by (simp add: sys_inv_def tcp_stop_keeps)
qed simp_all

lemma fold_keeps: "P a \<Longrightarrow> (\<And>x b. P b \<Longrightarrow> P (f x b)) \<Longrightarrow> P (fold f xs a)"
  by (induction xs arbitrary: a) simp_all

lemma with_wifi_inv:
  assumes "sys_inv entry a" "with_wifi created (w_step l) a = Some a'" "stack_event l" "a_ble_ready a"
  shows "sys_inv entry a'"
proof -
  obtain w where w: "w_step l (a_wifi a) = Some w"
    "a' = fold (wifi_cb created) (drop (length (w_evts (a_wifi a))) (w_evts w)) (a\<lparr>a_wifi := w\<rparr>)"
    using assms(2) by (auto simp: with_wifi_def)
  have "sys_inv entry (a\<lparr>a_wifi := w\<rparr>)"
    using assms(1,4) wifi_step_requests [OF w(1) assms(3)] wifi_inv_step [OF w(1)] by (simp add: sys_inv_def)
  then show ?thesis unfolding w(2) by (rule fold_keeps) (rule wifi_cb_inv)
qed

text \<open>The provisioning service and the deferred work.\<close>

lemma prov_write_keeps:
  assumes "nvs_quiet N entry" "stored_ok entry (pflash p)" "nvram_shape (staging p)" "p_state p \<le> 4"
    and "prov_write N ch off b p = (r, p')"
  shows "stored_ok entry (pflash p') \<and> nvram_shape (staging p') \<and> p_state p' \<le> 4"
proof (cases ch)
  case ChCommit
  have L: "nvs_laws N entry" using assms(1) by (simp add: nvs_quiet_def)
  obtain r1 f1 where s: "app_nvram_save N (staging p) (pflash p) = (r1, f1)" by force
  obtain r2 f2 where d: "app_nvram_reset N (pflash p) = (r2, f2)" by force
  have "app_nvram_is_valid (staging p) \<Longrightarrow> stored_ok entry f1" using save_stored [OF L assms(2,3) _ s] .
  moreover have "stored_ok entry f2" by (rule reset_stored [OF assms(1,2) d])
  ultimately have "stored_ok entry (pflash p')"
    using assms(2,5) s d ChCommit by (auto simp: write_commit_def app_prov_set_state_def Let_def split: if_splits)
  then show ?thesis using commit_sel [of p N off b] assms(3,4,5) ChCommit by simp
qed (use assms in \<open>auto simp: write_ssid_def write_pass_def write_sec_def write_host_def write_port_def stage_def nvram_shape_def
    dest: field_length split: sum.splits if_splits\<close>)

lemma hub_flash: "hub_inv entry (h\<lparr>flash := f\<rparr>) \<Longrightarrow> stored_ok entry f' \<Longrightarrow> hub_inv entry (h\<lparr>flash := f'\<rparr>)"
  by (auto simp: hub_inv_def stored_ok_def)

lemma prov_cb_inv: "sys_inv entry a \<Longrightarrow> sys_inv entry (prov_cb e a)"
  by (cases e) (simp_all add: sys_inv_def)

lemma with_prov_inv:
  assumes "sys_inv entry a" "nvs_quiet (wd_nvs W) entry"
  shows "sys_inv entry (snd (with_prov (prov_write (wd_nvs W) ch off b) a))"
proof -
  obtain r p where p: "prov_write (wd_nvs W) ch off b (a_prov a) = (r, p)" by force
  have "sys_inv entry (a\<lparr>a_prov := p\<rparr>)"
    using assms(1) prov_write_keeps [OF assms(2) _ _ _ p] hub_flash [where entry = entry and h = "hub (a_matter a)" and f = "pflash (a_prov a)" and f' = "pflash p"]
    by (simp add: sys_inv_def)
  then show ?thesis unfolding with_prov_def p by (simp add: fold_keeps prov_cb_inv)
qed

lemma connect_work_inv:
  assumes "sys_inv entry a" "nvs_quiet N entry"
  shows "sys_inv entry (prov_connect_work_fn N a)"
proof -
  obtain rc d f where l: "app_nvram_load N (a_nvram_cfg a) (pflash (a_prov a)) = (rc, d, f)" by (metis prod_cases3)
  have g: "good_cfg d" "entry (nv f) = entry (nv (pflash (a_prov a)))"
    using load_good [OF assms(2) _ _ l] assms(1) by (auto simp: sys_inv_def)
  then have "stored_ok entry f" using assms(1) by (simp add: sys_parts)
  then have "sys_inv entry (a\<lparr>a_nvram_cfg := d, a_prov := (a_prov a)\<lparr>pflash := f\<rparr>\<rparr>)"
    using assms(1) g(1) hub_flash [where entry = entry and h = "hub (a_matter a)" and f = "pflash (a_prov a)" and f' = f] by (simp add: sys_inv_def)
  then show ?thesis
    using wifi_call_keeps(1-4) [where w = "a_wifi a" and d = d] g(1) by (auto simp: prov_connect_work_fn_def l Let_def sys_inv_def)
qed

lemma reset_work_inv: "sys_inv entry a \<Longrightarrow> sys_inv entry (prov_reset_work_fn rc a)"
  using wifi_call_keeps(5-8) [where w = "a_wifi a" and rc = rc] by (auto simp: prov_reset_work_fn_def sys_inv_def tcp_stop_keeps)

text \<open>The Matter hub writes its own entry only.\<close>

lemma persist_keeps:
  assumes "nvs_laws N entry" "persist_prefs N h = (rc, h')"
  shows "entry (nv (flash h')) 1 = entry (nv (flash h)) 1"
proof -
  obtain f where f: "matter_prefs_save N (s_prefs h) (flash h) = (rc, f)" "h' = h\<lparr>flash := f\<rparr>"
    using assms(2) by (auto simp: persist_prefs_def split: prod.splits)
  then show ?thesis using prefs_save_entry [OF assms(1) f(1)] by auto
qed

lemma hub_keeps_creds:
  assumes "nvs_laws N entry" "hub_exec N op h = (rc, h')" "hub_inv entry h"
  shows "entry (nv (flash h')) 1 = entry (nv (flash h)) 1"
proof (cases op)
  case HInit
  obtain r p f where l: "matter_prefs_load N (flash h) = (r, p, f)" by (metis prod_cases3)
  obtain r2 h2 where q: "persist_prefs N (h\<lparr>s_prefs := p, flash := f\<rparr>) = (r2, h2)" by force
  show ?thesis
    using hub_inv_load [OF assms(1,3) l] persist_keeps [OF assms(1) q] assms(2) HInit l q
    by (auto simp: matter_hub_init_def Let_def split: if_splits)
next
  case HReset
  then show ?thesis
    using persist_keeps [OF assms(1), of "h\<lparr>s_prefs := prefs_zero\<lparr>commissioning_state := CMP_READY\<rparr>,
          s_window_active := False, s_window_end := 0\<rparr>"] assms(2)
    by (auto simp: matter_hub_factory_reset_def)
next
  case HSim
  let ?p = "if fabric_count (s_prefs h) < 8 then (s_prefs h)\<lparr>fabric_count := fabric_count (s_prefs h) + 1\<rparr> else s_prefs h"
  show ?thesis
    using persist_keeps [OF assms(1), of "h\<lparr>s_prefs := ?p\<lparr>commissioning_state := CMP_COMMISSIONED\<rparr>,
      s_window_active := False, s_window_end := 0\<rparr>"] assms(2) HSim
    by (auto simp: matter_hub_dev_simulate_fabric_commissioned_def Let_def split: if_splits)
qed (use assms in \<open>auto simp: hub_boot_def matter_hub_on_tick_def Let_def matter_hub_commission_window_open_def
    matter_hub_commission_window_close_def split: if_splits\<close>)

lemma hub_keeps:
  assumes "nvs_laws N entry" "hub_exec N op h = (rc, h')" "hub_inv entry h" "stored_ok entry (flash h)"
  shows "hub_inv entry h' \<and> stored_ok entry (flash h')"
  using hub_inv_step [OF assms(1,3,2)] hub_keeps_creds [OF assms(1-3)] assms(4)
  by (auto simp: stored_ok_def hub_inv_def)

lemma matter_cmd_exec: "\<exists>op. matter_cmd N p h = hub_exec N op h \<or> matter_cmd N p h = (- 2, h)"
  unfolding matter_cmd_def
  by (cases "p ! 0 = 1"; cases "p ! 0 = 2"; cases "p ! 0 = 3"; cases "p ! 0 = 4")
     (simp_all, (metis hub_exec.simps(3-6))+)

lemma matter_cmd_keeps:
  assumes "nvs_laws N entry" "matter_cmd N p h = (rc, h')" "hub_inv entry h" "stored_ok entry (flash h)"
  shows "hub_inv entry h' \<and> stored_ok entry (flash h')"
proof -
  consider op where "hub_exec N op h = (rc, h')" | "h' = h" using matter_cmd_exec [of N p h] assms(2) by auto
  then show ?thesis using hub_keeps [OF assms(1) _ assms(3,4)] assms(3,4) by cases blast+
qed

lemma with_matter_inv:
  assumes "sys_inv entry a"
    and "\<And>m r m'. f m = (r, m') \<Longrightarrow> hub_inv entry (hub m) \<Longrightarrow> stored_ok entry (flash (hub m)) \<Longrightarrow>
      hub_inv entry (hub m') \<and> stored_ok entry (flash (hub m'))"
  shows "sys_inv entry (snd (with_matter f a))"
proof -
  let ?m = "(a_matter a)\<lparr>hub := (hub (a_matter a))\<lparr>flash := pflash (a_prov a)\<rparr>\<rparr>"
  obtain r m' where m: "f ?m = (r, m')" by force
  have "hub_inv entry (hub ?m)" "stored_ok entry (flash (hub ?m))" using assms(1) by (simp_all add: sys_inv_def)
  from assms(2) [OF m this] have h: "hub_inv entry (hub m')" "stored_ok entry (flash (hub m'))" by simp_all
  have "(hub m')\<lparr>flash := flash (hub m')\<rparr> = hub m'" by simp
  then show ?thesis using assms(1) h by (simp add: with_matter_def m Let_def sys_inv_def)
qed

lemma matter_write_inv:
  assumes "sys_inv entry a" "nvs_laws N entry"
  shows "sys_inv entry (snd (with_matter (matter_write_cmd N off p) a))"
proof (rule with_matter_inv [OF assms(1)])
  fix m r m'
  assume w: "matter_write_cmd N off p m = (r, m')" and h: "hub_inv entry (hub m)" "stored_ok entry (flash (hub m))"
  obtain rc h' where c: "matter_cmd N p (hub m) = (rc, h')" by force
  show "hub_inv entry (hub m') \<and> stored_ok entry (flash (hub m'))"
    using matter_cmd_keeps [OF assms(2) c h] h w c
    by (auto simp: matter_write_cmd_def m_notify_def m_refresh_packed_def Let_def split: if_splits)
qed

text \<open>The other services.\<close>

lemma ir_write_inv: "ac_inv (irs_ac s) \<Longrightarrow> ac_inv (irs_ac (snd (ir_write_cmd H b off s)))"
  using dispatch_keeps(2) [of s H b]
  by (auto simp: ir_write_cmd_def app_ir_svc_publish_status_def refresh_cached_status_def Let_def split: prod.splits)

lemma led_write_strip:
  "strip_inv (l_strip (led_task s)) \<Longrightarrow> strip_inv (l_strip (led_task (snd (led_write_cmd off b s))))"
proof -
  assume I: "strip_inv (l_strip (led_task s))"
  have "strip_inv (l_strip (led_task (snd (led_dispatch_cmd b s))))"
    using I strip_inv_ops [OF I]
    by (auto simp: led_dispatch_cmd_def handle_set_pattern_def handle_set_color_def handle_set_brightness_def handle_off_def
        handle_set_pixel_def handle_set_pattern_color_def handle_set_sleep_light_def with_task_def led_task_set_pattern_def
        led_task_set_color_def led_task_set_brightness_def led_task_set_pixel_def led_task_set_sleep_light_def
        split: list.split prod.split)
       (metis snd_conv)
  then show ?thesis using I
    by (auto simp: led_write_cmd_def app_led_svc_publish_status_def led_refresh_status_def Let_def split: prod.splits)
qed

lemma rainbow_strip: "strip_inv s \<Longrightarrow> strip_inv (rainbow_loop t w n i s)"
  by (induction t w n i s rule: rainbow_loop.induct) (simp_all add: strip_inv_ops)

lemma tick_strip: "strip_inv (l_strip l) \<Longrightarrow> strip_inv (l_strip (tick_fn l))"
proof -
  assume I: "strip_inv (l_strip l)"
  then have "strip_inv (tick_paint l)" by (simp add: tick_paint_def Let_def strip_inv_ops rainbow_strip)
  then show ?thesis using I by (simp add: tick_fn_def strip_inv_ops)
qed

text \<open>The download.\<close>

lemma ota_kept:
  "app_ota_chunk E off d s = (rc, s') \<Longrightarrow> ota_inv s \<Longrightarrow> ota_inv s'"
  "app_ota_begin E n s = (rc, s') \<Longrightarrow> ota_inv s \<Longrightarrow> ota_inv s'"
  using ota_inv_chunk [of s E off d] ota_inv_begin [of s E n] by simp_all

interpretation keep_ota: http_inv E "\<lambda>h. ota_inv (ota h) \<and> inited (ota h) \<and> cfg h = k" for E k
  by unfold_locales (auto simp: quiet_def ota_inv_abort inited_ops(3) dest: ota_kept inited_ops(1,2))

lemma task_ends_ok:
  assumes "ota_inv (ota h)" "inited (ota h)"
  shows "ota_inv (ota (task_fail E h)) \<and> inited (ota (task_fail E h))"
    "ota_inv (ota (task_commit E h)) \<and> inited (ota (task_commit E h))"
proof -
  have f: "ota_inv (app_ota_abort E t) \<and> inited (app_ota_abort E t)" if "ota_inv t" "inited t" for t
    using that by (simp add: ota_inv_abort inited_ops(3))
  show "ota_inv (ota (task_fail E h)) \<and> inited (ota (task_fail E h))" using f assms by (simp add: task_fail_def)
  obtain rc o' where c: "app_ota_commit E (ota h) = (rc, o')" by force
  have o: "ota_inv o'" "inited o'"
    using ota_inv_commit [OF assms(1), of E] c assms(2)
    by (auto simp: app_ota_commit_def ota_reject_def ota_fail_def app_ota_reboot_after_ms_def Let_def split: if_splits prod.splits)
  then show "ota_inv (ota (task_commit E h)) \<and> inited (ota (task_commit E h))"
    using assms f [OF o] ota_inv_reboot [OF o(1)]
    by (simp add: task_commit_def c task_fail_def Let_def app_ota_reboot_after_ms_def)
qed

lemma task_ok:
  assumes "ota_inv (ota h)" "inited (ota h)" "http_task N E h = Some h'"
  shows "ota_inv (ota h') \<and> inited (ota h')"
proof -
  let ?h = "h\<lparr>sink := \<lparr>mode = SINK_OTA_CHUNK, ota_offset = resume_point (ota h), sbuf = [], buf_cap = 0\<rparr>,
      ipa := \<lparr>resume_attempted = False, resume_succeeded = False, session_restarted = False\<rparr>\<rparr>"
  let ?pre = "Some (image_pre_stream E)"
  obtain rc h1 where r: "http_request N E ?pre (resume_point (ota h)) (s_image_url h) ?h = Some (rc, h1)"
    using assms(3) by (auto simp: http_task_def Let_def bind_eq_Some_conv)
  have k: "ota_inv (ota h1)" "inited (ota h1)"
    using keep_ota.by_request [OF _ r, of "cfg h"] assms(1,2) by auto
  let ?b = "h1\<lparr>sink := \<lparr>mode = SINK_BUFFER, ota_offset = 0, sbuf = [], buf_cap = 512\<rparr>, s_state := HEADER_DL\<rparr>"
  consider "h' = task_fail E h1" | "h' = task_commit E h1"
    | rc2 h2 where "http_request N E None 0 (s_header_url h1) ?b = Some (rc2, h2)"
        "h' = task_fail E h2 \<or> h' = task_commit E h2"
    using assms(3) r by (auto simp: http_task_def Let_def bind_eq_Some_conv split: if_splits)
  then show ?thesis
  proof cases
    case (3 rc2 h2)
    have "ota_inv (ota h2)" "inited (ota h2)" using keep_ota.by_request [OF _ 3(1), of "cfg h1"] k by auto
    then show ?thesis using 3(2) task_ends_ok [of h2 E] by auto
  qed (use task_ends_ok [OF k] in auto)
qed

lemma start_ok:
  assumes "ota_inv (ota h)" "s_ota_core_inited h \<or> s_running h \<longrightarrow> inited (ota h)"
  shows "ota_inv (ota (snd (app_ota_http_start E created opts h))) \<and>
    (s_ota_core_inited (snd (app_ota_http_start E created opts h)) \<or> s_running (snd (app_ota_http_start E created opts h)) \<longrightarrow>
       inited (ota (snd (app_ota_http_start E created opts h))))"
proof -
  obtain rc h1 where c: "start_core E h = (rc, h1)" by force
  have 1: "ota_inv (ota h1)" "rc = OTA_OK \<and> inited (ota h1) \<and> s_ota_core_inited h1"
    using c assms ota_inv_init [OF assms(1), of E False]
    by (auto simp: start_core_def app_ota_init_def Let_def split: if_splits)
  have u: "ota (snd (start_urls i x h1)) = ota h1" for i x
    by (auto simp: start_urls_def Let_def split: sum.split option.split)
  show ?thesis using assms 1 u c
    by (auto simp: app_ota_http_start_def Let_def split: option.split prod.split) (metis snd_conv)+
qed

lemma shell_start_inv: "sys_inv entry a \<Longrightarrow> sys_inv entry (a\<lparr>a_http := snd (cmd_ota_start E created argv (a_http a))\<rparr>)"
  using start_ok [of "a_http a"] by (auto simp: cmd_ota_start_def sys_inv_def)

lemma tcp_rx_inv: "sys_inv entry a \<Longrightarrow> sys_inv entry (tcp_rx_cb E created d a)"
  using start_ok [of "a_http a"] by (auto simp: tcp_rx_cb_def sys_inv_def split: option.split)

lemma tcp_task_cfg: "tcp_task pc e c = Some (pc', c') \<Longrightarrow> c_cfg c' = c_cfg c"
  by (cases "(pc, e, c)" rule: tcp_task.cases) (auto split: if_splits)

lemma with_tcp_inv:
  assumes "sys_inv entry a" "with_tcp E created (c_step (CTask i e)) a = Some a'"
  shows "sys_inv entry a'"
proof -
  obtain c where c: "c_step (CTask i e) (a_tcp a) = Some c"
    "a' = fold (tcp_rx_cb E created) (drop (length (c_rx (a_tcp a))) (c_rx c)) (a\<lparr>a_tcp := c\<rparr>)"
    using assms(2) unfolding with_tcp_def by blast
  have "c_cfg c = c_cfg (a_tcp a)" using c(1) by (auto dest!: tcp_task_cfg split: if_splits)
  then have "sys_inv entry (a\<lparr>a_tcp := c\<rparr>)" using assms(1) client_inv_step [OF c(1)] by (simp add: sys_inv_def)
  then show ?thesis unfolding c(2) by (rule fold_keeps) (rule tcp_rx_inv)
qed

lemma download_inv:
  "sys_inv entry a \<Longrightarrow> s_running (a_http a) \<Longrightarrow> run_download N E a = Some a' \<Longrightarrow> sys_inv entry a'"
  using task_ok [of "a_http a" N E] by (auto simp: run_download_def sys_inv_def)

lemma turn_inv:
  assumes "sys_inv entry a" "main_turn H toggled up a = Some a'"
  shows "sys_inv entry a'"
proof -
  have 1: "sys_inv entry (poll_rotary H a)"
    using assms(1) ac_inv_on_aircon [of "ir_aircon_send H 0 (sw_action (rotary_enc_get_sw_count (a_rot a)))" "a_ir a"] ac_inv_ops(2)
    by (auto simp: poll_rotary_def Let_def sys_inv_def)
  have t: "hub_inv entry h \<Longrightarrow> hub_inv entry (matter_hub_on_tick up h)" for h
    by (auto simp: hub_inv_def matter_hub_on_tick_def Let_def)
  have f: "(matter_hub_on_tick up h)\<lparr>flash := x\<rparr> = matter_hub_on_tick up (h\<lparr>flash := x\<rparr>)" for h :: "'a hub" and x
    by (simp add: matter_hub_on_tick_def Let_def)
  have 2: "sys_inv entry (loop_ble up b)" if "sys_inv entry b" for b
    using that t [of "(hub (a_matter b))\<lparr>flash := pflash (a_prov b)\<rparr>"]
    by (simp add: loop_ble_def Let_def sys_inv_def app_prov_set_state_def publish_status_def app_matter_svc_publish_status_def
        m_notify_def m_refresh_packed_def f)
  show ?thesis using assms(2) 1 2 [OF 1] by (auto simp: main_turn_def Let_def split: if_splits)
qed

text \<open>The start.\<close>

lemma flash_inv:
  assumes "sys_inv entry a" "entry (nv f) = entry (nv (pflash (a_prov a)))"
  shows "sys_inv entry (a\<lparr>a_prov := (a_prov a)\<lparr>pflash := f\<rparr>\<rparr>)"
proof -
  have "stored_ok entry f" using assms by (simp add: sys_parts)
  then show ?thesis
    using assms(1) hub_flash [where entry = entry and h = "hub (a_matter a)" and f = "pflash (a_prov a)" and f' = f]
    by (simp add: sys_inv_def)
qed

lemma prov_init_inv:
  assumes "sys_inv entry a" "nvs_quiet N entry"
  shows "sys_inv entry (snd (with_prov (app_prov_init N cb) a))"
proof -
  obtain rc d f where l: "app_nvram_load N zero_nvram (pflash (a_prov a)) = (rc, d, f)" by (metis prod_cases3)
  have g: "good_cfg d" "entry (nv f) = entry (nv (pflash (a_prov a)))"
    using load_good [OF assms(2) _ _ l] assms(1) by (auto simp: sys_inv_def good_cfg_def)
  then have "nvram_shape d" by (auto simp: good_cfg_def valid_creds_def)
  then show ?thesis using flash_inv [OF assms(1) g(2)] by (simp add: with_prov_def app_prov_init_def l sys_inv_def)
qed

lemma led_start_strip: "strip_inv (l_strip l) \<Longrightarrow> strip_inv (l_strip (snd (led_task_start g apa l)))"
  using strip_inv_ops(3) [of "l_strip l" g "Some \<lparr>cfg_type = if apa then LED_STRIP_APA102 else LED_STRIP_SK6812,
              cfg_count = 8, cfg_brightness = 255\<rparr>"]
  by (auto simp: led_task_start_def split: prod.split)

lemma services_inv:
  assumes "sys_inv entry a" "nvs_quiet N entry"
  shows "sys_inv entry (init_services N H g apa a)" "a_wifi (init_services N H g apa a) = a_wifi a"
    "a_ble_ready (init_services N H g apa a) = a_ble_ready a"
proof -
  have L: "nvs_laws N entry" using assms(2) by (simp add: nvs_quiet_def)
  let ?a1 = "a\<lparr>a_prov := (a_prov a)\<lparr>pflash := snd (app_nvram_init N (pflash (a_prov a)))\<rparr>\<rparr>"
  let ?f = "\<lambda>m. case matter_hub_init N (hub m) of (rc, h) \<Rightarrow> (rc, m\<lparr>hub := h\<rparr>)"
  let ?a2 = "snd (with_matter ?f ?a1)" and ?a3 = "snd (with_prov (app_prov_init N True) (snd (with_matter ?f ?a1)))"
  obtain r f where i: "app_nvs_init N (pflash (a_prov a)) = (r, f)" by force
  then have "snd (app_nvram_init N (pflash (a_prov a))) = f" by (simp add: app_nvram_init_def)
  then have 1: "sys_inv entry ?a1" using flash_inv [OF assms(1) nvs_init_keeps [OF L i]] by simp
  have 2: "sys_inv entry ?a2"
  proof (rule with_matter_inv [OF 1])
    fix m r m'
    assume m: "?f m = (r, m')" and h: "hub_inv entry (hub m)" "stored_ok entry (flash (hub m))"
    obtain rc h' where e: "hub_exec N HInit (hub m) = (rc, h')" by force
    show "hub_inv entry (hub m') \<and> stored_ok entry (flash (hub m'))"
      using hub_keeps [OF L e h] m e by auto
  qed
  have 3: "sys_inv entry ?a3" by (rule prov_init_inv [OF 2 assms(2)])
  have w: "a_wifi ?a3 = a_wifi a" "a_ble_ready ?a3 = a_ble_ready a"
    by (simp_all add: with_prov_def with_matter_def Let_def app_prov_init_def split: prod.split)
  have s: "init_services N H g apa a = ?a3\<lparr>a_status := snd (app_status_init (a_status ?a3)), a_ctrl := snd (app_ctrl_init (a_ctrl ?a3)),
      a_ir := snd (app_ir_svc_init H (a_ir ?a3)), a_led := snd (app_led_svc_init g apa (a_led ?a3)),
      a_matter := app_matter_svc_init (a_matter ?a3)\<rparr>"
    by (simp add: init_services_def Let_def)
  have "ac_inv (irs_ac (snd (app_ir_svc_init H (a_ir ?a3))))"
    using 3 ac_inv_on_aircon [of "ir_aircon_init H" "a_ir ?a3"] ac_inv_ops(1)
    by (simp add: app_ir_svc_init_def refresh_cached_status_def sys_inv_def)
  moreover have "strip_inv (l_strip (led_task (snd (app_led_svc_init g apa (a_led ?a3)))))"
    using 3 led_start_strip by (simp add: app_led_svc_init_def led_refresh_status_def sys_inv_def)
  ultimately show "sys_inv entry (init_services N H g apa a)"
    using 3 unfolding s by (simp add: sys_inv_def app_matter_svc_init_def m_refresh_packed_def)
  show "a_wifi (init_services N H g apa a) = a_wifi a" "a_ble_ready (init_services N H g apa a) = a_ble_ready a"
    unfolding s using w by simp_all
qed

lemma bt_ready_inv:
  assumes "sys_inv entry a" "nvs_quiet N entry" "\<not> a_ble_ready a"
  shows "sys_inv entry (bt_ready_cb N H g apa err adv iface a)"
proof -
  let ?a = "a\<lparr>a_connect_pending := False, a_reset_pending := False\<rparr>"
  let ?b = "init_services N H g apa ?a"
  have i: "sys_inv entry ?a" using assms(1) by (simp add: sys_inv_def)
  note s = services_inv [OF i assms(2), of H g apa]
  obtain rc d f where l: "app_nvram_load N zero_nvram (pflash (a_prov ?b)) = (rc, d, f)" by (metis prod_cases3)
  have g: "good_cfg d" "entry (nv f) = entry (nv (pflash (a_prov ?b)))"
    using load_good [OF assms(2) _ _ l] s(1) by (auto simp: sys_inv_def good_cfg_def)
  have e: "w_evts (a_wifi a) = []" using assms(1,3) by (simp add: sys_inv_def)
  show ?thesis
    using i flash_inv [OF s(1) g(2)] g(1) s(2) e
    by (simp add: bt_ready_cb_def Let_def l sys_inv_def app_wifi_init_def wifi_inv_def w_request_def)
qed

subsection \<open>Every step keeps it\<close>

lemma sys_step_inv:
  assumes "sys_inv entry a" "nvs_quiet (wd_nvs W) entry" "sys_step W l a = Some a'"
  shows "sys_inv entry a'"
proof (cases l)
  case (BtReady g apa err adv iface)
  then show ?thesis using assms bt_ready_inv by (auto split: if_splits)
next
  case (ProvWrite ch off b)
  then show ?thesis using assms with_prov_inv by auto
next
  case (MatterWrite off b)
  then show ?thesis using assms matter_write_inv by (auto simp: nvs_quiet_def)
next
  case (IrWrite b off)
  then have "a' = a\<lparr>a_ir := snd (ir_write_cmd (wd_tx W) b off (a_ir a))\<rparr>" using assms(3) by simp
  then show ?thesis using assms(1) ir_write_inv [of "a_ir a"] by (simp add: sys_inv_def)
next
  case (LedWrite off b)
  then have "a' = a\<lparr>a_led := snd (led_write_cmd off b (a_led a))\<rparr>" using assms(3) by simp
  then show ?thesis using assms(1) led_write_strip [of "a_led a"] by (simp add: sys_inv_def)
next
  case (WifiEv created e)
  then show ?thesis using assms with_wifi_inv by (auto split: if_splits)
next
  case (TcpEv created i e)
  then show ?thesis using assms with_tcp_inv by (auto simp del: c_step.simps)
next
  case ConnectWork
  have "sys_inv entry (a\<lparr>a_connect_pending := False\<rparr>)" using assms(1) by (simp add: sys_inv_def)
  from connect_work_inv [OF this assms(2)] show ?thesis using assms(3) ConnectWork by (auto split: if_splits)
next
  case (ResetWork rc)
  have "sys_inv entry (a\<lparr>a_reset_pending := False\<rparr>)" using assms(1) by (simp add: sys_inv_def)
  from reset_work_inv [OF this] show ?thesis using assms(3) ResetWork by (auto split: if_splits)
next
  case (ShellStart created argv)
  then show ?thesis using assms shell_start_inv by auto
next
  case Download
  then show ?thesis using assms download_inv by (auto split: if_splits)
next
  case LedTick
  then have "a' = a\<lparr>a_led := (a_led a)\<lparr>led_task := tick_fn (led_task (a_led a))\<rparr>\<rparr>" using assms(3) by simp
  then show ?thesis using assms(1) tick_strip [of "led_task (a_led a)"] by (simp add: sys_inv_def)
next
  case (Turn toggled up)
  then show ?thesis using assms turn_inv by auto
next
  case (MatterCcc v)
  then have "a' = a\<lparr>a_matter := matter_ccc_changed v (a_matter a)\<rparr>" using assms(3) by simp
  then show ?thesis using assms(1) by (simp add: sys_inv_def matter_ccc_changed_def m_notify_def m_refresh_packed_def)
next
  case MatterRead
  then have "a' = a\<lparr>a_matter := snd (matter_read_status (a_matter a))\<rparr>" using assms(3) by simp
  then show ?thesis using assms(1) by (simp add: sys_inv_def matter_read_status_def m_refresh_packed_def Let_def)
next
  case IrRead
  then have "a' = a\<lparr>a_ir := snd (ir_read_status (a_ir a))\<rparr>" using assms(3) by simp
  then show ?thesis using assms(1) by (simp add: sys_inv_def ir_read_status_def refresh_cached_status_def Let_def)
next
  case LedRead
  then have "a' = a\<lparr>a_led := snd (led_read_status (a_led a))\<rparr>" using assms(3) by simp
  then show ?thesis using assms(1) by (simp add: sys_inv_def led_read_status_def led_refresh_status_def Let_def)
next
  case (CtrlWrite off b)
  then have "a' = a\<lparr>a_ctrl := snd (ctrl_write_cmd (Some ctrl_cb) off b (a_ctrl a))\<rparr>" using assms(3) by simp
  then show ?thesis using assms(1) by (simp add: sys_inv_def)
next
  case (RotaryEdge x y)
  then have "a' = a\<lparr>a_rot := rotary_isr x y (a_rot a)\<rparr>" using assms(3) by simp
  then show ?thesis using assms(1) by (simp add: sys_inv_def)
next
  case (RotarySwitch level)
  then have "a' = a\<lparr>a_rot := rotary_sw_poll_fn level (a_rot a)\<rparr>" using assms(3) by simp
  then show ?thesis using assms(1) by (simp add: sys_inv_def)
qed

lemma sys_run_inv:
  "sys_run W ls a = Some a' \<Longrightarrow> sys_inv entry a \<Longrightarrow> nvs_quiet (wd_nvs W) entry \<Longrightarrow> sys_inv entry a'"
  by (induction ls arbitrary: a) (auto simp: bind_eq_Some_conv dest: sys_step_inv)

lemma boot_parts:
  "good_cfg zero_nvram" "good_cfg (w_retry_cfg wifi_boot)" "good_cfg (c_cfg tcp_client_boot)" "wifi_inv wifi_boot"
  "client_inv tcp_client_boot" "ac_inv aircon_boot" "strip_inv (l_strip led_boot)" "w_reqs wifi_boot = []" "w_evts wifi_boot = []"
  using tx_inv_boot
  by (simp_all add: good_cfg_def wifi_boot_def wifi_inv_def tcp_client_boot_def client_inv_def ac_inv_def aircon_boot_def
      led_boot_def strip_boot_def strip_inv_def)

lemma hub_boot_inv: "stored_ok entry f \<Longrightarrow> hub_inv entry ((hub_boot f)\<lparr>flash := nvs_reboot f\<rparr>)"
  by (simp add: hub_inv_def hub_boot_def stored_ok_def)

lemma power_on_inv:
  assumes "stored_ok entry f" "ota_inv (ota h)" "\<not> s_ota_core_inited h" "\<not> s_running h"
  shows "sys_inv entry (power_on f h)"
proof -
  have "stored_ok entry (nvs_reboot f)" using assms(1) by (simp add: stored_ok_def)
  then show ?thesis
    using assms(2-4) hub_boot_inv [OF assms(1)] boot_parts by (simp add: sys_inv_def power_on_def)
qed

subsection \<open>A lost link\<close>

definition is_connect :: "wifi_req \<Rightarrow> bool" where
  "is_connect r \<longleftrightarrow> (case r of ReqConnect sd band sec psk \<Rightarrow> True | _ \<Rightarrow> False)"

definition offline :: "('v, 'n, 'e) app \<Rightarrow> bool" where
  "offline a \<longleftrightarrow> a_ble_ready a \<and> w_started (a_wifi a) \<and> \<not> w_connected (a_wifi a) \<and> \<not> w_retry_pending (a_wifi a) \<and>
     \<not> w_timeout_on (a_wifi a) \<and> \<not> a_connect_pending a \<and> \<not> c_running (a_tcp a)"

text \<open>Anything but a commit of new credentials, and no answer of the network to a request nobody made.\<close>

fun unasked :: "sys_label \<Rightarrow> bool" where
  "unasked (ProvWrite ch off b) \<longleftrightarrow> \<not> (ch = ChCommit \<and> b \<noteq> [] \<and> hd b = 1)"
| "unasked (WifiEv created (WMgmt (ConnectResult ws band))) \<longleftrightarrow> False"
| "unasked (WifiEv created (WDhcp bound)) \<longleftrightarrow> \<not> bound"
| "unasked _ \<longleftrightarrow> True"

text \<open>What the lost link depends on, and what of it a step changes.\<close>

definition stays :: "('v, 'n, 'e) app \<Rightarrow> ('v, 'n, 'e) app \<Rightarrow> bool" where
  "stays a a' \<longleftrightarrow> offline a' \<and> filter is_connect (w_reqs (a_wifi a')) = filter is_connect (w_reqs (a_wifi a))"

lemma stays_same:
  "offline a \<Longrightarrow> a_wifi a' = a_wifi a \<Longrightarrow> c_running (a_tcp a') = c_running (a_tcp a) \<Longrightarrow>
   a_ble_ready a' = a_ble_ready a \<Longrightarrow> a_connect_pending a' = a_connect_pending a \<Longrightarrow> stays a a'"
  by (simp add: stays_def offline_def)

lemma fold_prov_cb:
  "PROV_COMMIT_OK \<notin> set es \<Longrightarrow> a_wifi (fold prov_cb es a) = a_wifi a \<and> a_tcp (fold prov_cb es a) = a_tcp a \<and>
     a_ble_ready (fold prov_cb es a) = a_ble_ready a \<and> a_connect_pending (fold prov_cb es a) = a_connect_pending a"
proof (induction es arbitrary: a)
  case (Cons e es)
  then show ?case by (cases e) simp_all
qed simp

lemma prov_events:
  assumes "prov_write N ch off b p = (r, p')" "\<not> (ch = ChCommit \<and> b \<noteq> [] \<and> hd b = 1)"
  shows "PROV_COMMIT_OK \<notin> set (drop (length (p_evts p)) (p_evts p'))"
  using assms
  by (cases ch) (auto simp: write_ssid_def write_pass_def write_sec_def write_host_def write_port_def stage_def write_commit_def
      app_prov_set_state_def hd_conv_nth Let_def split: sum.splits if_splits prod.splits)

lemma fold_tcp_rx:
  "a_wifi (fold (tcp_rx_cb E created) ds a) = a_wifi a \<and> a_tcp (fold (tcp_rx_cb E created) ds a) = a_tcp a \<and>
   a_ble_ready (fold (tcp_rx_cb E created) ds a) = a_ble_ready a \<and>
   a_connect_pending (fold (tcp_rx_cb E created) ds a) = a_connect_pending a"
proof (induction ds arbitrary: a)
  case (Cons d ds)
  have "a_wifi (tcp_rx_cb E created d a) = a_wifi a \<and> a_tcp (tcp_rx_cb E created d a) = a_tcp a \<and>
    a_ble_ready (tcp_rx_cb E created d a) = a_ble_ready a \<and> a_connect_pending (tcp_rx_cb E created d a) = a_connect_pending a"
    by (auto simp: tcp_rx_cb_def split: option.split)
  then show ?case using Cons.IH [of "tcp_rx_cb E created d a"] by simp
qed simp

lemma tcp_task_running: "tcp_task pc e c = Some (pc', c') \<Longrightarrow> c_running c' = c_running c"
  by (cases "(pc, e, c)" rule: tcp_task.cases) (auto split: if_splits)

lemma poll_same:
  "a_wifi (poll_rotary H a) = a_wifi a" "a_tcp (poll_rotary H a) = a_tcp a" "a_ble_ready (poll_rotary H a) = a_ble_ready a"
  "a_connect_pending (poll_rotary H a) = a_connect_pending a"
  by (simp_all add: poll_rotary_def Let_def)

lemma loop_same:
  "a_wifi (loop_ble up a) = a_wifi a" "a_tcp (loop_ble up a) = a_tcp a" "a_ble_ready (loop_ble up a) = a_ble_ready a"
  "a_connect_pending (loop_ble up a) = a_connect_pending a"
  by (simp_all add: loop_ble_def publish_status_def Let_def)

lemma turn_stays:
  assumes "main_turn H toggled up a = Some a'" "offline a"
  shows "stays a a'"
proof -
  have "a' = loop_ble up (poll_rotary H a) \<or> a' = poll_rotary H a"
    using assms(1) by (simp add: main_turn_def Let_def split: if_splits)
  then show ?thesis by (elim disjE) (rule stays_same [OF assms(2)], simp_all add: poll_same loop_same)+
qed

lemma wifi_idle:
  assumes "w_step l w = Some w'" "stack_event l" "unasked (WifiEv created l)"
    and "w_started w" "\<not> w_connected w" "\<not> w_retry_pending w" "\<not> w_timeout_on w"
  shows "w' = w \<or> w' = w\<lparr>w_ready_pending := False\<rparr>"
proof (cases l)
  case WReadyTimer
  then have "w' = w\<lparr>w_ready_pending := False\<rparr>" using assms(1,4) by (simp add: ready_work_fn_def split: if_splits)
  then show ?thesis ..
next
  case (WIfUp ours up)
  then have "w' = w" using assms(1,4) by (simp add: iface_event_handler_def split: if_splits)
  then show ?thesis ..
next
  case (WMgmt e)
  then have "w' = w" using assms(1,3,5) by (cases e) simp_all
  then show ?thesis ..
next
  case (WDhcp b)
  then have "w' = w" using assms(1,3) by (simp add: ipv4_event_handler_def)
  then show ?thesis ..
qed (use assms(1,2,6,7) in simp_all)

lemma wifi_stays:
  assumes "offline a" "stack_event l" "unasked (WifiEv created l)" "with_wifi created (w_step l) a = Some a'"
  shows "stays a a'"
proof -
  obtain w where w: "w_step l (a_wifi a) = Some w"
    "a' = fold (wifi_cb created) (drop (length (w_evts (a_wifi a))) (w_evts w)) (a\<lparr>a_wifi := w\<rparr>)"
    using assms(4) by (auto simp: with_wifi_def)
  have "w = a_wifi a \<or> w = (a_wifi a)\<lparr>w_ready_pending := False\<rparr>"
    using wifi_idle [OF w(1) assms(2,3)] assms(1) by (simp add: offline_def)
  then have "w_evts w = w_evts (a_wifi a)" "stays a (a\<lparr>a_wifi := w\<rparr>)"
    using assms(1) by (auto simp: stays_def offline_def)
  then show ?thesis unfolding w(2) by simp
qed

lemma step_stays:
  assumes "offline a" "unasked l" "sys_step W l a = Some a'"
  shows "stays a a'"
proof (cases l)
  case (BtReady g apa err adv iface)
  then show ?thesis using assms by (simp add: offline_def)
next
  case (ProvWrite ch off b)
  obtain r p where p: "prov_write (wd_nvs W) ch off b (a_prov a) = (r, p)" by force
  have "a' = fold prov_cb (drop (length (p_evts (a_prov a))) (p_evts p)) (a\<lparr>a_prov := p\<rparr>)"
    using assms(3) ProvWrite by (simp add: with_prov_def p)
  then show ?thesis
    using fold_prov_cb [OF prov_events [OF p], of "a\<lparr>a_prov := p\<rparr>"] assms(1,2) ProvWrite
    by (intro stays_same) simp_all
next
  case (MatterWrite off b)
  then have "a' = snd (with_matter (matter_write_cmd (wd_nvs W) off b) a)" using assms(3) by simp
  then show ?thesis by (intro stays_same [OF assms(1)]) (simp_all add: with_matter_def Let_def split: prod.split)
next
  case (WifiEv created e)
  then show ?thesis using assms wifi_stays by (auto split: if_splits)
next
  case (TcpEv created i e)
  then have "with_tcp (wd_flash W) created (c_step (CTask i e)) a = Some a'" using assms(3) by (simp del: c_step.simps)
  then obtain c where c: "c_step (CTask i e) (a_tcp a) = Some c"
    "a' = fold (tcp_rx_cb (wd_flash W) created) (drop (length (c_rx (a_tcp a))) (c_rx c)) (a\<lparr>a_tcp := c\<rparr>)"
    unfolding with_tcp_def by blast
  have "c_running c = c_running (a_tcp a)" using c(1) by (auto dest!: tcp_task_running split: if_splits)
  then show ?thesis unfolding c(2) by (intro stays_same [OF assms(1)]) (simp_all add: fold_tcp_rx)
next
  case ConnectWork
  then show ?thesis using assms by (simp add: offline_def)
next
  case (ResetWork rc)
  then have "a' = prov_reset_work_fn rc (a\<lparr>a_reset_pending := False\<rparr>)" using assms(3) by (simp split: if_splits)
  then show ?thesis
    using assms(1)
    by (auto simp: prov_reset_work_fn_def stays_def offline_def app_wifi_disconnect_def wifi_defs Let_def is_connect_def
        app_tcp_client_stop_def stop_close_def stop_flag_def)
next
  case Download
  then show ?thesis using assms(3) by (intro stays_same [OF assms(1)]) (auto simp: run_download_def split: if_splits)
next
  case (Turn toggled up)
  then show ?thesis using assms turn_stays by auto
qed (rule stays_same [OF assms(1)], use assms(3) in auto)+

lemma run_stays:
  "sys_run W ls a = Some a' \<Longrightarrow> offline a \<Longrightarrow> list_all unasked ls \<Longrightarrow> stays a a'"
proof (induction ls arbitrary: a)
  case Nil
  then show ?case by (simp add: stays_def)
next
  case (Cons l ls)
  then obtain b where b: "sys_step W l a = Some b" "sys_run W ls b = Some a'" by (auto simp: bind_eq_Some_conv)
  have "stays a b" using step_stays [OF Cons.prems(2) _ b(1)] Cons.prems(3) by simp
  then show ?case using Cons.IH [OF b(2)] Cons.prems(3) by (simp add: stays_def)
qed

subsection \<open>Properties\<close>

lemma good_cfg_ends: "good_cfg d \<Longrightarrow> 0 \<in> set (host_ip d) \<and> 0 \<in> set (ssid d)"
proof -
  assume g: "good_cfg d"
  then have l: "length (host_ip d) = 65" "length (ssid d) = 33" and t: "terminated d = d"
    by (auto simp: good_cfg_def valid_creds_def nvram_shape_def terminated_def zero_nvram_def list_update_same_conv)
  have "(host_ip d)[64 := 0] = host_ip d" "(ssid d)[32 := 0] = ssid d" using t by (cases d, simp add: terminated_def)+
  moreover have "0 \<in> set b" if "b[n := 0] = b" "n < length b" for n and b :: "u8 list"
    using set_update_memI [OF that(2), of 0] that(1) by simp
  ultimately show ?thesis using l by auto
qed

text \<open>C2: Whatever comes in, in any order, the parts of the application stay consistent with one another.  From power-on
  with a flash that is empty or was written by this firmware, over any sequence of Bluetooth accesses,
  network and socket events, work items, downloads, encoder edges and turns of the main loop: the
  flash holds complete valid credentials or none, and Matter preferences without an open window or
  none; every connect request names a network of 1 to 32 bytes with a key exactly when it is
  protected; the host and the name that the TCP client and the Wi-Fi manager read end inside their
  arrays; READY is announced once; there is a socket exactly while connected; a powered air
  conditioner's cached frame verifies and the carrier stays in its band; the strip keeps its
  pixels; a committed update is complete and has its reboot scheduled.\<close>

theorem system_consistent:
  assumes "nvs_quiet (wd_nvs W) entry" "stored_ok entry f" "ota h = ota_boot e" "\<not> s_ota_core_inited h" "\<not> s_running h"
    and "sys_run W ls (power_on f h) = Some a"
  shows "(\<forall>b. entry (nv (pflash (a_prov a))) 1 = Some b \<longrightarrow> length b = 184 \<and> app_nvram_is_valid (nvram_of_bytes b)) \<and>
    (\<forall>b. entry (nv (pflash (a_prov a))) 2 = Some b \<longrightarrow> length b = 160 \<and>
       commissioning_state (prefs_of_bytes b) \<noteq> CMP_WINDOW_OPEN \<and> fabric_count (prefs_of_bytes b) \<le> 8) \<and>
    list_all req_ok (w_reqs (a_wifi a)) \<and>
    0 \<in> set (host_ip (c_cfg (a_tcp a))) \<and> 0 \<in> set (ssid (w_retry_cfg (a_wifi a))) \<and>
    count_list (w_evts (a_wifi a)) WIFI_READY \<le> 1 \<and>
    (c_connected (a_tcp a) \<longleftrightarrow> 0 \<le> c_sock (a_tcp a)) \<and>
    (sam_power (irs_ac (a_ir a)) \<longrightarrow> ir_codec_samsung_ac_verify_all (Some (sam14 (irs_ac (a_ir a))))) \<and>
    25000 \<le> carrier_hz (ac_tx (irs_ac (a_ir a))) \<and> carrier_hz (ac_tx (irs_ac (a_ir a))) \<le> 60000 \<and>
    length (pixels (l_strip (led_task (a_led a)))) = 64 \<and>
    (state (st (ota (a_http a))) = OTA_COMMITTED \<longrightarrow>
       bytes_received (st (ota (a_http a))) = total_size (st (ota (a_http a))) \<and> reboot_scheduled (ota (a_http a)))"
proof -
  have "sys_inv entry (power_on f h)" using power_on_inv [OF assms(2) _ assms(4,5)] assms(3) by simp
  then have I: "sys_inv entry a" by (rule sys_run_inv [OF assms(6) _ assms(1)])
  note P = I [unfolded sys_inv_def]
  have "stored_ok entry (pflash (a_prov a))" "wifi_inv (a_wifi a)" "client_inv (a_tcp a)" "ac_inv (irs_ac (a_ir a))"
    "strip_inv (l_strip (led_task (a_led a)))" "ota_inv (ota (a_http a))" "good_cfg (c_cfg (a_tcp a))"
    "good_cfg (w_retry_cfg (a_wifi a))" "list_all req_ok (w_reqs (a_wifi a))"
    using P by simp_all
  then show ?thesis
    using good_cfg_ends
    by (auto simp: stored_ok_def valid_creds_def keepable_def wifi_inv_def client_inv_def ac_inv_def tx_inv_def strip_inv_def
        ota_inv_def split: if_splits)
qed

definition demo_world :: "(nat \<Rightarrow> u8 list option, u8 list, u8 list) world" where
  "demo_world = \<lparr>wd_nvs = demo_nvs, wd_flash = demo_flash, wd_net = demo_net, wd_tx = demo_tx_hw\<rparr>"

definition demo_cold :: "(u8 list, u8 list) http" where
  "demo_cold = (demo_task [])\<lparr>s_running := False, s_ota_core_inited := False, ota := ota_boot []\<rparr>"

lemma demo_nvs_quiet: "nvs_quiet demo_nvs (\<lambda>v. v)"
  using demo_nvs_laws by (auto simp: nvs_quiet_def demo_nvs_def)

lemma system_consistent_witness:
  "\<exists>a. sys_run demo_world [ProvWrite ChSsid 0 [104, 105], CtrlWrite 0 [4], LedTick, Turn True 7] (power_on demo_store demo_cold) = Some a \<and>
    list_all req_ok (w_reqs (a_wifi a)) \<and> 0 \<in> set (host_ip (c_cfg (a_tcp a))) \<and> 25000 \<le> carrier_hz (ac_tx (irs_ac (a_ir a)))"
proof -
  have N: "nvs_quiet (wd_nvs demo_world) (\<lambda>v. v)" using demo_nvs_quiet by (simp add: demo_world_def)
  have S: "stored_ok (\<lambda>v. v) demo_store" by (simp add: stored_ok_def demo_store_def)
  have H: "ota demo_cold = ota_boot []" "\<not> s_ota_core_inited demo_cold" "\<not> s_running demo_cold" by (simp_all add: demo_cold_def)
  obtain a where r: "sys_run demo_world [ProvWrite ChSsid 0 [104, 105], CtrlWrite 0 [4], LedTick, Turn True 7]
      (power_on demo_store demo_cold) = Some a"
    by (simp add: main_turn_def Let_def)
  from system_consistent [OF N S H r] r show ?thesis by blast
qed

text \<open>C8: A lost link stays lost.  The Wi-Fi link of a device in service goes down.  Whatever then happens, short of a
  commit of new credentials over Bluetooth or a restart: other Bluetooth writes, every control
  command, network events that answer no request, socket events, work items, downloads and
  turns of the main loop: no connect request is ever made again, Wi-Fi and TCP client stay down, and
  the control command \<open>WIFI_RECONNECT\<close> is still answered OK and changes neither of them.\<close>

theorem lost_link_stays_lost:
  assumes "a_ble_ready a" "w_started (a_wifi a)" "w_connected (a_wifi a)" "w_cb (a_wifi a)"
    and "\<not> w_retry_pending (a_wifi a)" "\<not> w_timeout_on (a_wifi a)" "\<not> a_connect_pending a" "list_all unasked ls"
    and "sys_run W (WifiEv True (WMgmt DisconnectResult) # ls) a = Some a'"
  shows "\<not> app_wifi_is_connected (a_wifi a') \<and> \<not> c_running (a_tcp a') \<and>
    filter is_connect (w_reqs (a_wifi a')) = filter is_connect (w_reqs (a_wifi a)) \<and>
    (\<exists>a2. sys_step W (CtrlWrite 0 [4]) a' = Some a2 \<and> fst (ctrl_write_cmd (Some ctrl_cb) 0 [4] (a_ctrl a')) = Inr 1 \<and>
       read_resp (a_ctrl a2) = RSP_OK \<and> a_wifi a2 = a_wifi a' \<and> a_tcp a2 = a_tcp a')"
proof -
  let ?w = "(a_wifi a)\<lparr>w_connected := False, w_band := 0, w_evts := w_evts (a_wifi a) @ [WIFI_DISCONNECTED]\<rparr>"
  obtain b where b: "sys_step W (WifiEv True (WMgmt DisconnectResult)) a = Some b" "sys_run W ls b = Some a'"
    using assms(9) by (auto simp: bind_eq_Some_conv simp del: sys_step.simps)
  have "b = wifi_cb True WIFI_DISCONNECTED (a\<lparr>a_wifi := ?w\<rparr>)"
    using b(1) assms(1,3,4) by (simp add: with_wifi_def w_emit_def)
  then have o: "offline b" "w_reqs (a_wifi b) = w_reqs (a_wifi a)"
    using assms(1,2,5-7) by (simp_all add: offline_def app_tcp_client_stop_def stop_close_def stop_flag_def)
  have "stays b a'" by (rule run_stays [OF b(2) o(1) assms(8)])
  then show ?thesis using o(2)
    by (simp add: stays_def offline_def app_wifi_is_connected_def ctrl_write_cmd_def opcode_to_evt_def ctrl_cb_def
        app_ctrl_respond_def read_resp_def)
qed

definition demo_online :: "(nat \<Rightarrow> u8 list option, u8 list, u8 list) app" where
  "demo_online = (listening_app [])\<lparr>a_wifi := demo_wifi\<lparr>w_connected := True\<rparr>\<rparr>"

lemma lost_link_stays_lost_witness:
  "\<exists>a'. sys_run demo_world [WifiEv True (WMgmt DisconnectResult), CtrlWrite 0 [4], WifiEv True WReadyTimer, Turn True 9]
      (demo_online\<lparr>a_wifi := (a_wifi demo_online)\<lparr>w_ready_pending := True\<rparr>\<rparr>) = Some a' \<and>
    \<not> c_running (a_tcp a') \<and> filter is_connect (w_reqs (a_wifi a')) = []"
proof -
  let ?a = "demo_online\<lparr>a_wifi := (a_wifi demo_online)\<lparr>w_ready_pending := True\<rparr>\<rparr>"
  let ?ls = "[CtrlWrite 0 [4], WifiEv True WReadyTimer, Turn True 9]"
  have C: "a_ble_ready ?a" "w_started (a_wifi ?a)" "w_connected (a_wifi ?a)" "w_cb (a_wifi ?a)" "\<not> w_retry_pending (a_wifi ?a)"
    "\<not> w_timeout_on (a_wifi ?a)" "\<not> a_connect_pending ?a" "list_all unasked ?ls" "w_reqs (a_wifi ?a) = []"
    by (simp_all add: demo_online_def listening_app_def demo_app_def demo_wifi_def wifi_boot_def)
  obtain a' where r: "sys_run demo_world (WifiEv True (WMgmt DisconnectResult) # ?ls) ?a = Some a'"
    using C(1,2) by (simp add: with_wifi_def main_turn_def Let_def ready_work_fn_def w_emit_def demo_online_def demo_wifi_def wifi_boot_def)
  from lost_link_stays_lost [OF C(1-8) r] r C(9) show ?thesis by auto
qed

end
