(* ===== verification/IrEcho.thy ===== *)
theory IrEcho
  imports SvcIr AppIr IrTx
begin

text \<open>
  From a Bluetooth write on one device to the report of another: the IR service, the air-conditioner
  front-end, the encoder and the transmitter on one side, the edge interrupt, the gap timer, the
  decoder and the section collector on the other, and the air between them with its timing.
\<close>

subsection \<open>The air\<close>

text \<open>The receiver's pin follows the carrier, inverted.  A level is held for \<open>d\<close> microseconds; the
  gap work, rescheduled by every edge, runs when nothing changes for its delay.\<close>

definition gap_work_us :: u32 where
  "gap_work_us = 12 * 1000"

fun play :: "u32 \<Rightarrow> u32 \<Rightarrow> (bool \<times> u32) list \<Rightarrow> ir_rx \<Rightarrow> ir_rx" where
  "play cpu t [] r = r"
| "play cpu t ((on, d) # xs) r =
     (let r = rx_step (Edge t (\<not> on)) r;
          r = (if gap_work_us \<le> d then rx_step Gap r else r)
      in play cpu (t + d * cpu) xs r)"

text \<open>How long the carrier is on and off, from the log of the PWM transmitter.\<close>

fun pwm_levels :: "tx_event list \<Rightarrow> (bool \<times> u32) list" where
  "pwm_levels (Pwm p w # Wait d # es) = (w \<noteq> 0, ucast d) # pwm_levels es"
| "pwm_levels _ = []"

lemma pwm_levels_frame:
  "(1000000000 div hz) div 3 \<noteq> 0 \<Longrightarrow> pwm_levels (concat (map (symbol_events hz) ss) @ [Pwm (1000000000 div hz) 0]) =
    concat (map (\<lambda>s. [(True, ucast (mark_us s)), (False, ucast (space_us s))]) ss)"
  by (induction ss) (simp_all add: symbol_events_def Let_def)

definition sym_levels :: "ir_symbol list \<Rightarrow> (bool \<times> u32) list" where
  "sym_levels ss = concat (map (\<lambda>s. [(True, mark32 s), (False, space32 s)]) ss)"

text \<open>Levels that last up to \<open>k\<close> microseconds more or less than intended.\<close>

definition drift :: "nat \<Rightarrow> (bool \<times> u32) list \<Rightarrow> (bool \<times> u32) list \<Rightarrow> bool" where
  "drift k = list_all2 (\<lambda>(on, d) (on', d'). on' = on \<and> unat d \<le> unat d' + k \<and> unat d' \<le> unat d + k)"

definition near :: "nat \<Rightarrow> ir_symbol \<Rightarrow> ir_symbol \<Rightarrow> bool" where
  "near k s g \<longleftrightarrow> unat (mark_us s) \<le> unat (mark_us g) + k \<and> unat (mark_us g) \<le> unat (mark_us s) + k \<and>
     unat (space_us s) \<le> unat (space_us g) + k \<and> unat (space_us g) \<le> unat (space_us s) + k"

lemma unat_ucast_16_32 [simp]: "unat (ucast (w :: u16) :: u32) = unat w"
proof -
  have "unat w < 2 ^ LENGTH(16)" by (rule unsigned_less)
  then show ?thesis by (simp add: unsigned_ucast_eq take_bit_eq_mod)
qed

lemma narrow: "unat (d :: u32) < 65536 \<Longrightarrow> ucast (ucast d :: u16) = d"
  by (simp add: word_unat_eq_iff unsigned_ucast_eq take_bit_eq_mod unat_mod)

text \<open>A drifted frame is again a frame.\<close>

lemma drift_symbols:
  assumes "drift k (sym_levels ss) lv"
    "\<forall>s \<in> set ss. unat (mark_us s) + k < 65536 \<and> unat (space_us s) + k < 65536"
  shows "\<exists>got. lv = sym_levels got \<and> list_all2 (near k) ss got"
  using assms
proof (induction ss arbitrary: lv)
  case Nil
  then show ?case by (auto simp: sym_levels_def drift_def)
next
  case (Cons s ss)
  obtain m p lv' where lv: "lv = (True, m) # (False, p) # lv'" "drift k (sym_levels ss) lv'"
    and n: "unat (mark_us s) \<le> unat m + k" "unat m \<le> unat (mark_us s) + k"
      "unat (space_us s) \<le> unat p + k" "unat p \<le> unat (space_us s) + k"
    using Cons.prems(1) by (auto simp: sym_levels_def drift_def list_all2_Cons1)
  obtain got where g: "lv' = sym_levels got" "list_all2 (near k) ss got"
    using Cons.IH [OF lv(2)] Cons.prems(2) by auto
  let ?g = "ir_symbol_make (ucast m) (ucast p)"
  have w: "ucast (ucast m :: u16) = m" "ucast (ucast p :: u16) = p"
    using n Cons.prems(2) by (auto intro!: narrow)
  then have u: "unat (ucast m :: u16) = unat m" "unat (ucast p :: u16) = unat p"
    by (metis unat_ucast_16_32)+
  have "lv = sym_levels (?g # got)" using lv(1) g(1) w by (simp add: sym_levels_def ir_symbol_make_def)
  moreover have "near k s ?g" using n u by (simp add: near_def ir_symbol_make_def)
  ultimately show ?case using g(2) by blast
qed

text \<open>A train whose spaces are short up to the last is captured as one frame.\<close>

lemma play_train:
  assumes "ss \<noteq> []" "\<forall>s \<in> set ss. mark32 s < gap_work_us" "\<forall>s \<in> set (butlast ss). space32 s < gap_work_us"
    and "gap_work_us \<le> space32 (last ss)"
  shows "\<exists>t'. play cpu t (sym_levels ss @ xs) r =
    play cpu t' xs (rx_step Gap (fold rx_step (edges t (on_air cpu ss)) r))"
  using assms
proof (induction ss arbitrary: t r)
  case (Cons s ss)
  have m: "\<not> gap_work_us \<le> mark32 s" using Cons.prems(2) by (simp add: not_le)
  show ?case
  proof (cases "ss = []")
    case True
    then show ?thesis using m Cons.prems(4) by (auto simp: sym_levels_def on_air_def Let_def)
  next
    case False
    then have p: "\<not> gap_work_us \<le> space32 s" using Cons.prems(3) by (simp add: not_le)
    have s: "play cpu t (sym_levels (s # ss) @ xs) r = play cpu (t + mark32 s * cpu + space32 s * cpu) (sym_levels ss @ xs)
        (gpio_edge_cb (t + mark32 s * cpu) True (gpio_edge_cb t False r))"
      using m p by (simp add: sym_levels_def Let_def)
    show ?thesis
      using Cons.IH [of "t + mark32 s * cpu + space32 s * cpu" "gpio_edge_cb (t + mark32 s * cpu) True (gpio_edge_cb t False r)"]
        Cons.prems False unfolding s by (simp add: on_air_def)
  qed
qed simp

subsection \<open>A Samsung frame through the air\<close>

lemma sac_symbols:
  assumes "ir_codec_samsung_ac_encode (Some d) (Some c) = Inr syms"
  shows "syms = hd syms # sac_body d" "hd syms = ir_symbol_make SAC_HDR_MARK SAC_HDR_SPACE" "sac_body d \<noteq> []"
    "\<forall>s \<in> set syms. mark_us s \<in> {690, 3086, 586} \<and> space_us s \<in> {17844, 8864, 436, 1432, 2886, 20000}"
    "\<forall>s \<in> set (butlast (sac_body d)). space_us s \<in> {8864, 436, 1432, 2886}"
proof -
  note e = encode_body [OF assms]
  show 1: "syms = hd syms # sac_body d" "hd syms = ir_symbol_make SAC_HDR_MARK SAC_HDR_SPACE" using e by auto
  show 4: "\<forall>s \<in> set syms. mark_us s \<in> {690, 3086, 586} \<and> space_us s \<in> {17844, 8864, 436, 1432, 2886, 20000}"
    using sac_body_set e by (auto simp: ir_symbol_make_def)
  obtain n where n: "length d div 7 = Suc n" using e by (cases "length d div 7") auto
  show "sac_body d \<noteq> []" by (simp add: sac_body_def n sac_section_def)
  show "\<forall>s \<in> set (butlast (sac_body d)). space_us s \<in> {8864, 436, 1432, 2886}"
  proof -
    have b: "sac_body d = concat (map (\<lambda>s. sac_section (drop (s * 7) d) True) [0..<n]) @ sac_section (drop (n * 7) d) False"
      by (auto simp: sac_body_def n intro!: arg_cong [where f = concat] map_cong)
    have "butlast (sac_body d) = concat (map (\<lambda>s. sac_section (drop (s * 7) d) True) [0..<n]) @
        butlast (sac_section (drop (n * 7) d) False)"
      unfolding b by (simp add: butlast_append sac_section_def)
    then show ?thesis
      by (auto simp: sac_section_def sac_bit_sym_def ir_symbol_make_def butlast_append split: if_splits)
  qed
qed

lemma list_all2_second:
  "list_all2 R xs ys \<Longrightarrow> (\<And>x y. x \<in> set xs \<Longrightarrow> R x y \<Longrightarrow> Q y) \<Longrightarrow> \<forall>y \<in> set ys. Q y"
  by (induction rule: list_all2_induct) auto

lemma near_within:
  assumes "near 100 s g" "mark_us s \<in> {690, 3086, 586}" "space_us s \<in> {17844, 8864, 436, 1432, 2886, 20000}"
  shows "within s g"
proof -
  have m: "in_range (mark32 g) (mark32 s)"
    using assms(1,2) by (auto simp: near_def in_range_def word_le_nat_alt)
  have "space_us s = SAC_GAP \<or> space_us s = SAC_FINAL_GAP \<or> in_range (space32 g) (space32 s)"
    using assms(1,3) by (auto simp: near_def in_range_def word_le_nat_alt)
  with m show ?thesis by (simp add: within_def)
qed

lemma near_gap:
  assumes "near 100 s g" "mark_us s \<in> {690, 3086, 586}"
  shows "mark32 g < gap_work_us"
    "space_us s \<in> {8864, 436, 1432, 2886} \<Longrightarrow> space32 g < gap_work_us"
    "space_us s \<in> {17844, 20000} \<Longrightarrow> gap_work_us \<le> space32 g"
  using assms by (auto simp: near_def gap_work_us_def word_le_nat_alt word_less_nat_alt)

text \<open>A receiver that waits for a frame.\<close>

definition listening :: "ir_rx \<Rightarrow> bool" where
  "listening r \<longleftrightarrow> rx_active r \<and> rx_inv r \<and> rx_inited r \<and> phase r = RX_IDLE \<and> wr_len r = 0 \<and> rx_cb r \<and>
     unat (cyc_per_us r) < 65536"

lemma train_heard:
  assumes "listening r" "ps \<noteq> []" "length ps \<le> RX_MAX" "r' = rx_step Gap (fold rx_step (edges t ps) r)"
  shows "listening r' \<and> cyc_per_us r' = cyc_per_us r \<and>
    delivered r' = delivered r @ (if 3 \<le> length ps then [captured (cyc_per_us r) ps] else [])"
  using capture_run [of r ps t] capture_ready [of r ps r' t] assms by (simp add: listening_def)

lemma frame_heard:
  assumes "ir_codec_samsung_ac_encode (Some d) (Some c) = Inr syms" "drift 100 (sym_levels syms) lv"
    and "listening r" "cpu = cyc_per_us r"
  shows "\<exists>f. delivered (play cpu t lv r) = delivered r @ [f] \<and> jitter (tl syms) f \<and> listening (play cpu t lv r)"
proof -
  note S = sac_symbols [OF assms(1)]
  have "\<forall>s \<in> set syms. unat (mark_us s) + 100 < 65536 \<and> unat (space_us s) + 100 < 65536"
    using S(4) by auto
  then obtain got where g: "lv = sym_levels got" "list_all2 (near 100) syms got"
    using drift_symbols [OF assms(2)] by blast
  obtain h b where gb: "got = h # b" "near 100 (hd syms) h" "list_all2 (near 100) (sac_body d) b"
    using g(2) S(1) by (metis list_all2_Cons1)
  have h: "\<forall>s \<in> set [h]. mark32 s < gap_work_us" "gap_work_us \<le> space32 (last [h])"
    using near_gap [OF gb(2)] S(2) by (auto simp: ir_symbol_make_def)
  have T: "tl syms = sac_body d" using S(1) by (metis list.sel(3))
  have l: "length (sac_body d) = length b" by (rule list_all2_lengthD [OF gb(3)])
  then have bn: "b \<noteq> []" using S(3) by auto
  have lb: "length (butlast (sac_body d)) = length (butlast b)" using l by simp
  have "list_all2 (near 100) (butlast (sac_body d) @ [last (sac_body d)]) (butlast b @ [last b])"
    using gb(3) S(3) bn by simp
  then have nb: "list_all2 (near 100) (butlast (sac_body d)) (butlast b)" "near 100 (last (sac_body d)) (last b)"
    unfolding list_all2_append [OF lb] by simp_all
  have e: "d \<noteq> []" "length d = 7 * (length d div 7)" using encode_body [OF assms(1)] by simp_all
  have B: "\<forall>s \<in> set b. mark32 s < gap_work_us"
    by (rule list_all2_second [OF gb(3)]) (use near_gap(1) S(4) T S(1) in \<open>metis list.set_intros(2)\<close>)
  have B2: "\<forall>s \<in> set (butlast b). space32 s < gap_work_us"
  proof (rule list_all2_second [OF nb(1)])
    fix x y
    assume x: "x \<in> set (butlast (sac_body d))" "near 100 x y"
    then have "x \<in> set syms" using S(1) in_set_butlastD by (metis list.set_intros(2))
    then show "space32 y < gap_work_us" using near_gap(2) [OF x(2)] S(4,5) x(1) by blast
  qed
  have "last (sac_body d) \<in> set syms" using S(1,3) by (metis last_in_set list.set_intros(2))
  then have B3: "gap_work_us \<le> space32 (last b)"
    using near_gap(3) [OF nb(2)] S(4) sac_body_last [OF e] by auto
  let ?f = "captured cpu (on_air cpu b)"
  have cpu: "0 < cpu" "unat cpu < 65536" using assms(3,4) by (auto simp: listening_def rx_inv_def word_neq_0_conv)
  define r1 where "r1 = rx_step Gap (fold rx_step (edges t (on_air cpu [h])) r)"
  obtain t1 where p1: "play cpu t (sym_levels [h] @ sym_levels b) r = play cpu t1 (sym_levels b) r1"
    using play_train [of "[h]" cpu t "sym_levels b" r] h unfolding r1_def by auto
  obtain t2 where p2: "play cpu t1 (sym_levels b @ []) r1 = play cpu t2 [] (rx_step Gap (fold rx_step (edges t1 (on_air cpu b)) r1))"
    using play_train [OF bn B B2 B3, of cpu t1 "[]" r1] by blast
  have len: "length syms \<le> 175" "length (tl syms) = 58 * (length d div 7)" using encode_length [OF assms(1)] by simp_all
  have "0 < length d div 7" using e by (metis gr0I length_0_conv mult_0_right)
  moreover have "length syms = Suc (length (sac_body d))" using S(1) by (metis length_Cons)
  ultimately have n: "3 \<le> length b" "length b \<le> RX_MAX" using len T l by auto
  have r1: "listening r1 \<and> cyc_per_us r1 = cpu \<and> delivered r1 = delivered r"
    using train_heard [OF assms(3) _ _ r1_def] assms(4) by (simp add: on_air_def)
  have r2: "listening (play cpu t lv r)" "delivered (play cpu t lv r) = delivered r @ [?f]"
    using train_heard [OF conjunct1 [OF r1] _ _ refl, of "on_air cpu b" t1] r1 n bn p1 p2 g(1) gb(1)
    by (auto simp: sym_levels_def on_air_def)
  have "jitter (butlast (sac_body d)) (butlast b)"
    unfolding jitter_def
  proof (rule list.rel_mono_strong [OF nb(1)])
    fix x y
    assume x: "x \<in> set (butlast (sac_body d))" "near 100 x y"
    then have "x \<in> set syms" using S(1) in_set_butlastD by (metis list.set_intros(2))
    then show "within x y" using near_within [OF x(2)] S(4) by blast
  qed
  moreover have "within (last (sac_body d)) (last b)"
    using near_within [OF nb(2)] S(4) \<open>last (sac_body d) \<in> set syms\<close> by blast
  then have "within (last (sac_body d)) ((last b)\<lparr>space_us := 0\<rparr>)"
    using sac_body_last [OF e] by (simp add: within_def)
  ultimately have "jitter (butlast (sac_body d) @ [last (sac_body d)]) (butlast b @ [(last b)\<lparr>space_us := 0\<rparr>])"
    using lb by (simp add: jitter_def list_all2_append)
  then have "jitter (tl syms) ?f" using captured_on_air [OF cpu, of b] bn S(3) T by simp
  then show ?thesis using r2 by blast
qed

subsection \<open>From the write to the report\<close>

text \<open>The checksum loop leaves whole sections that verify.\<close>

lemma fix_sections_21:
  assumes "length f = 21"
  shows "length (fix_sections 0 f) = 21" "ir_codec_samsung_ac_verify_all (Some (fix_sections 0 f))"
proof -
  let ?k = ir_codec_samsung_ac_fix_checksum
  define a where "a = ?k f"
  define b where "b = ?k (drop 7 a)"
  define c where "c = ?k (drop 14 (take 7 a @ b))"
  have l: "length a = 21" "length b = 14" "length c = 7" using assms by (simp_all add: a_def b_def c_def)
  have d: "drop 14 (take 7 a @ b) = drop 7 b" using l by simp
  have cc: "?k (drop 7 b) = c" unfolding c_def d ..
  have "take 14 (take 7 a @ b) = take 7 a @ take 7 b" using l by simp
  then have e: "fix_sections 0 f = take 7 a @ take 7 b @ c"
    using assms l cc by (simp add: fix_sections.simps a_def [symmetric] b_def [symmetric])
  have v: "ir_codec_samsung_ac_verify a" "ir_codec_samsung_ac_verify b" "ir_codec_samsung_ac_verify c"
    unfolding a_def b_def c_def using assms l by (auto intro!: fix_verifies)
  show "length (fix_sections 0 f) = 21" using l by (simp add: e)
  show "ir_codec_samsung_ac_verify_all (Some (fix_sections 0 f))"
    unfolding e using v l three_sections_verify [of "take 7 a" "take 7 b" c] verify_take [of a] verify_take [of b] by simp
qed

lemma pwm_levels_sent:
  assumes "25000 \<le> hz" "hz \<le> 60000"
  shows "pwm_levels (frame_events hz ss) = sym_levels ss"
proof -
  have "25000 \<le> unat hz" "unat hz \<le> 60000" using assms by (simp_all add: word_le_nat_alt)
  then have "16666 \<le> 1000000000 div unat hz" using div_le_mono2 [of "unat hz" 60000 1000000000] by simp
  then have "0 < unat ((1000000000 div hz) div 3)" by (simp add: unat_div div_greater_zero_iff)
  then show ?thesis unfolding frame_events_def sym_levels_def by (intro pwm_levels_frame) (simp add: unat_gt_0)
qed

text \<open>C9: A frame sent is the frame reported.  A phone writes a RAW command with a 21-byte Samsung frame
  to one device, whose transmitter is up; with the checksum flag the device corrects the checksums,
  without it they hold already.  The levels the carrier takes arrive at a listening receiver, each up
  to 100 microseconds too long or too short, at any time of its wrapping cycle counter.  Then the
  write is accepted, the receiver, its gap timer cutting after the header, delivers one frame, the
  application reports exactly the bytes sent, and receiver and collector are ready for the next.\<close>

theorem ir_echo:
  assumes "ac_inv (irs_ac s)" "tx_inited (ac_tx (irs_ac s))" "\<forall>ss. thread_done H ss"
    and "length frame = 21" "fix \<noteq> 0 \<or> ir_codec_samsung_ac_verify_all (Some frame)"
    and "ir_write_cmd H (0x10 # fix # frame) 0 s = (res, s')"
    and "es = drop (length (wire (ac_tx (irs_ac s)))) (wire (ac_tx (irs_ac s')))" "drift 100 (pwm_levels es) lv"
    and "listening r" "app_ir_inv a" "r' = play (cyc_per_us r) t lv r"
    and "a' = fold ir_rx_frame_cb (drop (length (delivered r)) (delivered r')) a"
    and "sent = (if fix \<noteq> 0 then fix_sections 0 frame else frame)"
  shows "res = Inr 23 \<and> listening r' \<and> length (delivered r') = length (delivered r) + 1 \<and>
    reports a' = reports a @ [Samsung_report sent] \<and> have_sec a' = [False, False, False] \<and> app_ir_inv a'"
proof -
  have d: "length sent = 21" "ir_codec_samsung_ac_verify_all (Some sent)"
    using assms(4,5,13) fix_sections_21 [OF assms(4)] by auto
  have d': "7 dvd length sent" "sent \<noteq> []" "length sent \<le> 21" using d(1) by auto
  have tx: "tx_inv (ac_tx (irs_ac s))" "25000 \<le> carrier_hz (ac_tx (irs_ac s))" "carrier_hz (ac_tx (irs_ac s)) \<le> 60000"
    using assms(1) by (simp_all add: ac_inv_def tx_inv_def)
  obtain syms u where u: "ir_codec_samsung_ac_encode (Some sent) (Some 175) = Inr syms"
    "send_symbol_frame H sent (irs_ac s) = (AC_OK, (irs_ac s)\<lparr>ac_tx := u\<rparr>)"
    "wire u = wire (ac_tx (irs_ac s)) @ frame_events (carrier_hz (ac_tx (irs_ac s))) syms"
    using send_frame_outcome [OF tx(1) assms(2) d' assms(3)] by blast
  have "dispatch_cmd H (0x10 # fix # frame) s = (0, s\<lparr>irs_ac := (irs_ac s)\<lparr>ac_tx := u\<rparr>\<rparr>)"
    using assms(2,4,13) u(2)
    by (auto simp: dispatch_cmd_def handle_samsung_raw_def ir_aircon_samsung_send_raw_def ir_tx_is_ready_def on_aircon_def)
  then have w: "res = Inr 23" "wire (ac_tx (irs_ac s')) = wire u"
    using assms(4,6) by (auto simp: ir_write_cmd_def app_ir_svc_publish_status_def refresh_cached_status_def Let_def)
  have "drift 100 (sym_levels syms) lv"
    using assms(7,8) w(2) u(3) pwm_levels_sent [OF tx(2,3)] by simp
  then obtain f where f: "delivered r' = delivered r @ [f]" "jitter (tl syms) f" "listening r'"
    using frame_heard [OF u(1) _ assms(9) refl] unfolding assms(11) by blast
  then have "a' = ir_rx_frame_cb f a" using assms(12) by simp
  then show ?thesis
    using clean_frame_reported [OF assms(10) u(1) f(2) d] frame_cb_inv [OF assms(10)] w(1) f(1,3) by simp
qed

lemma drift_refl: "drift k xs xs"
  by (auto simp: drift_def list_all2_same)

lemma ir_echo_witness:
  "\<exists>lv. reports (fold ir_rx_frame_cb (delivered (play 200 7 lv demo_rx)) ir_app_boot) =
    [Samsung_report (demo_section @ demo_section @ demo_section)]"
proof -
  let ?f = "demo_section @ demo_section @ demo_section"
  obtain res s' where w: "ir_write_cmd demo_tx_hw (0x10 # 0 # ?f) 0 demo_ir_svc = (res, s')" by force
  have s: "ac_inv (irs_ac demo_ir_svc)" "tx_inited (ac_tx (irs_ac demo_ir_svc))" "\<forall>ss. thread_done demo_tx_hw ss"
    using demo_aircon_ready by (simp_all add: demo_ir_svc_def)
  have f: "length ?f = 21" "(0 :: u8) \<noteq> 0 \<or> ir_codec_samsung_ac_verify_all (Some ?f)"
    using demo_section_length demo_section_verifies three_sections_verify by simp_all
  have l: "listening demo_rx" by (simp add: listening_def demo_rx_ready)
  have i: "app_ir_inv ir_app_boot" by (simp add: app_ir_inv_def ir_app_boot_def numeral_eq_Suc)
  from ir_echo [OF s f w refl drift_refl l i refl refl refl]
  show ?thesis by (auto simp: demo_rx_ready ir_app_boot_def)
qed

end
