(* ===== verification/Multitask.thy ===== *)
theory Multitask
  imports Prelude
begin

text \<open>
  The threading demonstration \<open>app/multitask_init.c\<close>, which the build leaves out: periodic threads, a
  thread created at run time, delayed work, a producer and a consumer on a message queue, two
  threads on a semaphore.  A step is what a thread does between two blocking calls; \<open>k_msleep\<close>
  sets the time before which the thread does not run.  The message queue and the semaphore are the
  kernel's: parameters with their documented laws.  Everything the code shows is in the log.
\<close>

subsection \<open>State\<close>

record data_msg =
  msg_timestamp :: u32
  msg_value :: i16
  msg_sensor_id :: u8

datatype mt_line = Started nat | LedToggle | ReadingSensors | HandlingCommunication | DynamicCounter u32
  | DynamicCreated | DelayedExecuted | DelayedInitialized | QueueFull | Sent i16 | Received data_msg
  | Working | SignalReceived | ExampleInitialized

datatype mt_thread = Task1 | Task2 | Task3 | Dynamic | Producer | Consumer | Sync1 | Sync2

datatype mt_pc = Absent | Entry | Loop | Give

record 'q msgq_api =
  msgq_put :: "data_msg \<Rightarrow> 'q \<Rightarrow> int \<times> 'q"
  msgq_get :: "'q \<Rightarrow> (int \<times> data_msg \<times> 'q) option"  \<comment> \<open>\<^const>\<open>None\<close>: still waiting\<close>

record 'k sem_api =
  sem_give :: "'k \<Rightarrow> 'k"
  sem_take :: "'k \<Rightarrow> 'k option"

record ('q, 'k) mtask =
  mt_now :: nat
  mt_pc :: "mt_thread \<Rightarrow> mt_pc"
  mt_wake :: "mt_thread \<Rightarrow> nat"
  mt_log :: "mt_line list"
  dyn_counter :: u32
  prod_counter :: u32
  sensor_msgq :: 'q
  sync_sem :: 'k
  delayed_due :: "nat option"

definition mt_boot :: "'q \<Rightarrow> 'k \<Rightarrow> ('q, 'k) mtask" where
  "mt_boot q k = \<lparr>mt_now = 0, mt_pc = (\<lambda>th. if th = Dynamic then Absent else Entry), mt_wake = (\<lambda>_. 0), mt_log = [],
     dyn_counter = 0, prod_counter = 0, sensor_msgq = q, sync_sem = k, delayed_due = None\<rparr>"

definition mt_print :: "mt_line \<Rightarrow> ('q, 'k) mtask \<Rightarrow> ('q, 'k) mtask" where
  "mt_print l s = s\<lparr>mt_log := mt_log s @ [l]\<rparr>"

definition k_msleep :: "mt_thread \<Rightarrow> nat \<Rightarrow> ('q, 'k) mtask \<Rightarrow> ('q, 'k) mtask" where
  "k_msleep th ms s = s\<lparr>mt_wake := (mt_wake s)(th := mt_now s + ms)\<rparr>"

subsection \<open>The threads\<close>

text \<open>One turn of each loop; the threads that print and sleep first.\<close>

definition task1_led_control :: "('q, 'k) mtask \<Rightarrow> ('q, 'k) mtask" where
  "task1_led_control s = k_msleep Task1 1000 (mt_print LedToggle s)"

definition task2_sensor_read :: "('q, 'k) mtask \<Rightarrow> ('q, 'k) mtask" where
  "task2_sensor_read s = k_msleep Task2 500 (mt_print ReadingSensors s)"

definition task3_communication :: "('q, 'k) mtask \<Rightarrow> ('q, 'k) mtask" where
  "task3_communication s = k_msleep Task3 2000 (mt_print HandlingCommunication s)"

definition dynamic_task_function :: "('q, 'k) mtask \<Rightarrow> ('q, 'k) mtask" where
  "dynamic_task_function s =
     k_msleep Dynamic 3000 ((mt_print (DynamicCounter (dyn_counter s)) s)\<lparr>dyn_counter := dyn_counter s + 1\<rparr>)"

definition create_dynamic_task :: "('q, 'k) mtask \<Rightarrow> ('q, 'k) mtask" where
  "create_dynamic_task s = mt_print DynamicCreated (s\<lparr>mt_pc := (mt_pc s)(Dynamic := Entry)\<rparr>)"

text \<open>Scheduling work that is already scheduled leaves it as it is.\<close>

definition k_work_schedule :: "nat \<Rightarrow> ('q, 'k) mtask \<Rightarrow> ('q, 'k) mtask" where
  "k_work_schedule ms s = (if delayed_due s = None then s\<lparr>delayed_due := Some (mt_now s + ms)\<rparr> else s)"

definition delayed_work_handler :: "('q, 'k) mtask \<Rightarrow> ('q, 'k) mtask" where
  "delayed_work_handler s = k_work_schedule 5000 (mt_print DelayedExecuted s)"

definition init_delayed_work :: "('q, 'k) mtask \<Rightarrow> ('q, 'k) mtask" where
  "init_delayed_work s = mt_print DelayedInitialized (k_work_schedule 5000 (s\<lparr>delayed_due := None\<rparr>))"

definition producer_task :: "'q msgq_api \<Rightarrow> ('q, 'k) mtask \<Rightarrow> ('q, 'k) mtask" where
  "producer_task Q s =
     (let msg = \<lparr>msg_timestamp = of_nat (mt_now s), msg_value = ucast (prod_counter s), msg_sensor_id = 1\<rparr>;
          s = s\<lparr>prod_counter := prod_counter s + 1\<rparr>
      in case msgq_put Q msg (sensor_msgq s) of (rc, q) \<Rightarrow>
        let s = s\<lparr>sensor_msgq := q\<rparr>
        in k_msleep Producer 1500 (if rc \<noteq> 0 then mt_print QueueFull s else mt_print (Sent (msg_value msg)) s))"

definition consumer_task :: "'q msgq_api \<Rightarrow> ('q, 'k) mtask \<Rightarrow> ('q, 'k) mtask option" where
  "consumer_task Q s = map_option (\<lambda>(rc, msg, q).
     let s = s\<lparr>sensor_msgq := q\<rparr> in if rc = 0 then mt_print (Received msg) s else s) (msgq_get Q (sensor_msgq s))"

definition synchronized_task1 :: "'k sem_api \<Rightarrow> ('q, 'k) mtask \<Rightarrow> ('q, 'k) mtask" where
  "synchronized_task1 K s =
     (if mt_pc s Sync1 = Give
      then k_msleep Sync1 2000 (s\<lparr>sync_sem := sem_give K (sync_sem s), mt_pc := (mt_pc s)(Sync1 := Loop)\<rparr>)
      else k_msleep Sync1 1000 ((mt_print Working s)\<lparr>mt_pc := (mt_pc s)(Sync1 := Give)\<rparr>))"

definition synchronized_task2 :: "'k sem_api \<Rightarrow> ('q, 'k) mtask \<Rightarrow> ('q, 'k) mtask option" where
  "synchronized_task2 K s = map_option (\<lambda>k. mt_print SignalReceived (s\<lparr>sync_sem := k\<rparr>)) (sem_take K (sync_sem s))"

definition multitask_example_init :: "('q, 'k) mtask \<Rightarrow> int \<times> ('q, 'k) mtask" where
  "multitask_example_init s = (0, mt_print ExampleInitialized s)"

text \<open>The line each thread prints before its loop.\<close>

fun mt_index :: "mt_thread \<Rightarrow> nat" where
  "mt_index Task1 = 1" | "mt_index Task2 = 2" | "mt_index Task3 = 3" | "mt_index Dynamic = 4"
| "mt_index Producer = 5" | "mt_index Consumer = 6" | "mt_index Sync1 = 7" | "mt_index Sync2 = 8"

fun mt_loop :: "'q msgq_api \<Rightarrow> 'k sem_api \<Rightarrow> mt_thread \<Rightarrow> ('q, 'k) mtask \<Rightarrow> ('q, 'k) mtask option" where
  "mt_loop Q K Task1 s = Some (task1_led_control s)"
| "mt_loop Q K Task2 s = Some (task2_sensor_read s)"
| "mt_loop Q K Task3 s = Some (task3_communication s)"
| "mt_loop Q K Dynamic s = Some (dynamic_task_function s)"
| "mt_loop Q K Producer s = Some (producer_task Q s)"
| "mt_loop Q K Consumer s = consumer_task Q s"
| "mt_loop Q K Sync1 s = Some (synchronized_task1 K s)"
| "mt_loop Q K Sync2 s = synchronized_task2 K s"

inductive mt_step :: "'q msgq_api \<Rightarrow> 'k sem_api \<Rightarrow> ('q, 'k) mtask \<Rightarrow> ('q, 'k) mtask \<Rightarrow> bool" for Q K where
  tick: "mt_step Q K s (s\<lparr>mt_now := mt_now s + ms\<rparr>)"
| thread_starts: "mt_pc s th = Entry \<Longrightarrow>
    mt_step Q K s ((mt_print (Started (mt_index th)) s)\<lparr>mt_pc := (mt_pc s)(th := Loop)\<rparr>)"
| thread_turns: "mt_pc s th = Loop \<or> mt_pc s th = Give \<Longrightarrow> mt_wake s th \<le> mt_now s \<Longrightarrow> mt_loop Q K th s = Some s' \<Longrightarrow>
    mt_step Q K s s'"
| work_runs: "delayed_due s = Some t \<Longrightarrow> t \<le> mt_now s \<Longrightarrow> mt_step Q K s (delayed_work_handler (s\<lparr>delayed_due := None\<rparr>))"
| creates: "mt_pc s Dynamic = Absent \<Longrightarrow> mt_step Q K s (create_dynamic_task s)"
| inits_work: "mt_step Q K s (init_delayed_work s)"
| inits: "mt_step Q K s (snd (multitask_example_init s))"

inductive mt_reach :: "'q msgq_api \<Rightarrow> 'k sem_api \<Rightarrow> 'q \<Rightarrow> 'k \<Rightarrow> ('q, 'k) mtask \<Rightarrow> bool" for Q K q k where
  boot: "mt_reach Q K q k (mt_boot q k)"
| step: "mt_reach Q K q k s \<Longrightarrow> mt_step Q K s s' \<Longrightarrow> mt_reach Q K q k s'"

subsection \<open>What the kernel promises\<close>

text \<open>\<open>w\<close> is what waits in the queue of 10 messages, \<open>n\<close> the count of the semaphore with limit 1.\<close>

definition msgq_laws :: "'q msgq_api \<Rightarrow> ('q \<Rightarrow> data_msg list) \<Rightarrow> bool" where
  "msgq_laws Q w \<longleftrightarrow>
     (\<forall>m q rc q'. msgq_put Q m q = (rc, q') \<longrightarrow>
        (if length (w q) < 10 then rc = 0 \<and> w q' = w q @ [m] else rc \<noteq> 0 \<and> w q' = w q)) \<and>
     (\<forall>q rc m q'. msgq_get Q q = Some (rc, m, q') \<longrightarrow> (if rc = 0 then w q = m # w q' else w q' = w q))"

definition sem_laws :: "'k sem_api \<Rightarrow> ('k \<Rightarrow> nat) \<Rightarrow> bool" where
  "sem_laws K n \<longleftrightarrow> (\<forall>k. n (sem_give K k) = min 1 (n k + 1)) \<and>
     (\<forall>k k'. sem_take K k = Some k' \<longrightarrow> n k = n k' + 1)"

subsection \<open>The invariant\<close>

definition sent_in :: "mt_line list \<Rightarrow> i16 list" where
  "sent_in log = concat (map (\<lambda>l. case l of Sent v \<Rightarrow> [v] | _ \<Rightarrow> []) log)"

definition received_in :: "mt_line list \<Rightarrow> data_msg list" where
  "received_in log = concat (map (\<lambda>l. case l of Received m \<Rightarrow> [m] | _ \<Rightarrow> []) log)"

definition counters_in :: "mt_line list \<Rightarrow> u32 list" where
  "counters_in log = concat (map (\<lambda>l. case l of DynamicCounter c \<Rightarrow> [c] | _ \<Rightarrow> []) log)"

lemma line_simps [simp]:
  "sent_in (log @ [l]) = sent_in log @ (case l of Sent v \<Rightarrow> [v] | _ \<Rightarrow> [])" "sent_in [] = []"
  "received_in (log @ [l]) = received_in log @ (case l of Received m \<Rightarrow> [m] | _ \<Rightarrow> [])" "received_in [] = []"
  "counters_in (log @ [l]) = counters_in log @ (case l of DynamicCounter c \<Rightarrow> [c] | _ \<Rightarrow> [])" "counters_in [] = []"
  by (simp_all add: sent_in_def received_in_def counters_in_def)

definition pipe_inv :: "('q \<Rightarrow> data_msg list) \<Rightarrow> ('q, 'k) mtask \<Rightarrow> bool" where
  "pipe_inv w s \<longleftrightarrow> map msg_value (received_in (mt_log s) @ w (sensor_msgq s)) = sent_in (mt_log s) \<and>
     length (w (sensor_msgq s)) \<le> 10 \<and>
     (\<forall>m \<in> set (received_in (mt_log s) @ w (sensor_msgq s)). msg_sensor_id m = 1) \<and>
     prod_counter s = of_nat (length (sent_in (mt_log s)) + count_list (mt_log s) QueueFull)"

definition signal_inv :: "('k \<Rightarrow> nat) \<Rightarrow> ('q, 'k) mtask \<Rightarrow> bool" where
  "signal_inv n s \<longleftrightarrow> n (sync_sem s) \<le> 1 \<and>
     count_list (mt_log s) SignalReceived + n (sync_sem s) + (if mt_pc s Sync1 = Give then 1 else 0)
       \<le> count_list (mt_log s) Working"

definition rate_inv :: "mt_thread \<Rightarrow> mt_line \<Rightarrow> nat \<Rightarrow> ('q, 'k) mtask \<Rightarrow> bool" where
  "rate_inv th l ms s \<longleftrightarrow> count_list (mt_log s) l * ms \<le> mt_wake s th \<and> mt_wake s th \<le> mt_now s + ms"

lemmas mt_defs = mt_print_def k_msleep_def task1_led_control_def task2_sensor_read_def task3_communication_def
  dynamic_task_function_def create_dynamic_task_def k_work_schedule_def delayed_work_handler_def init_delayed_work_def
  producer_task_def consumer_task_def synchronized_task1_def synchronized_task2_def multitask_example_init_def

lemma count_snoc [simp]: "count_list (log @ [l]) x = count_list log x + (if l = x then 1 else 0)"
  by (induction log) auto

lemma pipe_turn:
  assumes "mt_loop Q K th s = Some s'" "msgq_laws Q w" "pipe_inv w s"
  shows "pipe_inv w s'"
proof (cases th)
  case Producer
  let ?m = "\<lparr>msg_timestamp = of_nat (mt_now s), msg_value = ucast (prod_counter s), msg_sensor_id = 1\<rparr>"
  obtain rc q where p: "msgq_put Q ?m (sensor_msgq s) = (rc, q)" by force
  then have "if length (w (sensor_msgq s)) < 10 then rc = 0 \<and> w q = w (sensor_msgq s) @ [?m]
      else rc \<noteq> 0 \<and> w q = w (sensor_msgq s)"
    using assms(2) by (simp add: msgq_laws_def)
  then show ?thesis using assms(1,3) p Producer by (auto simp: mt_defs Let_def pipe_inv_def split: if_splits)
next
  case Consumer
  then obtain rc m q where g: "msgq_get Q (sensor_msgq s) = Some (rc, m, q)"
    "s' = (let s = s\<lparr>sensor_msgq := q\<rparr> in if rc = 0 then mt_print (Received m) s else s)"
    using assms(1) by (auto simp: consumer_task_def)
  then have "if rc = 0 then w (sensor_msgq s) = m # w q else w q = w (sensor_msgq s)"
    using assms(2) unfolding msgq_laws_def by blast
  then show ?thesis using assms(3) g(2) by (auto simp: mt_print_def Let_def pipe_inv_def split: if_splits)
qed (use assms in \<open>auto simp: mt_defs pipe_inv_def split: if_splits\<close>)

lemma pipe_step: "mt_step Q K s s' \<Longrightarrow> msgq_laws Q w \<Longrightarrow> pipe_inv w s \<Longrightarrow> pipe_inv w s'"
  by (induction rule: mt_step.induct) (auto simp: pipe_turn, auto simp: mt_defs pipe_inv_def)

lemma signal_turn:
  assumes "mt_loop Q K th s = Some s'" "sem_laws K n" "signal_inv n s" "mt_pc s th = Loop \<or> mt_pc s th = Give"
  shows "signal_inv n s'"
proof (cases th)
  case Sync1
  have "n (sem_give K (sync_sem s)) = min 1 (n (sync_sem s) + 1)" using assms(2) by (simp add: sem_laws_def)
  then show ?thesis using assms(1,3,4) Sync1 by (auto simp: mt_defs signal_inv_def split: if_splits)
next
  case Sync2
  then obtain k where "sem_take K (sync_sem s) = Some k" "s' = mt_print SignalReceived (s\<lparr>sync_sem := k\<rparr>)"
    using assms(1) by (auto simp: synchronized_task2_def)
  moreover from this(1) have "n (sync_sem s) = n k + 1" using assms(2) by (simp add: sem_laws_def)
  ultimately show ?thesis using assms(3) by (auto simp: mt_print_def signal_inv_def)
qed (use assms in \<open>auto simp: mt_defs signal_inv_def Let_def split: if_splits prod.splits\<close>)

lemma signal_step: "mt_step Q K s s' \<Longrightarrow> sem_laws K n \<Longrightarrow> signal_inv n s \<Longrightarrow> signal_inv n s'"
  by (induction rule: mt_step.induct) (auto simp: signal_turn, auto simp: mt_defs signal_inv_def)

lemma rate_step:
  "mt_step Q K s s' \<Longrightarrow> (th, l, ms) \<in> {(Task1, LedToggle, 1000), (Task2, ReadingSensors, 500), (Task3, HandlingCommunication, 2000)} \<Longrightarrow>
   rate_inv th l ms s \<Longrightarrow> rate_inv th l ms s'"
proof (induction rule: mt_step.induct)
  case (thread_turns s th' s')
  then show ?case
    by (cases th') (auto simp: mt_defs rate_inv_def Let_def split: if_splits prod.splits)
qed (auto simp: mt_defs rate_inv_def)

lemma counter_step:
  "mt_step Q K s s' \<Longrightarrow> counters_in (mt_log s) = map of_nat [0..<k] \<and> dyn_counter s = of_nat k \<Longrightarrow>
   \<exists>k. counters_in (mt_log s') = map of_nat [0..<k] \<and> dyn_counter s' = of_nat k"
proof (induction rule: mt_step.induct)
  case (thread_turns s th s')
  then show ?case
    by (cases th) (auto simp: mt_defs Let_def intro: exI [of _ "Suc k"] exI [of _ k] split: if_splits prod.splits)
qed (auto simp: mt_defs)

definition mt_rates :: "(mt_thread \<times> mt_line \<times> nat) list" where
  "mt_rates = [(Task1, LedToggle, 1000), (Task2, ReadingSensors, 500), (Task3, HandlingCommunication, 2000)]"

lemma mt_reach_inv:
  assumes "mt_reach Q K q k s" "msgq_laws Q w" "w q = []" "sem_laws K n" "n k = 0"
  shows "pipe_inv w s" "signal_inv n s" "(th, l, ms) \<in> set mt_rates \<Longrightarrow> rate_inv th l ms s"
    "\<exists>k. counters_in (mt_log s) = map of_nat [0..<k] \<and> dyn_counter s = of_nat k"
  using assms(1)
proof (induction rule: mt_reach.induct)
  case boot
  show "pipe_inv w (mt_boot q k)" "signal_inv n (mt_boot q k)" "rate_inv th l ms (mt_boot q k)"
    using assms(3,5) by (simp_all add: pipe_inv_def signal_inv_def rate_inv_def mt_boot_def)
  show "\<exists>i. counters_in (mt_log (mt_boot q k)) = map of_nat [0..<i] \<and> dyn_counter (mt_boot q k) = of_nat i"
    by (rule exI [of _ 0]) (simp add: mt_boot_def)
next
  case (step s s')
  show "pipe_inv w s'" by (rule pipe_step [OF step(2) assms(2) step(3)])
  show "signal_inv n s'" by (rule signal_step [OF step(2) assms(4) step(4)])
  show "rate_inv th l ms s'" if "(th, l, ms) \<in> set mt_rates"
    by (rule rate_step [OF step(2) _ step(5) [OF that]]) (use that in \<open>simp add: mt_rates_def\<close>)
  show "\<exists>i. counters_in (mt_log s') = map of_nat [0..<i] \<and> dyn_counter s' = of_nat i"
    using step(6) counter_step [OF step(2)] by blast
qed

subsection \<open>Property\<close>

text \<open>Whatever the scheduler does: the consumer gets the producer's values in order, none twice and none
  lost once accepted, with at most ten waiting; a signal is received only for work done before it; the
  run-time thread counts from 0 without a gap; and the periodic threads never run faster than their
  periods.\<close>

theorem multitask_safe:
  assumes "mt_reach Q K q k s" "msgq_laws Q w" "w q = []" "sem_laws K n" "n k = 0"
  shows "map msg_value (received_in (mt_log s)) @ map msg_value (w (sensor_msgq s)) = sent_in (mt_log s) \<and>
    length (w (sensor_msgq s)) \<le> 10 \<and>
    count_list (mt_log s) SignalReceived \<le> count_list (mt_log s) Working \<and>
    counters_in (mt_log s) = map of_nat [0..<length (counters_in (mt_log s))] \<and>
    list_all (\<lambda>(th, l, ms). count_list (mt_log s) l * ms \<le> mt_now s + ms) mt_rates"
proof -
  note I = mt_reach_inv [OF assms]
  have "list_all (\<lambda>(th, l, ms). count_list (mt_log s) l * ms \<le> mt_now s + ms) mt_rates"
    using I(3) by (auto simp: list_all_iff rate_inv_def dest: le_trans)
  then show ?thesis using I(1,2,4) by (auto simp: pipe_inv_def signal_inv_def)
qed

end
