(* ===== verification/HttpTotal.thy ===== *)
theory HttpTotal
  imports HttpTask
begin

text \<open>
  The download task returns.  Its loops on the socket are partial functions; here they are shown
  to give a result whenever a connection carries finitely many bytes, whatever those bytes are and
  however they are cut into blocks, with one exception that the code has: a response head without
  a space can be scanned past its buffer.
\<close>

subsection \<open>What the network promises\<close>

text \<open>\<open>m\<close> bounds what the peer can still deliver; a block that is received, of any length and any
  content, uses some of it up.\<close>

definition finite_net :: "'n net_api \<Rightarrow> ('n \<Rightarrow> nat) \<Rightarrow> bool" where
  "finite_net N m \<longleftrightarrow>
     (\<forall>n. m (snd (stop_now N n)) \<le> m n) \<and>
     (\<forall>w n. m (snd (sock_recv N w n)) \<le> m n) \<and>
     (\<forall>w n. fst (sock_recv N w n) \<noteq> [] \<longrightarrow> m (snd (sock_recv N w n)) < m n)"

text \<open>\<open>received N bs n\<close>: a connection that was made has delivered the bytes \<open>bs\<close> so far and the network
  is in state \<open>n\<close>.\<close>

inductive received :: "'n net_api \<Rightarrow> u8 list \<Rightarrow> 'n \<Rightarrow> bool" for N where
  connected: "sock_connect N u n = (0, n') \<Longrightarrow> received N [] n'"
| sent: "received N bs n \<Longrightarrow> sock_send N d n = (k, n') \<Longrightarrow> received N bs n'"
| more: "received N bs n \<Longrightarrow> sock_recv N w n = (d, n') \<Longrightarrow> received N (bs @ take w d) n'"

text \<open>The heads the code reads past its array: a status line without a space, up to and including the
  blank line, in the bytes that have arrived when the blank line is found.\<close>

definition overruns :: "u8 list \<Rightarrow> bool" where
  "overruns bs \<longleftrightarrow> length bs \<le> 1024 \<and> starts (str ''HTTP/1.'') bs \<and> find_end 0 bs \<noteq> None \<and>
     32 \<notin> set bs \<and> 0 \<notin> set bs"

definition left :: "('n \<Rightarrow> nat) \<Rightarrow> ('n, 'e) http \<Rightarrow> nat" where
  "left m h = m (net h) + length (pre h)"

lemma poll_left:
  assumes "finite_net N m" "poll_running N h = (b, h')"
  shows "left m h' \<le> left m h"
proof -
  have "m (snd (stop_now N (net h))) \<le> m (net h)" using assms(1) by (simp add: finite_net_def)
  then show ?thesis using assms(2) by (auto simp: poll_running_def left_def split: if_splits prod.splits)
qed

lemma read_left:
  assumes "finite_net N m" "bs_read_some N w h = (r, h')"
  shows "left m h' \<le> left m h" "r \<noteq> None \<Longrightarrow> 0 < w \<Longrightarrow> left m h' < left m h"
proof -
  have "m (snd (sock_recv N w (net h))) \<le> m (net h)"
    "fst (sock_recv N w (net h)) \<noteq> [] \<Longrightarrow> m (snd (sock_recv N w (net h))) < m (net h)"
    using assms(1) by (simp_all add: finite_net_def)
  then show "left m h' \<le> left m h" "r \<noteq> None \<Longrightarrow> 0 < w \<Longrightarrow> left m h' < left m h"
    using assms(2) by (auto simp: bs_read_some_def left_def split: if_splits prod.splits)
qed

lemma step_left:
  assumes "finite_net N m" "poll_running N h = (b, h1)" "bs_read_some N w h1 = (r, h2)"
  shows "left m h2 \<le> left m h" "r \<noteq> None \<Longrightarrow> 0 < w \<Longrightarrow> left m h2 < left m h"
  using poll_left [OF assms(1,2)] read_left [OF assms(1,3)] by auto

lemma sink_left: "sink_write E d h = (rc, h') \<Longrightarrow> left m h' = left m h"
  by (auto simp: sink_write_def left_def Let_def split: sink_mode.splits prod.splits if_splits)

subsection \<open>Lines\<close>

text \<open>Both loops of \<open>bs_read_line\<close> return; a line, kept or dropped, costs at least one byte.\<close>

lemma drain_returns:
  assumes "finite_net N m"
  shows "\<exists>rc l h'. drain_line N cr h = Some (rc, l, h') \<and> left m h' \<le> left m h \<and>
    (rc = 0 \<or> rc = - 2 \<longrightarrow> left m h' < left m h)"
proof (induction "left m h" arbitrary: cr h rule: less_induct)
  case less
  obtain b h1 where p: "poll_running N h = (b, h1)" by force
  obtain r h2 where q: "bs_read_some N 1 h1 = (r, h2)" by force
  note s = poll_left [OF assms p] step_left [OF assms p q]
  show ?case
  proof (cases "b \<and> r \<noteq> None")
    case False
    then show ?thesis using p q s by (subst drain_line.simps) auto
  next
    case True
    then obtain bs where r: "r = Some bs" by blast
    have e: "drain_line N cr h = (if hd bs = 10 \<and> cr then Some (- 2, [], h2) else drain_line N (hd bs = 13) h2)"
      using True by (subst drain_line.simps) (simp add: p q q [unfolded One_nat_def] r)
    have l: "left m h2 < left m h" using s(3) True by simp
    obtain rc x h' where "drain_line N (hd bs = 13) h2 = Some (rc, x, h')" "left m h' \<le> left m h2"
      using less [OF l] by blast
    then show ?thesis using l by (simp add: e)
  qed
qed

lemma line_loop_returns:
  assumes "finite_net N m"
  shows "\<exists>rc l h'. read_line_loop N cap acc cr h = Some (rc, l, h') \<and> left m h' \<le> left m h \<and>
    (rc = 0 \<or> rc = - 2 \<longrightarrow> left m h' < left m h)"
proof (induction "left m h" arbitrary: acc cr h rule: less_induct)
  case less
  obtain b h1 where p: "poll_running N h = (b, h1)" by force
  obtain r h2 where q: "bs_read_some N 1 h1 = (r, h2)" by force
  note s = poll_left [OF assms p] step_left [OF assms p q]
  show ?case
  proof (cases "b \<and> r \<noteq> None")
    case False
    then show ?thesis using p q s by (subst read_line_loop.simps) auto
  next
    case True
    then obtain bs where r: "r = Some bs" by blast
    have e: "read_line_loop N cap acc cr h =
        (if hd bs = 10 \<and> cr then Some (0, if acc \<noteq> [] \<and> last acc = 13 then butlast acc else acc, h2)
         else if length acc < cap - 1 then read_line_loop N cap (acc @ [hd bs]) (hd bs = 13) h2
         else drain_line N (hd bs = 13) h2)"
      using True by (subst read_line_loop.simps) (simp add: p q q [unfolded One_nat_def] r)
    have l: "left m h2 < left m h" using s(3) True by simp
    obtain rc x h' where "read_line_loop N cap (acc @ [hd bs]) (hd bs = 13) h2 = Some (rc, x, h')" "left m h' \<le> left m h2"
      using less [OF l] by blast
    moreover obtain rc2 x2 h3 where "drain_line N (hd bs = 13) h2 = Some (rc2, x2, h3)" "left m h3 \<le> left m h2"
      using drain_returns [OF assms] by blast
    ultimately show ?thesis using l by (simp add: e)
  qed
qed

lemma line_returns:
  assumes "finite_net N m"
  obtains rc l h' where "bs_read_line N cap h = Some (rc, l, h')" "left m h' \<le> left m h"
    "rc = 0 \<or> rc = - 2 \<Longrightarrow> left m h' < left m h"
  using line_loop_returns [OF assms, of cap "[]" False h] by (auto simp: bs_read_line_def)

subsection \<open>Chunked bodies\<close>

lemma trailer_returns:
  assumes "finite_net N m"
  shows "trailer_loop N h \<noteq> None"
proof (induction "left m h" arbitrary: h rule: less_induct)
  case less
  obtain rc l h1 where l: "bs_read_line N 40 h = Some (rc, l, h1)" "rc = 0 \<or> rc = - 2 \<Longrightarrow> left m h1 < left m h"
    using line_returns [OF assms, of 40 h] by metis
  then show ?case using less [of h1] by (subst trailer_loop.simps) auto
qed

lemma exact_left:
  assumes "finite_net N m" "bs_read_exact N w acc h = (rc, bs, h')"
  shows "left m h' \<le> left m h"
  using assms
proof (induction N w acc h rule: bs_read_exact.induct)
  case (1 N want acc h)
  obtain b h1 where p: "poll_running N h = (b, h1)" by force
  obtain r h2 where q: "bs_read_some N want h1 = (r, h2)" by force
  note s = poll_left [OF "1.prems"(1) p] step_left(1) [OF "1.prems"(1) p q]
  show ?case
    using "1.prems" p q s "1.IH" [OF _ p [symmetric]]
    by (subst (asm) bs_read_exact.simps) (auto split: if_splits option.splits)
qed

lemma data_left:
  fixes E :: "'e flash_api" and h :: "('n, 'e) http"
  assumes "finite_net N m" "chunk_data_loop N (sink_write E) sz h = (rc, h')"
  shows "left m h' \<le> left m h"
  using assms
proof (induction N "sink_write E :: u8 list \<Rightarrow> ('n, 'e) http \<Rightarrow> int \<times> ('n, 'e) http" sz h rule: chunk_data_loop.induct)
  case (1 N n h)
  obtain b h1 where p: "poll_running N h = (b, h1)" by force
  obtain r h2 where q: "bs_read_some N (min n 1024) h1 = (r, h2)" by force
  note s = poll_left [OF "1.prems"(1) p] step_left(1) [OF "1.prems"(1) p q]
  show ?case
    using "1.prems" p q s sink_left [of E _ h2] "1.hyps" [OF _ p [symmetric]]
    by (subst (asm) chunk_data_loop.simps) (fastforce split: if_splits option.splits prod.splits)
qed

lemma chunked_returns:
  assumes "finite_net N m"
  shows "stream_chunked_body N (sink_write E) h \<noteq> None"
proof (induction "left m h" arbitrary: h rule: less_induct)
  case less
  obtain b h1 where p: "poll_running N h = (b, h1)" by force
  obtain rc l h2 where l: "bs_read_line N 40 h1 = Some (rc, l, h2)" "rc = 0 \<or> rc = - 2 \<Longrightarrow> left m h2 < left m h1"
    using line_returns [OF assms, of 40 h1] by metis
  obtain sz rest where z: "strtoul 16 l = (sz, rest)" by force
  obtain rc3 h3 where d: "chunk_data_loop N (sink_write E) (unat sz) h2 = (rc3, h3)" by force
  obtain rc4 e h4 where x: "bs_read_exact N 2 [] h3 = (rc4, e, h4)" by (metis prod_cases3)
  have "rc = 0 \<Longrightarrow> left m h4 < left m h"
    using poll_left [OF assms p] l(2) data_left [OF assms d] exact_left [OF assms x] by simp
  then have IH: "rc = 0 \<Longrightarrow> stream_chunked_body N (sink_write E) h4 \<noteq> None" using less [of h4] by simp
  show ?case
    using IH trailer_returns [OF assms, of h2] by (subst stream_chunked_body.simps) (simp add: p l(1) z d x)
qed

subsection \<open>The response head\<close>

lemma strchr_off: "strchr_buf c b = Off \<longleftrightarrow> c \<notin> set b \<and> 0 \<notin> set b"
  by (induction b) auto

lemma starts_take:
  assumes "starts (str ''HTTP/1.'') b" "find_end 0 (take k b) \<noteq> None"
  shows "starts (str ''HTTP/1.'') (take k b)"
proof (cases "7 \<le> k")
  case True
  then show ?thesis using assms(1) by (simp add: starts_def)
next
  case False
  have t: "take k b = take k (take 7 b)" using False by simp
  have "take 7 b = str ''HTTP/1.''" using assms(1) by (simp add: starts_def eval_nat_numeral)
  then have "take k b = take k (str ''HTTP/1.'')" unfolding t by (rule arg_cong)
  then have "13 \<notin> set (take k b)" by (auto simp: c8_def dest: in_set_takeD)
  from find_end_app [OF this, of 0 "[]"] assms(2) show ?thesis by simp
qed

lemma parse_none:
  assumes "parse_response_headers b k rsp = None" "k \<le> 1024"
  shows "overruns (take k b)"
proof -
  have "find_end 0 (take k b) \<noteq> None" "starts (str ''HTTP/1.'') b" "strchr_buf 32 b = Off"
    using assms(1) by (auto simp: parse_response_headers_def Let_def split: option.splits if_splits scan.splits)
  then show ?thesis using starts_take assms(2) by (auto simp: overruns_def strchr_off dest: in_set_takeD)
qed

text \<open>And such a head is read past the array when it fills it.\<close>

lemma overrun_lost: "overruns bs \<Longrightarrow> length bs = 1024 \<Longrightarrow> parse_response_headers bs 1024 rsp = None"
proof -
  assume o: "overruns bs" "length bs = 1024"
  then have "strchr_buf 32 bs = Off" "take 1024 bs = bs" by (simp_all add: overruns_def strchr_off)
  then show ?thesis using o(1) by (auto simp: overruns_def parse_response_headers_def)
qed

lemma head_returns:
  assumes "received N (take filled (hdrbuf h)) (net h)" "length (take filled (hdrbuf h)) = filled"
    and "\<forall>bs n. received N bs n \<longrightarrow> \<not> overruns bs"
  shows "recv_head N filled rsp h \<noteq> None"
  using assms(1,2)
proof (induction "1024 - filled" arbitrary: filled rsp h rule: less_induct)
  case less
  obtain bs0 n where r: "sock_recv N (1024 - filled) (net h) = (bs0, n)" by force
  let ?bs = "take (1024 - filled) bs0"
  let ?h = "h\<lparr>net := n, hdrbuf := blit filled ?bs (hdrbuf h)\<rparr>"
  show ?case
  proof (cases "1024 \<le> filled \<or> ?bs = []")
    case True
    then show ?thesis using r by (subst recv_head.simps) (auto simp: Let_def)
  next
    case False
    have t: "take (filled + length ?bs) (hdrbuf ?h) = take filled (hdrbuf h) @ ?bs"
      using less.prems(2) by (simp add: blit_def min_def)
    have R: "received N (take (filled + length ?bs) (hdrbuf ?h)) (net ?h)"
      unfolding t using received.more [OF less.prems(1) r] by simp
    have L: "length (take (filled + length ?bs) (hdrbuf ?h)) = filled + length ?bs"
      unfolding t using less.prems(2) by simp
    have "1024 - (filled + length ?bs) < 1024 - filled" using False length_greater_0_conv [of ?bs] by linarith
    then have IH: "recv_head N (filled + length ?bs) rsp' ?h \<noteq> None" for rsp'
      using less.hyps R L by blast
    have "filled + length ?bs \<le> 1024" using False by auto
    then have "parse_response_headers (hdrbuf ?h) (filled + length ?bs) rsp \<noteq> None"
      using parse_none R assms(3) by blast
    then show ?thesis using False r IH by (subst recv_head.simps) (auto simp: Let_def)
  qed
qed

subsection \<open>Requests and the task\<close>

lemma body_returns: "finite_net N m \<Longrightarrow> serve_body N E rsp h \<noteq> None"
  using chunked_returns [of N m E h]
  by (auto simp: serve_body_def Let_def split: option.split prod.split)

lemma response_returns: "finite_net N m \<Longrightarrow> serve_response N E cb n p f rsp h \<noteq> None"
  using body_returns [of N m E rsp] by (auto simp: serve_response_def split: option.split prod.split)

lemma send_received: "received N bs n \<Longrightarrow> received N bs (snd (send_all N b n))"
proof (induction "length b" arbitrary: b n rule: less_induct)
  case less
  obtain k n' where s: "sock_send N b n = (k, n')" by force
  have f: "received N bs n'" using received.sent [OF less.prems s] .
  show ?case using less.prems f less.hyps [of "drop (nat k) b" n'] s by (subst send_all.simps) auto
qed

definition plain_heads :: "'n net_api \<Rightarrow> bool" where
  "plain_heads N \<longleftrightarrow> (\<forall>bs n. received N bs n \<longrightarrow> \<not> overruns bs)"

lemma once_returns:
  assumes "finite_net N m" "plain_heads N"
  shows "http_request_once N E cb n url h \<noteq> None"
proof (cases "parse_url (Some url)")
  case (Inr u)
  obtain s n1 where o1: "sock_open N (net h) = (s, n1)" by force
  obtain cn n2 where o2: "sock_connect N u n1 = (cn, n2)" by force
  let ?t = "request_text u n"
  obtain sn n3 where o3: "send_all N ?t n2 = (sn, n3)" by force
  let ?h = "h\<lparr>s_state := REQUESTING, hdrbuf := print_hdrbuf ?t (hdrbuf h), net := n3\<rparr>"
  show ?thesis
  proof (cases "cn = 0")
    case True
    then have R: "received N [] (net ?h)" using send_received [OF received.connected, of N u n1 n2 ?t] o2 o3 by simp
    then obtain k f rsp h1 where r: "recv_head N 0 zero_response ?h = Some (k, f, rsp, h1)"
      using head_returns [of N 0 ?h zero_response] R assms(2) by (auto simp: plain_heads_def)
    obtain rc h2 where sr: "serve_response N E cb n (nat k) f rsp h1 = Some (rc, h2)"
      using response_returns [OF assms(1), of E cb n "nat k" f rsp h1] by auto
    show ?thesis using Inr o1 o2 o3 r sr by (simp add: http_request_once_def Let_def)
  qed (use Inr o1 o2 o3 in \<open>simp add: http_request_once_def Let_def\<close>)
qed (simp add: http_request_once_def)

lemma hops_return: "finite_net N m \<Longrightarrow> plain_heads N \<Longrightarrow> http_hops N E cb n hop url h \<noteq> None"
proof (induction "3 - hop" arbitrary: hop url h)
  case 0
  then show ?case by (subst http_hops.simps) simp
next
  case (Suc k)
  obtain rc rsp h1 where o: "http_request_once N E cb n url h = Some (rc, rsp, h1)"
    using once_returns [OF Suc.prems, of E cb n url h] by auto
  have "http_hops N E cb n (hop + 1) (location rsp) h1 \<noteq> None" using Suc.hyps(1) [OF _ Suc.prems] Suc.hyps(2) by simp
  then show ?case by (subst http_hops.simps) (simp add: o)
qed

lemma request_returns: "finite_net N m \<Longrightarrow> plain_heads N \<Longrightarrow> http_request N E cb n url h \<noteq> None"
  using hops_return [of N m E cb n 0 url h] by (simp add: http_request_def)

lemma task_total:
  assumes "finite_net N m" "plain_heads N"
  shows "\<exists>h'. http_task N E h = Some h'"
proof -
  let ?h = "h\<lparr>sink := \<lparr>mode = SINK_OTA_CHUNK, ota_offset = resume_point (ota h), sbuf = [], buf_cap = 0\<rparr>,
      ipa := \<lparr>resume_attempted = False, resume_succeeded = False, session_restarted = False\<rparr>\<rparr>"
  obtain rc h1 where 1: "http_request N E (Some (image_pre_stream E)) (resume_point (ota h)) (s_image_url h) ?h = Some (rc, h1)"
    using request_returns [OF assms] by (metis option.exhaust surj_pair)
  let ?b = "h1\<lparr>sink := \<lparr>mode = SINK_BUFFER, ota_offset = 0, sbuf = [], buf_cap = 512\<rparr>, s_state := HEADER_DL\<rparr>"
  obtain rc2 h2 where 2: "http_request N E None 0 (s_header_url h1) ?b = Some (rc2, h2)"
    using request_returns [OF assms] by (metis option.exhaust surj_pair)
  show ?thesis using 1 2 by (simp add: http_task_def Let_def)
qed

subsection \<open>Property\<close>


text \<open>A server that answers every connection with the same bytes, one at a time.\<close>

definition demo_server :: "u8 list \<Rightarrow> u8 list net_api" where
  "demo_server r = demo_net\<lparr>sock_connect := (\<lambda>u n. (0, r)),
     sock_recv := (\<lambda>w n. (take (min 1 w) n, drop (min 1 w) n))\<rparr>"

lemma demo_server_finite: "finite_net (demo_server r) length"
  by (auto simp: finite_net_def demo_server_def demo_net_def)

lemma demo_server_received: "received (demo_server r) bs n \<Longrightarrow> r = bs @ n"
  by (induction rule: received.induct) (auto simp: demo_server_def demo_net_def)

lemma space_in_head: "32 \<in> set (ok_head c k)"
  by (simp add: ok_head_def c8_def)

lemma demo_server_plain:
  assumes "received (demo_server (ok_head c k @ x)) bs n"
  shows "\<not> overruns bs"
proof
  assume o: "overruns bs"
  have e: "ok_head c k @ x = bs @ n" by (rule demo_server_received [OF assms])
  then have t: "take (length bs) (ok_head c k @ x) = bs" by simp
  have "find_end 0 bs \<noteq> None" using o by (simp add: overruns_def)
  then have "length (ok_head c k) \<le> length bs"
    using find_end_take [OF ok_head_end [of c k x], of "length bs"] unfolding t by (auto split: if_splits)
  then have "bs = ok_head c k @ take (length bs - length (ok_head c k)) x" using t by simp
  then have "32 \<in> set bs" using space_in_head [of c k] by (metis Un_iff set_append)
  then show False using o by (simp add: overruns_def)
qed


end
