(* ===== verification/LedShow.thy ===== *)
theory LedShow
  imports Led
begin

text \<open>
  From the phone to the lamp: a write to the LED service, the answer and the notification the phone
  gets, and what the strip then shows, tick by tick.
\<close>

subsection \<open>Ticks in a row\<close>

text \<open>What an animation depends on and no tick changes.\<close>

definition scene :: "led \<Rightarrow> u8 \<times> rgbw \<times> strip_config \<times> bool \<times> u8" where
  "scene l = (l_pattern l, l_color l, strip_cfg (l_strip l), strip_inited (l_strip l), brightness (l_strip l))"

lemma refresh_scene:
  "strip_cfg (snd (led_strip_refresh s)) = strip_cfg s" "strip_inited (snd (led_strip_refresh s)) = strip_inited s"
  "brightness (snd (led_strip_refresh s)) = brightness s"
  by (simp_all add: led_strip_refresh_def sk6812_refresh_def apa102_refresh_def split: strip_type.split)

lemma rainbow_scene:
  "strip_cfg (rainbow_loop t w n i s) = strip_cfg s \<and> strip_inited (rainbow_loop t w n i s) = strip_inited s \<and>
   brightness (rainbow_loop t w n i s) = brightness s \<and> (strip_inv s \<longrightarrow> strip_inv (rainbow_loop t w n i s))"
  by (induction t w n i s rule: rainbow_loop.induct) (auto simp: led_strip_set_pixel_def strip_inv_def)

lemma paint_scene:
  "strip_cfg (tick_paint l) = strip_cfg (l_strip l)" "strip_inited (tick_paint l) = strip_inited (l_strip l)"
  "brightness (tick_paint l) = brightness (l_strip l)" "strip_inv (l_strip l) \<Longrightarrow> strip_inv (tick_paint l)"
proof -
  have f: "strip_cfg (snd (led_strip_fill c t)) = strip_cfg t" "strip_inited (snd (led_strip_fill c t)) = strip_inited t"
    "brightness (snd (led_strip_fill c t)) = brightness t" for c t by (simp_all add: led_strip_fill_def)
  show "strip_cfg (tick_paint l) = strip_cfg (l_strip l)" "strip_inited (tick_paint l) = strip_inited (l_strip l)"
    "brightness (tick_paint l) = brightness (l_strip l)" "strip_inv (l_strip l) \<Longrightarrow> strip_inv (tick_paint l)"
    by (simp_all add: tick_paint_def Let_def f rainbow_scene strip_inv_ops)
qed

lemma tick_scene:
  "scene (tick_fn l) = scene l" "strip_inv (l_strip l) \<Longrightarrow> strip_inv (l_strip (tick_fn l))"
proof -
  have c: "strip_cfg (snd (led_strip_clear t)) = strip_cfg t" "strip_inited (snd (led_strip_clear t)) = strip_inited t"
    "brightness (snd (led_strip_clear t)) = brightness t" for t by (simp_all add: led_strip_clear_def refresh_scene)
  show "scene (tick_fn l) = scene l" "strip_inv (l_strip l) \<Longrightarrow> strip_inv (l_strip (tick_fn l))"
    by (simp_all add: scene_def tick_fn_def refresh_scene paint_scene c strip_inv_ops)
qed

lemma tick_count:
  "l_pattern l \<noteq> PAT_OFF \<Longrightarrow> 0 < led_strip_count (l_strip l) \<Longrightarrow> l_tick (tick_fn l) = l_tick l + 1"
  by (simp add: tick_fn_def)

lemma ticks_scene: "scene ((tick_fn ^^ k) l) = scene l \<and> (strip_inv (l_strip l) \<longrightarrow> strip_inv (l_strip ((tick_fn ^^ k) l)))"
  by (induction k) (simp_all add: tick_scene)

lemma ticks_count:
  "l_pattern l \<noteq> PAT_OFF \<Longrightarrow> 0 < led_strip_count (l_strip l) \<Longrightarrow> l_tick ((tick_fn ^^ k) l) = l_tick l + of_nat k"
proof (induction k)
  case (Suc k)
  have "l_pattern ((tick_fn ^^ k) l) = l_pattern l" "led_strip_count (l_strip ((tick_fn ^^ k) l)) = led_strip_count (l_strip l)"
    using ticks_scene [of k l] by (simp_all add: scene_def led_strip_count_def)
  then show ?case using Suc tick_count [of "(tick_fn ^^ k) l"] by simp
qed simp

lemma shown_cong:
  "scene a = scene b \<Longrightarrow> l_pattern a \<noteq> PAT_OFF \<Longrightarrow> l_tick a = l_tick b \<Longrightarrow> shown a = shown b"
  "scene a = scene b \<Longrightarrow> l_pattern a = PAT_OFF \<Longrightarrow> shown a = shown b"
  by (simp_all add: fun_eq_iff shown_def scene_def led_strip_count_def Let_def)

text \<open>The frames of \<open>k\<close> ticks.\<close>

definition show_bytes :: "led \<Rightarrow> u8 list" where
  "show_bytes l = concat (map (\<lambda>i. scaled (brightness (l_strip l)) (shown l i)) [0..<led_strip_count (l_strip l)])"

lemma ticks_frames:
  assumes "strip_inv (l_strip l)" "strip_inited (l_strip l)" "cfg_type (strip_cfg (l_strip l)) = LED_STRIP_SK6812"
    and "0 < led_strip_count (l_strip l)" "l_pattern l \<le> PAT_STROBE"
  shows "\<exists>frs. frames (l_strip ((tick_fn ^^ k) l)) = frames (l_strip l) @ frs \<and>
    map (latch (4 * led_strip_count (l_strip l))) frs = map (\<lambda>t. show_bytes (l\<lparr>l_tick := l_tick l + of_nat t\<rparr>)) [0..<k]"
proof (induction k)
  case (Suc k)
  let ?a = "(tick_fn ^^ k) l" and ?b = "l\<lparr>l_tick := l_tick l + of_nat k\<rparr>"
  have s: "scene ?a = scene ?b" using ticks_scene [of k l] by (simp add: scene_def)
  then have c: "led_strip_count (l_strip ?a) = led_strip_count (l_strip l)" "brightness (l_strip ?a) = brightness (l_strip l)"
    by (simp_all add: scene_def led_strip_count_def)
  have sh: "shown ?a = shown ?b"
    using shown_cong [OF s] ticks_count [of l k] assms(4) s by (cases "l_pattern l = PAT_OFF") (auto simp: scene_def)
  obtain fr where fr: "frames (l_strip (tick_fn ?a)) = frames (l_strip ?a) @ [fr]"
    "latch (4 * led_strip_count (l_strip ?a)) fr =
       concat (map (\<lambda>i. scaled (brightness (l_strip ?a)) (shown ?a i)) [0..<led_strip_count (l_strip ?a)])"
    using tick_shows_pattern [of ?a] assms s ticks_scene [of k l] c by (auto simp: scene_def)
  then show ?case using Suc.IH sh c by (auto simp: show_bytes_def)
qed simp

subsection \<open>Property\<close>

text \<open>C11: What the phone asks for is what the lamp does.  A phone writes a pattern and a colour.
  The write is accepted, the notification carries that pattern and colour with the brightness and
  the pixel count in use, the hold of the application is lifted, and the next \<open>k\<close> ticks, for every
  \<open>k\<close>, send \<open>k\<close> frames: the bytes the strip latches from the \<open>t\<close>-th are, pixel for pixel, what the
  pattern shows at time \<open>t\<close>, scaled by the brightness.  Off, solid, breathing (a triangle of 200 ticks),
  rainbow (a colour wheel over the pixels) and strobe (five ticks on, five off) are all covered,
  the wrap of the 32-bit tick counter included, whatever was shown before.  Every tick sends its
  frame, in off and in solid too, where the frames are all the same: the header's promise that
  off is silent after the clear and solid is sent only when dirty is not kept.\<close>

theorem led_write_animates:
  assumes "strip_inv (l_strip (led_task s))" "strip_inited (l_strip (led_task s))"
    and "cfg_type (strip_cfg (l_strip (led_task s))) = LED_STRIP_SK6812" "0 < led_strip_count (l_strip (led_task s))"
    and "p \<le> PAT_STROBE" "led_write_cmd 0 [6, p, r, g, b, w] s = (res, s')"
  shows "res = Inr 6 \<and> manual_hold s' = 0 \<and>
    led_notes s' = led_notes s @ [\<lparr>st_pattern = p, st_color = RGBW r g b w,
      st_brightness = brightness (l_strip (led_task s)), st_count = of_nat (led_strip_count (l_strip (led_task s)))\<rparr>] \<and>
    (\<exists>frs. frames (l_strip ((tick_fn ^^ k) (led_task s'))) = frames (l_strip (led_task s)) @ frs \<and>
       map (latch (4 * led_strip_count (l_strip (led_task s)))) frs =
         map (\<lambda>t. show_bytes ((led_task s)\<lparr>l_pattern := p, l_color := RGBW r g b w, l_tick := of_nat t\<rparr>)) [0..<k])"
proof -
  have l: "led_task s' = (led_task s)\<lparr>l_pattern := p, l_color := RGBW r g b w, l_tick := 0\<rparr>" "res = Inr 6" "manual_hold s' = 0"
    "led_notes s' = led_notes s @ [\<lparr>st_pattern = p, st_color = RGBW r g b w,
      st_brightness = brightness (l_strip (led_task s)), st_count = of_nat (led_strip_count (l_strip (led_task s)))\<rparr>]"
    using assms(6)
    by (auto simp: led_write_cmd_def led_dispatch_cmd_def handle_set_pattern_color_def with_task_def led_task_set_pattern_def
        app_led_svc_publish_status_def led_refresh_status_def led_task_get_pattern_def led_task_get_color_def
        sk6812_get_brightness_def led_strip_get_brightness_def sk6812_count_def Let_def)
  have "\<exists>frs. frames (l_strip ((tick_fn ^^ k) (led_task s'))) = frames (l_strip (led_task s')) @ frs \<and>
      map (latch (4 * led_strip_count (l_strip (led_task s')))) frs =
        map (\<lambda>t. show_bytes ((led_task s')\<lparr>l_tick := l_tick (led_task s') + of_nat t\<rparr>)) [0..<k]"
    by (rule ticks_frames) (use assms(1-5) in \<open>simp_all add: l(1)\<close>)
  then show ?thesis using l by simp
qed

definition demo_lamp :: led_svc where
  "demo_lamp = \<lparr>led_task = demo_led, led_cached = \<lparr>st_pattern = 0, st_color = COLOR_OFF, st_brightness = 0, st_count = 0\<rparr>,
     manual_hold = 9, led_notes = []\<rparr>"

lemma led_write_animates_witness:
  "\<exists>s' frs. led_write_cmd 0 [6, 4, 255, 0, 0, 0] demo_lamp = (Inr 6, s') \<and> frames (l_strip ((tick_fn ^^ 6) (led_task s'))) = frs \<and>
    map (latch 8) frs = replicate 5 [0, 254, 0, 0, 0, 254, 0, 0] @ [[0, 0, 0, 0, 0, 0, 0, 0]]"
proof -
  obtain res s' where w: "led_write_cmd 0 [6, 4, 255, 0, 0, 0] demo_lamp = (res, s')" by force
  have a: "strip_inv (l_strip (led_task demo_lamp))" "strip_inited (l_strip (led_task demo_lamp))"
    "cfg_type (strip_cfg (l_strip (led_task demo_lamp))) = LED_STRIP_SK6812" "0 < led_strip_count (l_strip (led_task demo_lamp))"
    "(4 :: u8) \<le> PAT_STROBE" "led_strip_count (l_strip (led_task demo_lamp)) = 2" "frames (l_strip (led_task demo_lamp)) = []"
    by (simp_all add: demo_lamp_def demo_led_def led_boot_def strip_boot_def strip_inv_def led_strip_count_def)
  have u: "[0..<6] = [0, 1, 2, 3, 4, 5]" "[0..<2] = [0, 1]" by (simp_all add: upt_rec)
  have d: "replicate 5 x = [x, x, x, x, x]" for x :: "u8 list" by (simp add: numeral_eq_Suc)
  have "map (\<lambda>t. show_bytes ((led_task demo_lamp)\<lparr>l_pattern := 4, l_color := RGBW 255 0 0 0, l_tick := of_nat t\<rparr>)) [0..<6] =
      replicate 5 [0, 254, 0, 0, 0, 254, 0, 0] @ [[0, 0, 0, 0, 0, 0, 0, 0]]"
    unfolding u d
    by (simp add: show_bytes_def demo_lamp_def demo_led_def led_boot_def strip_boot_def shown_def scaled_def RGBW_def Let_def
        apply_brightness_def led_strip_count_def u(2))
  then show ?thesis using led_write_animates [OF a(1-5) w, of 6] a(6,7) w by auto
qed

end
