(* ===== verification/Spec2Isabelle.thy ===== *)
theory Spec2Isabelle
  imports Prelude Ota SvcIr AppIr HttpDownload Matter Prov TcpClient TcpServer Wifi Led Rotary Ctrl SvcOta AppFlow AppBoot Bus
    Radar BleCentral LedSpi IrTxCt LuxFloat
    MatterThread TcpUpdate System IrEcho Multitask HttpTotal LedShow ProvHistory
begin

text \<open>
  A verification development of the firmware in \<open>src/app\<close>: an NXP FRDM-RW612 board under Zephyr
  that controls air conditioners by infrared, drives an LED strip, samples temperature, light and
  radar sensors, is provisioned and controlled over Bluetooth LE, keeps a TCP connection to a server
  and updates itself over HTTP or BLE.

  \<^bold>\<open>The parts and how they interact.\<close>  \<open>app_main_zephyr.c\<close> owns the state that ties the parts together
  and registers callbacks with them.  The phone writes credentials to the provisioning service, which
  saves them; deferred work loads them and connects the Wi-Fi manager; when that reports an address the
  TCP client is started with the stored server; a text command from the server starts the HTTP
  download, whose body goes chunk by chunk into the OTA front-end, which writes the secondary image
  slot and asks the boot loader to swap it in.  The LED, infrared, control, Matter and OTA services are
  further BLE entry points to the same components, and the status service publishes one report per
  turn of the main loop.  The sensors share one I2C bus behind a lock.

  \<^bold>\<open>How the code is modelled.\<close>  A C structure or the statics of a file are a record, an enumeration a
  datatype, an integer a word of its width (\<open>u8\<close>, \<open>u16\<close>, \<open>u32\<close>, and \<open>i16\<close> read with \<^const>\<open>sint\<close>) or an \<open>int\<close> where
  the code cannot overflow or writes its casts out, a buffer a list of bytes, a C string the bytes before
  its terminator, a function a definition of its name that takes the state and returns the answer and
  the new state.  An operation under a lock is one step.  Return codes are the code's numbers or, for an
  enumeration, its constructors; a failure with no value is \<open>None\<close> or \<open>Inl\<close> of the code.  Callbacks and
  notifications are logged in order; log lines, delays and thread priorities are left out.  Calls to code
  that is not in the repository (Zephyr, the SDK, the boot loader) are the functions of a record
  with a state of their own (\<open>flash_api\<close>, \<open>nvs_api\<close>, \<open>net_api\<close>, \<open>i2c_api\<close>, \<open>fp\<close>) or, where only a return code
  matters, an argument.  What a theorem assumes of them is a named predicate with a witness.

  \<^bold>\<open>The theories.\<close>
  \<^item> \<open>Prelude\<close>, \<open>Words\<close>, \<open>CText\<close>, \<open>Gatt\<close>, \<open>Fds\<close>: integer types, errno values, little-endian readers, \<open>memcpy\<close>
    (\<open>blit\<close>), arithmetic that does not wrap, C strings and the string functions used, results of a
    characteristic write, socket descriptors.
  \<^item> \<open>Ota\<close> (\<open>ota/app_ota.c\<close>): one upload session.  The invariant holds in every reachable state, the operations
    refine the abstract session (locale \<open>upload_session\<close>, interpreted on the code's operations), and a
    committed image is byte for byte the accepted chunks.  \<open>flash_laws\<close> says that a successful
    erase leaves an area of its size and a successful write stores its bytes at its offset.
  \<^item> \<open>HttpUrl\<close>, \<open>HttpResp\<close>, \<open>HttpStream\<close>, \<open>HttpTransfer\<close>, \<open>HttpOta\<close>, \<open>HttpTask\<close>, \<open>HttpTotal\<close>, \<open>HttpDownload\<close>
    (\<open>ota/app_ota_http.c\<close>):
    URL splitting, response headers, the byte stream over header leftover and socket, fixed-length and
    chunked bodies, requests with redirects and resume, the task.  Loops on the socket are
    \<open>partial_function (option)\<close>, \<open>None\<close> being a socket that delivers for ever; \<open>HttpTotal\<close> shows that, when
    connections carry finitely many bytes (\<open>finite_net\<close>), the task returns, so that nothing there holds by not
    returning; the one exception is a received head without any space, which the code can scan past its
    array.  Locales \<open>byte_sink\<close>, \<open>willing_sink\<close> (the OTA session and the RAM buffer as sinks)
    and \<open>http_inv\<close> (what a download leaves untouched) carry the proofs.
  \<^item> \<open>SvcOta\<close> (\<open>ble/gatt_servers/svc_ota.c\<close>): the BLE transport of the session.
  \<^item> \<open>SamsungAc\<close>, \<open>IrDecode\<close>, \<open>IrRx\<close>, \<open>IrTx\<close>, \<open>Aircon\<close>, \<open>SvcIr\<close>, \<open>AppIr\<close> (\<open>ir/*.c\<close>, \<open>svc_ir.c\<close>, \<open>ir_rx_frame_cb\<close>): codec and
    checksum, decoder, edge interrupt and gap work, transmitter, the cached air-conditioner state, the
    service and the collector of received sections.  Encoding, transmission over a jittery
    channel, capture and decoding are inverse to each other; the checksum detects every single-bit error; what the
    collector reports is verified section by section, and sections of different frames can be joined.
  \<^item> \<open>Nvs\<close>, \<open>Nvram\<close>, \<open>Prov\<close>, \<open>ProvHistory\<close>, \<open>Matter\<close>, \<open>MatterThread\<close> (\<open>nvm/*.c\<close>, \<open>svc_prov.c\<close>, \<open>matter/*.c\<close>, \<open>svc_matter.c\<close>): the store (locale
    \<open>nv_record\<close>, interpreted for the credentials and for the preferences), provisioning and what
    a phone can conclude from its answers when the flash may fail, the hub with its commissioning window.
  \<^item> \<open>TcpClient\<close>, \<open>TcpServer\<close>, \<open>Wifi\<close> (\<open>tcp/*.c\<close>, \<open>wifi/app_wifi.c\<close>): a step of the TCP modules is one access to the
    shared state or one socket call, an event names the task that moves, and the theorems hold
    for every sequence of events, that is for every interleaving.
  \<^item> \<open>LedStrip\<close>, \<open>Led\<close>, \<open>LedShow\<close> (\<open>leds/led_strip_zephyr.c\<close>, \<open>leds/led_task_zephyr.c\<close>, \<open>svc_led.c\<close>): the strip down to the bits on
    the wire, the patterns against a reference description, and what a write of the phone makes the lamp show.
  \<^item> \<open>Rotary\<close>, \<open>Ctrl\<close> (\<open>rotary_enc/rotary_enc.c\<close>, \<open>svc_ctrl.c\<close>, \<open>svc_status.c\<close>).
  \<^item> \<open>I2c\<close>, \<open>Lux\<close>, \<open>LuxFloat\<close>, \<open>Amg\<close>, \<open>Mlx\<close>, \<open>MlxCal\<close>, \<open>MlxKv\<close>, \<open>MlxTask\<close>, \<open>Audio\<close> (\<open>i2c_bus.c\<close>, \<open>sensors/*.c\<close>, \<open>audio/*.c\<close>): the bus and its
    users.  \<open>engine_law\<close> says that a latched engine is live and that a successful transfer leaves it so; what a failed
    one leaves is open.  \<open>fitted\<close>, \<open>sensor_works\<close> and \<open>codec_works\<close> say what a device answers.  The calibration
    of the MLX90640 is stated over the operations \<open>fp\<close> of single precision; \<open>ieee\<close> says that an operation
    whose exact result is representable gives it.  The rescaling loops are partial functions, and
    the theorem says when they return.
  \<^item> \<open>Radar\<close> (\<open>radar/app_radar_zephyr.c\<close>): double buffering.
  \<^item> \<open>Bus\<close>: all users of the bus as one step relation, and when its engine is live: always but after a failed
    probe, which the code does not repair.
  \<^item> \<open>BleCentral\<close>, \<open>LedSpi\<close>, \<open>IrTxCt\<close> (\<open>ble/gatt_client/ble_central.c\<close>, \<open>leds/sk6812.c\<close> with its SPI back end,
    \<open>ir/ir_tx_nxp_ctimer.c\<close>): the files the build leaves out.  The central is a step relation over what the Bluetooth
    host may report, and what it does with every kind of encounter.  Of the timer back end only the calls it makes of the
    vendor's drivers are modelled, in order and with their values, and no theorem says what the pin does.
  \<^item> \<open>IrEcho\<close>: a frame written to one device, through service, encoder, transmitter, air, edge interrupt, gap timer,
    decoder and collector, to the report of another.
  \<^item> \<open>Multitask\<close> (\<open>multitask_init.c\<close>): the threading demonstration, which the build leaves out.
  \<^item> \<open>TcpUpdate\<close>: the update command of the server, from the received bytes to the committed image.
  \<^item> \<open>System\<close>: all entry points of the application as one transition system, the invariant that ties the parts
    together, and what a lost Wi-Fi link means.
  \<^item> \<open>AppMain\<close>, \<open>AppFlow\<close>, \<open>AppBoot\<close> (\<open>app_main_zephyr.c\<close>): the callbacks, the deferred work and the main loop over the
    models above, the flows that cross components, the start and the radar dump.

  \<^bold>\<open>Bounds.\<close>  No fuel is used for loops of the code.  The data-ready wait of the MLX90640 has the code's own
    limit of 2001 polls; the HTTP header, line and redirect limits are the code's.  The demonstration
    instances at the ends of the theories are small; the theorems are for all sizes the code accepts.

  \<^bold>\<open>Not modelled.\<close>  The thread creation order, console output (but for the radar dump), the stack report, the
  advertising data and connection bookkeeping of the Bluetooth host, GATT
  tables and device tree (declarative), timing of pins and delays, contraction of floating-point operations, and the thread definition
  in \<open>main.c\<close> and the forwarding call of \<open>zephyr_bt_rand_shim.c\<close>.
\<close>

end
